(* ===== verification/Prelude.thy ===== *)
theory Prelude
  imports
    Main
    "HOL-Library.AList"
    "HOL-Library.Word"
    "HOL-Library.List_Lexorder"
    "HOL-Library.Char_ord"
    "HOL-Library.Sublist"
    "HOL-Library.Multiset"
begin

text \<open>
  Shared ground of the development: the types the engine's data is built from, the model of the
  standard collections (\<open>HashMap\<close> and \<open>BTreeSet\<close>), the lemma collections the component theories
  fill, and generic facts about lists and maps.

  A \<^verbatim>\<open>HashMap\<close> is an association list with distinct keys. The order of the list is the iteration
  order, which Rust leaves unspecified; a theorem that a result does not depend on it is a theorem
  about two lists with the same \<^const>\<open>map_of\<close>. A \<^verbatim>\<open>BTreeSet\<close> that is iterated is the sorted list of
  its elements; one that is only asked for membership is a set.
\<close>

section \<open>Lemma collections\<close>

named_theorems path_simps \<open>rewriting of path operations\<close>
named_theorems kind_simps \<open>projections and kinds of entities\<close>
named_theorems action_defs \<open>constructors of planned actions\<close>

section \<open>Basic types\<close>

text \<open>
  A byte string is a list of \<^typ>\<open>char\<close>, whose values are the 256 bytes. An \<^verbatim>\<open>OsStr\<close> is any byte
  string, a Rust \<^verbatim>\<open>String\<close> one that is valid UTF-8.
\<close>

type_synonym bytes = "char list"
type_synonym u64 = "64 word"

section \<open>Hash maps\<close>

type_synonym ('k, 'v) hmap = "('k \<times> 'v) list"

abbreviation hm_get :: "('k, 'v) hmap \<Rightarrow> 'k \<Rightarrow> 'v option" where
  "hm_get \<equiv> map_of"

definition hm_wf :: "('k, 'v) hmap \<Rightarrow> bool" where
  "hm_wf m \<longleftrightarrow> distinct (map fst m)"

definition hm_keys :: "('k, 'v) hmap \<Rightarrow> 'k list" where
  "hm_keys m = map fst m"

definition hm_contains :: "('k, 'v) hmap \<Rightarrow> 'k \<Rightarrow> bool" where
  "hm_contains m k \<longleftrightarrow> hm_get m k \<noteq> None"

definition hm_insert :: "'k \<Rightarrow> 'v \<Rightarrow> ('k, 'v) hmap \<Rightarrow> ('k, 'v) hmap" where
  "hm_insert k v m = AList.update k v m"

definition hm_remove :: "'k \<Rightarrow> ('k, 'v) hmap \<Rightarrow> ('k, 'v) hmap" where
  "hm_remove k m = AList.delete k m"

definition hm_retain :: "('k \<Rightarrow> 'v \<Rightarrow> bool) \<Rightarrow> ('k, 'v) hmap \<Rightarrow> ('k, 'v) hmap" where
  "hm_retain p m = filter (\<lambda>(k, v). p k v) m"

text \<open>
  The contract the components rely on, as an interface: what a lookup answers after each operation,
  and that every operation keeps the keys distinct.
\<close>

locale map_interface =
  fixes get :: "'m \<Rightarrow> 'k \<Rightarrow> 'v option"
    and insert :: "'k \<Rightarrow> 'v \<Rightarrow> 'm \<Rightarrow> 'm"
    and remove :: "'k \<Rightarrow> 'm \<Rightarrow> 'm"
    and retain :: "('k \<Rightarrow> 'v \<Rightarrow> bool) \<Rightarrow> 'm \<Rightarrow> 'm"
    and wf :: "'m \<Rightarrow> bool"
  assumes get_insert: "get (insert k v m) = (get m)(k \<mapsto> v)"
    and get_remove: "get (remove k m) = (get m)(k := None)"
    and get_retain: "wf m \<Longrightarrow>
      get (retain p m) k = (case get m k of None \<Rightarrow> None | Some v \<Rightarrow> if p k v then Some v else None)"
    and wf_insert: "wf m \<Longrightarrow> wf (insert k v m)"
    and wf_remove: "wf m \<Longrightarrow> wf (remove k m)"
    and wf_retain: "wf m \<Longrightarrow> wf (retain p m)"
begin

lemma insert_same: "get (insert k v m) k = Some v"
  by (simp add: get_insert)

lemma insert_other: "k' \<noteq> k \<Longrightarrow> get (insert k v m) k' = get m k'"
  by (simp add: get_insert)

lemma remove_same: "get (remove k m) k = None"
  by (simp add: get_remove)

lemma remove_other: "k' \<noteq> k \<Longrightarrow> get (remove k m) k' = get m k'"
  by (simp add: get_remove)

lemma retain_Some: "wf m \<Longrightarrow> get (retain p m) k = Some v \<longleftrightarrow> get m k = Some v \<and> p k v"
  by (auto simp: get_retain split: option.splits)

lemma retain_dom: "wf m \<Longrightarrow> get (retain p m) k \<noteq> None \<Longrightarrow> get m k \<noteq> None"
  by (auto simp: get_retain split: option.splits)

end

lemma map_of_filter_distinct:
  "distinct (map fst m) \<Longrightarrow>
   map_of (filter (\<lambda>(k, v). p k v) m) k =
     (case map_of m k of None \<Rightarrow> None | Some v \<Rightarrow> if p k v then Some v else None)"
proof (induction m)
  case Nil
  then show ?case by simp
next
  case (Cons kv m)
  obtain k' v' where kv: "kv = (k', v')" by (cases kv)
  from Cons kv show ?case
    by (auto split: option.splits simp: map_of_eq_None_iff rev_image_eqI)
qed

interpretation hm: map_interface hm_get hm_insert hm_remove hm_retain hm_wf
  by unfold_locales
    (auto simp: hm_insert_def hm_remove_def hm_retain_def hm_wf_def update_conv' delete_conv'
      map_of_filter_distinct distinct_update distinct_delete intro: distinct_map_filter)

lemma hm_contains_iff: "hm_contains m k \<longleftrightarrow> k \<in> set (hm_keys m)"
  by (force simp: hm_contains_def hm_keys_def map_of_eq_None_iff)

lemma hm_get_in: "hm_get m k = Some v \<Longrightarrow> (k, v) \<in> set m"
  by (rule map_of_SomeD)

lemma hm_in_get: "hm_wf m \<Longrightarrow> (k, v) \<in> set m \<Longrightarrow> hm_get m k = Some v"
  by (simp add: hm_wf_def)

lemma hm_in_iff: "hm_wf m \<Longrightarrow> (k, v) \<in> set m \<longleftrightarrow> hm_get m k = Some v"
  by (auto intro: hm_get_in hm_in_get)

lemma hm_wf_Nil [simp]: "hm_wf []"
  by (simp add: hm_wf_def)

text \<open>Two maps that answer every lookup alike have the same keys and the same entries.\<close>

lemma hm_keys_eq: "hm_get m = hm_get m' \<Longrightarrow> set (hm_keys m) = set (hm_keys m')"
  by (metis dom_map_of_conv_image_fst hm_keys_def list.set_map)

lemma hm_set_eq: "hm_wf m \<Longrightarrow> hm_wf m' \<Longrightarrow> hm_get m = hm_get m' \<Longrightarrow> set m = set m'"
  by (force simp: hm_in_iff)

lemma hm_get_eq: "hm_wf m \<Longrightarrow> hm_wf m' \<Longrightarrow> set m = set m' \<Longrightarrow> hm_get m = hm_get m'"
  unfolding hm_wf_def by (rule map_of_inject_set[THEN iffD2])

lemma hm_mset_eq: "hm_wf m \<Longrightarrow> hm_wf m' \<Longrightarrow> hm_get m = hm_get m' \<Longrightarrow> mset m = mset m'"
  by (meson distinct_map hm_set_eq hm_wf_def set_eq_iff_mset_eq_distinct)

section \<open>Ordered sets that are iterated\<close>

definition btree_of :: "'a::linorder list \<Rightarrow> 'a list" where
  "btree_of xs = sort (remdups xs)"

lemma btree_of_simps [simp]:
  "set (btree_of xs) = set xs" "distinct (btree_of xs)" "sorted (btree_of xs)"
  by (simp_all add: btree_of_def)

lemma btree_of_cong: "set xs = set ys \<Longrightarrow> btree_of xs = btree_of ys"
  by (simp add: sorted_distinct_set_unique)

text \<open>\<^verbatim>\<open>Iterator::min\<close>: nothing on an empty collection.\<close>

definition min_of :: "'a::linorder list \<Rightarrow> 'a option" where
  "min_of xs = (case xs of [] \<Rightarrow> None | y # ys \<Rightarrow> Some (fold min ys y))"

lemma min_of_None [simp]: "min_of xs = None \<longleftrightarrow> xs = []"
  by (simp add: min_of_def split: list.splits)

lemma min_of_Min: "xs \<noteq> [] \<Longrightarrow> min_of xs = Some (Min (set xs))"
  by (cases xs) (simp_all add: min_of_def Min.set_eq_fold[symmetric] del: list.set)

lemma min_of_in: "min_of xs = Some x \<Longrightarrow> x \<in> set xs"
  by (metis List.finite_set Min_in min_of_Min min_of_None option.distinct(1) option.sel set_empty)

lemma min_of_le: "min_of xs = Some x \<Longrightarrow> y \<in> set xs \<Longrightarrow> x \<le> y"
  by (metis List.finite_set Min_le empty_iff empty_set min_of_Min option.sel)

lemma min_of_cong: "set xs = set ys \<Longrightarrow> min_of xs = min_of ys"
  by (metis min_of_Min min_of_None set_empty)

section \<open>A unique candidate\<close>

text \<open>The planner's uniqueness test: exactly one candidate, or none at all.\<close>

fun sole :: "'a list \<Rightarrow> 'a option" where
  "sole [x] = Some x"
| "sole _ = None"

lemma sole_Some: "sole xs = Some x \<longleftrightarrow> xs = [x]"
  by (cases xs rule: sole.cases) auto

lemma sole_mset: "mset xs = mset ys \<Longrightarrow> sole xs = sole ys"
  by (metis mset_single_iff_right not_Some_eq sole.simps(1) sole_Some)

lemma mset_filter_map_cong:
  "mset xs = mset ys \<Longrightarrow> mset (List.map_filter f xs) = mset (List.map_filter f ys)"
  by (simp add: map_filter_def)

section \<open>Options\<close>

text \<open>\<^verbatim>\<open>Option::or_else\<close>.\<close>

definition or_else :: "'a option \<Rightarrow> 'a option \<Rightarrow> 'a option" where
  "or_else a b = (case a of None \<Rightarrow> b | Some _ \<Rightarrow> a)"

lemma or_else_simps [simp]: "or_else None b = b" "or_else (Some x) b = Some x"
  by (simp_all add: or_else_def)

lemma or_else_Some: "or_else a b = Some x \<longleftrightarrow> a = Some x \<or> (a = None \<and> b = Some x)"
  by (cases a) auto

definition opt_filter :: "('a \<Rightarrow> bool) \<Rightarrow> 'a option \<Rightarrow> 'a option" where
  "opt_filter p a = (case a of None \<Rightarrow> None | Some x \<Rightarrow> if p x then Some x else None)"

lemma opt_filter_Some [simp]: "opt_filter p a = Some x \<longleftrightarrow> a = Some x \<and> p x"
  by (auto simp: opt_filter_def split: option.splits)

lemma opt_filter_None: "opt_filter p a = None \<longleftrightarrow> (\<forall>x. a = Some x \<longrightarrow> \<not> p x)"
  by (auto simp: opt_filter_def split: option.splits)

definition is_some_and :: "('a \<Rightarrow> bool) \<Rightarrow> 'a option \<Rightarrow> bool" where
  "is_some_and p a = (case a of None \<Rightarrow> False | Some x \<Rightarrow> p x)"

lemma is_some_and_simps [simp]: "\<not> is_some_and p None" "is_some_and p (Some x) = p x"
  by (simp_all add: is_some_and_def)

section \<open>Saturating arithmetic\<close>

definition saturating_add :: "u64 \<Rightarrow> u64 \<Rightarrow> u64" where
  "saturating_add a b = (if unat a + unat b < 2 ^ 64 then a + b else - 1)"

lemma unat_saturating_add: "unat (saturating_add a b) = min (unat a + unat b) (2 ^ 64 - 1)"
proof (cases "unat a + unat b < 2 ^ 64")
  case True
  then show ?thesis by (simp add: saturating_add_def unat_word_ariths)
next
  case False
  have "unat (- 1 :: u64) = 2 ^ 64 - 1" by (simp add: unsigned_minus_1_eq_mask mask_eq_exp_minus_1)
  with False show ?thesis by (simp add: saturating_add_def)
qed

lemma saturating_add_0 [simp]: "saturating_add 0 a = a" "saturating_add a 0 = a"
  using unsigned_less[of a, where 'a = nat] by (simp_all add: saturating_add_def)

end
