(* ===== verification/Rust_Path.thy ===== *)
theory Rust_Path
  imports Prelude
begin

text \<open>
  Byte strings and paths. The first part is UTF-8: the scanner of the Rust standard library that
  splits a byte string into valid characters and invalid spans, validity (\<open>OsStr::to_str\<close>) and the
  lossy rendering (\<open>to_string_lossy\<close>). The second is \<open>std::path\<close> on Unix, on the component view,
  which is the one Rust's own equality, order, hash and prefix tests use. The third is the ladder of
  path guards of \<^verbatim>\<open>src/lib.rs\<close>.
\<close>

section \<open>UTF-8\<close>

definition byte_at :: "bytes \<Rightarrow> nat \<Rightarrow> nat" where
  "byte_at xs i = (if i < length xs then of_char (xs ! i) else 0)"

definition is_cont :: "nat \<Rightarrow> bool" where
  "is_cont b \<longleftrightarrow> 0x80 \<le> b \<and> b \<le> 0xBF"

text \<open>Whether the second byte of a three-byte or four-byte character may follow the first.\<close>

definition second3 :: "nat \<Rightarrow> nat \<Rightarrow> bool" where
  "second3 a b \<longleftrightarrow>
     (a = 0xE0 \<and> 0xA0 \<le> b \<and> b \<le> 0xBF) \<or> (0xE1 \<le> a \<and> a \<le> 0xEC \<and> is_cont b) \<or>
     (a = 0xED \<and> 0x80 \<le> b \<and> b \<le> 0x9F) \<or> (0xEE \<le> a \<and> a \<le> 0xEF \<and> is_cont b)"

definition second4 :: "nat \<Rightarrow> nat \<Rightarrow> bool" where
  "second4 a b \<longleftrightarrow>
     (a = 0xF0 \<and> 0x90 \<le> b \<and> b \<le> 0xBF) \<or> (0xF1 \<le> a \<and> a \<le> 0xF3 \<and> is_cont b) \<or>
     (a = 0xF4 \<and> 0x80 \<le> b \<and> b \<le> 0x8F)"

text \<open>One step of the scanner at the head of a byte string: is it a character, and how many bytes
  are consumed.\<close>

definition utf8_step :: "bytes \<Rightarrow> bool \<times> nat" where
  "utf8_step xs =
    (let a = byte_at xs 0; b = byte_at xs 1; c = byte_at xs 2; d = byte_at xs 3 in
     if a < 0x80 then (True, 1)
     else if 0xC2 \<le> a \<and> a \<le> 0xDF then (if is_cont b then (True, 2) else (False, 1))
     else if 0xE0 \<le> a \<and> a \<le> 0xEF then
       (if \<not> second3 a b then (False, 1) else if is_cont c then (True, 3) else (False, 2))
     else if 0xF0 \<le> a \<and> a \<le> 0xF4 then
       (if \<not> second4 a b then (False, 1) else if \<not> is_cont c then (False, 2)
        else if is_cont d then (True, 4) else (False, 3))
     else (False, 1))"

lemma utf8_step_pos: "0 < snd (utf8_step xs)"
  by (simp add: utf8_step_def Let_def)

lemma is_cont_byte_at: "is_cont (byte_at xs i) \<Longrightarrow> i < length xs"
  by (auto simp: is_cont_def byte_at_def split: if_splits)

lemma second3_byte_at: "second3 a (byte_at xs i) \<Longrightarrow> i < length xs"
  by (auto simp: is_cont_def second3_def byte_at_def split: if_splits)

lemma second4_byte_at: "second4 a (byte_at xs i) \<Longrightarrow> i < length xs"
  by (auto simp: is_cont_def second4_def byte_at_def split: if_splits)

lemmas byte_at_bounds = is_cont_byte_at second3_byte_at second4_byte_at

lemma utf8_step_le: "xs \<noteq> [] \<Longrightarrow> snd (utf8_step xs) \<le> length xs"
  by (cases xs)
    (auto simp: utf8_step_def Let_def Suc_le_eq numeral_2_eq_2 numeral_3_eq_3 numeral_eq_Suc
      dest: byte_at_bounds)

function utf8_valid :: "bytes \<Rightarrow> bool" where
  "utf8_valid xs =
     (if xs = [] then True
      else if fst (utf8_step xs) then utf8_valid (drop (snd (utf8_step xs)) xs) else False)"
  by pat_completeness auto
termination
  by (relation "measure length") (simp_all add: utf8_step_pos diff_less)

declare utf8_valid.simps [simp del]

text \<open>The replacement character U+FFFD.\<close>

definition replacement :: bytes where
  "replacement = [CHR 0xEF, CHR 0xBF, CHR 0xBD]"

function to_string_lossy :: "bytes \<Rightarrow> bytes" where
  "to_string_lossy xs =
     (if xs = [] then []
      else (if fst (utf8_step xs) then take (snd (utf8_step xs)) xs else replacement) @
        to_string_lossy (drop (snd (utf8_step xs)) xs))"
  by pat_completeness auto
termination
  by (relation "measure length") (simp_all add: utf8_step_pos diff_less)

declare to_string_lossy.simps [simp del]

lemma utf8_Nil [simp]: "utf8_valid []" "to_string_lossy [] = []"
  by (simp_all add: utf8_valid.simps to_string_lossy.simps)

definition to_str :: "bytes \<Rightarrow> bytes option" where
  "to_str xs = (if utf8_valid xs then Some xs else None)"

lemma lossy_valid: "utf8_valid xs \<Longrightarrow> to_string_lossy xs = xs"
proof (induction xs rule: utf8_valid.induct)
  case (1 xs)
  then show ?case
    by (cases "xs = []") (auto simp: utf8_valid.simps[of xs] to_string_lossy.simps[of xs])
qed

subsection \<open>An ASCII byte is a boundary\<close>

definition is_ascii :: "char \<Rightarrow> bool" where
  "is_ascii c \<longleftrightarrow> of_char c < (0x80 :: nat)"

lemma byte_at_append: "byte_at (xs @ ys) i = (if i < length xs then byte_at xs i else byte_at ys (i - length xs))"
  by (auto simp: byte_at_def nth_append)

lemma ascii_not_second:
  "is_ascii c \<Longrightarrow> \<not> is_cont (byte_at (c # ys) 0)"
  "is_ascii c \<Longrightarrow> \<not> second3 a (byte_at (c # ys) 0)"
  "is_ascii c \<Longrightarrow> \<not> second4 a (byte_at (c # ys) 0)"
  by (auto simp: is_ascii_def is_cont_def second3_def second4_def byte_at_def)

lemma past_end_not_second:
  "length xs \<le> i \<Longrightarrow> \<not> is_cont (byte_at xs i)"
  "length xs \<le> i \<Longrightarrow> \<not> second3 a (byte_at xs i)"
  "length xs \<le> i \<Longrightarrow> \<not> second4 a (byte_at xs i)"
  using byte_at_bounds by fastforce+

text \<open>The scanner never looks past an ASCII byte: it stops there as it would at the end.\<close>

lemma utf8_step_ascii:
  assumes "is_ascii c" "xs \<noteq> []"
  shows "utf8_step (xs @ c # ys) = utf8_step xs"
proof -
  consider "length xs = 1" | "length xs = 2" | "length xs = 3" | "4 \<le> length xs"
    using assms(2) by (cases "length xs" rule: nat.exhaust) force+
  then show ?thesis
    by cases
      (use assms ascii_not_second[OF assms(1)] past_end_not_second[of xs] in
        \<open>simp_all add: utf8_step_def Let_def byte_at_append\<close>)
qed

lemma utf8_step_head_ascii: "is_ascii c \<Longrightarrow> utf8_step (c # ys) = (True, 1)"
  by (simp add: utf8_step_def is_ascii_def byte_at_def)

lemma utf8_valid_ascii_Cons: "is_ascii c \<Longrightarrow> utf8_valid (c # ys) = utf8_valid ys"
  by (subst utf8_valid.simps) (simp add: utf8_step_head_ascii)

lemma lossy_ascii_Cons: "is_ascii c \<Longrightarrow> to_string_lossy (c # ys) = c # to_string_lossy ys"
  by (subst to_string_lossy.simps) (simp add: utf8_step_head_ascii)

lemma utf8_valid_split:
  "is_ascii c \<Longrightarrow> utf8_valid (xs @ c # ys) \<longleftrightarrow> utf8_valid xs \<and> utf8_valid ys"
proof (induction xs rule: utf8_valid.induct)
  case (1 xs)
  show ?case
  proof (cases "xs = []")
    case True
    with 1 show ?thesis by (simp add: utf8_valid_ascii_Cons)
  next
    case False
    with 1 utf8_step_le[OF False] show ?thesis
      by (auto simp: utf8_valid.simps[of xs] utf8_valid.simps[of "xs @ c # ys"] utf8_step_ascii)
  qed
qed

lemma lossy_split:
  "is_ascii c \<Longrightarrow> to_string_lossy (xs @ c # ys) = to_string_lossy xs @ c # to_string_lossy ys"
proof (induction xs rule: to_string_lossy.induct)
  case (1 xs)
  show ?case
  proof (cases "xs = []")
    case True
    with 1 show ?thesis by (simp add: lossy_ascii_Cons)
  next
    case False
    with 1 utf8_step_le[OF False] show ?thesis
      by (simp add: to_string_lossy.simps[of xs] to_string_lossy.simps[of "xs @ c # ys"] utf8_step_ascii)
  qed
qed

section \<open>Paths\<close>

text \<open>
  A path is the list of its components. Rust compares, orders and hashes a path through its
  components, so the list is the path as far as a map or a set of paths can tell; the prefix
  component of other platforms cannot occur (the crate refuses to compile off Unix).
\<close>

datatype component = RootDir | CurDir | ParentDir | Normal bytes

type_synonym path = "component list"

fun component_rank :: "component \<Rightarrow> nat" where
  "component_rank RootDir = 0"
| "component_rank CurDir = 1"
| "component_rank ParentDir = 2"
| "component_rank (Normal _) = 3"

fun component_text :: "component \<Rightarrow> bytes" where
  "component_text RootDir = ''/''"
| "component_text CurDir = ''.''"
| "component_text ParentDir = ''..''"
| "component_text (Normal s) = s"

text \<open>The derived order of \<open>Component\<close>: by constructor, then by the bytes of the name.\<close>

instantiation component :: linorder
begin

definition less_eq_component :: "component \<Rightarrow> component \<Rightarrow> bool" where
  "less_eq_component a b \<longleftrightarrow>
     component_rank a < component_rank b \<or>
     (component_rank a = component_rank b \<and> component_text a \<le> component_text b)"

definition less_component :: "component \<Rightarrow> component \<Rightarrow> bool" where
  "less_component a b \<longleftrightarrow>
     component_rank a < component_rank b \<or>
     (component_rank a = component_rank b \<and> component_text a < component_text b)"

instance
proof
  fix x y z :: component
  show "(x < y) = (x \<le> y \<and> \<not> y \<le> x)"
    by (auto simp: less_eq_component_def less_component_def)
  show "x \<le> x" by (simp add: less_eq_component_def)
  show "x \<le> y \<Longrightarrow> y \<le> z \<Longrightarrow> x \<le> z"
    by (auto simp: less_eq_component_def)
  show "x \<le> y \<or> y \<le> x"
    by (auto simp: less_eq_component_def)
  show "x \<le> y \<Longrightarrow> y \<le> x \<Longrightarrow> x = y"
    by (cases x; cases y) (auto simp: less_eq_component_def)
qed

end

definition is_normal :: "component \<Rightarrow> bool" where
  "is_normal c = (case c of Normal _ \<Rightarrow> True | _ \<Rightarrow> False)"

lemma is_normal_simps [simp]:
  "is_normal (Normal s)" "\<not> is_normal RootDir" "\<not> is_normal CurDir" "\<not> is_normal ParentDir"
  by (simp_all add: is_normal_def)

subsection \<open>Reading and rendering\<close>

fun split_on :: "char \<Rightarrow> bytes \<Rightarrow> bytes list" where
  "split_on d [] = [[]]"
| "split_on d (c # cs) =
    (if c = d then [] # split_on d cs
     else (case split_on d cs of [] \<Rightarrow> [[c]] | w # ws \<Rightarrow> (c # w) # ws))"

fun component_of :: "bytes \<Rightarrow> component option" where
  "component_of s =
    (if s = [] \<or> s = ''.'' then None else if s = ''..'' then Some ParentDir else Some (Normal s))"

text \<open>A leading \<open>.\<close> of a relative path is a component; every other \<open>.\<close> and every empty one is not.\<close>

definition parse_path :: "bytes \<Rightarrow> path" where
  "parse_path s =
    (let parts = split_on CHR ''/'' s in
     if s \<noteq> [] \<and> hd s = CHR ''/'' then RootDir # List.map_filter component_of parts
     else (if hd parts = ''.'' then [CurDir] else []) @ List.map_filter component_of parts)"

text \<open>The canonical spelling of a component list: the bytes of a path that was put together by
  \<open>join\<close> from components, which is how every path the engine stores was made.\<close>

fun path_bytes :: "path \<Rightarrow> bytes" where
  "path_bytes [] = []"
| "path_bytes [c] = component_text c"
| "path_bytes (RootDir # cs) = ''/'' @ path_bytes cs"
| "path_bytes (c # cs) = component_text c @ ''/'' @ path_bytes cs"

text \<open>\<open>Path::to_str\<close> succeeds: the separators are ASCII, so it is asked of each component.\<close>

definition path_to_str_ok :: "path \<Rightarrow> bool" where
  "path_to_str_ok p \<longleftrightarrow> list_all (\<lambda>c. utf8_valid (component_text c)) p"

subsection \<open>Taking paths apart and together\<close>

definition join_path :: "path \<Rightarrow> path \<Rightarrow> path" where
  "join_path p q =
    (case q of [] \<Rightarrow> p
     | c # cs \<Rightarrow> if c = RootDir then q else if c = CurDir \<and> p \<noteq> [] then p @ cs else p @ q)"

text \<open>\<open>parent.join(name)\<close> for a name that is a byte string rather than a path.\<close>

definition join_bytes :: "path \<Rightarrow> bytes \<Rightarrow> path" where
  "join_bytes p s = join_path p (parse_path s)"

definition path_parent :: "path \<Rightarrow> path option" where
  "path_parent p = (if p = [] \<or> last p = RootDir then None else Some (butlast p))"

definition path_file_name :: "path \<Rightarrow> bytes option" where
  "path_file_name p = (if p = [] then None else case last p of Normal s \<Rightarrow> Some s | _ \<Rightarrow> None)"

abbreviation starts_with :: "path \<Rightarrow> path \<Rightarrow> bool" where
  "starts_with p base \<equiv> prefix base p"

definition strip_prefix :: "path \<Rightarrow> path \<Rightarrow> path option" where
  "strip_prefix p base = (if prefix base p then Some (drop (length base) p) else None)"

text \<open>\<open>Path::ancestors\<close>: the path itself, its parent, and so on while there is one.\<close>

function ancestors :: "path \<Rightarrow> path list" where
  "ancestors p = p # (case path_parent p of None \<Rightarrow> [] | Some q \<Rightarrow> ancestors q)"
  by pat_completeness auto
termination
  by (relation "measure length") (auto simp: path_parent_def split: if_splits)

declare ancestors.simps [simp del]

text \<open>The last \<open>.\<close> of a name separates the extension, unless nothing stands before it.\<close>

definition rsplit_dot :: "bytes \<Rightarrow> (bytes \<times> bytes) option" where
  "rsplit_dot s =
    (let e = takeWhile (\<lambda>c. c \<noteq> CHR ''.'') (rev s) in
     if length e = length s then None else Some (take (length s - length e - 1) s, rev e))"

definition name_stem_ext :: "bytes \<Rightarrow> (bytes \<times> bytes) option" where
  "name_stem_ext s = opt_filter (\<lambda>(st, e). st \<noteq> []) (rsplit_dot s)"

subsection \<open>Laws\<close>

lemma split_on_nonempty [simp]: "split_on d cs \<noteq> []"
  by (induction cs) (auto split: list.splits)

lemma split_on_no_sep: "d \<notin> set cs \<Longrightarrow> split_on d cs = [cs]"
  by (induction cs) auto

lemma split_on_append: "split_on d (xs @ d # ys) = split_on d xs @ split_on d ys"
  by (induction xs) (auto split: list.splits)

lemma join_path_Nil [simp]: "join_path p [] = p" "join_path [] q = q"
  by (auto simp: join_path_def split: list.splits)

lemma join_path_Normal [simp]: "join_path p (Normal s # q) = p @ Normal s # q"
  by (simp add: join_path_def)

lemma join_path_normals: "list_all is_normal q \<Longrightarrow> join_path p q = p @ q"
  by (cases q) (auto simp: join_path_def)

text \<open>A name that can stand as a component of its own.\<close>

definition plain_name :: "bytes \<Rightarrow> bool" where
  "plain_name s \<longleftrightarrow> s \<noteq> [] \<and> s \<noteq> ''.'' \<and> s \<noteq> ''..'' \<and> CHR ''/'' \<notin> set s"

lemma parse_plain: "plain_name s \<Longrightarrow> parse_path s = [Normal s]"
  by (cases s) (auto simp: plain_name_def parse_path_def split_on_no_sep List.map_filter_simps Let_def)

lemma join_bytes_plain: "plain_name s \<Longrightarrow> join_bytes p s = p @ [Normal s]"
  by (simp add: join_bytes_def parse_plain)

text \<open>Well-formed paths are those that occur: the root only at the head, a \<open>.\<close> only at the head, and
  names that are plain.\<close>

definition wf_path :: "path \<Rightarrow> bool" where
  "wf_path p \<longleftrightarrow>
     (\<forall>s. Normal s \<in> set p \<longrightarrow> plain_name s) \<and> RootDir \<notin> set (tl p) \<and> CurDir \<notin> set (tl p)"

lemma path_parent_append [simp]: "path_parent (p @ [Normal s]) = Some p"
  by (simp add: path_parent_def)

lemma path_file_name_append [simp]: "path_file_name (p @ [Normal s]) = Some s"
  by (simp add: path_file_name_def)

lemma path_file_name_Some: "path_file_name p = Some s \<longleftrightarrow> (\<exists>q. p = q @ [Normal s])"
  by (cases p rule: rev_cases) (auto simp: path_file_name_def split: component.splits)

lemma path_parent_Some: "path_parent p = Some q \<longleftrightarrow> (\<exists>c. c \<noteq> RootDir \<and> p = q @ [c])"
  by (cases p rule: rev_cases) (auto simp: path_parent_def)

lemma path_parent_strict: "path_parent p = Some q \<Longrightarrow> strict_prefix q p"
  by (auto simp: path_parent_Some strict_prefix_def)

lemma ancestors_iff: "RootDir \<notin> set p \<Longrightarrow> q \<in> set (ancestors p) \<longleftrightarrow> prefix q p"
proof (induction p rule: rev_induct)
  case Nil
  then show ?case by (simp add: ancestors.simps path_parent_def)
next
  case (snoc c p)
  then have "path_parent (p @ [c]) = Some p" by (auto simp: path_parent_def)
  with snoc show ?case by (subst ancestors.simps) auto
qed

lemma ancestors_prefix: "q \<in> set (ancestors p) \<Longrightarrow> prefix q p"
proof (induction p rule: ancestors.induct)
  case (1 p)
  from 1(2) consider (self) "q = p" | (up) p' where "path_parent p = Some p'" "q \<in> set (ancestors p')"
    by (subst (asm) ancestors.simps) (cases "path_parent p"; auto)
  then show ?case
    by cases (use 1(1) path_parent_strict in \<open>auto dest: prefix_order.strict_implies_order intro: prefix_order.order_trans\<close>)
qed

lemma strip_prefix_append [simp]: "strip_prefix (p @ q) p = Some q"
  by (simp add: strip_prefix_def)

lemma strip_prefix_Some: "strip_prefix p b = Some r \<longleftrightarrow> p = b @ r"
  by (auto simp: strip_prefix_def elim: prefixE)

lemma rsplit_dot_app: "CHR ''.'' \<notin> set e \<Longrightarrow> rsplit_dot (st @ CHR ''.'' # e) = Some (st, e)"
proof -
  assume e: "CHR ''.'' \<notin> set e"
  then have "takeWhile (\<lambda>c. c \<noteq> CHR ''.'') (rev e @ CHR ''.'' # rev st) = rev e"
    by (subst takeWhile_append2) auto
  then show ?thesis by (simp add: rsplit_dot_def Let_def)
qed

lemma rsplit_dot_None: "rsplit_dot s = None \<longleftrightarrow> CHR ''.'' \<notin> set s"
proof
  assume None: "rsplit_dot s = None"
  show "CHR ''.'' \<notin> set s"
  proof
    assume "CHR ''.'' \<in> set s"
    then obtain st e where "s = st @ CHR ''.'' # e" "CHR ''.'' \<notin> set e"
      by (meson split_list_last)
    with None show False by (simp add: rsplit_dot_app)
  qed
next
  assume "CHR ''.'' \<notin> set s"
  then have tw: "takeWhile (\<lambda>c. c \<noteq> CHR ''.'') (rev s) = rev s"
    by (subst takeWhile_eq_all_conv) (use \<open>CHR ''.'' \<notin> set s\<close> in auto)
  show "rsplit_dot s = None" by (simp only: rsplit_dot_def Let_def tw length_rev if_True refl)
qed

lemma rsplit_dot_Some: "rsplit_dot s = Some (st, e) \<longleftrightarrow> s = st @ CHR ''.'' # e \<and> CHR ''.'' \<notin> set e"
proof
  assume *: "rsplit_dot s = Some (st, e)"
  then have "CHR ''.'' \<in> set s" using rsplit_dot_None[of s] by simp
  then obtain st' e' where s: "s = st' @ CHR ''.'' # e'" "CHR ''.'' \<notin> set e'"
    by (meson split_list_last)
  with * show "s = st @ CHR ''.'' # e \<and> CHR ''.'' \<notin> set e" by (simp add: rsplit_dot_app)
qed (simp add: rsplit_dot_app)

section \<open>The path guards\<close>

text \<open>\<^verbatim>\<open>src/lib.rs\<close>: \<open>wire_path\<close>, the rendering a client sees.\<close>

definition wire_path :: "path \<Rightarrow> bytes" where
  "wire_path p = to_string_lossy (path_bytes p)"

text \<open>The loop returns at the first component that could leave the root; the survivors that are
  names are collected.\<close>

fun relative_components_ok :: "path \<Rightarrow> bool" where
  "relative_components_ok [] = True"
| "relative_components_ok (Normal _ # cs) = relative_components_ok cs"
| "relative_components_ok (CurDir # cs) = relative_components_ok cs"
| "relative_components_ok (_ # cs) = False"

definition validate_relative_path :: "path \<Rightarrow> path option" where
  "validate_relative_path p =
    (if relative_components_ok p then Some (filter is_normal p) else None)"

definition validate_relative_path_non_empty :: "path \<Rightarrow> path option" where
  "validate_relative_path_non_empty p = opt_filter (\<lambda>n. n \<noteq> []) (validate_relative_path p)"

text \<open>\<open>lexically_normalized\<close>: the accumulator \<open>addressed\<close> is kept with its last component first.\<close>

fun lexical_step :: "path \<Rightarrow> component \<Rightarrow> path" where
  "lexical_step acc CurDir = acc"
| "lexical_step acc ParentDir =
    (case acc of Normal _ # rest \<Rightarrow> rest | RootDir # _ \<Rightarrow> acc | _ \<Rightarrow> ParentDir # acc)"
| "lexical_step acc c = c # acc"

definition lexically_normalized :: "path \<Rightarrow> path" where
  "lexically_normalized p = rev (foldl lexical_step [] p)"

fun absolute_components :: "path \<Rightarrow> path \<Rightarrow> path option" where
  "absolute_components normalized [] = Some normalized"
| "absolute_components normalized (Normal s # cs) = absolute_components (normalized @ [Normal s]) cs"
| "absolute_components normalized (CurDir # cs) = absolute_components normalized cs"
| "absolute_components normalized (_ # cs) = None"

definition validate_absolute_remote_path :: "path \<Rightarrow> path option" where
  "validate_absolute_remote_path p =
    (case p of RootDir # cs \<Rightarrow> absolute_components [RootDir] cs | _ \<Rightarrow> None)"

lemma relative_components_ok_iff:
  "relative_components_ok p \<longleftrightarrow> (\<forall>c \<in> set p. is_normal c \<or> c = CurDir)"
  by (induction p rule: relative_components_ok.induct) auto

lemma relative_components_ok_normals: "list_all is_normal p \<Longrightarrow> relative_components_ok p"
  by (auto simp: relative_components_ok_iff list_all_iff)

lemma validate_relative_normals:
  "validate_relative_path p = Some n \<Longrightarrow> list_all is_normal n"
  by (auto simp: validate_relative_path_def list_all_iff split: if_splits)

lemma validate_relative_of_normals:
  "list_all is_normal p \<Longrightarrow> validate_relative_path p = Some p"
  by (simp add: validate_relative_path_def relative_components_ok_normals list_all_iff filter_id_conv)

lemma foldl_lexical_normals:
  "list_all is_normal p \<Longrightarrow> foldl lexical_step acc p = rev p @ acc"
proof (induction p arbitrary: acc)
  case (Cons c p)
  then show ?case by (cases c) auto
qed simp

lemma foldl_lexical_relative:
  "relative_components_ok p \<Longrightarrow> foldl lexical_step acc p = rev (filter is_normal p) @ acc"
  by (induction p arbitrary: acc rule: relative_components_ok.induct) auto

lemma absolute_components_Some:
  "absolute_components n cs = Some r \<longleftrightarrow> relative_components_ok cs \<and> r = n @ filter is_normal cs"
  by (induction n cs rule: absolute_components.induct) auto

text \<open>
  What the guard is for: whatever components the caller sent, joining the accepted path onto a root
  stays under the root, and resolving the \<open>.\<close> and \<open>..\<close> of the result cancels nothing of the root.
\<close>

lemma guard_contains:
  assumes "validate_relative_path p = Some n"
  shows "starts_with (join_path root n) root"
    and "lexically_normalized (join_path root n) = lexically_normalized root @ n"
  using validate_relative_normals[OF assms]
  by (simp_all add: join_path_normals lexically_normalized_def foldl_lexical_normals)

text \<open>The lexical normal form: the \<open>..\<close> components that remain stand before every name, and there are
  none behind a root.\<close>

fun lexical_normal :: "path \<Rightarrow> bool" where
  "lexical_normal (RootDir # cs) = list_all is_normal cs"
| "lexical_normal (ParentDir # cs) = lexical_normal cs"
| "lexical_normal (CurDir # cs) = False"
| "lexical_normal cs = list_all is_normal cs"

lemma lexical_normal_snoc_Normal:
  "lexical_normal p \<Longrightarrow> lexical_normal (p @ [Normal s])"
  by (induction p rule: lexical_normal.induct) auto

lemma lexical_normal_butlast:
  "lexical_normal (p @ [Normal s]) \<Longrightarrow> lexical_normal p"
  by (induction p rule: lexical_normal.induct) auto

lemma normals_last: "list_all is_normal cs \<Longrightarrow> cs \<noteq> [] \<Longrightarrow> last cs \<noteq> ParentDir"
  by (metis is_normal_simps(4) last_in_set list_all_iff)

lemma lexical_normal_snoc_ParentDir:
  "lexical_normal p \<Longrightarrow> p = [] \<or> last p = ParentDir \<Longrightarrow> lexical_normal (p @ [ParentDir])"
  by (induction p rule: lexical_normal.induct)
    (auto split: if_splits dest: normals_last)

lemma lexical_step_normal:
  assumes "lexical_normal (rev acc)" "c \<noteq> RootDir \<or> acc = []"
  shows "lexical_normal (rev (lexical_step acc c))"
proof (cases c)
  case ParentDir
  consider "acc = []" | s rest where "acc = Normal s # rest" | rest where "acc = RootDir # rest"
    | rest where "acc = ParentDir # rest" | rest where "acc = CurDir # rest"
    by (cases acc rule: list.exhaust; cases "hd acc") auto
  then show ?thesis
  proof cases
    case 5
    have "\<not> lexical_normal (p @ [CurDir])" for p
      by (induction p rule: lexical_normal.induct) auto
    with 5 assms(1) show ?thesis by simp
  qed (use ParentDir assms lexical_normal_snoc_ParentDir[of "rev acc"] in
      \<open>auto intro: lexical_normal_butlast\<close>)
qed (use assms in \<open>auto intro: lexical_normal_snoc_Normal\<close>)

lemma foldl_lexical_normal:
  "lexical_normal (rev acc) \<Longrightarrow> RootDir \<notin> set p \<Longrightarrow> lexical_normal (rev (foldl lexical_step acc p))"
proof (induction p arbitrary: acc)
  case (Cons c p)
  then have "lexical_normal (rev (lexical_step acc c))" by (intro lexical_step_normal) auto
  with Cons show ?case by simp
qed simp

lemma lexically_normalized_normal:
  assumes "RootDir \<notin> set (tl p)"
  shows "lexical_normal (lexically_normalized p)"
proof (cases p)
  case Nil
  then show ?thesis by (simp add: lexically_normalized_def)
next
  case (Cons c cs)
  have "lexical_normal (rev (lexical_step [] c))" by (rule lexical_step_normal) simp_all
  with Cons assms foldl_lexical_normal show ?thesis by (simp add: lexically_normalized_def)
qed

lemma lexical_normal_fixpoint:
  assumes "lexical_normal p"
  shows "lexically_normalized p = p"
proof -
  have *: "foldl lexical_step acc p = rev p @ acc" if "lexical_normal p" "acc = [] \<or> hd acc = ParentDir" for acc p
    using that
  proof (induction p arbitrary: acc rule: lexical_normal.induct)
    case (1 cs)
    then show ?case by (simp add: foldl_lexical_normals)
  next
    case (2 cs)
    have "lexical_step acc ParentDir = ParentDir # acc"
      using 2(3) by (cases acc) auto
    with 2 show ?case by simp
  qed (simp_all add: foldl_lexical_normals)
  show ?thesis using *[OF assms] by (simp add: lexically_normalized_def)
qed

section \<open>Properties\<close>

text \<open>What the relative guard accepts cannot leave the root: the accepted path has only name
  components, is accepted unchanged when it is checked again, and joined onto any root it stays below
  the root, literally and after resolving every dot component.\<close>

theorem relative_guard_contains_the_path:
  assumes "validate_relative_path p = Some n"
  shows "list_all is_normal n \<and> validate_relative_path n = Some n \<and>
    starts_with (join_path root n) root \<and>
    lexically_normalized (join_path root n) = lexically_normalized root @ n"
  using validate_relative_normals[OF assms] validate_relative_of_normals guard_contains[OF assms] by simp

theorem relative_guard_witness:
  "list_all is_normal [Normal ''a''] \<and> validate_relative_path [Normal ''a''] = Some [Normal ''a''] \<and>
   starts_with (join_path [RootDir, ParentDir] [Normal ''a'']) [RootDir, ParentDir] \<and>
   lexically_normalized (join_path [RootDir, ParentDir] [Normal ''a'']) =
     lexically_normalized [RootDir, ParentDir] @ [Normal ''a'']"
  by (rule relative_guard_contains_the_path[of "[CurDir, Normal ''a'']"]) code_simp

text \<open>The lexical normal form is a normal form: no dot component is left, the parent components that
  are left stand before every name and never behind a root, and normalising again changes nothing.\<close>

theorem lexical_normal_form:
  assumes "RootDir \<notin> set (tl p)"
  shows "lexical_normal (lexically_normalized p) \<and>
    lexically_normalized (lexically_normalized p) = lexically_normalized p"
  using lexically_normalized_normal[OF assms] lexical_normal_fixpoint by simp

theorem lexical_normal_form_witness:
  "lexical_normal (lexically_normalized [ParentDir, CurDir, Normal ''a'', Normal ''b'', ParentDir]) \<and>
   lexically_normalized (lexically_normalized [ParentDir, CurDir, Normal ''a'', Normal ''b'', ParentDir]) =
   lexically_normalized [ParentDir, CurDir, Normal ''a'', Normal ''b'', ParentDir]"
  by (rule lexical_normal_form) code_simp

end
