(* ===== verification/Sync_Types.thy ===== *)
theory Sync_Types
  imports Rust_Path
begin

text \<open>
  The data the engine plans with: the enumerations and their wire tokens, the index record, the
  local and the remote entities, and the planned action with its constructors
  (\<^verbatim>\<open>src/sync.rs\<close>, \<^verbatim>\<open>src/index.rs\<close>, \<^verbatim>\<open>src/proton.rs\<close>). Every token pair is an instance of one
  interface, \<open>wire_token\<close>.
\<close>

section \<open>Tokens\<close>

text \<open>
  What a printer and a parser of tokens promise each other. The weaker half is what a reader of an
  open enumeration gives: what it read, it prints back verbatim.
\<close>

locale token_reader =
  fixes as_str :: "'a \<Rightarrow> bytes" and from_token :: "bytes \<Rightarrow> 'a option"
  assumes as_str_from_token: "from_token t = Some a \<Longrightarrow> as_str a = t"
begin

lemma from_token_inj: "from_token s = Some a \<Longrightarrow> from_token t = Some a \<Longrightarrow> s = t"
  using as_str_from_token[of s a] as_str_from_token[of t a] by simp

end

locale wire_token = token_reader +
  assumes from_token_as_str: "from_token (as_str a) = Some a"
begin

lemma as_str_inj: "as_str a = as_str b \<longleftrightarrow> a = b"
  by (metis from_token_as_str option.inject)

lemma from_token_iff: "from_token t = Some a \<longleftrightarrow> as_str a = t"
  using as_str_from_token from_token_as_str by blast

lemma from_token_None: "from_token t = None \<longleftrightarrow> t \<notin> range as_str"
  by (metis from_token_iff not_None_eq rangeE rangeI)

end

section \<open>Enumerations\<close>

subsection \<open>Entity kinds and statuses\<close>

datatype entity_kind = File | Directory

fun entity_kind_as_str :: "entity_kind \<Rightarrow> bytes" where
  "entity_kind_as_str File = ''file''"
| "entity_kind_as_str Directory = ''directory''"

definition entity_kind_from_str :: "bytes \<Rightarrow> entity_kind option" where
  "entity_kind_from_str t =
    (if t = ''file'' then Some File else if t = ''directory'' then Some Directory else None)"

interpretation kind_token: wire_token entity_kind_as_str entity_kind_from_str
proof
  show "entity_kind_from_str t = Some a \<Longrightarrow> entity_kind_as_str a = t" for t a
    by (auto simp: entity_kind_from_str_def split: if_splits)
  show "entity_kind_from_str (entity_kind_as_str a) = Some a" for a
    by (cases a) (simp_all add: entity_kind_from_str_def)
qed

datatype sync_status = Synced | Modified | StatusConflict

fun sync_status_as_str :: "sync_status \<Rightarrow> bytes" where
  "sync_status_as_str Synced = ''synced''"
| "sync_status_as_str Modified = ''modified''"
| "sync_status_as_str StatusConflict = ''conflict''"

definition sync_status_from_str :: "bytes \<Rightarrow> sync_status option" where
  "sync_status_from_str t =
    (if t = ''synced'' then Some Synced else if t = ''modified'' then Some Modified
     else if t = ''conflict'' then Some StatusConflict else None)"

interpretation status_token: wire_token sync_status_as_str sync_status_from_str
proof
  show "sync_status_from_str t = Some a \<Longrightarrow> sync_status_as_str a = t" for t a
    by (auto simp: sync_status_from_str_def split: if_splits)
  show "sync_status_from_str (sync_status_as_str a) = Some a" for a
    by (cases a) (simp_all add: sync_status_from_str_def)
qed

subsection \<open>Delete directions\<close>

datatype delete_direction = DeleteRemote | DeleteLocal

fun delete_direction_as_str :: "delete_direction \<Rightarrow> bytes" where
  "delete_direction_as_str DeleteRemote = ''remote''"
| "delete_direction_as_str DeleteLocal = ''local''"

definition delete_direction_from_str :: "bytes \<Rightarrow> delete_direction option" where
  "delete_direction_from_str t =
    (if t = ''remote'' then Some DeleteRemote else if t = ''local'' then Some DeleteLocal else None)"

interpretation direction_token: wire_token delete_direction_as_str delete_direction_from_str
proof
  show "delete_direction_from_str t = Some a \<Longrightarrow> delete_direction_as_str a = t" for t a
    by (auto simp: delete_direction_from_str_def split: if_splits)
  show "delete_direction_from_str (delete_direction_as_str a) = Some a" for a
    by (cases a) (simp_all add: delete_direction_from_str_def)
qed

datatype transfer_direction = Up | Down

subsection \<open>Actions\<close>

datatype sync_action =
  Upload | Download | CreateRemoteDirectory | CreateLocalDirectory | MoveLocal | MoveRemote
| AutoLink | Conflict | TypeConflict | RemoteDelete | LocalDelete | Purge | SkipUnsupported

fun sync_action_as_str :: "sync_action \<Rightarrow> bytes" where
  "sync_action_as_str Upload = ''upload''"
| "sync_action_as_str Download = ''download''"
| "sync_action_as_str CreateRemoteDirectory = ''create_remote_directory''"
| "sync_action_as_str CreateLocalDirectory = ''create_local_directory''"
| "sync_action_as_str MoveLocal = ''move_local''"
| "sync_action_as_str MoveRemote = ''move_remote''"
| "sync_action_as_str AutoLink = ''auto_link''"
| "sync_action_as_str Conflict = ''conflict''"
| "sync_action_as_str TypeConflict = ''type_conflict''"
| "sync_action_as_str RemoteDelete = ''remote_delete''"
| "sync_action_as_str LocalDelete = ''local_delete''"
| "sync_action_as_str Purge = ''purge''"
| "sync_action_as_str SkipUnsupported = ''skip_unsupported''"

text \<open>The parser serde derives from the enumeration, with the variant names in snake case.\<close>

definition sync_action_from_token :: "bytes \<Rightarrow> sync_action option" where
  "sync_action_from_token t =
    (if t = ''upload'' then Some Upload
     else if t = ''download'' then Some Download
     else if t = ''create_remote_directory'' then Some CreateRemoteDirectory
     else if t = ''create_local_directory'' then Some CreateLocalDirectory
     else if t = ''move_local'' then Some MoveLocal
     else if t = ''move_remote'' then Some MoveRemote
     else if t = ''auto_link'' then Some AutoLink
     else if t = ''conflict'' then Some Conflict
     else if t = ''type_conflict'' then Some TypeConflict
     else if t = ''remote_delete'' then Some RemoteDelete
     else if t = ''local_delete'' then Some LocalDelete
     else if t = ''purge'' then Some Purge
     else if t = ''skip_unsupported'' then Some SkipUnsupported
     else None)"

interpretation action_token: wire_token sync_action_as_str sync_action_from_token
proof
  show "sync_action_from_token t = Some a \<Longrightarrow> sync_action_as_str a = t" for t a
    by (auto simp: sync_action_from_token_def split: if_splits)
  show "sync_action_from_token (sync_action_as_str a) = Some a" for a
    by (cases a) (simp_all add: sync_action_from_token_def)
qed

fun action_delete_direction :: "sync_action \<Rightarrow> delete_direction option" where
  "action_delete_direction RemoteDelete = Some DeleteRemote"
| "action_delete_direction LocalDelete = Some DeleteLocal"
| "action_delete_direction _ = None"

fun is_destructive :: "sync_action \<Rightarrow> bool" where
  "is_destructive RemoteDelete = True"
| "is_destructive LocalDelete = True"
| "is_destructive Purge = True"
| "is_destructive _ = False"

fun action_transfer_direction :: "sync_action \<Rightarrow> transfer_direction option" where
  "action_transfer_direction Upload = Some Up"
| "action_transfer_direction Download = Some Down"
| "action_transfer_direction Conflict = Some Down"
| "action_transfer_direction TypeConflict = Some Down"
| "action_transfer_direction _ = None"

definition all_sync_actions :: "sync_action list" where
  "all_sync_actions =
    [Upload, Download, CreateRemoteDirectory, CreateLocalDirectory, MoveLocal, MoveRemote, AutoLink,
     Conflict, TypeConflict, RemoteDelete, LocalDelete, Purge, SkipUnsupported]"

lemma all_sync_actions_complete: "a \<in> set all_sync_actions" "distinct all_sync_actions"
  by (cases a; simp add: all_sync_actions_def) (simp add: all_sync_actions_def)

subsection \<open>Why an entity cannot be synced\<close>

datatype unsyncable_origin = OriginLocal | OriginRemote | OriginUnknown

datatype unsyncable_reason =
  UnrepresentablePath | RemoteNotDownloadable | LocalSymlink | LocalSocket | LocalFifo
| LocalDevice | LocalSpecialFile | OtherReason bytes

fun reason_origin :: "unsyncable_reason \<Rightarrow> unsyncable_origin" where
  "reason_origin RemoteNotDownloadable = OriginRemote"
| "reason_origin (OtherReason _) = OriginUnknown"
| "reason_origin _ = OriginLocal"

fun reason_as_str :: "unsyncable_reason \<Rightarrow> bytes" where
  "reason_as_str UnrepresentablePath = ''unrepresentable_path''"
| "reason_as_str RemoteNotDownloadable = ''remote_not_downloadable''"
| "reason_as_str LocalSymlink = ''local_symlink''"
| "reason_as_str LocalSocket = ''local_socket''"
| "reason_as_str LocalFifo = ''local_fifo''"
| "reason_as_str LocalDevice = ''local_device''"
| "reason_as_str LocalSpecialFile = ''local_special_file''"
| "reason_as_str (OtherReason t) = t"

definition reason_from_token :: "bytes \<Rightarrow> unsyncable_reason" where
  "reason_from_token t =
    (if t = ''unrepresentable_path'' then UnrepresentablePath
     else if t = ''remote_not_downloadable'' then RemoteNotDownloadable
     else if t = ''local_symlink'' then LocalSymlink
     else if t = ''local_socket'' then LocalSocket
     else if t = ''local_fifo'' then LocalFifo
     else if t = ''local_device'' then LocalDevice
     else if t = ''local_special_file'' then LocalSpecialFile
     else OtherReason t)"

text \<open>An unknown token is kept verbatim, so reading never fails and printing gives it back.\<close>

interpretation reason_reader: token_reader reason_as_str "\<lambda>t. Some (reason_from_token t)"
  by unfold_locales (auto simp: reason_from_token_def)

lemma reason_from_as_str:
  "(\<And>t. r \<noteq> OtherReason t) \<Longrightarrow> reason_from_token (reason_as_str r) = r"
  by (cases r) (simp_all add: reason_from_token_def)

section \<open>Records\<close>

record file_record =
  fr_file_path :: path
  fr_entity_kind :: entity_kind
  fr_file_size :: u64
  fr_mtime :: int
  fr_sha1_hash :: "bytes option"
  fr_proton_id :: "bytes option"
  fr_sync_status :: sync_status

record local_file_state =
  lf_relative_path :: path
  lf_absolute_path :: path
  lf_file_size :: u64
  lf_mtime :: int
  lf_sha1_hash :: bytes

record local_directory_state =
  ld_relative_path :: path
  ld_absolute_path :: path
  ld_mtime :: int

datatype local_entity_state =
  LocalFile local_file_state | LocalDirectory local_directory_state

record remote_file =
  rf_path :: path
  rf_id :: bytes
  rf_name :: bytes
  rf_sha1_hash :: "bytes option"
  rf_downloadable :: bool

record remote_directory =
  rd_path :: path
  rd_id :: "bytes option"
  rd_name :: bytes

datatype remote_entity = RemoteFile remote_file | RemoteDirectory remote_directory

type_synonym local_map = "(path, local_entity_state) hmap"
type_synonym remote_map = "(path, remote_entity) hmap"
type_synonym base_map = "(path, file_record) hmap"

definition record_from_local ::
  "path \<Rightarrow> local_file_state \<Rightarrow> bytes option \<Rightarrow> sync_status \<Rightarrow> file_record" where
  "record_from_local relative_path lf proton_id sync_status =
    \<lparr>fr_file_path = relative_path, fr_entity_kind = File, fr_file_size = lf_file_size lf,
     fr_mtime = lf_mtime lf, fr_sha1_hash = Some (lf_sha1_hash lf), fr_proton_id = proton_id,
     fr_sync_status = sync_status\<rparr>"

definition record_from_local_directory ::
  "path \<Rightarrow> local_directory_state \<Rightarrow> bytes option \<Rightarrow> sync_status \<Rightarrow> file_record" where
  "record_from_local_directory relative_path ld proton_id sync_status =
    \<lparr>fr_file_path = relative_path, fr_entity_kind = Directory, fr_file_size = 0,
     fr_mtime = ld_mtime ld, fr_sha1_hash = None, fr_proton_id = proton_id,
     fr_sync_status = sync_status\<rparr>"

fun local_relative_path :: "local_entity_state \<Rightarrow> path" where
  "local_relative_path (LocalFile f) = lf_relative_path f"
| "local_relative_path (LocalDirectory d) = ld_relative_path d"

fun local_kind :: "local_entity_state \<Rightarrow> entity_kind" where
  "local_kind (LocalFile _) = File"
| "local_kind (LocalDirectory _) = Directory"

fun local_as_file :: "local_entity_state \<Rightarrow> local_file_state option" where
  "local_as_file (LocalFile f) = Some f"
| "local_as_file (LocalDirectory _) = None"

fun local_as_directory :: "local_entity_state \<Rightarrow> local_directory_state option" where
  "local_as_directory (LocalFile _) = None"
| "local_as_directory (LocalDirectory d) = Some d"

fun remote_as_file :: "remote_entity \<Rightarrow> remote_file option" where
  "remote_as_file (RemoteFile f) = Some f"
| "remote_as_file (RemoteDirectory _) = None"

fun remote_as_directory :: "remote_entity \<Rightarrow> remote_directory option" where
  "remote_as_directory (RemoteFile _) = None"
| "remote_as_directory (RemoteDirectory d) = Some d"

text \<open>\<open>RemoteEntity::remote_id\<close> of \<^verbatim>\<open>src/proton.rs\<close>.\<close>

fun remote_entity_id :: "remote_entity \<Rightarrow> bytes option" where
  "remote_entity_id (RemoteFile f) = Some (rf_id f)"
| "remote_entity_id (RemoteDirectory d) = rd_id d"

text \<open>The kind of a remote entity, a helper of the planner (\<open>remote_entity_kind\<close>).\<close>

fun remote_entity_kind :: "remote_entity \<Rightarrow> entity_kind" where
  "remote_entity_kind (RemoteFile _) = File"
| "remote_entity_kind (RemoteDirectory _) = Directory"

definition bind_local_file :: "local_entity_state option \<Rightarrow> local_file_state option" where
  "bind_local_file l = Option.bind l local_as_file"

definition bind_local_dir :: "local_entity_state option \<Rightarrow> local_directory_state option" where
  "bind_local_dir l = Option.bind l local_as_directory"

definition bind_remote_file :: "remote_entity option \<Rightarrow> remote_file option" where
  "bind_remote_file r = Option.bind r remote_as_file"

definition bind_remote_dir :: "remote_entity option \<Rightarrow> remote_directory option" where
  "bind_remote_dir r = Option.bind r remote_as_directory"

lemmas bind_defs = bind_local_file_def bind_local_dir_def bind_remote_file_def bind_remote_dir_def

lemma bind_entity_simps [simp]:
  "bind_local_file None = None" "bind_local_dir None = None"
  "bind_remote_file None = None" "bind_remote_dir None = None"
  "bind_local_file (Some l) = local_as_file l" "bind_local_dir (Some l) = local_as_directory l"
  "bind_remote_file (Some r) = remote_as_file r" "bind_remote_dir (Some r) = remote_as_directory r"
  by (simp_all add: bind_defs)

lemma bind_local_file_Some: "bind_local_file l = Some f \<longleftrightarrow> l = Some (LocalFile f)"
  by (cases l; simp) (metis local_as_file.simps local_entity_state.exhaust option.inject option.distinct(1))

lemma bind_remote_file_Some: "bind_remote_file r = Some f \<longleftrightarrow> r = Some (RemoteFile f)"
  by (cases r; simp) (metis remote_as_file.simps remote_entity.exhaust option.inject option.distinct(1))

section \<open>Planned actions\<close>

record planned_action =
  pa_path :: path
  pa_destination_path :: "path option"
  pa_action :: sync_action
  pa_entity_kind :: entity_kind
  pa_conflict_path :: "path option"
  pa_remote_id :: "bytes option"
  pa_sidecar_from_local_copy :: bool
  pa_skip_reason :: "unsyncable_reason option"
  pa_size_bytes :: "u64 option"

type_synonym plan = "planned_action list"

end
