(* ===== verification/Conflict_Naming.thy ===== *)
theory Conflict_Naming
  imports Sync_Types
begin

text \<open>
  How conflict sidecars are named (\<open>ConflictNaming\<close> of \<^verbatim>\<open>src/sync.rs\<close>): the copy of a path, the
  detector, and the way back from a copy to its original, on the valid UTF-8 path and on the byte-safe
  one. The contract the planner and the scanner rely on is the locale \<open>sidecar_naming\<close>.
\<close>

section \<open>Searching in byte strings\<close>

text \<open>The rightmost position where a pattern occurs: \<open>str::rsplit_once\<close> and
  \<open>windows(n).rposition(..)\<close> look for the same one.\<close>

definition rfind_sub :: "bytes \<Rightarrow> bytes \<Rightarrow> nat option" where
  "rfind_sub m s =
    find (\<lambda>i. take (length m) (drop i s) = m) (rev [0..<length s + 1 - length m])"

definition rsplit_once :: "bytes \<Rightarrow> bytes \<Rightarrow> (bytes \<times> bytes) option" where
  "rsplit_once m s =
    (case rfind_sub m s of None \<Rightarrow> None | Some i \<Rightarrow> Some (take i s, drop (i + length m) s))"

definition contains_sub :: "bytes \<Rightarrow> bytes \<Rightarrow> bool" where
  "contains_sub m s \<longleftrightarrow> rfind_sub m s \<noteq> None"

definition strip_suffix :: "bytes \<Rightarrow> bytes \<Rightarrow> bytes option" where
  "strip_suffix t s = (if suffix t s then Some (take (length s - length t) s) else None)"

lemma strip_suffix_append [simp]: "strip_suffix t (s @ t) = Some s"
  by (simp add: strip_suffix_def suffixI)

lemma rfind_sub_None: "rfind_sub m s = None \<longleftrightarrow> (\<forall>x y. s \<noteq> x @ m @ y)"
proof
  assume None: "rfind_sub m s = None"
  show "\<forall>x y. s \<noteq> x @ m @ y"
  proof (intro allI notI)
    fix x y
    assume s: "s = x @ m @ y"
    then have "length x \<in> set (rev [0..<length s + 1 - length m])" by simp
    moreover have "take (length m) (drop (length x) s) = m" using s by simp
    ultimately show False using None by (auto simp: rfind_sub_def find_None_iff)
  qed
next
  assume *: "\<forall>x y. s \<noteq> x @ m @ y"
  have "take (length m) (drop i s) \<noteq> m" for i
    by (metis * append_take_drop_id)
  then show "rfind_sub m s = None" by (simp add: rfind_sub_def find_None_iff)
qed

text \<open>An occurrence behind which no other begins is the one that is found.\<close>

lemma rfind_sub_rightmost:
  assumes s: "s = x @ m @ y"
    and last: "\<And>x' y'. s = x' @ m @ y' \<Longrightarrow> length x' \<le> length x"
  shows "rfind_sub m s = Some (length x)"
proof -
  let ?P = "\<lambda>i. take (length m) (drop i s) = m"
  let ?n = "length s + 1 - length m"
  have n: "length x < ?n" using s by simp
  have eq: "[0..<?n] = [0..<length x] @ length x # [Suc (length x)..<?n]"
    using n by (metis le_add1 less_or_eq_imp_le plus_nat.add_0 upt_add_eq_append upt_conv_Cons le_iff_add)
  have no: "\<not> ?P i" if "i \<in> set [Suc (length x)..<?n]" for i
  proof
    assume "?P i"
    then have "s = take i s @ m @ drop (i + length m) s"
      by (metis append_take_drop_id drop_drop add.commute)
    moreover have "length (take i s) = i" using that by auto
    ultimately have "i \<le> length x" using last by metis
    with that show False by simp
  qed
  have "find ?P (rev [Suc (length x)..<?n] @ zs) = find ?P zs" for zs
  proof -
    have "find ?P (us @ zs) = find ?P zs" if "\<forall>i \<in> set us. \<not> ?P i" for us
      using that by (induction us) auto
    then show ?thesis using no by simp
  qed
  moreover have "rev [0..<?n] = rev [Suc (length x)..<?n] @ length x # rev [0..<length x]"
    by (subst eq) simp
  moreover have "?P (length x)" using s by simp
  ultimately show ?thesis unfolding rfind_sub_def by (simp del: upt_Suc)
qed

lemma rsplit_once_rightmost:
  assumes "s = x @ m @ y" "\<And>x' y'. s = x' @ m @ y' \<Longrightarrow> length x' \<le> length x"
  shows "rsplit_once m s = Some (x, y)"
  using rfind_sub_rightmost[OF assms] assms(1) by (simp add: rsplit_once_def)

lemma rsplit_once_None: "(\<And>x y. s \<noteq> x @ m @ y) \<Longrightarrow> rsplit_once m s = None"
  using rfind_sub_None[of m s] by (simp add: rsplit_once_def)

lemma rsplit_once_Some: "rsplit_once m s = Some (x, y) \<Longrightarrow> s = x @ m @ y"
proof -
  assume "rsplit_once m s = Some (x, y)"
  then obtain i where i: "rfind_sub m s = Some i" "x = take i s" "y = drop (i + length m) s"
    by (auto simp: rsplit_once_def split: option.splits)
  from i(1) have "take (length m) (drop i s) = m"
    by (auto simp: rfind_sub_def find_Some_iff)
  with i show ?thesis by (metis append_take_drop_id drop_drop add.commute)
qed

section \<open>Names\<close>

definition path_file_stem :: "path \<Rightarrow> bytes option" where
  "path_file_stem p =
    (case path_file_name p of None \<Rightarrow> None
     | Some n \<Rightarrow> (case name_stem_ext n of None \<Rightarrow> Some n | Some (st, _) \<Rightarrow> Some st))"

definition path_extension :: "path \<Rightarrow> bytes option" where
  "path_extension p = Option.bind (path_file_name p) (\<lambda>n. map_option snd (name_stem_ext n))"

record conflict_naming =
  cn_suffix :: bytes
  cn_mid :: bytes
  cn_tail :: bytes

definition naming_from_suffix :: "bytes \<Rightarrow> conflict_naming" where
  "naming_from_suffix s = \<lparr>cn_suffix = s, cn_mid = ''.'' @ s @ ''.'', cn_tail = ''.'' @ s\<rparr>"

definition default_conflict_suffix :: bytes where
  "default_conflict_suffix = ''proton-cloud''"

datatype suffix_error = EmptySuffix | SeparatorInSuffix | DotAtSuffixEdge

definition validate_conflict_suffix :: "bytes \<Rightarrow> suffix_error + unit" where
  "validate_conflict_suffix s =
    (if s = [] then Inl EmptySuffix
     else if CHR ''/'' \<in> set s \<or> CHR 0x00 \<in> set s then Inl SeparatorInSuffix
     else if hd s = CHR ''.'' \<or> last s = CHR ''.'' then Inl DotAtSuffixEdge
     else Inr ())"

definition naming_new :: "bytes \<Rightarrow> suffix_error + conflict_naming" where
  "naming_new s =
    (case validate_conflict_suffix s of Inl e \<Rightarrow> Inl e | Inr _ \<Rightarrow> Inr (naming_from_suffix s))"

definition path_parent_or_default :: "path \<Rightarrow> path" where
  "path_parent_or_default p = (case path_parent p of None \<Rightarrow> [] | Some q \<Rightarrow> q)"

definition conflict_copy_os_string :: "conflict_naming \<Rightarrow> bytes \<Rightarrow> bytes" where
  "conflict_copy_os_string nm bs =
    (case rsplit_dot bs of
       Some (before, after) \<Rightarrow>
         if 0 < length before then before @ cn_mid nm @ after else bs @ cn_tail nm
     | None \<Rightarrow> bs @ cn_tail nm)"

definition conflict_copy_path :: "conflict_naming \<Rightarrow> path \<Rightarrow> path" where
  "conflict_copy_path nm p =
    (let parent = path_parent_or_default p in
     case path_file_name p of
       None \<Rightarrow> join_bytes parent (cn_suffix nm)
     | Some file_name \<Rightarrow>
         (case to_str file_name of
            Some name \<Rightarrow>
              (let stem = Option.bind (path_file_stem p) to_str;
                   extension = Option.bind (path_extension p) to_str;
                   renamed = (case (stem, extension) of
                       (Some st, Some ex) \<Rightarrow> st @ cn_mid nm @ ex
                     | _ \<Rightarrow> name @ cn_tail nm)
               in join_bytes parent renamed)
          | None \<Rightarrow> join_bytes parent (conflict_copy_os_string nm file_name)))"

definition is_conflict_copy :: "conflict_naming \<Rightarrow> path \<Rightarrow> bool" where
  "is_conflict_copy nm p =
    (case path_file_name p of None \<Rightarrow> False
     | Some file_name \<Rightarrow>
         (let name = to_string_lossy file_name in
          contains_sub (cn_mid nm) name \<or> suffix (cn_tail nm) name))"

definition original_from_os_string :: "conflict_naming \<Rightarrow> bytes \<Rightarrow> bytes option" where
  "original_from_os_string nm bs =
    (case rsplit_once (cn_mid nm) bs of
       Some (before, after) \<Rightarrow> Some (before @ ''.'' @ after)
     | None \<Rightarrow> strip_suffix (cn_tail nm) bs)"

definition original_from_conflict_copy :: "conflict_naming \<Rightarrow> path \<Rightarrow> path option" where
  "original_from_conflict_copy nm p =
    (case path_file_name p of None \<Rightarrow> None
     | Some file_name \<Rightarrow>
         (let parent = path_parent_or_default p in
          case to_str file_name of
            Some name \<Rightarrow>
              (case rsplit_once (cn_mid nm) name of
                 Some (st, ex) \<Rightarrow> Some (join_bytes parent (st @ ''.'' @ ex))
               | None \<Rightarrow> map_option (join_bytes parent) (strip_suffix (cn_tail nm) name))
          | None \<Rightarrow> map_option (join_bytes parent) (original_from_os_string nm file_name)))"

section \<open>The contract\<close>

text \<open>
  What the planner, the scanner and the conflict resolver need of a naming: a copy is recognised as
  one, and it leads back to its original.
\<close>

locale sidecar_naming =
  fixes copy :: "'n \<Rightarrow> path \<Rightarrow> path"
    and is_copy :: "'n \<Rightarrow> path \<Rightarrow> bool"
    and original :: "'n \<Rightarrow> path \<Rightarrow> path option"
    and ok :: "'n \<Rightarrow> path \<Rightarrow> bool"
  assumes original_copy: "ok nm p \<Longrightarrow> original nm (copy nm p) = Some p"
    and is_copy_copy: "ok nm p \<Longrightarrow> is_copy nm (copy nm p)"
begin

lemma copy_inj: "ok nm p \<Longrightarrow> ok nm q \<Longrightarrow> copy nm p = copy nm q \<Longrightarrow> p = q"
  by (metis option.inject original_copy)

lemma copy_distinct: "ok nm p \<Longrightarrow> \<not> is_copy nm p \<Longrightarrow> copy nm p \<noteq> p"
proof
  assume "ok nm p" "\<not> is_copy nm p" and eq: "copy nm p = p"
  from \<open>ok nm p\<close> have "is_copy nm (copy nm p)" by (rule is_copy_copy)
  with eq \<open>\<not> is_copy nm p\<close> show False by (simp only: not_True_eq_False)
qed

end

text \<open>A suffix that is text without a separator, and a path that names a file.\<close>

definition namable :: "conflict_naming \<Rightarrow> path \<Rightarrow> bool" where
  "namable nm p \<longleftrightarrow>
     (\<exists>s. nm = naming_from_suffix s \<and> utf8_valid s \<and> CHR ''/'' \<notin> set s) \<and>
     (\<exists>q n. p = q @ [Normal n] \<and> plain_name n)"

lemma naming_new_ok:
  "naming_new s = Inr nm \<Longrightarrow> nm = naming_from_suffix s \<and> s \<noteq> [] \<and> CHR ''/'' \<notin> set s"
  by (auto simp: naming_new_def validate_conflict_suffix_def split: if_splits)

lemma name_stem_ext_Some:
  "name_stem_ext n = Some (st, ex) \<longleftrightarrow> n = st @ CHR ''.'' # ex \<and> CHR ''.'' \<notin> set ex \<and> st \<noteq> []"
  by (auto simp: name_stem_ext_def rsplit_dot_Some)

lemma name_stem_ext_None:
  assumes "name_stem_ext n = None"
  shows "CHR ''.'' \<notin> set n \<or> (\<exists>n'. n = CHR ''.'' # n' \<and> CHR ''.'' \<notin> set n')"
proof (rule ccontr)
  assume *: "\<not> ?thesis"
  then obtain st ex where "n = st @ CHR ''.'' # ex" "CHR ''.'' \<notin> set ex"
    by (meson split_list_last)
  moreover from this assms have "st = []"
    by (auto simp: name_stem_ext_def rsplit_dot_app opt_filter_def split: if_splits)
  ultimately show False using * by auto
qed

lemma is_ascii_dot: "is_ascii CHR ''.''"
  by (simp add: is_ascii_def)

lemma to_str_simps: "utf8_valid s \<Longrightarrow> to_str s = Some s" "\<not> utf8_valid s \<Longrightarrow> to_str s = None"
  by (simp_all add: to_str_def)

text \<open>The name of a copy, the same on the UTF-8 and on the byte-safe path.\<close>

definition copy_name :: "bytes \<Rightarrow> bytes \<Rightarrow> bytes" where
  "copy_name s n =
    (case name_stem_ext n of Some (st, ex) \<Rightarrow> st @ ''.'' @ s @ ''.'' @ ex | None \<Rightarrow> n @ ''.'' @ s)"

lemma copy_name_utf8: "utf8_valid s \<Longrightarrow> utf8_valid (copy_name s n) = utf8_valid n"
  by (auto simp: copy_name_def name_stem_ext_Some utf8_valid_split[OF is_ascii_dot]
      split: option.splits)

lemma copy_name_plain:
  assumes "plain_name n" "CHR ''/'' \<notin> set s"
  shows "plain_name (copy_name s n)"
proof (cases "name_stem_ext n")
  case None
  with assms show ?thesis
    by (cases n) (auto simp: copy_name_def plain_name_def Cons_eq_append_conv append_eq_Cons_conv)
next
  case (Some se)
  then obtain st ex where se: "se = (st, ex)" by (cases se)
  with Some have "n = st @ CHR ''.'' # ex" "st \<noteq> []" by (simp_all add: name_stem_ext_Some)
  with assms Some se show ?thesis
    by (cases st) (auto simp: copy_name_def plain_name_def)
qed

lemma conflict_copy_path_eq:
  assumes "utf8_valid s" "plain_name n" "CHR ''/'' \<notin> set s"
  shows "conflict_copy_path (naming_from_suffix s) (q @ [Normal n]) = q @ [Normal (copy_name s n)]"
proof -
  have "conflict_copy_path (naming_from_suffix s) (q @ [Normal n]) = join_bytes q (copy_name s n)"
  proof (cases "utf8_valid n")
    case True
    show ?thesis
    proof (cases "name_stem_ext n")
      case None
      then show ?thesis using True
        by (simp add: conflict_copy_path_def path_parent_or_default_def to_str_simps copy_name_def
            path_file_stem_def path_extension_def naming_from_suffix_def Let_def)
    next
      case (Some se)
      then obtain st ex where se: "se = (st, ex)" by (cases se)
      with Some have n: "n = st @ CHR ''.'' # ex" by (simp add: name_stem_ext_Some)
      with True have "utf8_valid st" "utf8_valid ex"
        by (simp_all add: utf8_valid_split[OF is_ascii_dot])
      with Some se True show ?thesis
        by (simp add: conflict_copy_path_def path_parent_or_default_def to_str_simps copy_name_def
            path_file_stem_def path_extension_def naming_from_suffix_def Let_def)
    qed
  next
    case False
    then show ?thesis
      by (auto simp: conflict_copy_path_def path_parent_or_default_def to_str_simps copy_name_def
          conflict_copy_os_string_def naming_from_suffix_def name_stem_ext_def opt_filter_def Let_def
          split: option.splits)
  qed
  then show ?thesis using copy_name_plain[OF assms(2,3)] by (simp add: join_bytes_plain)
qed

lemma split_at_last_dot:
  assumes "st @ CHR ''.'' # ex = x @ CHR ''.'' # y" "CHR ''.'' \<notin> set ex"
  shows "length ex \<le> length y"
proof (rule ccontr)
  assume "\<not> ?thesis"
  moreover have "suffix (CHR ''.'' # y) (st @ CHR ''.'' # ex)" "suffix ex (st @ CHR ''.'' # ex)"
    using assms(1) by (auto simp: suffix_def) (metis append_Cons append_Nil append_assoc)
  ultimately have "suffix (CHR ''.'' # y) ex"
    by (metis Suc_leI length_Cons not_le suffix_length_suffix)
  with assms(2) show False by (auto simp: suffix_def)
qed

lemma Cons_snoc_eq: "a # xs = xs @ [b] \<Longrightarrow> a = b"
  by (induction xs arbitrary: a) auto

lemma copy_name_back:
  assumes "rsplit_once (''.'' @ s @ ''.'') (copy_name s n) = r"
  shows "(case r of Some (x, y) \<Rightarrow> Some (x @ ''.'' @ y) | None \<Rightarrow> strip_suffix (''.'' @ s) (copy_name s n)) = Some n"
proof (cases "name_stem_ext n")
  case (Some se)
  then obtain st ex where se: "se = (st, ex)" by (cases se)
  with Some have n: "n = st @ CHR ''.'' # ex" "CHR ''.'' \<notin> set ex" by (simp_all add: name_stem_ext_Some)
  have c: "copy_name s n = st @ (''.'' @ s @ ''.'') @ ex" using Some se by (simp add: copy_name_def)
  have "rsplit_once (''.'' @ s @ ''.'') (copy_name s n) = Some (st, ex)"
  proof (rule rsplit_once_rightmost[OF c])
    fix x' y' assume *: "copy_name s n = x' @ (''.'' @ s @ ''.'') @ y'"
    then have "(st @ CHR ''.'' # s) @ CHR ''.'' # ex = (x' @ CHR ''.'' # s) @ CHR ''.'' # y'"
      using c by simp
    from split_at_last_dot[OF this n(2)] have "length ex \<le> length y'" .
    moreover have "length st + length ex = length x' + length y'" using * c by (auto dest: arg_cong[of _ _ length])
    ultimately show "length x' \<le> length st" by linarith
  qed
  with assms n show ?thesis by auto
next
  case None
  then have c: "copy_name s n = n @ CHR ''.'' # s" by (simp add: copy_name_def)
  show ?thesis
  proof (cases r)
    case None
    with c strip_suffix_append[of "CHR ''.'' # s" n] show ?thesis by simp
  next
    case (Some xy)
    then obtain x y where xy: "r = Some (x, y)" by (cases xy) simp
    with assms have eq: "n @ CHR ''.'' # s = x @ CHR ''.'' # s @ CHR ''.'' # y"
      using rsplit_once_Some[of "''.'' @ s @ ''.''"] c by fastforce
    from arg_cong[OF eq, of "\<lambda>l. count_list l CHR ''.''"]
    have cnt: "count_list n CHR ''.'' = Suc (count_list x CHR ''.'' + count_list y CHR ''.'')"
      by simp
    with name_stem_ext_None[OF None] obtain n' where n': "n = CHR ''.'' # n'" "CHR ''.'' \<notin> set n'"
      by (auto simp: count_list_0_iff[symmetric])
    with cnt have nodot: "CHR ''.'' \<notin> set x" "CHR ''.'' \<notin> set y"
      by (auto simp: count_list_0_iff[symmetric])
    have x: "x = []" using eq n' nodot by (cases x) auto
    from eq x n' have "n' @ CHR ''.'' # s = s @ CHR ''.'' # y" by simp
    then have "split_on CHR ''.'' (n' @ CHR ''.'' # s) = split_on CHR ''.'' (s @ CHR ''.'' # y)" by simp
    then have "n' # split_on CHR ''.'' s = split_on CHR ''.'' s @ [y]"
      using n' nodot by (simp add: split_on_append split_on_no_sep)
    from Cons_snoc_eq[OF this] x n' xy show ?thesis by simp
  qed
qed

lemma namable_original:
  assumes "namable nm p"
  shows "original_from_conflict_copy nm (conflict_copy_path nm p) = Some p"
proof -
  from assms obtain s q n where nm: "nm = naming_from_suffix s" and s: "utf8_valid s" "CHR ''/'' \<notin> set s"
    and p: "p = q @ [Normal n]" and n: "plain_name n" by (auto simp: namable_def)
  have copy: "conflict_copy_path nm p = q @ [Normal (copy_name s n)]"
    using conflict_copy_path_eq[OF s(1) n s(2)] nm p by simp
  have "original_from_conflict_copy nm (q @ [Normal (copy_name s n)]) = Some p"
    using copy_name_back[of s n, OF refl] join_bytes_plain[OF n]
    by (auto simp: original_from_conflict_copy_def path_parent_or_default_def to_str_def nm p
        naming_from_suffix_def original_from_os_string_def Let_def split: option.splits)
  then show ?thesis unfolding copy .
qed

lemma contains_sub_iff: "contains_sub m s \<longleftrightarrow> (\<exists>x y. s = x @ m @ y)"
  using rfind_sub_None[of m s] by (auto simp: contains_sub_def)

lemma namable_is_copy:
  assumes "namable nm p"
  shows "is_conflict_copy nm (conflict_copy_path nm p)"
proof -
  from assms obtain s q n where nm: "nm = naming_from_suffix s" and s: "utf8_valid s" "CHR ''/'' \<notin> set s"
    and p: "p = q @ [Normal n]" and n: "plain_name n" by (auto simp: namable_def)
  have copy: "conflict_copy_path nm p = q @ [Normal (copy_name s n)]"
    using conflict_copy_path_eq[OF s(1) n s(2)] nm p by simp
  have lossy: "to_string_lossy (u @ CHR ''.'' # v) = to_string_lossy u @ CHR ''.'' # to_string_lossy v" for u v
    by (rule lossy_split[OF is_ascii_dot])
  show ?thesis
  proof (cases "name_stem_ext n")
    case None
    then have "to_string_lossy (copy_name s n) = to_string_lossy n @ CHR ''.'' # s"
      by (simp add: copy_name_def lossy lossy_valid[OF s(1)])
    then show ?thesis unfolding copy
      by (simp add: is_conflict_copy_def nm naming_from_suffix_def suffixI)
  next
    case (Some se)
    then obtain st ex where "se = (st, ex)" by (cases se)
    with Some have "to_string_lossy (copy_name s n) =
      to_string_lossy st @ (CHR ''.'' # s @ ''.'') @ to_string_lossy ex"
      by (simp add: copy_name_def lossy lossy_valid[OF s(1)])
    then have "contains_sub (CHR ''.'' # s @ ''.'') (to_string_lossy (copy_name s n))"
      unfolding contains_sub_iff by blast
    then show ?thesis unfolding copy
      by (simp add: is_conflict_copy_def nm naming_from_suffix_def)
  qed
qed

interpretation sidecar: sidecar_naming conflict_copy_path is_conflict_copy original_from_conflict_copy namable
  by unfold_locales (rule namable_original namable_is_copy; assumption)+

section \<open>Properties\<close>



end
