(* ===== verification/Planner_Entity.thy ===== *)
theory Planner_Entity
  imports Conflict_Naming
begin

text \<open>
  What one path plans to (\<open>plan_entity_action\<close> of \<^verbatim>\<open>src/sync.rs\<close> and everything it calls): the
  constructors of planned actions, the deltas of a file against its base record, the bootstrap arms,
  the ongoing arms of files and directories, the clash tests that stand before them, and the lemmas
  that invert a planned deletion into the state that justifies it.
\<close>

section \<open>Constructors of planned actions\<close>

definition pa_new :: "path \<Rightarrow> sync_action \<Rightarrow> entity_kind \<Rightarrow> bytes option \<Rightarrow> planned_action" where
  "pa_new p a k rid =
    \<lparr>pa_path = p, pa_destination_path = None, pa_action = a, pa_entity_kind = k,
     pa_conflict_path = None, pa_remote_id = rid, pa_sidecar_from_local_copy = False,
     pa_skip_reason = None, pa_size_bytes = None\<rparr>"

definition with_local_size :: "local_file_state \<Rightarrow> planned_action \<Rightarrow> planned_action" where
  "with_local_size lf a = a\<lparr>pa_size_bytes := Some (lf_file_size lf)\<rparr>"

definition pa_skip_unsupported ::
  "path \<Rightarrow> entity_kind \<Rightarrow> bytes option \<Rightarrow> unsyncable_reason \<Rightarrow> planned_action" where
  "pa_skip_unsupported p k rid reason =
    (pa_new p SkipUnsupported k rid)\<lparr>pa_skip_reason := Some reason\<rparr>"

definition pa_conflict :: "path \<Rightarrow> bytes option \<Rightarrow> conflict_naming \<Rightarrow> planned_action" where
  "pa_conflict p rid nm =
    \<lparr>pa_path = p, pa_destination_path = None, pa_action = Conflict, pa_entity_kind = File,
     pa_conflict_path = Some (conflict_copy_path nm p), pa_remote_id = rid,
     pa_sidecar_from_local_copy = False, pa_skip_reason = None, pa_size_bytes = None\<rparr>"

definition pa_conflict_from_local_copy ::
  "path \<Rightarrow> bytes option \<Rightarrow> conflict_naming \<Rightarrow> planned_action" where
  "pa_conflict_from_local_copy p rid nm =
    \<lparr>pa_path = p, pa_destination_path = None, pa_action = Conflict, pa_entity_kind = File,
     pa_conflict_path = Some (conflict_copy_path nm p), pa_remote_id = rid,
     pa_sidecar_from_local_copy = True, pa_skip_reason = None, pa_size_bytes = None\<rparr>"

definition pa_type_conflict_with_sidecar ::
  "path \<Rightarrow> bytes option \<Rightarrow> conflict_naming \<Rightarrow> planned_action" where
  "pa_type_conflict_with_sidecar p rid nm =
    \<lparr>pa_path = p, pa_destination_path = None, pa_action = TypeConflict, pa_entity_kind = Directory,
     pa_conflict_path = Some (conflict_copy_path nm p), pa_remote_id = rid,
     pa_sidecar_from_local_copy = False, pa_skip_reason = None, pa_size_bytes = None\<rparr>"

definition pa_move_local :: "path \<Rightarrow> path \<Rightarrow> entity_kind \<Rightarrow> bytes option \<Rightarrow> planned_action" where
  "pa_move_local p dest k rid =
    \<lparr>pa_path = p, pa_destination_path = Some dest, pa_action = MoveLocal, pa_entity_kind = k,
     pa_conflict_path = None, pa_remote_id = rid, pa_sidecar_from_local_copy = False,
     pa_skip_reason = None, pa_size_bytes = None\<rparr>"

definition pa_move_remote ::
  "path \<Rightarrow> path option \<Rightarrow> entity_kind \<Rightarrow> bytes option \<Rightarrow> planned_action" where
  "pa_move_remote p dest k rid =
    \<lparr>pa_path = p, pa_destination_path = dest, pa_action = MoveRemote, pa_entity_kind = k,
     pa_conflict_path = None, pa_remote_id = rid, pa_sidecar_from_local_copy = False,
     pa_skip_reason = None, pa_size_bytes = None\<rparr>"

lemmas pa_defs = pa_new_def with_local_size_def pa_skip_unsupported_def pa_conflict_def
  pa_conflict_from_local_copy_def pa_type_conflict_with_sidecar_def pa_move_local_def
  pa_move_remote_def

lemma pa_path_simps [simp]:
  "pa_path (pa_new p a k rid) = p" "pa_path (with_local_size lf x) = pa_path x"
  "pa_path (pa_skip_unsupported p k rid r) = p" "pa_path (pa_conflict p rid nm) = p"
  "pa_path (pa_conflict_from_local_copy p rid nm) = p"
  "pa_path (pa_type_conflict_with_sidecar p rid nm) = p"
  "pa_path (pa_move_local p d k rid) = p" "pa_path (pa_move_remote p d' k rid) = p"
  by (simp_all add: pa_defs)

lemma pa_action_simps [simp]:
  "pa_action (pa_new p a k rid) = a" "pa_action (with_local_size lf x) = pa_action x"
  "pa_action (pa_skip_unsupported p k rid r) = SkipUnsupported"
  "pa_action (pa_conflict p rid nm) = Conflict"
  "pa_action (pa_conflict_from_local_copy p rid nm) = Conflict"
  "pa_action (pa_type_conflict_with_sidecar p rid nm) = TypeConflict"
  "pa_action (pa_move_local p d k rid) = MoveLocal"
  "pa_action (pa_move_remote p d' k rid) = MoveRemote"
  by (simp_all add: pa_defs)

lemma pa_kind_simps [simp]:
  "pa_entity_kind (pa_new p a k rid) = k" "pa_entity_kind (with_local_size lf x) = pa_entity_kind x"
  "pa_entity_kind (pa_skip_unsupported p k rid r) = k"
  "pa_entity_kind (pa_conflict p rid nm) = File"
  "pa_entity_kind (pa_conflict_from_local_copy p rid nm) = File"
  "pa_entity_kind (pa_type_conflict_with_sidecar p rid nm) = Directory"
  "pa_entity_kind (pa_move_local p d k rid) = k" "pa_entity_kind (pa_move_remote p d' k rid) = k"
  by (simp_all add: pa_defs)

lemma pa_destination_simps [simp]:
  "pa_destination_path (pa_new p a k rid) = None"
  "pa_destination_path (with_local_size lf x) = pa_destination_path x"
  "pa_destination_path (pa_skip_unsupported p k rid r) = None"
  "pa_destination_path (pa_conflict p rid nm) = None"
  "pa_destination_path (pa_conflict_from_local_copy p rid nm) = None"
  "pa_destination_path (pa_type_conflict_with_sidecar p rid nm) = None"
  "pa_destination_path (pa_move_local p d k rid) = Some d"
  "pa_destination_path (pa_move_remote p d' k rid) = d'"
  by (simp_all add: pa_defs)

section \<open>Deltas\<close>

datatype file_delta = Missing | Unchanged | Changed | Unknown | Unsupported

fun delta_from_base :: "bytes option \<Rightarrow> bytes option \<Rightarrow> file_delta" where
  "delta_from_base (Some current) base =
    (if base = Some current then Unchanged else Changed)"
| "delta_from_base None (Some _) = Missing"
| "delta_from_base None None = Missing"

definition remote_file_delta :: "remote_file option \<Rightarrow> file_record \<Rightarrow> file_delta" where
  "remote_file_delta remote base =
    (case fr_sha1_hash base of None \<Rightarrow> Unknown
     | Some base_hash \<Rightarrow>
         (case remote of None \<Rightarrow> Missing
          | Some f \<Rightarrow>
              if \<not> rf_downloadable f then Unsupported
              else (case rf_sha1_hash f of None \<Rightarrow> Unknown
                    | Some h \<Rightarrow> if h = base_hash then Unchanged else Changed)))"

definition file_remote_id :: "remote_file option \<Rightarrow> file_record \<Rightarrow> bytes option" where
  "file_remote_id remote base = or_else (map_option rf_id remote) (fr_proton_id base)"

section \<open>Clashes\<close>

definition is_representable_remotely :: "path \<Rightarrow> bool" where
  "is_representable_remotely p \<longleftrightarrow> path_to_str_ok p"

definition entity_kind_for_path ::
  "local_entity_state option \<Rightarrow> remote_entity option \<Rightarrow> file_record option \<Rightarrow> entity_kind" where
  "entity_kind_for_path l r b =
    (case or_else (map_option local_kind l)
            (or_else (map_option remote_entity_kind r) (map_option fr_entity_kind b)) of
       Some k \<Rightarrow> k | None \<Rightarrow> File)"

definition is_live_kind_clash :: "local_entity_state option \<Rightarrow> remote_entity option \<Rightarrow> bool" where
  "is_live_kind_clash l r =
    (case (map_option local_kind l, map_option remote_entity_kind r) of
       (Some lk, Some rk) \<Rightarrow> lk \<noteq> rk | _ \<Rightarrow> False)"

definition only_base_kind_is_stale ::
  "local_entity_state option \<Rightarrow> remote_entity option \<Rightarrow> file_record option \<Rightarrow> bool" where
  "only_base_kind_is_stale l r b =
    (case map_option fr_entity_kind b of None \<Rightarrow> False
     | Some base_kind \<Rightarrow>
         is_some_and (\<lambda>k. k \<noteq> base_kind) (map_option local_kind l) \<or>
         is_some_and (\<lambda>k. k \<noteq> base_kind) (map_option remote_entity_kind r))"

fun is_reconciled_directory_file_clash ::
  "local_entity_state option \<Rightarrow> remote_entity option \<Rightarrow> file_record option \<Rightarrow> bool" where
  "is_reconciled_directory_file_clash (Some (LocalDirectory _)) (Some (RemoteFile _)) b =
    is_some_and (\<lambda>record. fr_entity_kind record = Directory) b"
| "is_reconciled_directory_file_clash _ _ _ = False"

definition plan_type_conflict_action ::
  "path \<Rightarrow> local_entity_state option \<Rightarrow> remote_entity option \<Rightarrow> file_record option \<Rightarrow>
   conflict_naming \<Rightarrow> planned_action" where
  "plan_type_conflict_action p l r b nm =
    (case (l, r) of
       (Some (LocalDirectory _), Some (RemoteFile _)) \<Rightarrow>
         pa_type_conflict_with_sidecar p (Option.bind r remote_entity_id) nm
     | _ \<Rightarrow> pa_new p TypeConflict (entity_kind_for_path l r b) (Option.bind r remote_entity_id))"

section \<open>Bootstrap\<close>

fun plan_bootstrap_file_action ::
  "path \<Rightarrow> local_file_state option \<Rightarrow> remote_file option \<Rightarrow> conflict_naming \<Rightarrow> planned_action option" where
  "plan_bootstrap_file_action p (Some lf) None nm =
    Some (with_local_size lf (pa_new p Upload File None))"
| "plan_bootstrap_file_action p None (Some rf) nm =
    (if rf_downloadable rf then Some (pa_new p Download File (Some (rf_id rf)))
     else Some (pa_skip_unsupported p File (Some (rf_id rf)) RemoteNotDownloadable))"
| "plan_bootstrap_file_action p (Some lf) (Some rf) nm =
    (if rf_sha1_hash rf = Some (lf_sha1_hash lf) then Some (pa_new p AutoLink File (Some (rf_id rf)))
     else if rf_downloadable rf then Some (pa_conflict p (Some (rf_id rf)) nm)
     else Some (pa_skip_unsupported p File (Some (rf_id rf)) RemoteNotDownloadable))"
| "plan_bootstrap_file_action p None None nm = None"

fun plan_bootstrap_entity_action ::
  "path \<Rightarrow> local_entity_state option \<Rightarrow> remote_entity option \<Rightarrow> conflict_naming \<Rightarrow>
   planned_action option" where
  "plan_bootstrap_entity_action p (Some (LocalDirectory _)) None nm =
    Some (pa_new p CreateRemoteDirectory Directory None)"
| "plan_bootstrap_entity_action p None (Some (RemoteDirectory rd)) nm =
    Some (pa_new p CreateLocalDirectory Directory (rd_id rd))"
| "plan_bootstrap_entity_action p (Some (LocalDirectory _)) (Some (RemoteDirectory rd)) nm =
    Some (pa_new p AutoLink Directory (rd_id rd))"
| "plan_bootstrap_entity_action p (Some (LocalFile lf)) r nm =
    plan_bootstrap_file_action p (Some lf) (bind_remote_file r) nm"
| "plan_bootstrap_entity_action p None (Some (RemoteFile rf)) nm =
    plan_bootstrap_file_action p None (Some rf) nm"
| "plan_bootstrap_entity_action p (Some (LocalDirectory d)) (Some (RemoteFile rf)) nm =
    Some (pa_new p TypeConflict
      (entity_kind_for_path (Some (LocalDirectory d)) (Some (RemoteFile rf)) None)
      (remote_entity_id (RemoteFile rf)))"
| "plan_bootstrap_entity_action p None None nm = None"

section \<open>Ongoing files\<close>

definition plan_modified_record_action ::
  "path \<Rightarrow> local_file_state option \<Rightarrow> remote_file option \<Rightarrow> file_record \<Rightarrow> file_delta \<Rightarrow> file_delta \<Rightarrow>
   conflict_naming \<Rightarrow> planned_action option" where
  "plan_modified_record_action p l r base local_delta remote_delta nm =
    (case l of None \<Rightarrow> None
     | Some lf \<Rightarrow>
         if fr_proton_id base = None \<and> r = None
         then Some (with_local_size lf (pa_new p Upload File None))
         else (case (local_delta, remote_delta) of
             (Unchanged, Unchanged) \<Rightarrow> Some (pa_new p AutoLink File (file_remote_id r base))
           | (Unchanged, Changed) \<Rightarrow>
               Some (with_local_size lf (pa_new p Upload File (file_remote_id r base)))
           | (Unchanged, Missing) \<Rightarrow>
               Some (with_local_size lf (pa_new p Upload File (file_remote_id r base)))
           | (Unchanged, Unknown) \<Rightarrow> Some (pa_conflict p (file_remote_id r base) nm)
           | (Unchanged, Unsupported) \<Rightarrow>
               Some (pa_skip_unsupported p File (file_remote_id r base) RemoteNotDownloadable)
           | _ \<Rightarrow> None))"

text \<open>Attaches the size of the local file when there is one.\<close>

definition sized_if :: "local_file_state option \<Rightarrow> planned_action \<Rightarrow> planned_action" where
  "sized_if l a = (case l of Some lf \<Rightarrow> with_local_size lf a | None \<Rightarrow> a)"

text \<open>
  The match on the two deltas. \<^term>\<open>None\<close> on the outside is the \<open>unreachable!\<close> arm: reaching it
  is a panic. The inner option is the planned action, if any.
\<close>

definition plan_ongoing_file_match ::
  "path \<Rightarrow> local_file_state option \<Rightarrow> remote_file option \<Rightarrow> file_record \<Rightarrow> file_delta \<Rightarrow> file_delta \<Rightarrow>
   conflict_naming \<Rightarrow> planned_action option option" where
  "plan_ongoing_file_match p l r base local_delta remote_delta nm =
    (case (local_delta, remote_delta) of
       (Changed, Unchanged) \<Rightarrow> Some (Some (sized_if l (pa_new p Upload File (fr_proton_id base))))
     | (Unchanged, Changed) \<Rightarrow> Some (Some (pa_new p Download File (file_remote_id r base)))
     | (Missing, Unchanged) \<Rightarrow> Some (Some (pa_new p RemoteDelete File (file_remote_id r base)))
     | (Unchanged, Missing) \<Rightarrow> Some (Some (pa_new p LocalDelete File (fr_proton_id base)))
     | (Changed, Changed) \<Rightarrow>
         (case (l, r) of
            (Some lf, Some rf) \<Rightarrow>
              if rf_sha1_hash rf = Some (lf_sha1_hash lf)
              then Some (Some (pa_new p AutoLink File (file_remote_id (Some rf) base)))
              else Some (Some (pa_conflict p (file_remote_id r base) nm))
          | _ \<Rightarrow> Some (Some (pa_conflict p (file_remote_id r base) nm)))
     | (Missing, Changed) \<Rightarrow> Some (Some (pa_new p Download File (file_remote_id r base)))
     | (Changed, Missing) \<Rightarrow>
         Some (Some (sized_if l (pa_conflict_from_local_copy p (fr_proton_id base) nm)))
     | (Missing, Missing) \<Rightarrow> Some (Some (pa_new p Purge File (fr_proton_id base)))
     | (Unchanged, Unchanged) \<Rightarrow>
         (let linked_id = file_remote_id r base in
          if is_some_and (\<lambda>id. id \<noteq> []) linked_id \<and> linked_id \<noteq> fr_proton_id base
          then Some (Some (pa_new p AutoLink File linked_id)) else Some None)
     | (Unchanged, Unknown) \<Rightarrow>
         (let linked_id = file_remote_id r base in
          if is_some_and (\<lambda>id. id \<noteq> []) linked_id \<and> linked_id \<noteq> fr_proton_id base
          then Some (Some (pa_new p AutoLink File linked_id)) else Some None)
     | (Changed, Unknown) \<Rightarrow> Some (Some (pa_conflict p (file_remote_id r base) nm))
     | (Missing, Unknown) \<Rightarrow> Some None
     | (Unchanged, Unsupported) \<Rightarrow>
         Some (Some (pa_skip_unsupported p File (file_remote_id r base) RemoteNotDownloadable))
     | (Changed, Unsupported) \<Rightarrow>
         Some (Some (pa_skip_unsupported p File (file_remote_id r base) RemoteNotDownloadable))
     | (Missing, Unsupported) \<Rightarrow>
         Some (Some (pa_skip_unsupported p File (file_remote_id r base) RemoteNotDownloadable))
     | (Unknown, _) \<Rightarrow> None
     | (Unsupported, _) \<Rightarrow> None)"

definition plan_ongoing_file_action ::
  "path \<Rightarrow> local_file_state option \<Rightarrow> remote_file option \<Rightarrow> file_record \<Rightarrow> conflict_naming \<Rightarrow>
   planned_action option option" where
  "plan_ongoing_file_action p l r base nm =
    (case fr_sha1_hash base of None \<Rightarrow> Some None
     | Some base_hash \<Rightarrow>
         (let local_delta = delta_from_base (map_option lf_sha1_hash l) (Some base_hash);
              remote_delta = remote_file_delta r base;
              modified = (if fr_sync_status base = Modified
                          then plan_modified_record_action p l r base local_delta remote_delta nm
                          else None)
          in case modified of Some a \<Rightarrow> Some (Some a)
             | None \<Rightarrow>
                 if fr_sync_status base = StatusConflict \<and>
                    \<not> (local_delta = Missing \<and> remote_delta = Missing)
                 then Some None
                 else plan_ongoing_file_match p l r base local_delta remote_delta nm))"

section \<open>Ongoing directories\<close>

type_synonym verdicts = "(path, bool) hmap"

definition subtree_is_deletion_consistent :: "path \<Rightarrow> verdicts \<Rightarrow> bool" where
  "subtree_is_deletion_consistent p vs = (case hm_get vs p of Some v \<Rightarrow> v | None \<Rightarrow> False)"

definition plan_ongoing_directory_action ::
  "path \<Rightarrow> local_directory_state option \<Rightarrow> remote_directory option \<Rightarrow> file_record \<Rightarrow> verdicts \<Rightarrow>
   planned_action option" where
  "plan_ongoing_directory_action p l r base vs =
    (case (l \<noteq> None, r \<noteq> None) of
       (True, True) \<Rightarrow>
         (let rid = Option.bind r rd_id in
          if rid \<noteq> None \<and> rid \<noteq> fr_proton_id base
          then Some (pa_new p AutoLink Directory rid) else None)
     | (True, False) \<Rightarrow>
         if subtree_is_deletion_consistent p vs
         then Some (pa_new p LocalDelete Directory (fr_proton_id base))
         else Some (pa_new p CreateRemoteDirectory Directory (fr_proton_id base))
     | (False, True) \<Rightarrow>
         (let rid = or_else (Option.bind r rd_id) (fr_proton_id base) in
          if subtree_is_deletion_consistent p vs
          then Some (pa_new p RemoteDelete Directory rid)
          else Some (pa_new p CreateLocalDirectory Directory rid))
     | (False, False) \<Rightarrow> Some (pa_new p Purge Directory (fr_proton_id base)))"

section \<open>One path\<close>

definition plan_entity_action ::
  "path \<Rightarrow> local_entity_state option \<Rightarrow> remote_entity option \<Rightarrow> file_record option \<Rightarrow> bool \<Rightarrow>
   verdicts \<Rightarrow> conflict_naming \<Rightarrow> planned_action option" where
  "plan_entity_action p l r b bootstrap vs nm =
    (if \<not> is_representable_remotely p then
       Some (pa_skip_unsupported p (entity_kind_for_path l r b) None UnrepresentablePath)
     else if is_reconciled_directory_file_clash l r b then None
     else if is_live_kind_clash l r then Some (plan_type_conflict_action p l r b nm)
     else if only_base_kind_is_stale l r b then plan_bootstrap_entity_action p l r nm
     else (case b of
         Some base \<Rightarrow>
           if fr_entity_kind base = Directory \<and> \<not> bootstrap then
             plan_ongoing_directory_action p (bind_local_dir l) (bind_remote_dir r) base vs
           else if \<not> bootstrap then
             the (plan_ongoing_file_action p (bind_local_file l) (bind_remote_file r) base nm)
           else plan_bootstrap_entity_action p l r nm
       | None \<Rightarrow> plan_bootstrap_entity_action p l r nm))"

section \<open>Laws\<close>

lemmas delta_splits = option.splits if_splits file_delta.splits sync_status.splits

text \<open>A local delta is never one of the two remote-only ones, so the arm that panics is dead.\<close>

lemma delta_from_base_range: "delta_from_base c b \<in> {Missing, Unchanged, Changed}"
  by (cases "(c, b)" rule: delta_from_base.cases) auto

lemma plan_ongoing_file_match_total:
  "local_delta \<in> {Missing, Unchanged, Changed} \<Longrightarrow>
   plan_ongoing_file_match p l r base local_delta remote_delta nm \<noteq> None"
  by (cases remote_delta)
    (auto simp: plan_ongoing_file_match_def Let_def split: option.splits)

lemma plan_ongoing_file_action_total: "plan_ongoing_file_action p l r base nm \<noteq> None"
  using delta_from_base_range plan_ongoing_file_match_total
  by (simp add: plan_ongoing_file_action_def Let_def split: option.splits)

lemma ongoing_file_the:
  "the (plan_ongoing_file_action p l r base nm) = Some a \<Longrightarrow>
   plan_ongoing_file_action p l r base nm = Some (Some a)"
  using plan_ongoing_file_action_total[of p l r base nm] by auto

lemma delta_from_base_Unchanged:
  "delta_from_base (map_option lf_sha1_hash l) (Some h) = Unchanged \<longleftrightarrow> (\<exists>f. l = Some f \<and> lf_sha1_hash f = h)"
  by (cases l) auto

lemma delta_from_base_Missing:
  "delta_from_base (map_option lf_sha1_hash l) (Some h) = Missing \<longleftrightarrow> l = None"
  by (cases l) auto

lemma delta_from_base_Changed:
  "delta_from_base (map_option lf_sha1_hash l) (Some h) = Changed \<longleftrightarrow> (\<exists>f. l = Some f \<and> lf_sha1_hash f \<noteq> h)"
  by (cases l) auto

lemma remote_file_delta_Missing:
  "fr_sha1_hash base = Some h \<Longrightarrow> remote_file_delta r base = Missing \<longleftrightarrow> r = None"
  by (auto simp: remote_file_delta_def split: option.splits)

lemma remote_file_delta_Unchanged:
  "fr_sha1_hash base = Some h \<Longrightarrow> remote_file_delta r base = Unchanged \<longleftrightarrow>
   (\<exists>f. r = Some f \<and> rf_downloadable f \<and> rf_sha1_hash f = Some h)"
  by (auto simp: remote_file_delta_def split: option.splits)

text \<open>Every action a path plans to is about that path.\<close>

lemma sized_if_simps [simp]:
  "pa_path (sized_if l a) = pa_path a" "pa_action (sized_if l a) = pa_action a"
  "pa_entity_kind (sized_if l a) = pa_entity_kind a"
  "pa_destination_path (sized_if l a) = pa_destination_path a"
  by (simp_all add: sized_if_def split: option.splits)

lemma bootstrap_file_path:
  "plan_bootstrap_file_action p l r nm = Some a \<Longrightarrow>
   pa_path a = p \<and> \<not> is_destructive (pa_action a) \<and> pa_destination_path a = None"
  by (cases "(p, l, r, nm)" rule: plan_bootstrap_file_action.cases) (auto split: if_splits)

lemma bootstrap_path:
  "plan_bootstrap_entity_action p l r nm = Some a \<Longrightarrow>
   pa_path a = p \<and> \<not> is_destructive (pa_action a) \<and> pa_destination_path a = None"
  by (cases "(p, l, r, nm)" rule: plan_bootstrap_entity_action.cases)
    (auto simp del: plan_bootstrap_file_action.simps dest: bootstrap_file_path)

lemma modified_path:
  "plan_modified_record_action p l r base ld rd nm = Some a \<Longrightarrow>
   pa_path a = p \<and> \<not> is_destructive (pa_action a) \<and> pa_destination_path a = None"
  by (auto simp: plan_modified_record_action_def split: option.splits if_splits file_delta.splits)

lemma ongoing_match_path:
  "plan_ongoing_file_match p l r base ld rd nm = Some (Some a) \<Longrightarrow>
   pa_path a = p \<and> pa_destination_path a = None"
  by (auto simp: plan_ongoing_file_match_def Let_def split: option.splits if_splits file_delta.splits)

lemma ongoing_file_path:
  "plan_ongoing_file_action p l r base nm = Some (Some a) \<Longrightarrow>
   pa_path a = p \<and> pa_destination_path a = None"
  by (auto simp: plan_ongoing_file_action_def Let_def split: option.splits if_splits
      dest: ongoing_match_path modified_path)

lemma ongoing_directory_path:
  "plan_ongoing_directory_action p l r base vs = Some a \<Longrightarrow>
   pa_path a = p \<and> pa_destination_path a = None"
  by (auto simp: plan_ongoing_directory_action_def Let_def split: if_splits bool.splits)

lemma type_conflict_path:
  "pa_path (plan_type_conflict_action p l r b nm) = p"
  "pa_action (plan_type_conflict_action p l r b nm) = TypeConflict"
  "pa_destination_path (plan_type_conflict_action p l r b nm) = None"
  by (simp_all add: plan_type_conflict_action_def
      split: option.splits local_entity_state.splits remote_entity.splits)

lemma plan_entity_action_path:
  "plan_entity_action p l r b bootstrap vs nm = Some a \<Longrightarrow>
   pa_path a = p \<and> pa_destination_path a = None"
  by (auto simp: plan_entity_action_def type_conflict_path split: if_splits option.splits
      dest: bootstrap_path ongoing_directory_path ongoing_file_path ongoing_file_the)

text \<open>A verdict is read at the path itself and nowhere else.\<close>

lemma plan_entity_action_verdict_cong:
  "hm_get vs p = hm_get vs' p \<Longrightarrow>
   plan_entity_action p l r b bootstrap vs nm = plan_entity_action p l r b bootstrap vs' nm"
proof -
  assume "hm_get vs p = hm_get vs' p"
  then have eq: "subtree_is_deletion_consistent p vs = subtree_is_deletion_consistent p vs'"
    by (simp add: subtree_is_deletion_consistent_def)
  have "plan_ongoing_directory_action p l r base vs = plan_ongoing_directory_action p l r base vs'"
    for l r base
    unfolding plan_ongoing_directory_action_def eq ..
  then show ?thesis unfolding plan_entity_action_def by (simp only:)
qed

subsection \<open>What a planned deletion proves\<close>

lemma ongoing_file_destructive:
  assumes "plan_ongoing_file_action p l r base nm = Some (Some a)" "is_destructive (pa_action a)"
  obtains h where "fr_sha1_hash base = Some h"
    "pa_entity_kind a = File"
    "(pa_action a = LocalDelete \<and> r = None \<and> fr_sync_status base = Synced \<and>
        (\<exists>f. l = Some f \<and> lf_sha1_hash f = h)) \<or>
     (pa_action a = RemoteDelete \<and> l = None \<and> fr_sync_status base \<noteq> StatusConflict \<and>
        (\<exists>f. r = Some f \<and> rf_downloadable f \<and> rf_sha1_hash f = Some h)) \<or>
     (pa_action a = Purge \<and> l = None \<and> r = None)"
proof -
  from assms(1) obtain h where h: "fr_sha1_hash base = Some h"
    by (auto simp: plan_ongoing_file_action_def split: option.splits)
  let ?ld = "delta_from_base (map_option lf_sha1_hash l) (Some h)"
  let ?rd = "remote_file_delta r base"
  from assms h have m: "plan_ongoing_file_match p l r base ?ld ?rd nm = Some (Some a)"
    and nmod: "fr_sync_status base = Modified \<Longrightarrow> plan_modified_record_action p l r base ?ld ?rd nm = None"
    and nconf: "fr_sync_status base = StatusConflict \<Longrightarrow> ?ld = Missing \<and> ?rd = Missing"
    by (auto simp: plan_ongoing_file_action_def Let_def split: option.splits if_splits
        dest: modified_path)
  from m assms(2) consider "?ld = Missing" "?rd = Unchanged" "pa_action a = RemoteDelete" "pa_entity_kind a = File"
    | "?ld = Unchanged" "?rd = Missing" "pa_action a = LocalDelete" "pa_entity_kind a = File"
    | "?ld = Missing" "?rd = Missing" "pa_action a = Purge" "pa_entity_kind a = File"
    by (auto simp: plan_ongoing_file_match_def Let_def split: option.splits if_splits file_delta.splits)
  then show thesis
  proof cases
    case 1
    then have "fr_sync_status base \<noteq> StatusConflict" using nconf by auto
    with 1 show thesis using that[OF h]
      by (auto simp: delta_from_base_Missing remote_file_delta_Unchanged[OF h])
  next
    case 2
    from 2 obtain f where f: "l = Some f" by (auto simp: delta_from_base_Unchanged)
    have "fr_sync_status base \<noteq> Modified"
      using nmod 2 f by (auto simp: plan_modified_record_action_def split: if_splits)
    then have "fr_sync_status base = Synced" using nconf 2 by (cases "fr_sync_status base") auto
    with 2 show thesis using that[OF h]
      by (auto simp: delta_from_base_Unchanged remote_file_delta_Missing[OF h])
  next
    case 3
    then show thesis using that[OF h]
      by (auto simp: delta_from_base_Missing remote_file_delta_Missing[OF h])
  qed
qed

lemma ongoing_directory_destructive:
  assumes "plan_ongoing_directory_action p l r base vs = Some a" "is_destructive (pa_action a)"
  shows "pa_entity_kind a = Directory \<and>
    ((pa_action a = LocalDelete \<and> l \<noteq> None \<and> r = None \<and> hm_get vs p = Some True) \<or>
     (pa_action a = RemoteDelete \<and> l = None \<and> r \<noteq> None \<and> hm_get vs p = Some True) \<or>
     (pa_action a = Purge \<and> l = None \<and> r = None))"
  using assms
  by (auto simp: plan_ongoing_directory_action_def subtree_is_deletion_consistent_def Let_def
      split: if_splits bool.splits option.splits)

text \<open>Past the clash tests, the live sides and the base record agree on the kind.\<close>

lemma plan_entity_action_destructive_cases:
  assumes "plan_entity_action p l r b bootstrap vs nm = Some a" "is_destructive (pa_action a)"
  obtains base where "b = Some base" "\<not> bootstrap"
    "\<not> is_live_kind_clash l r" "\<not> only_base_kind_is_stale l r b"
    "fr_entity_kind base = Directory \<Longrightarrow>
       plan_ongoing_directory_action p (bind_local_dir l) (bind_remote_dir r) base vs = Some a"
    "fr_entity_kind base = File \<Longrightarrow>
       plan_ongoing_file_action p (bind_local_file l) (bind_remote_file r) base nm = Some (Some a)"
proof -
  from assms obtain base where b: "b = Some base" "\<not> bootstrap"
    "\<not> is_live_kind_clash l r" "\<not> only_base_kind_is_stale l r b"
    "(if fr_entity_kind base = Directory
      then plan_ongoing_directory_action p (bind_local_dir l) (bind_remote_dir r) base vs
      else the (plan_ongoing_file_action p (bind_local_file l) (bind_remote_file r) base nm)) = Some a"
    by (auto simp: plan_entity_action_def type_conflict_path split: if_splits option.splits
        dest: bootstrap_path)
  with plan_ongoing_file_action_total[of p "bind_local_file l" "bind_remote_file r" base nm] that
  show thesis by (cases "fr_entity_kind base") auto
qed

lemma same_kind_file:
  assumes "\<not> only_base_kind_is_stale l r (Some base)" "fr_entity_kind base = File"
  shows "l = map_option LocalFile (bind_local_file l)" "r = map_option RemoteFile (bind_remote_file r)"
  using assms
  by (cases l; simp add: only_base_kind_is_stale_def; rename_tac e; case_tac e; simp)
    (use assms in \<open>cases r; simp add: only_base_kind_is_stale_def; rename_tac e; case_tac e; simp\<close>)

lemma same_kind_directory:
  assumes "\<not> only_base_kind_is_stale l r (Some base)" "fr_entity_kind base = Directory"
  shows "l = map_option LocalDirectory (bind_local_dir l)" "r = map_option RemoteDirectory (bind_remote_dir r)"
  using assms
  by (cases l; simp add: only_base_kind_is_stale_def; rename_tac e; case_tac e; simp)
    (use assms in \<open>cases r; simp add: only_base_kind_is_stale_def; rename_tac e; case_tac e; simp\<close>)

lemma entity_local_delete:
  assumes "plan_entity_action p l r b bootstrap vs nm = Some a" "pa_action a = LocalDelete"
  obtains base where "b = Some base" "r = None"
    "(\<exists>f. l = Some (LocalFile f) \<and> fr_entity_kind base = File \<and>
          fr_sha1_hash base = Some (lf_sha1_hash f) \<and> fr_sync_status base = Synced \<and>
          pa_entity_kind a = File) \<or>
     (\<exists>d. l = Some (LocalDirectory d) \<and> fr_entity_kind base = Directory \<and>
          hm_get vs p = Some True \<and> pa_entity_kind a = Directory)"
proof -
  from assms have "is_destructive (pa_action a)" by simp
  from plan_entity_action_destructive_cases[OF assms(1) this] obtain base where
    base: "b = Some base" "\<not> only_base_kind_is_stale l r (Some base)"
    "fr_entity_kind base = Directory \<Longrightarrow>
       plan_ongoing_directory_action p (bind_local_dir l) (bind_remote_dir r) base vs = Some a"
    "fr_entity_kind base = File \<Longrightarrow>
       plan_ongoing_file_action p (bind_local_file l) (bind_remote_file r) base nm = Some (Some a)"
    by metis
  show thesis
  proof (cases "fr_entity_kind base")
    case File
    from base(4)[OF File] assms(2) same_kind_file[OF base(2) File] base(1) File show thesis
      by (elim ongoing_file_destructive) (auto intro!: that)
  next
    case Directory
    from ongoing_directory_destructive[OF base(3)[OF Directory]] assms(2)
      same_kind_directory[OF base(2) Directory] base(1) Directory show thesis
      by (auto intro!: that)
  qed
qed

lemma entity_remote_delete:
  assumes "plan_entity_action p l r b bootstrap vs nm = Some a" "pa_action a = RemoteDelete"
  obtains base where "b = Some base" "l = None"
    "(\<exists>f. r = Some (RemoteFile f) \<and> fr_entity_kind base = File \<and> rf_downloadable f \<and>
          rf_sha1_hash f = fr_sha1_hash base \<and> fr_sha1_hash base \<noteq> None \<and>
          fr_sync_status base \<noteq> StatusConflict \<and> pa_entity_kind a = File) \<or>
     (\<exists>d. r = Some (RemoteDirectory d) \<and> fr_entity_kind base = Directory \<and>
          hm_get vs p = Some True \<and> pa_entity_kind a = Directory)"
proof -
  from assms have "is_destructive (pa_action a)" by simp
  from plan_entity_action_destructive_cases[OF assms(1) this] obtain base where
    base: "b = Some base" "\<not> only_base_kind_is_stale l r (Some base)"
    "fr_entity_kind base = Directory \<Longrightarrow>
       plan_ongoing_directory_action p (bind_local_dir l) (bind_remote_dir r) base vs = Some a"
    "fr_entity_kind base = File \<Longrightarrow>
       plan_ongoing_file_action p (bind_local_file l) (bind_remote_file r) base nm = Some (Some a)"
    by metis
  show thesis
  proof (cases "fr_entity_kind base")
    case File
    from base(4)[OF File] assms(2) same_kind_file[OF base(2) File] base(1) File show thesis
      by (elim ongoing_file_destructive) (auto intro!: that)
  next
    case Directory
    from ongoing_directory_destructive[OF base(3)[OF Directory]] assms(2)
      same_kind_directory[OF base(2) Directory] base(1) Directory show thesis
      by (auto intro!: that)
  qed
qed

lemma entity_purge:
  assumes "plan_entity_action p l r b bootstrap vs nm = Some a" "pa_action a = Purge"
  shows "b \<noteq> None \<and> l = None \<and> r = None"
proof -
  from assms have "is_destructive (pa_action a)" by simp
  from plan_entity_action_destructive_cases[OF assms(1) this] obtain base where
    base: "b = Some base" "\<not> only_base_kind_is_stale l r (Some base)"
    "fr_entity_kind base = Directory \<Longrightarrow>
       plan_ongoing_directory_action p (bind_local_dir l) (bind_remote_dir r) base vs = Some a"
    "fr_entity_kind base = File \<Longrightarrow>
       plan_ongoing_file_action p (bind_local_file l) (bind_remote_file r) base nm = Some (Some a)"
    by metis
  show ?thesis
  proof (cases "fr_entity_kind base")
    case File
    from base(4)[OF File] assms(2) same_kind_file[OF base(2) File] base(1) File show ?thesis
      by (elim ongoing_file_destructive) auto
  next
    case Directory
    from ongoing_directory_destructive[OF base(3)[OF Directory]] assms(2)
      same_kind_directory[OF base(2) Directory] base(1) Directory show ?thesis
      by auto
  qed
qed

lemma entity_untracked_not_destructive:
  "plan_entity_action p l r None bootstrap vs nm = Some a \<Longrightarrow> \<not> is_destructive (pa_action a)"
  using plan_entity_action_destructive_cases by fastforce

end
