(* ===== verification/Planner_Moves.thy ===== *)
theory Planner_Moves
  imports Planner_Entity
begin

text \<open>
  The path transitions of the planner (\<open>plan_file_path_transitions\<close> of \<^verbatim>\<open>src/sync.rs\<close>): renames are
  recognised before ordinary planning and the paths they account for are suppressed. The result does
  not depend on the iteration order of the maps.
\<close>

section \<open>Recognising one move\<close>

definition base_file_hash :: "file_record \<Rightarrow> bytes option" where
  "base_file_hash base = (if fr_entity_kind base = File then fr_sha1_hash base else None)"

definition base_directory_id :: "file_record \<Rightarrow> bytes option" where
  "base_directory_id base = (if fr_entity_kind base = Directory then fr_proton_id base else None)"

definition unique_remote_move_destination ::
  "path \<Rightarrow> file_record \<Rightarrow> bytes \<Rightarrow> local_map \<Rightarrow> remote_map \<Rightarrow> base_map \<Rightarrow> (path \<times> remote_file) option" where
  "unique_remote_move_destination old_path base base_hash L R B =
    sole (List.map_filter (\<lambda>(p, entity).
      (case remote_as_file entity of None \<Rightarrow> None
       | Some remote \<Rightarrow>
           if p = old_path \<or> hm_contains L p \<or> hm_contains B p \<or> rf_sha1_hash remote \<noteq> Some base_hash
           then None
           else (case fr_proton_id base of
               Some base_id \<Rightarrow> if rf_id remote \<noteq> base_id then None else Some (p, remote)
             | None \<Rightarrow> Some (p, remote)))) R)"

definition unique_local_move_destination ::
  "path \<Rightarrow> bytes \<Rightarrow> local_map \<Rightarrow> remote_map \<Rightarrow> base_map \<Rightarrow> path option" where
  "unique_local_move_destination old_path base_hash L R B =
    sole (List.map_filter (\<lambda>(p, entity).
      (case local_as_file entity of None \<Rightarrow> None
       | Some lf \<Rightarrow>
           if p = old_path \<or> hm_contains R p \<or> hm_contains B p \<or> lf_sha1_hash lf \<noteq> base_hash
           then None else Some p)) L)"

definition unique_remote_directory_move_destination ::
  "path \<Rightarrow> bytes \<Rightarrow> local_map \<Rightarrow> remote_map \<Rightarrow> base_map \<Rightarrow> path option" where
  "unique_remote_directory_move_destination old_path base_id L R B =
    sole (List.map_filter (\<lambda>(p, entity).
      (case remote_as_directory entity of None \<Rightarrow> None
       | Some remote \<Rightarrow>
           if p = old_path \<or> hm_contains L p \<or> hm_contains B p \<or> rd_id remote \<noteq> Some base_id
           then None else Some p)) R)"

definition plan_remote_file_move ::
  "path \<Rightarrow> local_map \<Rightarrow> remote_map \<Rightarrow> base_map \<Rightarrow> file_record \<Rightarrow> planned_action option" where
  "plan_remote_file_move old_path L R B base =
    (case base_file_hash base of None \<Rightarrow> None
     | Some base_hash \<Rightarrow>
         (case bind_local_file (hm_get L old_path) of None \<Rightarrow> None
          | Some lf \<Rightarrow>
              if lf_sha1_hash lf \<noteq> base_hash \<or> hm_contains R old_path then None
              else (case unique_remote_move_destination old_path base base_hash L R B of
                  None \<Rightarrow> None
                | Some (new_path, remote) \<Rightarrow>
                    Some (pa_move_local old_path new_path File (Some (rf_id remote))))))"

definition plan_local_rename_as_remote_move ::
  "path \<Rightarrow> local_map \<Rightarrow> remote_map \<Rightarrow> base_map \<Rightarrow> file_record \<Rightarrow> planned_action option" where
  "plan_local_rename_as_remote_move old_path L R B base =
    (case base_file_hash base of None \<Rightarrow> None
     | Some base_hash \<Rightarrow>
         if hm_contains L old_path then None
         else (case bind_remote_file (hm_get R old_path) of None \<Rightarrow> None
          | Some remote \<Rightarrow>
              if rf_sha1_hash remote \<noteq> Some base_hash then None
              else (case unique_local_move_destination old_path base_hash L R B of
                  None \<Rightarrow> None
                | Some new_path \<Rightarrow>
                    Some (pa_move_remote old_path (Some new_path) File (Some (rf_id remote))))))"

definition plan_remote_directory_move ::
  "path \<Rightarrow> local_map \<Rightarrow> remote_map \<Rightarrow> base_map \<Rightarrow> file_record \<Rightarrow> planned_action option" where
  "plan_remote_directory_move old_path L R B base =
    (case base_directory_id base of None \<Rightarrow> None
     | Some base_id \<Rightarrow>
         if bind_local_dir (hm_get L old_path) = None then None
         else if hm_contains R old_path then None
         else (case unique_remote_directory_move_destination old_path base_id L R B of
             None \<Rightarrow> None
           | Some new_path \<Rightarrow> Some (pa_move_local old_path new_path Directory (Some base_id))))"

definition is_strict_descendant :: "path \<Rightarrow> path \<Rightarrow> bool" where
  "is_strict_descendant ancestor candidate \<longleftrightarrow> candidate \<noteq> ancestor \<and> starts_with candidate ancestor"

definition directory_move_descendant_path_pairs :: "path \<Rightarrow> path \<Rightarrow> base_map \<Rightarrow> (path \<times> path) list" where
  "directory_move_descendant_path_pairs old_path new_path B =
    List.map_filter (\<lambda>p.
      (case strip_prefix p old_path of None \<Rightarrow> None
       | Some relative \<Rightarrow> Some (p, join_path new_path relative)))
    (filter (is_strict_descendant old_path) (hm_keys B))"

section \<open>All moves\<close>

text \<open>The choice for one base path: the three recognisers in order, then the representability filter
  over whatever they answered.\<close>

definition transition_action ::
  "path \<Rightarrow> local_map \<Rightarrow> remote_map \<Rightarrow> base_map \<Rightarrow> file_record \<Rightarrow> planned_action option" where
  "transition_action p L R B base =
    opt_filter (\<lambda>a. case pa_destination_path a of None \<Rightarrow> True | Some d \<Rightarrow> is_representable_remotely d)
      (or_else (plan_remote_file_move p L R B base)
        (or_else (plan_local_rename_as_remote_move p L R B base)
          (plan_remote_directory_move p L R B base)))"

text \<open>The loop state: the actions in order, the suppressed paths, the sources of directory moves.\<close>

type_synonym transition_state = "planned_action list \<times> path set \<times> path set"

definition transition_step ::
  "local_map \<Rightarrow> remote_map \<Rightarrow> base_map \<Rightarrow> transition_state \<Rightarrow> path \<Rightarrow> transition_state" where
  "transition_step L R B st p =
    (case st of (actions, suppressed, sources) \<Rightarrow>
      if p \<in> suppressed then st
      else (case hm_get B p of None \<Rightarrow> st
        | Some base \<Rightarrow>
            (case transition_action p L R B base of None \<Rightarrow> st
             | Some action \<Rightarrow>
                 (let suppressed1 = insert (pa_path action) suppressed;
                      (suppressed2, sources2) =
                        (case pa_destination_path action of None \<Rightarrow> (suppressed1, sources)
                         | Some destination \<Rightarrow>
                             if pa_entity_kind action = Directory then
                               (insert destination suppressed1 \<union>
                                  set (concat (map (\<lambda>(a, b). [a, b])
                                    (directory_move_descendant_path_pairs (pa_path action) destination B))),
                                if pa_action action = MoveLocal then insert (pa_path action) sources
                                else sources)
                             else (insert destination suppressed1, sources))
                  in (actions @ [action], suppressed2, sources2)))))"

text \<open>The untracked live descendants of a moved directory are left to the next pass.\<close>

definition suppress_untracked_descendants ::
  "local_map \<Rightarrow> base_map \<Rightarrow> path set \<Rightarrow> path set \<Rightarrow> path set" where
  "suppress_untracked_descendants L B sources suppressed =
    (if sources = {} then suppressed
     else suppressed \<union> set (filter (\<lambda>p.
       \<not> hm_contains B p \<and> list_ex (\<lambda>a. a \<in> sources) (drop 1 (ancestors p))) (hm_keys L)))"

definition plan_file_path_transitions ::
  "local_map \<Rightarrow> remote_map \<Rightarrow> base_map \<Rightarrow> planned_action list \<times> path set" where
  "plan_file_path_transitions L R B =
    (case foldl (transition_step L R B) ([], {}, {}) (sort (hm_keys B)) of
       (actions, suppressed, sources) \<Rightarrow>
         (actions, suppress_untracked_descendants L B sources suppressed))"

section \<open>Laws\<close>

lemma remote_file_move_shape:
  "plan_remote_file_move p L R B base = Some a \<Longrightarrow>
   pa_path a = p \<and> pa_action a = MoveLocal \<and> pa_entity_kind a = File \<and> pa_destination_path a \<noteq> None"
  by (auto simp: plan_remote_file_move_def split: option.splits if_splits)

lemma local_rename_shape:
  "plan_local_rename_as_remote_move p L R B base = Some a \<Longrightarrow>
   pa_path a = p \<and> pa_action a = MoveRemote \<and> pa_entity_kind a = File \<and> pa_destination_path a \<noteq> None"
  by (auto simp: plan_local_rename_as_remote_move_def split: option.splits if_splits)

lemma remote_directory_move_shape:
  "plan_remote_directory_move p L R B base = Some a \<Longrightarrow>
   pa_path a = p \<and> pa_action a = MoveLocal \<and> pa_entity_kind a = Directory \<and> pa_destination_path a \<noteq> None"
  by (auto simp: plan_remote_directory_move_def split: option.splits if_splits)

lemma transition_action_shape:
  "transition_action p L R B base = Some a \<Longrightarrow>
   pa_path a = p \<and> pa_action a \<in> {MoveLocal, MoveRemote} \<and> pa_destination_path a \<noteq> None"
  by (auto simp: transition_action_def or_else_Some
      dest!: remote_file_move_shape local_rename_shape remote_directory_move_shape)

lemma set_map_filter: "set (List.map_filter f xs) = {y. \<exists>x \<in> set xs. f x = Some y}"
  by (auto simp: map_filter_def image_iff) (metis option.sel)

text \<open>What the evidence for a move is: the destination is new to the other side and to the index.\<close>

lemma sole_map_filter_Some:
  "sole (List.map_filter f xs) = Some y \<Longrightarrow> \<exists>x \<in> set xs. f x = Some y"
proof -
  assume "sole (List.map_filter f xs) = Some y"
  then have "set (List.map_filter f xs) = {y}" by (simp add: sole_Some)
  then have "y \<in> set (List.map_filter f xs)" by simp
  then show ?thesis by (simp add: set_map_filter)
qed

lemma sole_map_filter_mset:
  "mset xs = mset ys \<Longrightarrow> sole (List.map_filter f xs) = sole (List.map_filter f ys)"
  by (intro sole_mset mset_filter_map_cong)

lemma unique_remote_move_destination_Some:
  assumes "unique_remote_move_destination old base h L R B = Some (p, rf)" "hm_wf R"
  shows "hm_get R p = Some (RemoteFile rf)" "p \<noteq> old" "\<not> hm_contains L p" "\<not> hm_contains B p"
    "rf_sha1_hash rf = Some h" "fr_proton_id base \<noteq> None \<Longrightarrow> fr_proton_id base = Some (rf_id rf)"
proof -
  from sole_map_filter_Some[OF assms(1)[unfolded unique_remote_move_destination_def]]
  obtain e where e: "(p, e) \<in> set R" "remote_as_file e = Some rf"
    and rest: "p \<noteq> old" "\<not> hm_contains L p" "\<not> hm_contains B p"
    "rf_sha1_hash rf = Some h" "fr_proton_id base \<noteq> None \<Longrightarrow> fr_proton_id base = Some (rf_id rf)"
    by (auto split: option.splits if_splits)
  from e have "e = RemoteFile rf" by (cases e) auto
  with e hm_in_get[OF assms(2)] show "hm_get R p = Some (RemoteFile rf)" by auto
  from rest show "p \<noteq> old" "\<not> hm_contains L p" "\<not> hm_contains B p" "rf_sha1_hash rf = Some h"
    "fr_proton_id base \<noteq> None \<Longrightarrow> fr_proton_id base = Some (rf_id rf)" by auto
qed

lemma unique_local_move_destination_Some:
  assumes "unique_local_move_destination old h L R B = Some p" "hm_wf L"
  shows "\<exists>lf. hm_get L p = Some (LocalFile lf) \<and> lf_sha1_hash lf = h"
    "p \<noteq> old" "\<not> hm_contains R p" "\<not> hm_contains B p"
proof -
  from sole_map_filter_Some[OF assms(1)[unfolded unique_local_move_destination_def]]
  obtain e lf where e: "(p, e) \<in> set L" "local_as_file e = Some lf"
    and rest: "p \<noteq> old" "\<not> hm_contains R p" "\<not> hm_contains B p" "lf_sha1_hash lf = h"
    by (auto split: option.splits if_splits)
  from e have "e = LocalFile lf" by (cases e) auto
  with e hm_in_get[OF assms(2)] rest(4) show "\<exists>lf. hm_get L p = Some (LocalFile lf) \<and> lf_sha1_hash lf = h"
    by auto
  from rest show "p \<noteq> old" "\<not> hm_contains R p" "\<not> hm_contains B p" by auto
qed

subsection \<open>Iteration order\<close>

lemma hm_contains_cong: "hm_get m = hm_get m' \<Longrightarrow> hm_contains m = hm_contains m'"
  by (simp add: hm_contains_def fun_eq_iff)

lemma unique_remote_move_destination_cong:
  assumes "hm_get L = hm_get L'" "hm_get B = hm_get B'" "mset R = mset R'"
  shows "unique_remote_move_destination p base h L R B = unique_remote_move_destination p base h L' R' B'"
  unfolding unique_remote_move_destination_def hm_contains_cong[OF assms(1)] hm_contains_cong[OF assms(2)]
  using assms(3) by (rule sole_map_filter_mset)

lemma unique_local_move_destination_cong:
  assumes "hm_get R = hm_get R'" "hm_get B = hm_get B'" "mset L = mset L'"
  shows "unique_local_move_destination p h L R B = unique_local_move_destination p h L' R' B'"
  unfolding unique_local_move_destination_def hm_contains_cong[OF assms(1)] hm_contains_cong[OF assms(2)]
  using assms(3) by (rule sole_map_filter_mset)

lemma unique_remote_directory_move_destination_cong:
  assumes "hm_get L = hm_get L'" "hm_get B = hm_get B'" "mset R = mset R'"
  shows "unique_remote_directory_move_destination p i L R B = unique_remote_directory_move_destination p i L' R' B'"
  unfolding unique_remote_directory_move_destination_def hm_contains_cong[OF assms(1)] hm_contains_cong[OF assms(2)]
  using assms(3) by (rule sole_map_filter_mset)

text \<open>Two triples of maps that hold the same entries.\<close>

definition same_state ::
  "local_map \<Rightarrow> remote_map \<Rightarrow> base_map \<Rightarrow> local_map \<Rightarrow> remote_map \<Rightarrow> base_map \<Rightarrow> bool" where
  "same_state L R B L' R' B' \<longleftrightarrow>
     hm_wf L \<and> hm_wf L' \<and> hm_get L = hm_get L' \<and>
     hm_wf R \<and> hm_wf R' \<and> hm_get R = hm_get R' \<and>
     hm_wf B \<and> hm_wf B' \<and> hm_get B = hm_get B'"

lemma transition_action_cong:
  assumes "same_state L R B L' R' B'"
  shows "transition_action p L R B base = transition_action p L' R' B' base"
proof -
  from assms have g: "hm_get L = hm_get L'" "hm_get R = hm_get R'" "hm_get B = hm_get B'"
    and m: "mset L = mset L'" "mset R = mset R'"
    by (auto simp: same_state_def intro: hm_mset_eq)
  note c = unique_remote_move_destination_cong[OF g(1) g(3) m(2)]
    unique_local_move_destination_cong[OF g(2) g(3) m(1)]
    unique_remote_directory_move_destination_cong[OF g(1) g(3) m(2)]
    hm_contains_cong[OF g(1)] hm_contains_cong[OF g(2)]
  show ?thesis
    unfolding transition_action_def plan_remote_file_move_def plan_local_rename_as_remote_move_def
      plan_remote_directory_move_def c g ..
qed

lemma descendant_pairs_cong:
  "set (hm_keys B) = set (hm_keys B') \<Longrightarrow>
   set (directory_move_descendant_path_pairs old new B) =
   set (directory_move_descendant_path_pairs old new B')"
  by (simp add: directory_move_descendant_path_pairs_def set_map_filter)

lemma transition_step_cong:
  assumes "same_state L R B L' R' B'"
  shows "transition_step L R B st p = transition_step L' R' B' st p"
proof -
  from assms have g: "hm_get B = hm_get B'" by (simp add: same_state_def)
  have d: "set (directory_move_descendant_path_pairs a b B) = set (directory_move_descendant_path_pairs a b B')"
    for a b
    by (rule descendant_pairs_cong[OF hm_keys_eq[OF g]])
  have s: "set (concat (map (\<lambda>(a, b). [a, b]) (directory_move_descendant_path_pairs a b B))) =
      set (concat (map (\<lambda>(a, b). [a, b]) (directory_move_descendant_path_pairs a b B')))" for a b
    by (simp add: d)
  show ?thesis
    unfolding transition_step_def transition_action_cong[OF assms] g s ..
qed

lemma suppress_untracked_descendants_cong:
  assumes "hm_get L = hm_get L'" "hm_get B = hm_get B'"
  shows "suppress_untracked_descendants L B = suppress_untracked_descendants L' B'"
  using hm_keys_eq[OF assms(1)]
  by (simp add: suppress_untracked_descendants_def fun_eq_iff hm_contains_cong[OF assms(2)])

lemma sort_keys_cong:
  assumes "hm_wf B" "hm_wf B'" "hm_get B = hm_get B'"
  shows "sort (hm_keys B) = sort (hm_keys B')"
proof -
  from hm_mset_eq[OF assms] have "mset (hm_keys B) = mset (hm_keys B')"
    by (simp add: hm_keys_def)
  then show ?thesis by (metis sorted_list_of_multiset_mset)
qed

lemma plan_file_path_transitions_cong:
  assumes "same_state L R B L' R' B'"
  shows "plan_file_path_transitions L R B = plan_file_path_transitions L' R' B'"
proof -
  from assms have g: "hm_get L = hm_get L'" "hm_get B = hm_get B'" and k: "sort (hm_keys B) = sort (hm_keys B')"
    by (auto simp: same_state_def intro: sort_keys_cong)
  have "transition_step L R B = transition_step L' R' B'"
    by (intro ext transition_step_cong assms)
  then show ?thesis
    unfolding plan_file_path_transitions_def k suppress_untracked_descendants_cong[OF g] by simp
qed

end
