(* ===== verification/Planner_Verdicts.thy ===== *)
theory Planner_Verdicts
  imports Planner_Moves
begin

text \<open>
  The deletion proof of the planner (\<open>compute_directory_deletion_verdicts\<close> of \<^verbatim>\<open>src/sync.rs\<close>): one
  bottom-up pass over the base index decides for every tracked directory whether its whole subtree is
  a clean one-sided deletion. The pass is shown to compute exactly that declarative statement
  (\<open>subtree_clean_spec\<close>), which does not mention the order of the visit.
\<close>

section \<open>The pass\<close>

definition any_base_directory_is_one_sided :: "local_map \<Rightarrow> remote_map \<Rightarrow> base_map \<Rightarrow> bool" where
  "any_base_directory_is_one_sided L R B =
    list_ex (\<lambda>(p, _). (bind_local_dir (hm_get L p) \<noteq> None) \<noteq> (bind_remote_dir (hm_get R p) \<noteq> None))
      (filter (\<lambda>(_, record). fr_entity_kind record = Directory) B)"

definition nearest_tracked_ancestor :: "path \<Rightarrow> base_map \<Rightarrow> path option" where
  "nearest_tracked_ancestor p B = find (hm_contains B) (drop 1 (ancestors p))"

definition falsify_untracked :: "base_map \<Rightarrow> verdicts \<Rightarrow> path \<Rightarrow> verdicts" where
  "falsify_untracked B clean p =
    (if hm_contains B p then clean
     else (case nearest_tracked_ancestor p B of
         Some ancestor \<Rightarrow> hm_insert ancestor False clean
       | None \<Rightarrow> clean))"

definition is_planned_deletion :: "planned_action option \<Rightarrow> bool" where
  "is_planned_deletion a =
    (case map_option pa_action a of
       Some RemoteDelete \<Rightarrow> True | Some LocalDelete \<Rightarrow> True | Some Purge \<Rightarrow> True | _ \<Rightarrow> False)"

definition verdict_step ::
  "local_map \<Rightarrow> remote_map \<Rightarrow> base_map \<Rightarrow> path set \<Rightarrow> conflict_naming \<Rightarrow>
   verdicts \<times> verdicts \<Rightarrow> path \<times> file_record \<Rightarrow> verdicts \<times> verdicts" where
  "verdict_step L R B S nm st entry =
    (case (st, entry) of ((subtree_clean, vs), (p, base)) \<Rightarrow>
      (let clean = (case hm_get subtree_clean p of Some c \<Rightarrow> c | None \<Rightarrow> False);
           vs1 = (if fr_entity_kind base = Directory then hm_insert p clean vs else vs);
           resolves = (p \<notin> S \<and> is_planned_deletion
             (plan_entity_action p (hm_get L p) (hm_get R p) (Some base) (B = []) vs1 nm));
           subtree_clean1 =
             (if \<not> (clean \<and> resolves)
              then (case nearest_tracked_ancestor p B of
                  Some ancestor \<Rightarrow> hm_insert ancestor False subtree_clean
                | None \<Rightarrow> subtree_clean)
              else subtree_clean)
       in (subtree_clean1, vs1)))"

definition deepest_first :: "base_map \<Rightarrow> base_map" where
  "deepest_first B = sort_key (\<lambda>(p, _). - int (length p)) B"

definition compute_directory_deletion_verdicts ::
  "local_map \<Rightarrow> remote_map \<Rightarrow> base_map \<Rightarrow> path set \<Rightarrow> conflict_naming \<Rightarrow> verdicts" where
  "compute_directory_deletion_verdicts L R B S nm =
    (if \<not> any_base_directory_is_one_sided L R B then []
     else
       (let seeded = map (\<lambda>p. (p, True)) (hm_keys B);
            subtree_clean = foldl (falsify_untracked B) seeded (hm_keys L @ hm_keys R)
        in snd (foldl (verdict_step L R B S nm) (subtree_clean, []) (deepest_first B))))"

section \<open>The statement it computes\<close>

definition relative_map :: "(path, 'v) hmap \<Rightarrow> bool" where
  "relative_map m = list_all (\<lambda>p. RootDir \<notin> set p) (hm_keys m)"

text \<open>A path whose own resolution is a deletion, were everything below it clean.\<close>

definition resolves_to_deletion ::
  "local_map \<Rightarrow> remote_map \<Rightarrow> base_map \<Rightarrow> path set \<Rightarrow> conflict_naming \<Rightarrow> path \<Rightarrow> bool" where
  "resolves_to_deletion L R B S nm p \<longleftrightarrow>
     p \<notin> S \<and> is_planned_deletion
       (plan_entity_action p (hm_get L p) (hm_get R p) (hm_get B p) (B = []) [(p, True)] nm)"

definition live_path :: "local_map \<Rightarrow> remote_map \<Rightarrow> path \<Rightarrow> bool" where
  "live_path L R p \<longleftrightarrow> hm_contains L p \<or> hm_contains R p"

definition subtree_clean_spec ::
  "local_map \<Rightarrow> remote_map \<Rightarrow> base_map \<Rightarrow> path set \<Rightarrow> conflict_naming \<Rightarrow> path \<Rightarrow> bool" where
  "subtree_clean_spec L R B S nm p \<longleftrightarrow>
     (\<forall>q. live_path L R q \<and> \<not> hm_contains B q \<longrightarrow> \<not> strict_prefix p q) \<and>
     (\<forall>q. hm_contains B q \<and> strict_prefix p q \<longrightarrow> resolves_to_deletion L R B S nm q)"

section \<open>The nearest tracked ancestor\<close>

lemma is_planned_deletion_iff:
  "is_planned_deletion a \<longleftrightarrow> (\<exists>x. a = Some x \<and> is_destructive (pa_action x))"
proof (cases a)
  case (Some x)
  then show ?thesis by (cases "pa_action x") (simp_all add: is_planned_deletion_def)
qed (simp add: is_planned_deletion_def)

lemma nta_rec:
  "nearest_tracked_ancestor p B =
    (case path_parent p of None \<Rightarrow> None
     | Some q \<Rightarrow> if hm_contains B q then Some q else nearest_tracked_ancestor q B)"
proof (cases "path_parent p")
  case None
  then show ?thesis by (simp add: nearest_tracked_ancestor_def ancestors.simps[of p])
next
  case (Some q)
  then show ?thesis
    by (simp add: nearest_tracked_ancestor_def ancestors.simps[of p] ancestors.simps[of q])
qed

lemma nta_Some: "nearest_tracked_ancestor p B = Some a \<Longrightarrow> hm_contains B a \<and> strict_prefix a p"
proof (induction p rule: measure_induct_rule[of length])
  case (less p)
  from less.prems obtain q where q: "path_parent p = Some q"
    by (subst (asm) nta_rec) (auto split: option.splits)
  then have qp: "strict_prefix q p" by (rule path_parent_strict)
  show ?case
  proof (cases "hm_contains B q")
    case True
    with less.prems q qp show ?thesis by (subst (asm) nta_rec) auto
  next
    case False
    with less.prems q have "nearest_tracked_ancestor q B = Some a" by (subst (asm) nta_rec) auto
    with less.IH[OF prefix_length_less[OF qp]] qp show ?thesis
      by (auto intro: prefix_order.strict_trans)
  qed
qed

lemma nta_closest:
  "RootDir \<notin> set p \<Longrightarrow> hm_contains B t \<Longrightarrow> strict_prefix t p \<Longrightarrow>
   \<exists>a. nearest_tracked_ancestor p B = Some a \<and> prefix t a"
proof (induction p rule: rev_induct)
  case Nil
  then show ?case by simp
next
  case (snoc c p)
  then have par: "path_parent (p @ [c]) = Some p" by (auto simp: path_parent_def)
  from snoc.prems have tp: "prefix t p" by (auto simp: strict_prefix_def prefix_snoc)
  show ?case
  proof (cases "hm_contains B p")
    case True
    with par tp show ?thesis by (subst nta_rec) simp
  next
    case False
    with snoc.prems tp have "strict_prefix t p" by (auto simp: strict_prefix_def)
    with snoc par False show ?thesis by (subst nta_rec) simp
  qed
qed

lemma tracked_child_towards:
  assumes rel: "relative_map B"
  shows "hm_contains B p \<Longrightarrow> hm_contains B q \<Longrightarrow> strict_prefix p q \<Longrightarrow>
    \<exists>c. hm_contains B c \<and> nearest_tracked_ancestor c B = Some p \<and> prefix c q"
proof (induction q rule: measure_induct_rule[of length])
  case (less q)
  have "RootDir \<notin> set q" using rel less.prems(2) by (auto simp: relative_map_def list_all_iff hm_contains_iff)
  from nta_closest[OF this less.prems(1) less.prems(3)] obtain a where
    a: "nearest_tracked_ancestor q B = Some a" "prefix p a" by auto
  from nta_Some[OF a(1)] have at: "hm_contains B a" "strict_prefix a q" by auto
  show ?case
  proof (cases "a = p")
    case True
    with a less.prems show ?thesis by auto
  next
    case False
    with a(2) have "strict_prefix p a" by (auto simp: strict_prefix_def)
    from less.IH[OF prefix_length_less[OF at(2)] less.prems(1) at(1) this] at(2) show ?thesis
      by (meson prefix_order.less_imp_le prefix_order.trans)
  qed
qed

lemma subtree_clean_spec_rec:
  assumes rel: "relative_map L" "relative_map R" "relative_map B" and p: "hm_contains B p"
  shows "subtree_clean_spec L R B S nm p \<longleftrightarrow>
    (\<forall>q. live_path L R q \<and> \<not> hm_contains B q \<longrightarrow> nearest_tracked_ancestor q B \<noteq> Some p) \<and>
    (\<forall>q. hm_contains B q \<and> nearest_tracked_ancestor q B = Some p \<longrightarrow>
       resolves_to_deletion L R B S nm q \<and> subtree_clean_spec L R B S nm q)"
    (is "?l \<longleftrightarrow> ?r1 \<and> ?r2")
proof
  assume l: ?l
  then have ?r1 using nta_Some unfolding subtree_clean_spec_def by blast
  moreover have ?r2
  proof (intro allI impI)
    fix q assume q: "hm_contains B q \<and> nearest_tracked_ancestor q B = Some p"
    then have pq: "strict_prefix p q" using nta_Some by blast
    have "subtree_clean_spec L R B S nm q"
      using l pq unfolding subtree_clean_spec_def by (meson prefix_order.less_trans)
    moreover have "resolves_to_deletion L R B S nm q"
      using l q pq unfolding subtree_clean_spec_def by blast
    ultimately show "resolves_to_deletion L R B S nm q \<and> subtree_clean_spec L R B S nm q" by simp
  qed
  ultimately show "?r1 \<and> ?r2" by blast
next
  assume r: "?r1 \<and> ?r2"
  have live: False if q: "live_path L R q" "\<not> hm_contains B q" "strict_prefix p q" for q
  proof -
    have "RootDir \<notin> set q"
      using rel q(1) by (auto simp: relative_map_def list_all_iff hm_contains_iff live_path_def)
    from nta_closest[OF this p q(3)] obtain a where
      a: "nearest_tracked_ancestor q B = Some a" "prefix p a" by auto
    with r q have "a \<noteq> p" by blast
    with a have "strict_prefix p a" by (auto simp: strict_prefix_def)
    from nta_Some[OF a(1)] tracked_child_towards[OF rel(3) p _ this] obtain c where
      c: "hm_contains B c" "nearest_tracked_ancestor c B = Some p" "prefix c a" and aq: "strict_prefix a q" by blast
    from c r have "subtree_clean_spec L R B S nm c" by blast
    moreover have "strict_prefix c q" using c(3) aq by (meson prefix_order.le_less_trans)
    ultimately show False using q unfolding subtree_clean_spec_def by blast
  qed
  have "resolves_to_deletion L R B S nm q" if q: "hm_contains B q" "strict_prefix p q" for q
  proof -
    from tracked_child_towards[OF rel(3) p q] obtain c where
      c: "hm_contains B c" "nearest_tracked_ancestor c B = Some p" "prefix c q" by blast
    from c r have "resolves_to_deletion L R B S nm c" "subtree_clean_spec L R B S nm c" by blast+
    with c(3) q show ?thesis
      unfolding subtree_clean_spec_def by (cases "c = q") (auto simp: strict_prefix_def)
  qed
  with live show ?l unfolding subtree_clean_spec_def by blast
qed

section \<open>The pass computes the statement\<close>

lemma hm_get_insert: "hm_get (hm_insert k v m) = (hm_get m)(k \<mapsto> v)"
  by (rule hm.get_insert)

lemma plan_entity_action_file_verdicts:
  "fr_entity_kind base = File \<Longrightarrow>
   plan_entity_action p l r (Some base) bootstrap vs nm = plan_entity_action p l r (Some base) bootstrap vs' nm"
  by (simp add: plan_entity_action_def)

lemma falsify_untracked_get:
  "hm_get (falsify_untracked B m q) p =
    (if \<not> hm_contains B q \<and> nearest_tracked_ancestor q B = Some p then Some False else hm_get m p)"
  by (auto simp: falsify_untracked_def hm_get_insert split: option.splits)

lemma foldl_falsify_get:
  "hm_get (foldl (falsify_untracked B) m qs) p =
    (if \<exists>q \<in> set qs. \<not> hm_contains B q \<and> nearest_tracked_ancestor q B = Some p then Some False else hm_get m p)"
  by (induction qs arbitrary: m) (auto simp: falsify_untracked_get)

lemma seeded_get: "hm_get (map (\<lambda>p. (p, True)) ks) p = (if p \<in> set ks then Some True else None)"
  by (induction ks) auto

text \<open>The loop invariant: what is known of the two maps once the entries of \<open>done\<close> were visited.\<close>

definition verdict_inv ::
  "local_map \<Rightarrow> remote_map \<Rightarrow> base_map \<Rightarrow> path set \<Rightarrow> conflict_naming \<Rightarrow> base_map \<Rightarrow> verdicts \<times> verdicts \<Rightarrow> bool" where
  "verdict_inv L R B S nm visited st \<longleftrightarrow>
     (\<forall>p. hm_contains B p \<longrightarrow> hm_get (fst st) p = Some (
        (\<forall>q. live_path L R q \<and> \<not> hm_contains B q \<longrightarrow> nearest_tracked_ancestor q B \<noteq> Some p) \<and>
        (\<forall>q \<in> fst ` set visited. nearest_tracked_ancestor q B = Some p \<longrightarrow>
           resolves_to_deletion L R B S nm q \<and> subtree_clean_spec L R B S nm q))) \<and>
     (\<forall>p. hm_get (snd st) p =
        (if \<exists>b. (p, b) \<in> set visited \<and> fr_entity_kind b = Directory
         then Some (subtree_clean_spec L R B S nm p) else None))"

lemma verdict_inv_step:
  assumes rel: "relative_map L" "relative_map R" "relative_map B" and wf: "hm_wf B"
    and sub: "set (visited @ [(p, b)]) \<subseteq> set B" and fresh: "p \<notin> fst ` set visited"
    and children: "\<And>q. hm_contains B q \<Longrightarrow> nearest_tracked_ancestor q B = Some p \<Longrightarrow> q \<in> fst ` set visited"
    and inv: "verdict_inv L R B S nm visited st"
  shows "verdict_inv L R B S nm (visited @ [(p, b)]) (verdict_step L R B S nm st (p, b))"
proof -
  obtain sc vs where st: "st = (sc, vs)" by (cases st)
  let ?clean = "subtree_clean_spec L R B S nm" and ?res = "resolves_to_deletion L R B S nm"
  from wf sub have Bp: "hm_get B p = Some b" by (auto intro: hm_in_get)
  then have tp: "hm_contains B p" by (simp add: hm_contains_def)
  have vis: "q \<in> fst ` set visited \<Longrightarrow> hm_contains B q" for q
    using sub by (force simp: hm_contains_iff hm_keys_def)
  have kids: "(\<forall>q \<in> fst ` set visited. nearest_tracked_ancestor q B = Some p \<longrightarrow> ?res q \<and> ?clean q) \<longleftrightarrow>
      (\<forall>q. hm_contains B q \<and> nearest_tracked_ancestor q B = Some p \<longrightarrow> ?res q \<and> ?clean q)"
    using children vis by blast
  have "hm_get sc p = Some (
      (\<forall>q. live_path L R q \<and> \<not> hm_contains B q \<longrightarrow> nearest_tracked_ancestor q B \<noteq> Some p) \<and>
      (\<forall>q \<in> fst ` set visited. nearest_tracked_ancestor q B = Some p \<longrightarrow> ?res q \<and> ?clean q))"
    using inv tp by (simp add: verdict_inv_def st)
  then have "hm_get sc p = Some (?clean p)"
    unfolding kids subtree_clean_spec_rec[OF rel tp, symmetric] .
  then have clean: "(case hm_get sc p of Some c \<Rightarrow> c | None \<Rightarrow> False) = ?clean p" by simp
  define vs1 where "vs1 = (if fr_entity_kind b = Directory then hm_insert p (?clean p) vs else vs)"
  have res: "?clean p \<and> p \<notin> S \<and> is_planned_deletion
       (plan_entity_action p (hm_get L p) (hm_get R p) (Some b) (B = []) vs1 nm) \<longleftrightarrow>
     ?clean p \<and> ?res p" (is "?x \<longleftrightarrow> ?y")
  proof (cases "?clean p")
    case True
    have "plan_entity_action p (hm_get L p) (hm_get R p) (Some b) (B = []) vs1 nm =
      plan_entity_action p (hm_get L p) (hm_get R p) (Some b) (B = []) [(p, True)] nm"
    proof (cases "fr_entity_kind b")
      case File
      then show ?thesis by (rule plan_entity_action_file_verdicts)
    next
      case Directory
      then show ?thesis
        by (intro plan_entity_action_verdict_cong) (simp add: vs1_def True hm_get_insert)
    qed
    then show ?thesis by (simp add: resolves_to_deletion_def Bp)
  qed simp
  define sc1 where "sc1 = (if \<not> (?clean p \<and> ?res p)
      then (case nearest_tracked_ancestor p B of Some a \<Rightarrow> hm_insert a False sc | None \<Rightarrow> sc) else sc)"
  have step: "verdict_step L R B S nm st (p, b) = (sc1, vs1)"
    unfolding verdict_step_def st prod.case clean Let_def vs1_def[symmetric] res sc1_def ..
  have sc1: "hm_get sc1 t =
      (if \<not> (?clean p \<and> ?res p) \<and> nearest_tracked_ancestor p B = Some t then Some False else hm_get sc t)" for t
    by (auto simp: sc1_def hm_get_insert split: option.splits)
  have "hm_get sc1 t = Some (
        (\<forall>q. live_path L R q \<and> \<not> hm_contains B q \<longrightarrow> nearest_tracked_ancestor q B \<noteq> Some t) \<and>
        (\<forall>q \<in> fst ` set (visited @ [(p, b)]). nearest_tracked_ancestor q B = Some t \<longrightarrow> ?res q \<and> ?clean q))"
    if "hm_contains B t" for t
  proof (cases "\<not> (?clean p \<and> ?res p) \<and> nearest_tracked_ancestor p B = Some t")
    case True
    then show ?thesis by (auto simp: sc1)
  next
    case False
    have "hm_get sc t = Some (
        (\<forall>q. live_path L R q \<and> \<not> hm_contains B q \<longrightarrow> nearest_tracked_ancestor q B \<noteq> Some t) \<and>
        (\<forall>q \<in> fst ` set visited. nearest_tracked_ancestor q B = Some t \<longrightarrow> ?res q \<and> ?clean q))"
      using inv that by (simp add: verdict_inv_def st)
    with False show ?thesis by (simp add: sc1) blast
  qed
  moreover have "hm_get vs1 t = (if \<exists>b'. (t, b') \<in> set (visited @ [(p, b)]) \<and> fr_entity_kind b' = Directory
         then Some (?clean t) else None)" for t
  proof -
    have "hm_get vs t = (if \<exists>b'. (t, b') \<in> set visited \<and> fr_entity_kind b' = Directory
         then Some (?clean t) else None)" using inv by (simp add: verdict_inv_def st)
    with fresh show ?thesis by (auto simp: vs1_def hm_get_insert image_iff)
  qed
  ultimately show ?thesis unfolding step verdict_inv_def by simp
qed

lemma verdict_inv_foldl:
  assumes rel: "relative_map L" "relative_map R" "relative_map B" and wf: "hm_wf B"
    and sorted: "sorted_wrt (\<lambda>x y. length (fst y) \<le> length (fst x)) (visited @ rest)"
    and all: "set (visited @ rest) = set B" and dist: "distinct (map fst (visited @ rest))"
    and inv: "verdict_inv L R B S nm visited st"
  shows "verdict_inv L R B S nm (visited @ rest) (foldl (verdict_step L R B S nm) st rest)"
  using sorted all dist inv
proof (induction rest arbitrary: visited st)
  case (Cons e rest)
  obtain p b where e: "e = (p, b)" by (cases e)
  have "verdict_inv L R B S nm (visited @ [(p, b)]) (verdict_step L R B S nm st (p, b))"
  proof (rule verdict_inv_step[OF rel wf])
    show "set (visited @ [(p, b)]) \<subseteq> set B" using Cons.prems(2) e by auto
    show "p \<notin> fst ` set visited" using Cons.prems(3) e by auto
    show "verdict_inv L R B S nm visited st" by (rule Cons.prems(4))
    fix q assume q: "hm_contains B q" "nearest_tracked_ancestor q B = Some p"
    from nta_Some[OF q(2)] have "length p < length q" by (auto dest: prefix_length_less)
    moreover from q(1) obtain b' where "(q, b') \<in> set B"
      by (auto simp: hm_contains_iff hm_keys_def)
    with Cons.prems(2) have "(q, b') \<in> set (visited @ e # rest)" by simp
    ultimately show "q \<in> fst ` set visited"
      using Cons.prems(1) e by (force simp: sorted_wrt_append)
  qed
  with Cons.IH[of "visited @ [e]" "verdict_step L R B S nm st e"] Cons.prems e show ?case by simp
qed simp

lemma deepest_first_laws:
  "set (deepest_first B) = set B"
  "hm_wf B \<Longrightarrow> distinct (map fst (deepest_first B))"
  "sorted_wrt (\<lambda>x y. length (fst y) \<le> length (fst x)) (deepest_first B)"
proof -
  show "set (deepest_first B) = set B" by (simp add: deepest_first_def)
  have "mset (map fst (deepest_first B)) = mset (map fst B)" by (simp add: deepest_first_def)
  then show "hm_wf B \<Longrightarrow> distinct (map fst (deepest_first B))"
    unfolding hm_wf_def by (metis distinct_count_atmost_1 set_mset_mset)
  have "sorted (map (\<lambda>(p, _). - int (length p)) (deepest_first B))"
    unfolding deepest_first_def by (rule sorted_sort_key)
  then show "sorted_wrt (\<lambda>x y. length (fst y) \<le> length (fst x)) (deepest_first B)"
    by (auto simp: sorted_wrt_map split_beta elim!: sorted_wrt_mono_rel[rotated])
qed

theorem verdicts_characterised:
  assumes rel: "relative_map L" "relative_map R" "relative_map B" and wf: "hm_wf B"
  shows "hm_get (compute_directory_deletion_verdicts L R B S nm) p =
    (if any_base_directory_is_one_sided L R B \<and> (\<exists>b. hm_get B p = Some b \<and> fr_entity_kind b = Directory)
     then Some (subtree_clean_spec L R B S nm p) else None)"
proof (cases "any_base_directory_is_one_sided L R B")
  case False
  then show ?thesis by (simp add: compute_directory_deletion_verdicts_def)
next
  case True
  let ?sc = "foldl (falsify_untracked B) (map (\<lambda>p. (p, True)) (hm_keys B)) (hm_keys L @ hm_keys R)"
  have "verdict_inv L R B S nm [] (?sc, [])"
    by (auto simp: verdict_inv_def foldl_falsify_get seeded_get live_path_def hm_contains_iff)
  from verdict_inv_foldl[OF rel wf _ _ _ this, of "deepest_first B"] deepest_first_laws[of B] wf
  have "verdict_inv L R B S nm (deepest_first B) (foldl (verdict_step L R B S nm) (?sc, []) (deepest_first B))"
    by simp
  then have "hm_get (compute_directory_deletion_verdicts L R B S nm) p =
      (if \<exists>b. (p, b) \<in> set (deepest_first B) \<and> fr_entity_kind b = Directory
       then Some (subtree_clean_spec L R B S nm p) else None)"
    by (simp add: verdict_inv_def compute_directory_deletion_verdicts_def True Let_def)
  with True deepest_first_laws(1)[of B] show ?thesis by (simp add: hm_in_iff[OF wf])
qed

end
