(* ===== verification/Planner.thy ===== *)
theory Planner
  imports Planner_Verdicts
begin

text \<open>
  The planner as a whole (\<open>plan_sync_entities_with_stats\<close> of \<^verbatim>\<open>src/sync.rs\<close>): the transitions, the
  verdicts, one action per remaining path in path order, and the suppression of what a recursive
  delete already covers. The lemmas say where an action of the plan comes from, what a deletion in it
  proves about the three maps, and that the iteration order of the maps is not visible.
\<close>

section \<open>The plan\<close>

fun is_matching_file_pair :: "local_entity_state option \<Rightarrow> remote_entity option \<Rightarrow> bool" where
  "is_matching_file_pair (Some (LocalFile lf)) (Some (RemoteFile rf)) \<longleftrightarrow>
    rf_sha1_hash rf = Some (lf_sha1_hash lf)"
| "is_matching_file_pair _ _ \<longleftrightarrow> False"

definition is_directory_delete :: "planned_action \<Rightarrow> bool" where
  "is_directory_delete a \<longleftrightarrow>
     pa_entity_kind a = Directory \<and> (pa_action a = RemoteDelete \<or> pa_action a = LocalDelete)"

definition suppress_actions_covered_by_directory_deletes :: "plan \<Rightarrow> plan" where
  "suppress_actions_covered_by_directory_deletes pl =
    (let deleted_directories = map pa_path (filter is_directory_delete pl) in
     if deleted_directories = [] then pl
     else filter (\<lambda>a. \<not> list_ex (\<lambda>d. is_strict_descendant d (pa_path a)) deleted_directories) pl)"

record plan_outcome =
  po_actions :: plan
  po_matched_files :: nat

definition planned_paths :: "local_map \<Rightarrow> remote_map \<Rightarrow> base_map \<Rightarrow> path list" where
  "planned_paths L R B = btree_of (hm_keys L @ hm_keys R @ hm_keys B)"

text \<open>What one path of the loop plans to, given the verdicts.\<close>

definition path_action ::
  "local_map \<Rightarrow> remote_map \<Rightarrow> base_map \<Rightarrow> verdicts \<Rightarrow> conflict_naming \<Rightarrow> path \<Rightarrow> planned_action option" where
  "path_action L R B vs nm p =
    plan_entity_action p (hm_get L p) (hm_get R p) (hm_get B p) (B = []) vs nm"

definition counts_as_matched ::
  "local_map \<Rightarrow> remote_map \<Rightarrow> planned_action option \<Rightarrow> path \<Rightarrow> bool" where
  "counts_as_matched L R action p \<longleftrightarrow>
    is_matching_file_pair (hm_get L p) (hm_get R p) \<and>
    (case map_option pa_action action of None \<Rightarrow> True | Some AutoLink \<Rightarrow> True | _ \<Rightarrow> False)"

definition plan_step ::
  "local_map \<Rightarrow> remote_map \<Rightarrow> base_map \<Rightarrow> verdicts \<Rightarrow> conflict_naming \<Rightarrow> plan \<times> nat \<Rightarrow> path \<Rightarrow> plan \<times> nat" where
  "plan_step L R B vs nm st p =
    (case st of (pl, matched_files) \<Rightarrow>
      (let action = path_action L R B vs nm p in
       (case action of Some a \<Rightarrow> pl @ [a] | None \<Rightarrow> pl,
        if counts_as_matched L R action p then matched_files + 1 else matched_files)))"

definition plan_sync_entities_with_stats ::
  "local_map \<Rightarrow> remote_map \<Rightarrow> base_map \<Rightarrow> conflict_naming \<Rightarrow> plan_outcome" where
  "plan_sync_entities_with_stats L R B nm =
    (let (transition_actions, suppressed_paths) = plan_file_path_transitions L R B;
         deletion_verdicts = compute_directory_deletion_verdicts L R B suppressed_paths nm;
         (pl, matched_files) =
           foldl (plan_step L R B deletion_verdicts nm) (transition_actions, 0)
             (filter (\<lambda>p. p \<notin> suppressed_paths) (planned_paths L R B))
     in \<lparr>po_actions = suppress_actions_covered_by_directory_deletes pl,
         po_matched_files = matched_files\<rparr>)"

definition plan_sync_entities :: "local_map \<Rightarrow> remote_map \<Rightarrow> base_map \<Rightarrow> conflict_naming \<Rightarrow> plan" where
  "plan_sync_entities L R B nm = po_actions (plan_sync_entities_with_stats L R B nm)"

definition plan_sync ::
  "(path, local_file_state) hmap \<Rightarrow> (path, remote_file) hmap \<Rightarrow> base_map \<Rightarrow> conflict_naming \<Rightarrow> plan" where
  "plan_sync local_files remote_files B nm =
    plan_sync_entities (map (\<lambda>(p, f). (p, LocalFile f)) local_files)
      (map (\<lambda>(p, f). (p, RemoteFile f)) remote_files) B nm"

section \<open>Where an action comes from\<close>

lemma plan_foldl:
  "foldl (plan_step L R B vs nm) (pl, n) ps =
    (pl @ List.map_filter (path_action L R B vs nm) ps,
     n + length (filter (\<lambda>p. counts_as_matched L R (path_action L R B vs nm p) p) ps))"
  by (induction ps arbitrary: pl n)
    (auto simp: plan_step_def Let_def List.map_filter_simps split: option.splits)

abbreviation transitions_of :: "local_map \<Rightarrow> remote_map \<Rightarrow> base_map \<Rightarrow> plan" where
  "transitions_of L R B \<equiv> fst (plan_file_path_transitions L R B)"

abbreviation suppressed_of :: "local_map \<Rightarrow> remote_map \<Rightarrow> base_map \<Rightarrow> path set" where
  "suppressed_of L R B \<equiv> snd (plan_file_path_transitions L R B)"

abbreviation verdicts_of :: "local_map \<Rightarrow> remote_map \<Rightarrow> base_map \<Rightarrow> conflict_naming \<Rightarrow> verdicts" where
  "verdicts_of L R B nm \<equiv> compute_directory_deletion_verdicts L R B (suppressed_of L R B) nm"

definition raw_plan :: "local_map \<Rightarrow> remote_map \<Rightarrow> base_map \<Rightarrow> conflict_naming \<Rightarrow> plan" where
  "raw_plan L R B nm =
    transitions_of L R B @ List.map_filter (path_action L R B (verdicts_of L R B nm) nm)
      (filter (\<lambda>p. p \<notin> suppressed_of L R B) (planned_paths L R B))"

lemma plan_sync_entities_eq:
  "plan_sync_entities L R B nm = suppress_actions_covered_by_directory_deletes (raw_plan L R B nm)"
  by (simp add: plan_sync_entities_def plan_sync_entities_with_stats_def raw_plan_def plan_foldl
      split_beta Let_def)

lemma matched_files_eq:
  "po_matched_files (plan_sync_entities_with_stats L R B nm) =
    length (filter (\<lambda>p. counts_as_matched L R (path_action L R B (verdicts_of L R B nm) nm p) p)
      (filter (\<lambda>p. p \<notin> suppressed_of L R B) (planned_paths L R B)))"
  by (simp add: plan_sync_entities_with_stats_def plan_foldl split_beta Let_def)

lemma suppress_covered_eq:
  "suppress_actions_covered_by_directory_deletes pl =
    filter (\<lambda>a. \<not> (\<exists>d \<in> set pl. is_directory_delete d \<and> is_strict_descendant (pa_path d) (pa_path a))) pl"
  by (auto simp: suppress_actions_covered_by_directory_deletes_def list_ex_iff Let_def filter_empty_conv
      intro!: filter_cong filter_True[symmetric])

lemma transitions_are_moves:
  assumes "a \<in> set (transitions_of L R B)"
  shows "pa_action a \<in> {MoveLocal, MoveRemote} \<and> pa_path a \<in> suppressed_of L R B"
proof -
  have inv: "\<forall>a \<in> set (fst (foldl (transition_step L R B) st ps)).
      pa_action a \<in> {MoveLocal, MoveRemote} \<and> pa_path a \<in> fst (snd (foldl (transition_step L R B) st ps))"
    if "\<forall>a \<in> set (fst st). pa_action a \<in> {MoveLocal, MoveRemote} \<and> pa_path a \<in> fst (snd st)" for st ps
    using that
  proof (induction ps arbitrary: st)
    case (Cons p ps)
    have "\<forall>a \<in> set (fst (transition_step L R B st p)).
      pa_action a \<in> {MoveLocal, MoveRemote} \<and> pa_path a \<in> fst (snd (transition_step L R B st p))"
      using Cons.prems
      by (cases st) (auto simp: transition_step_def Let_def split: option.splits if_splits
          dest!: transition_action_shape)
    from Cons.IH[OF this] show ?case by simp
  qed simp
  show ?thesis
    using inv[of "([], {}, {})" "sort (hm_keys B)"] assms
    by (auto simp: plan_file_path_transitions_def suppress_untracked_descendants_def split_beta
        split: if_splits)
qed

lemma planned_paths_set: "p \<in> set (planned_paths L R B) \<longleftrightarrow>
    hm_contains L p \<or> hm_contains R p \<or> hm_contains B p"
  by (auto simp: planned_paths_def hm_contains_iff)

lemma raw_plan_cases:
  assumes "a \<in> set (raw_plan L R B nm)"
  obtains (transition) "a \<in> set (transitions_of L R B)" "pa_action a \<in> {MoveLocal, MoveRemote}"
  | (path) "pa_path a \<notin> suppressed_of L R B" "pa_path a \<in> set (planned_paths L R B)"
      "path_action L R B (verdicts_of L R B nm) nm (pa_path a) = Some a"
proof (cases "a \<in> set (transitions_of L R B)")
  case True
  with transitions_are_moves transition show thesis by blast
next
  case False
  with assms obtain p where "p \<notin> suppressed_of L R B" "p \<in> set (planned_paths L R B)"
    "path_action L R B (verdicts_of L R B nm) nm p = Some a"
    by (auto simp: raw_plan_def set_map_filter)
  moreover from this have "pa_path a = p" by (auto simp: path_action_def dest: plan_entity_action_path)
  ultimately show thesis using path by simp
qed

lemma plan_subset_raw: "a \<in> set (plan_sync_entities L R B nm) \<Longrightarrow> a \<in> set (raw_plan L R B nm)"
  by (simp add: plan_sync_entities_eq suppress_covered_eq)

lemma plan_destructive_source:
  assumes "a \<in> set (plan_sync_entities L R B nm)" "is_destructive (pa_action a)"
  shows "pa_path a \<notin> suppressed_of L R B \<and>
    plan_entity_action (pa_path a) (hm_get L (pa_path a)) (hm_get R (pa_path a)) (hm_get B (pa_path a))
      (B = []) (verdicts_of L R B nm) nm = Some a"
  using plan_subset_raw[OF assms(1)] assms(2)
  by (cases rule: raw_plan_cases) (auto simp: path_action_def)

section \<open>What a planned deletion proves\<close>

lemma verdict_true_clean:
  assumes "relative_map L" "relative_map R" "relative_map B" "hm_wf B"
    and "hm_get (compute_directory_deletion_verdicts L R B S nm) p = Some True"
  shows "subtree_clean_spec L R B S nm p"
  using assms(5) by (simp add: verdicts_characterised[OF assms(1-4)] split: if_splits)

text \<open>Everything at or under a directory delete is tracked and resolves to a deletion itself.\<close>

lemma clean_subtree_resolves:
  assumes "subtree_clean_spec L R B S nm p" "strict_prefix p q" "live_path L R q"
  obtains b a where "hm_get B q = Some b"
    "plan_entity_action q (hm_get L q) (hm_get R q) (Some b) (B = []) [(q, True)] nm = Some a"
    "is_destructive (pa_action a)" "q \<notin> S"
proof -
  from assms have "hm_contains B q" unfolding subtree_clean_spec_def by blast
  moreover from this assms have "resolves_to_deletion L R B S nm q" unfolding subtree_clean_spec_def by blast
  ultimately show thesis using that
    by (auto simp: resolves_to_deletion_def is_planned_deletion_iff hm_contains_def)
qed

lemma destructive_cases: "is_destructive a \<Longrightarrow> a = RemoteDelete \<or> a = LocalDelete \<or> a = Purge"
  by (cases a) auto

text \<open>A live local entity whose path resolves to a deletion resolves to a local one.\<close>

lemma local_live_resolution:
  assumes "plan_entity_action q (Some e) r (Some b) boot vs nm = Some a" "is_destructive (pa_action a)"
  shows "pa_action a = LocalDelete"
  using destructive_cases[OF assms(2)] entity_remote_delete[OF assms(1)] entity_purge[OF assms(1)]
  by (metis option.distinct(1))

lemma remote_live_resolution:
  assumes "plan_entity_action q l (Some e) (Some b) boot vs nm = Some a" "is_destructive (pa_action a)"
  shows "pa_action a = RemoteDelete"
  using destructive_cases[OF assms(2)] entity_local_delete[OF assms(1)] entity_purge[OF assms(1)]
  by (metis option.distinct(1))

lemma local_file_delete_facts:
  assumes "plan_entity_action q (Some (LocalFile f)) r bo boot vs nm = Some a" "pa_action a = LocalDelete"
  shows "r = None \<and> (\<exists>b. bo = Some b \<and> fr_entity_kind b = File \<and>
    fr_sha1_hash b = Some (lf_sha1_hash f) \<and> fr_sync_status b = Synced)"
  using entity_local_delete[OF assms] by (metis local_entity_state.distinct(1) local_entity_state.inject(1) option.inject)

lemma remote_file_delete_facts:
  assumes "plan_entity_action q l (Some (RemoteFile f)) bo boot vs nm = Some a" "pa_action a = RemoteDelete"
  shows "l = None \<and> (\<exists>b. bo = Some b \<and> fr_entity_kind b = File \<and> rf_downloadable f \<and>
    rf_sha1_hash f = fr_sha1_hash b \<and> fr_sha1_hash b \<noteq> None \<and> fr_sync_status b \<noteq> StatusConflict)"
  using entity_remote_delete[OF assms] by (metis remote_entity.distinct(1) remote_entity.inject(1) option.inject)

lemma local_delete_covers:
  assumes rel: "relative_map L" "relative_map R" "relative_map B" and wf: "hm_wf B"
    and a: "a \<in> set (plan_sync_entities L R B nm)" "pa_action a = LocalDelete"
    and q: "hm_get L q = Some (LocalFile f)"
    and under: "q = pa_path a \<or> (pa_entity_kind a = Directory \<and> is_strict_descendant (pa_path a) q)"
  shows "hm_get R q = None \<and> (\<exists>b. hm_get B q = Some b \<and> fr_entity_kind b = File \<and>
    fr_sha1_hash b = Some (lf_sha1_hash f) \<and> fr_sync_status b = Synced)"
proof -
  from a plan_destructive_source[OF a(1)] have pe:
    "plan_entity_action (pa_path a) (hm_get L (pa_path a)) (hm_get R (pa_path a)) (hm_get B (pa_path a))
      (B = []) (verdicts_of L R B nm) nm = Some a" by simp
  show ?thesis
  proof (cases "q = pa_path a")
    case True
    with pe q local_file_delete_facts a(2) show ?thesis by metis
  next
    case False
    with under have k: "pa_entity_kind a = Directory" and below: "strict_prefix (pa_path a) q"
      by (auto simp: is_strict_descendant_def strict_prefix_def)
    from entity_local_delete[OF pe a(2)] k
    have "hm_get (verdicts_of L R B nm) (pa_path a) = Some True" by (metis entity_kind.distinct(1))
    from verdict_true_clean[OF rel wf this] below q obtain b x where
      "hm_get B q = Some b"
      "plan_entity_action q (Some (LocalFile f)) (hm_get R q) (Some b) (B = []) [(q, True)] nm = Some x"
      "is_destructive (pa_action x)"
      by (elim clean_subtree_resolves) (auto simp: live_path_def hm_contains_def)
    with local_live_resolution local_file_delete_facts show ?thesis by metis
  qed
qed

lemma remote_delete_covers:
  assumes rel: "relative_map L" "relative_map R" "relative_map B" and wf: "hm_wf B"
    and a: "a \<in> set (plan_sync_entities L R B nm)" "pa_action a = RemoteDelete"
    and q: "hm_get R q = Some (RemoteFile f)"
    and under: "q = pa_path a \<or> (pa_entity_kind a = Directory \<and> is_strict_descendant (pa_path a) q)"
  shows "hm_get L q = None \<and> (\<exists>b. hm_get B q = Some b \<and> fr_entity_kind b = File \<and>
    rf_sha1_hash f = fr_sha1_hash b \<and> fr_sha1_hash b \<noteq> None \<and> fr_sync_status b \<noteq> StatusConflict)"
proof -
  from a plan_destructive_source[OF a(1)] have pe:
    "plan_entity_action (pa_path a) (hm_get L (pa_path a)) (hm_get R (pa_path a)) (hm_get B (pa_path a))
      (B = []) (verdicts_of L R B nm) nm = Some a" by simp
  show ?thesis
  proof (cases "q = pa_path a")
    case True
    with pe q remote_file_delete_facts a(2) show ?thesis by metis
  next
    case False
    with under have k: "pa_entity_kind a = Directory" and below: "strict_prefix (pa_path a) q"
      by (auto simp: is_strict_descendant_def strict_prefix_def)
    from entity_remote_delete[OF pe a(2)] k
    have "hm_get (verdicts_of L R B nm) (pa_path a) = Some True" by (metis entity_kind.distinct(1))
    from verdict_true_clean[OF rel wf this] below q obtain b x where
      "hm_get B q = Some b"
      "plan_entity_action q (hm_get L q) (Some (RemoteFile f)) (Some b) (B = []) [(q, True)] nm = Some x"
      "is_destructive (pa_action x)"
      by (elim clean_subtree_resolves) (auto simp: live_path_def hm_contains_def)
    with remote_live_resolution remote_file_delete_facts show ?thesis by metis
  qed
qed

section \<open>The iteration order is not visible\<close>

lemma verdicts_cong:
  assumes "same_state L R B L' R' B'" "relative_map L" "relative_map R" "relative_map B"
  shows "hm_get (compute_directory_deletion_verdicts L R B S nm) =
    hm_get (compute_directory_deletion_verdicts L' R' B' S nm)"
proof -
  from assms have g: "hm_get L = hm_get L'" "hm_get R = hm_get R'" "hm_get B = hm_get B'"
    and wf: "hm_wf B" "hm_wf B'"
    by (auto simp: same_state_def)
  have rel': "relative_map L'" "relative_map R'" "relative_map B'"
    using assms(2-4) hm_keys_eq[OF g(1)] hm_keys_eq[OF g(2)] hm_keys_eq[OF g(3)]
    by (auto simp: relative_map_def list_all_iff)
  have set: "set B = set B'" using hm_set_eq wf g(3) by blast
  then have nil: "(B = []) = (B' = [])" by auto
  have one: "any_base_directory_is_one_sided L R B = any_base_directory_is_one_sided L' R' B'"
    by (simp add: any_base_directory_is_one_sided_def list_ex_iff set g)
  have res: "resolves_to_deletion L R B S nm = resolves_to_deletion L' R' B' S nm"
    by (simp add: fun_eq_iff resolves_to_deletion_def g nil)
  have spec: "subtree_clean_spec L R B S nm = subtree_clean_spec L' R' B' S nm"
    by (simp add: fun_eq_iff subtree_clean_spec_def res live_path_def hm_contains_def g)
  show ?thesis
    by (rule ext) (simp only: verdicts_characterised[OF assms(2-4) wf(1)]
        verdicts_characterised[OF rel' wf(2)] one spec g)
qed

lemma path_action_cong:
  assumes "hm_get L = hm_get L'" "hm_get R = hm_get R'" "hm_get B = hm_get B'" "(B = []) = (B' = [])"
    and "hm_get vs = hm_get vs'"
  shows "path_action L R B vs nm = path_action L' R' B' vs' nm"
  unfolding path_action_def assms(1-4)
  by (intro ext plan_entity_action_verdict_cong) (simp add: assms(5))

lemma plan_outcome_cong:
  assumes "same_state L R B L' R' B'" "relative_map L" "relative_map R" "relative_map B"
  shows "plan_sync_entities_with_stats L R B nm = plan_sync_entities_with_stats L' R' B' nm"
proof -
  from assms have g: "hm_get L = hm_get L'" "hm_get R = hm_get R'" "hm_get B = hm_get B'"
    by (auto simp: same_state_def)
  from assms(1) have nil: "(B = []) = (B' = [])" using hm_set_eq[of B B'] by (auto simp: same_state_def)
  have paths: "planned_paths L R B = planned_paths L' R' B'"
    unfolding planned_paths_def
    by (intro btree_of_cong) (simp add: hm_keys_eq[OF g(1)] hm_keys_eq[OF g(2)] hm_keys_eq[OF g(3)])
  have act: "path_action L R B (compute_directory_deletion_verdicts L R B S nm) nm =
      path_action L' R' B' (compute_directory_deletion_verdicts L' R' B' S nm) nm" for S
    by (intro path_action_cong g nil verdicts_cong assms)
  have step: "plan_step L R B (compute_directory_deletion_verdicts L R B S nm) nm =
      plan_step L' R' B' (compute_directory_deletion_verdicts L' R' B' S nm) nm" for S
    by (simp add: fun_eq_iff plan_step_def act[of S] counts_as_matched_def g)
  show ?thesis
    unfolding plan_sync_entities_with_stats_def plan_file_path_transitions_cong[OF assms(1)] paths Let_def step ..
qed

end
