(* ===== verification/Planner_Props.thy ===== *)
theory Planner_Props
  imports Planner
begin

text \<open>
  The properties of the planner: what a deletion in a plan proves, what a first synchronisation can
  never do, that edits are not overwritten, that the plan is a function of the three maps and not of
  their iteration order, that a path gets one row, and that a reconciled state plans nothing.
\<close>

section \<open>A small state for the witnesses\<close>

definition ex_path :: "bytes list \<Rightarrow> path" where
  "ex_path = map Normal"

definition ex_local_file :: "bytes list \<Rightarrow> bytes \<Rightarrow> path \<times> local_entity_state" where
  "ex_local_file ns h =
    (ex_path ns, LocalFile \<lparr>lf_relative_path = ex_path ns, lf_absolute_path = RootDir # ex_path ns,
       lf_file_size = 7, lf_mtime = 100, lf_sha1_hash = h\<rparr>)"

definition ex_local_dir :: "bytes list \<Rightarrow> path \<times> local_entity_state" where
  "ex_local_dir ns =
    (ex_path ns, LocalDirectory \<lparr>ld_relative_path = ex_path ns, ld_absolute_path = RootDir # ex_path ns,
       ld_mtime = 100\<rparr>)"

definition ex_remote_file :: "bytes list \<Rightarrow> bytes \<Rightarrow> bytes \<Rightarrow> path \<times> remote_entity" where
  "ex_remote_file ns i h =
    (ex_path ns, RemoteFile \<lparr>rf_path = ex_path ns, rf_id = i, rf_name = last ns,
       rf_sha1_hash = Some h, rf_downloadable = True\<rparr>)"

definition ex_remote_dir :: "bytes list \<Rightarrow> bytes \<Rightarrow> path \<times> remote_entity" where
  "ex_remote_dir ns i = (ex_path ns, RemoteDirectory \<lparr>rd_path = ex_path ns, rd_id = Some i, rd_name = last ns\<rparr>)"

definition ex_base_file :: "bytes list \<Rightarrow> bytes \<Rightarrow> bytes \<Rightarrow> path \<times> file_record" where
  "ex_base_file ns i h =
    (ex_path ns, \<lparr>fr_file_path = ex_path ns, fr_entity_kind = File, fr_file_size = 7, fr_mtime = 100,
       fr_sha1_hash = Some h, fr_proton_id = Some i, fr_sync_status = Synced\<rparr>)"

definition ex_base_dir :: "bytes list \<Rightarrow> bytes \<Rightarrow> path \<times> file_record" where
  "ex_base_dir ns i =
    (ex_path ns, \<lparr>fr_file_path = ex_path ns, fr_entity_kind = Directory, fr_file_size = 0, fr_mtime = 100,
       fr_sha1_hash = None, fr_proton_id = Some i, fr_sync_status = Synced\<rparr>)"

definition ex_naming :: conflict_naming where
  "ex_naming = naming_from_suffix default_conflict_suffix"

lemmas ex_defs = ex_path_def ex_local_file_def ex_local_dir_def ex_remote_file_def ex_remote_dir_def
  ex_base_file_def ex_base_dir_def

text \<open>A tracked folder with one file, deleted as a whole on the remote side.\<close>

definition ex_L :: local_map where
  "ex_L = [ex_local_dir [''docs''], ex_local_file [''docs'', ''a''] ''h1'']"

definition ex_B :: base_map where
  "ex_B = [ex_base_dir [''docs''] ''n1'', ex_base_file [''docs'', ''a''] ''n2'' ''h1'']"

definition ex_R :: remote_map where
  "ex_R = [ex_remote_dir [''docs''] ''n1'', ex_remote_file [''docs'', ''a''] ''n2'' ''h1'']"

section \<open>Deletions\<close>

text \<open>C1: a deletion planned against the local disk destroys no content: every local file at the planned
  path, or anywhere under it when it is a directory, is recorded in the index as synced with exactly
  the hash it has now, and is absent from the remote side. (The keys of the three maps are relative
  paths and the index has one record per path.)\<close>

theorem local_delete_destroys_only_synced_content:
  assumes "relative_map L" "relative_map R" "relative_map B" "hm_wf B"
    and "a \<in> set (plan_sync_entities L R B nm)" "pa_action a = LocalDelete"
    and "hm_get L q = Some (LocalFile f)"
    and "q = pa_path a \<or> (pa_entity_kind a = Directory \<and> is_strict_descendant (pa_path a) q)"
  shows "hm_get R q = None \<and> (\<exists>b. hm_get B q = Some b \<and> fr_entity_kind b = File \<and>
    fr_sha1_hash b = Some (lf_sha1_hash f) \<and> fr_sync_status b = Synced)"
  using assms by (rule local_delete_covers)

definition ex_docs_local_delete :: planned_action where
  "ex_docs_local_delete = pa_new [Normal ''docs''] LocalDelete Directory (Some ''n1'')"

lemma ex_plan_local_delete: "plan_sync_entities ex_L [] ex_B ex_naming = [ex_docs_local_delete]"
  by code_simp

lemma ex_relative: "relative_map ex_L" "relative_map ex_R" "relative_map ex_B"
  "relative_map ([] :: remote_map)" "relative_map ([] :: local_map)" "hm_wf ex_L" "hm_wf ex_R" "hm_wf ex_B"
  by code_simp+

definition ex_file :: local_file_state where
  "ex_file = \<lparr>lf_relative_path = ex_path [''docs'', ''a''],
     lf_absolute_path = RootDir # ex_path [''docs'', ''a''], lf_file_size = 7, lf_mtime = 100,
     lf_sha1_hash = ''h1''\<rparr>"

lemma ex_file_at: "hm_get ex_L (ex_path [''docs'', ''a'']) = Some (LocalFile ex_file)"
  by code_simp

lemma ex_under: "is_strict_descendant [Normal ''docs''] (ex_path [''docs'', ''a''])"
  by code_simp

theorem local_delete_witness:
  "hm_get ([] :: remote_map) (ex_path [''docs'', ''a'']) = None \<and>
   (\<exists>b. hm_get ex_B (ex_path [''docs'', ''a'']) = Some b \<and> fr_entity_kind b = File \<and>
     fr_sha1_hash b = Some (lf_sha1_hash ex_file) \<and> fr_sync_status b = Synced)"
  by (rule local_delete_destroys_only_synced_content[of ex_L "[]" ex_B ex_docs_local_delete ex_naming])
    (simp_all add: ex_relative ex_plan_local_delete ex_file_at ex_docs_local_delete_def ex_under)

text \<open>C2: the same for the other side: a deletion planned against the remote destroys no content that is
  not the content of the last synchronisation. Every remote file at the planned path, or anywhere
  under it, is recorded in the index with exactly the hash the listing shows, has a known hash, is
  not in an unresolved conflict, and is absent locally.\<close>

theorem remote_delete_destroys_only_synced_content:
  assumes "relative_map L" "relative_map R" "relative_map B" "hm_wf B"
    and "a \<in> set (plan_sync_entities L R B nm)" "pa_action a = RemoteDelete"
    and "hm_get R q = Some (RemoteFile f)"
    and "q = pa_path a \<or> (pa_entity_kind a = Directory \<and> is_strict_descendant (pa_path a) q)"
  shows "hm_get L q = None \<and> (\<exists>b. hm_get B q = Some b \<and> fr_entity_kind b = File \<and>
    rf_sha1_hash f = fr_sha1_hash b \<and> fr_sha1_hash b \<noteq> None \<and> fr_sync_status b \<noteq> StatusConflict)"
  using assms by (rule remote_delete_covers)

definition ex_docs_remote_delete :: planned_action where
  "ex_docs_remote_delete = pa_new [Normal ''docs''] RemoteDelete Directory (Some ''n1'')"

lemma ex_plan_remote_delete: "plan_sync_entities [] ex_R ex_B ex_naming = [ex_docs_remote_delete]"
  by code_simp

definition ex_rfile :: remote_file where
  "ex_rfile = \<lparr>rf_path = ex_path [''docs'', ''a''], rf_id = ''n2'', rf_name = ''a'',
     rf_sha1_hash = Some ''h1'', rf_downloadable = True\<rparr>"

lemma ex_rfile_at: "hm_get ex_R (ex_path [''docs'', ''a'']) = Some (RemoteFile ex_rfile)"
  by code_simp

theorem remote_delete_witness:
  "hm_get ([] :: local_map) (ex_path [''docs'', ''a'']) = None \<and>
   (\<exists>b. hm_get ex_B (ex_path [''docs'', ''a'']) = Some b \<and> fr_entity_kind b = File \<and>
     rf_sha1_hash ex_rfile = fr_sha1_hash b \<and> fr_sha1_hash b \<noteq> None \<and>
     fr_sync_status b \<noteq> StatusConflict)"
  by (rule remote_delete_destroys_only_synced_content[of "[]" ex_R ex_B ex_docs_remote_delete ex_naming])
    (simp_all add: ex_relative ex_plan_remote_delete ex_rfile_at ex_docs_remote_delete_def ex_under)

text \<open>C36: a first synchronisation (an empty index) plans no destructive row at all, whatever the two sides
  hold and however they differ.\<close>

theorem bootstrap_plans_nothing_destructive:
  "filter (\<lambda>a. is_destructive (pa_action a)) (plan_sync_entities L R [] nm) = []"
proof -
  have "\<not> is_destructive (pa_action a)" if "a \<in> set (plan_sync_entities L R [] nm)" for a
  proof
    assume d: "is_destructive (pa_action a)"
    from plan_destructive_source[OF that d] show False
      using entity_untracked_not_destructive d by fastforce
  qed
  then show ?thesis by (simp add: filter_empty_conv)
qed

text \<open>C24: the plan, its order and the count of matched files included, is a function of what the three maps
  answer: two runs over maps with the same entries in any iteration order give the same outcome.\<close>

theorem plan_independent_of_iteration_order:
  assumes "same_state L R B L' R' B'" "relative_map L" "relative_map R" "relative_map B"
  shows "plan_sync_entities_with_stats L R B nm = plan_sync_entities_with_stats L' R' B' nm"
  using assms by (rule plan_outcome_cong)

lemma hm_rev: "hm_wf m \<Longrightarrow> hm_wf (rev m) \<and> hm_get (rev m) = hm_get m"
  using hm_get_eq[of "rev m" m] by (simp add: hm_wf_def rev_map[symmetric])

lemma ex_same_state: "same_state ex_L ex_R ex_B (rev ex_L) (rev ex_R) (rev ex_B)"
  by (simp add: same_state_def hm_rev ex_relative)

theorem plan_order_witness:
  "plan_sync_entities_with_stats ex_L ex_R ex_B ex_naming =
   plan_sync_entities_with_stats (rev ex_L) (rev ex_R) (rev ex_B) ex_naming"
  by (rule plan_independent_of_iteration_order[OF ex_same_state ex_relative(1-3)])


definition ex_dir :: local_directory_state where
  "ex_dir = \<lparr>ld_relative_path = ex_path [''docs''], ld_absolute_path = RootDir # ex_path [''docs''], ld_mtime = 100\<rparr>"

definition ex_base_docs :: file_record where
  "ex_base_docs = snd (ex_base_dir [''docs''] ''n1'')"

lemma ex_docs_at:
  "hm_get ex_B (ex_path [''docs'']) = Some ex_base_docs" "fr_entity_kind ex_base_docs = Directory"
  "hm_get ex_L (ex_path [''docs'']) = Some (LocalDirectory ex_dir)"
  "hm_get ([] :: remote_map) (ex_path [''docs'']) = None"
  "is_representable_remotely (ex_path [''docs''])"
  by code_simp+


section \<open>Edits survive\<close>

lemma ongoing_file_transfer:
  assumes "plan_ongoing_file_action p (Some f) r base nm = Some (Some a)" "pa_action a = Download"
  shows "fr_sha1_hash base = Some (lf_sha1_hash f) \<and> fr_sync_status base = Synced"
proof -
  from assms(1) obtain h where h: "fr_sha1_hash base = Some h"
    by (auto simp: plan_ongoing_file_action_def split: option.splits)
  with assms show ?thesis
    by (cases "fr_sync_status base")
      (auto simp: plan_ongoing_file_action_def plan_modified_record_action_def
        plan_ongoing_file_match_def Let_def
        split: option.splits if_splits file_delta.splits)
qed

lemma bootstrap_download_absent:
  "plan_bootstrap_entity_action p l r nm = Some a \<Longrightarrow> pa_action a = Download \<Longrightarrow> l = None"
  by (cases "(p, l, r, nm)" rule: plan_bootstrap_entity_action.cases)
    (auto split: option.splits if_splits simp: bind_remote_file_Some elim!: plan_bootstrap_file_action.elims)

lemma bootstrap_download_no_local_file:
  "plan_bootstrap_entity_action p (Some (LocalFile f)) r nm = Some a \<Longrightarrow> pa_action a \<noteq> Download"
  using bootstrap_download_absent[of p "Some (LocalFile f)" r nm a] by auto

lemma entity_download_over_file:
  assumes "plan_entity_action p (Some (LocalFile f)) r b boot vs nm = Some a" "pa_action a = Download"
  shows "\<exists>base. b = Some base \<and> fr_entity_kind base = File \<and>
    plan_ongoing_file_action p (Some f) (bind_remote_file r) base nm = Some (Some a)"
proof -
  have dir: "plan_ongoing_directory_action p l r' base vs = Some a \<Longrightarrow> pa_action a \<noteq> Download" for l r' base
    by (auto simp: plan_ongoing_directory_action_def Let_def split: if_splits bool.splits)
  show ?thesis
  proof (cases b)
    case None
    with assms show ?thesis
      by (auto simp del: plan_bootstrap_entity_action.simps simp: plan_entity_action_def type_conflict_path
          split: if_splits dest: bootstrap_download_no_local_file)
  next
    case (Some base)
    with assms show ?thesis
      by (cases "fr_entity_kind base")
        (auto simp del: plan_bootstrap_entity_action.simps simp: plan_entity_action_def type_conflict_path
          split: if_splits dest: bootstrap_download_no_local_file dir ongoing_file_the)
  qed
qed

text \<open>C26: a planned download never overwrites a local edit: where a local file stands at the path, the index
  records it as synced with exactly the hash it has now.\<close>

theorem download_never_overwrites_a_local_edit:
  assumes "a \<in> set (plan_sync_entities L R B nm)" "pa_action a = Download"
    and "hm_get L (pa_path a) = Some (LocalFile f)"
  shows "\<exists>b. hm_get B (pa_path a) = Some b \<and> fr_entity_kind b = File \<and>
    fr_sha1_hash b = Some (lf_sha1_hash f) \<and> fr_sync_status b = Synced"
proof -
  let ?p = "pa_path a"
  from plan_subset_raw[OF assms(1)] assms(2) have
    "plan_entity_action ?p (hm_get L ?p) (hm_get R ?p) (hm_get B ?p) (B = []) (verdicts_of L R B nm) nm = Some a"
    by (cases rule: raw_plan_cases) (auto simp: path_action_def)
  with assms(2,3) entity_download_over_file ongoing_file_transfer show ?thesis by metis
qed

definition ex_R_edited :: remote_map where
  "ex_R_edited = [ex_remote_dir [''docs''] ''n1'', ex_remote_file [''docs'', ''a''] ''n2'' ''h2'']"

definition ex_download :: planned_action where
  "ex_download = pa_new (ex_path [''docs'', ''a'']) Download File (Some ''n2'')"

lemma ex_plan_download: "plan_sync_entities ex_L ex_R_edited ex_B ex_naming = [ex_download]"
  by code_simp

theorem download_witness:
  "\<exists>b. hm_get ex_B (pa_path ex_download) = Some b \<and> fr_entity_kind b = File \<and>
    fr_sha1_hash b = Some (lf_sha1_hash ex_file) \<and> fr_sync_status b = Synced"
  by (rule download_never_overwrites_a_local_edit[of ex_download ex_L ex_R_edited ex_B ex_naming])
    (simp_all add: ex_plan_download ex_file_at ex_download_def)

section \<open>One row per path\<close>

lemma transition_foldl_distinct:
  assumes "distinct (map pa_path (fst st))" "\<forall>a \<in> set (fst st). pa_path a \<in> fst (snd st)"
  shows "distinct (map pa_path (fst (foldl (transition_step L R B) st ps)))"
  using assms
proof (induction ps arbitrary: st)
  case (Cons p ps)
  obtain as S M where st: "st = (as, S, M)" by (cases st)
  have "distinct (map pa_path (fst (transition_step L R B st p))) \<and>
    (\<forall>a \<in> set (fst (transition_step L R B st p)). pa_path a \<in> fst (snd (transition_step L R B st p)))"
    using Cons.prems
    by (auto simp: st transition_step_def Let_def split: option.splits if_splits
        dest!: transition_action_shape)
  with Cons.IH show ?case by simp
qed simp

lemma distinct_map_filter_path:
  assumes "distinct ps" "\<And>p a. f p = Some a \<Longrightarrow> pa_path a = p"
  shows "distinct (map pa_path (List.map_filter f ps))"
  using assms
  by (induction ps) (auto simp: List.map_filter_simps set_map_filter split: option.splits)

text \<open>Aplan has at most one row for a path.\<close>

theorem plan_has_one_row_per_path: "distinct (map pa_path (plan_sync_entities L R B nm))"
proof -
  let ?S = "suppressed_of L R B"
  define rows where "rows = List.map_filter (path_action L R B (verdicts_of L R B nm) nm)
      (filter (\<lambda>p. p \<notin> ?S) (planned_paths L R B))"
  have "distinct (map pa_path (transitions_of L R B))"
    using transition_foldl_distinct[of "([], {}, {})" L R B "sort (hm_keys B)"]
    by (simp add: plan_file_path_transitions_def split_beta)
  moreover have "distinct (map pa_path rows)"
    unfolding rows_def
    by (rule distinct_map_filter_path)
      (auto simp: planned_paths_def path_action_def dest: plan_entity_action_path)
  moreover have "pa_path ` set (transitions_of L R B) \<subseteq> ?S" using transitions_are_moves by blast
  moreover have "pa_path ` set rows \<inter> ?S = {}"
    by (auto simp: rows_def set_map_filter path_action_def dest: plan_entity_action_path)
  ultimately have "distinct (map pa_path (raw_plan L R B nm))"
    unfolding raw_plan_def rows_def[symmetric] by (simp add: image_iff) blast
  then show ?thesis
    by (simp add: plan_sync_entities_eq suppress_covered_eq distinct_map_filter)
qed

section \<open>A reconciled state\<close>

text \<open>Both sides and the index agree on the path, or none of them knows it.\<close>

definition reconciled_path :: "local_map \<Rightarrow> remote_map \<Rightarrow> base_map \<Rightarrow> path \<Rightarrow> bool" where
  "reconciled_path L R B p \<longleftrightarrow>
    (case (hm_get L p, hm_get R p, hm_get B p) of
       (None, None, None) \<Rightarrow> True
     | (Some (LocalFile lf), Some (RemoteFile rf), Some b) \<Rightarrow>
         is_representable_remotely p \<and> fr_entity_kind b = File \<and> fr_sync_status b = Synced \<and>
         fr_sha1_hash b = Some (lf_sha1_hash lf) \<and> rf_sha1_hash rf = Some (lf_sha1_hash lf) \<and>
         rf_downloadable rf \<and> fr_proton_id b = Some (rf_id rf)
     | (Some (LocalDirectory _), Some (RemoteDirectory rd), Some b) \<Rightarrow>
         is_representable_remotely p \<and> fr_entity_kind b = Directory \<and>
         (rd_id rd = None \<or> fr_proton_id b = rd_id rd)
     | _ \<Rightarrow> False)"

lemma reconciled_cases:
  assumes "reconciled_path L R B p"
  obtains (absent) "hm_get L p = None" "hm_get R p = None" "hm_get B p = None"
  | (tracked_file) lf rf b where "hm_get L p = Some (LocalFile lf)" "hm_get R p = Some (RemoteFile rf)"
      "hm_get B p = Some b" "is_representable_remotely p" "fr_entity_kind b = File"
      "fr_sync_status b = Synced" "fr_sha1_hash b = Some (lf_sha1_hash lf)"
      "rf_sha1_hash rf = Some (lf_sha1_hash lf)" "rf_downloadable rf" "fr_proton_id b = Some (rf_id rf)"
  | (tracked_directory) d rd b where "hm_get L p = Some (LocalDirectory d)" "hm_get R p = Some (RemoteDirectory rd)"
      "hm_get B p = Some b" "is_representable_remotely p" "fr_entity_kind b = Directory"
      "rd_id rd = None \<or> fr_proton_id b = rd_id rd"
  using assms
  by (cases "hm_get L p"; cases "hm_get R p"; cases "hm_get B p")
    (auto simp: reconciled_path_def split: local_entity_state.splits remote_entity.splits)

lemma reconciled_no_action:
  assumes "reconciled_path L R B p" "B \<noteq> [] \<or> hm_get B p = None" "p \<in> set (planned_paths L R B)"
  shows "path_action L R B vs nm p = None"
  using assms(1)
proof (cases rule: reconciled_cases)
  case absent
  with assms(3) show ?thesis by (simp add: planned_paths_set hm_contains_def)
next
  case tracked_file
  with assms(2) show ?thesis
    by (simp add: path_action_def plan_entity_action_def is_live_kind_clash_def
        only_base_kind_is_stale_def plan_ongoing_file_action_def plan_ongoing_file_match_def
        remote_file_delta_def file_remote_id_def)
next
  case tracked_directory
  with assms(2) show ?thesis
    by (auto simp: path_action_def plan_entity_action_def is_live_kind_clash_def
        only_base_kind_is_stale_def plan_ongoing_directory_action_def Let_def)
qed

lemma reconciled_no_transition:
  assumes "reconciled_path L R B p"
  shows "transition_step L R B st p = st"
proof (cases "hm_get B p")
  case None
  then show ?thesis by (cases st) (simp add: transition_step_def)
next
  case (Some b)
  with assms have "hm_contains L p" "hm_contains R p"
    by (auto simp: hm_contains_def elim: reconciled_cases)
  then have "transition_action p L R B b = None"
    by (simp add: transition_action_def plan_remote_file_move_def plan_local_rename_as_remote_move_def
        plan_remote_directory_move_def opt_filter_def split: option.splits)
  with Some show ?thesis by (cases st) (simp add: transition_step_def)
qed

text \<open>C37: a reconciled state is a fixed point: when both sides and the index agree on every path, nothing is
  planned, no move is recognised and nothing is suppressed.\<close>

theorem reconciled_state_plans_nothing:
  assumes "\<And>p. p \<in> set (planned_paths L R B) \<Longrightarrow> reconciled_path L R B p"
  shows "plan_sync_entities L R B nm = [] \<and> plan_file_path_transitions L R B = ([], {})"
proof -
  have f: "foldl (transition_step L R B) st ps = st" if "set ps \<subseteq> set (planned_paths L R B)" for st ps
    using that assms reconciled_no_transition by (induction ps) auto
  have "set (sort (hm_keys B)) \<subseteq> set (planned_paths L R B)" by (auto simp: planned_paths_def)
  then have t: "plan_file_path_transitions L R B = ([], {})"
    by (simp add: plan_file_path_transitions_def suppress_untracked_descendants_def f)
  have "List.map_filter (path_action L R B vs nm) ps = []" if "set ps \<subseteq> set (planned_paths L R B)" for vs ps
    using that
  proof (induction ps)
    case (Cons p ps)
    have "B \<noteq> [] \<or> hm_get B p = None" by (cases B) auto
    with Cons assms reconciled_no_action[of L R B p] show ?case by (simp add: List.map_filter_simps)
  qed (simp add: List.map_filter_simps)
  with t show ?thesis
    by (simp add: plan_sync_entities_eq raw_plan_def suppress_covered_eq)
qed

lemma ex_reconciled: "list_all (reconciled_path ex_L ex_R ex_B) (planned_paths ex_L ex_R ex_B)"
  by code_simp

theorem reconciled_witness:
  "plan_sync_entities ex_L ex_R ex_B ex_naming = [] \<and>
   plan_file_path_transitions ex_L ex_R ex_B = ([], {})"
  by (rule reconciled_state_plans_nothing) (use ex_reconciled in \<open>simp add: list_all_iff\<close>)

section \<open>Totality and moves\<close>

text \<open>The arm of the file planner that panics is unreachable: on every input the function returns, with
  an action or with none.\<close>

theorem ongoing_file_planner_never_panics:
  "\<exists>r. plan_ongoing_file_action p l rf base nm = Some r"
  using plan_ongoing_file_action_total by blast

lemma transition_foldl_source:
  assumes "a \<in> set (fst (foldl (transition_step L R B) st ps))"
  shows "a \<in> set (fst st) \<or> (\<exists>p b. hm_get B p = Some b \<and> transition_action p L R B b = Some a)"
  using assms
proof (induction ps arbitrary: st)
  case (Cons p ps)
  from Cons.IH[of "transition_step L R B st p"] Cons.prems
  consider "a \<in> set (fst (transition_step L R B st p))"
    | "\<exists>p b. hm_get B p = Some b \<and> transition_action p L R B b = Some a" by auto
  then show ?case
    by cases (cases st; auto simp: transition_step_def Let_def split: option.splits if_splits)+
qed simp

lemma transition_source:
  assumes "a \<in> set (transitions_of L R B)"
  obtains b where "hm_get B (pa_path a) = Some b" "transition_action (pa_path a) L R B b = Some a"
proof -
  from assms transition_foldl_source[of a L R B "([], {}, {})" "sort (hm_keys B)"] obtain p b where
    "hm_get B p = Some b" "transition_action p L R B b = Some a"
    by (auto simp: plan_file_path_transitions_def split_beta)
  with transition_action_shape that show thesis by blast
qed

lemma plan_move_source:
  assumes "a \<in> set (plan_sync_entities L R B nm)" "pa_action a \<in> {MoveLocal, MoveRemote}"
  obtains b where "hm_get B (pa_path a) = Some b" "transition_action (pa_path a) L R B b = Some a"
proof -
  have dir: "plan_ongoing_directory_action p l' r' base vs = Some x \<Longrightarrow> pa_destination_path x = None" for p l' r' base vs x
    using ongoing_directory_path by blast
  from plan_subset_raw[OF assms(1)] have "a \<in> set (transitions_of L R B)"
  proof (cases rule: raw_plan_cases)
    case path
    have not_move: "plan_entity_action p l r b boot vs nm = Some x \<Longrightarrow> pa_action x \<notin> {MoveLocal, MoveRemote}"
      for p l r b boot vs x
    proof -
      assume x: "plan_entity_action p l r b boot vs nm = Some x"
      have m: "plan_modified_record_action p l' r' base ld rd nm = Some x \<Longrightarrow> pa_action x \<notin> {MoveLocal, MoveRemote}"
        for l' r' base ld rd
        by (auto simp: plan_modified_record_action_def split: option.splits if_splits file_delta.splits)
      have f: "plan_ongoing_file_action p l' r' base nm = Some (Some x) \<Longrightarrow> pa_action x \<notin> {MoveLocal, MoveRemote}"
        for l' r' base
        by (auto simp: plan_ongoing_file_action_def plan_ongoing_file_match_def Let_def
            split: option.splits if_splits file_delta.splits dest: m)
      have d: "plan_ongoing_directory_action p l' r' base vs' = Some x \<Longrightarrow> pa_action x \<notin> {MoveLocal, MoveRemote}"
        for l' r' base vs'
        by (auto simp: plan_ongoing_directory_action_def Let_def split: if_splits bool.splits)
      have b: "plan_bootstrap_entity_action p l' r' nm = Some x \<Longrightarrow> pa_action x \<notin> {MoveLocal, MoveRemote}"
        for l' r'
        by (cases "(p, l', r', nm)" rule: plan_bootstrap_entity_action.cases)
          (auto split: if_splits elim!: plan_bootstrap_file_action.elims)
      from x show ?thesis
        by (auto simp del: plan_bootstrap_entity_action.simps simp: plan_entity_action_def type_conflict_path
            split: if_splits option.splits dest: f d b ongoing_file_the)
    qed
    with path assms(2) show ?thesis by (auto simp: path_action_def)
  qed
  with transition_source that show thesis by blast
qed

text \<open>Alocal rename is planned on evidence only: the file at the old path is unedited since the last
  synchronisation and gone from the remote, and the destination is a remote file with the same hash
  (and the recorded identifier, when there is one) at a path that neither the local side nor the index
  knows. The rename can therefore overwrite nothing.\<close>

theorem local_file_rename_rests_on_evidence:
  assumes "hm_wf R" "a \<in> set (plan_sync_entities L R B nm)" "pa_action a = MoveLocal"
    and "pa_entity_kind a = File"
  shows "\<exists>b f rf d. hm_get B (pa_path a) = Some b \<and> fr_entity_kind b = File \<and>
    hm_get L (pa_path a) = Some (LocalFile f) \<and> fr_sha1_hash b = Some (lf_sha1_hash f) \<and>
    hm_get R (pa_path a) = None \<and> pa_destination_path a = Some d \<and>
    hm_get R d = Some (RemoteFile rf) \<and> rf_sha1_hash rf = fr_sha1_hash b \<and>
    fr_proton_id b \<in> {None, Some (rf_id rf)} \<and> hm_get L d = None \<and> hm_get B d = None"
proof -
  obtain b where b: "hm_get B (pa_path a) = Some b" "transition_action (pa_path a) L R B b = Some a"
    by (rule plan_move_source[OF assms(2)]) (use assms(3) in auto)
  then have "plan_remote_file_move (pa_path a) L R B b = Some a"
    using assms(3,4)
    by (auto simp: transition_action_def or_else_Some
        dest: local_rename_shape remote_directory_move_shape)
  then obtain h f d rf where
    h: "base_file_hash b = Some h" "bind_local_file (hm_get L (pa_path a)) = Some f" "lf_sha1_hash f = h"
    "\<not> hm_contains R (pa_path a)" "unique_remote_move_destination (pa_path a) b h L R B = Some (d, rf)"
    and a: "a = pa_move_local (pa_path a) d File (Some (rf_id rf))"
    by (auto simp: plan_remote_file_move_def split: option.splits if_splits)
  from a have "pa_destination_path a = Some d" by (metis pa_destination_simps(7))
  with h b unique_remote_move_destination_Some[OF h(5) assms(1)] show ?thesis
    by (cases "fr_proton_id b")
      (auto simp: base_file_hash_def bind_local_file_Some hm_contains_def split: if_splits)
qed

definition ex_R_renamed :: remote_map where
  "ex_R_renamed = [ex_remote_dir [''docs''] ''n1'', ex_remote_file [''docs'', ''b''] ''n2'' ''h1'']"

definition ex_move :: planned_action where
  "ex_move = pa_move_local (ex_path [''docs'', ''a'']) (ex_path [''docs'', ''b'']) File (Some ''n2'')"

lemma ex_plan_move: "plan_sync_entities ex_L ex_R_renamed ex_B ex_naming = [ex_move]" "hm_wf ex_R_renamed"
  by code_simp+

theorem local_file_rename_witness:
  "\<exists>b f rf d. hm_get ex_B (pa_path ex_move) = Some b \<and> fr_entity_kind b = File \<and>
    hm_get ex_L (pa_path ex_move) = Some (LocalFile f) \<and> fr_sha1_hash b = Some (lf_sha1_hash f) \<and>
    hm_get ex_R_renamed (pa_path ex_move) = None \<and> pa_destination_path ex_move = Some d \<and>
    hm_get ex_R_renamed d = Some (RemoteFile rf) \<and> rf_sha1_hash rf = fr_sha1_hash b \<and>
    fr_proton_id b \<in> {None, Some (rf_id rf)} \<and> hm_get ex_L d = None \<and> hm_get ex_B d = None"
  by (rule local_file_rename_rests_on_evidence[of ex_R_renamed ex_move ex_L ex_B ex_naming])
    (simp_all add: ex_plan_move, simp_all add: ex_move_def)

definition ex_twin_L :: local_map where
  "ex_twin_L = [ex_local_file [''c''] ''h'']"

definition ex_twin_R :: remote_map where
  "ex_twin_R = [ex_remote_file [''a''] ''n1'' ''h'', ex_remote_file [''b''] ''n2'' ''h'']"

definition ex_twin_B :: base_map where
  "ex_twin_B = [ex_base_file [''a''] ''n1'' ''h'', ex_base_file [''b''] ''n2'' ''h'']"

text \<open>The evidence asks for one destination, and not for one source: two tracked files with the same content
  that both vanish locally while one new file with that content appears are planned as two renames of
  two remote nodes onto one and the same name.\<close>

theorem twin_sources_share_a_destination:
  "plan_sync_entities ex_twin_L ex_twin_R ex_twin_B ex_naming =
    [pa_move_remote (ex_path [''a'']) (Some (ex_path [''c''])) File (Some ''n1''),
     pa_move_remote (ex_path [''b'']) (Some (ex_path [''c''])) File (Some ''n2'')]"
  by code_simp

end
