(* ===== verification/Plan_Report.thy ===== *)
theory Plan_Report
  imports Planner
begin

text \<open>
  What a plan is reported as (\<^verbatim>\<open>src/sync.rs\<close>): the summary counters and the byte total, the list of
  unsyncable items, and the identity of a plan: the bytes of a row (\<open>plan_row_preimage\<close>), the
  sorted and length-prefixed stream of all rows, and the token over it. SHA-1 is a library function
  and a parameter here.
\<close>

section \<open>Skips\<close>

definition reason_for_path :: "path \<Rightarrow> unsyncable_reason" where
  "reason_for_path p =
    (if is_representable_remotely p then RemoteNotDownloadable else UnrepresentablePath)"

definition pa_unsyncable_reason :: "planned_action \<Rightarrow> unsyncable_reason" where
  "pa_unsyncable_reason a =
    (case pa_skip_reason a of Some r \<Rightarrow> r | None \<Rightarrow> reason_for_path (pa_path a))"

record unsyncable_item =
  ui_path :: path
  ui_entity_kind :: entity_kind
  ui_reason :: unsyncable_reason
  ui_first_seen_epoch_secs :: u64

definition unsyncable_items :: "plan \<Rightarrow> u64 \<Rightarrow> unsyncable_item list" where
  "unsyncable_items pl now =
    map (\<lambda>a. \<lparr>ui_path = pa_path a, ui_entity_kind = pa_entity_kind a,
              ui_reason = pa_unsyncable_reason a, ui_first_seen_epoch_secs = now\<rparr>)
      (filter (\<lambda>a. pa_action a = SkipUnsupported) pl)"

section \<open>Summary\<close>

record plan_summary =
  ps_total :: nat
  ps_uploads :: nat
  ps_downloads :: nat
  ps_remote_directories_created :: nat
  ps_local_directories_created :: nat
  ps_local_moves :: nat
  ps_remote_moves :: nat
  ps_auto_links :: nat
  ps_conflicts :: nat
  ps_type_conflicts :: nat
  ps_remote_deletes :: nat
  ps_local_deletes :: nat
  ps_purges :: nat
  ps_skipped_unsupported :: nat
  ps_destructive_actions :: nat
  ps_upload_bytes :: "u64 option"
  ps_matched_files :: "nat option"

definition summary_default :: plan_summary where
  "summary_default =
    \<lparr>ps_total = 0, ps_uploads = 0, ps_downloads = 0, ps_remote_directories_created = 0,
     ps_local_directories_created = 0, ps_local_moves = 0, ps_remote_moves = 0, ps_auto_links = 0,
     ps_conflicts = 0, ps_type_conflicts = 0, ps_remote_deletes = 0, ps_local_deletes = 0,
     ps_purges = 0, ps_skipped_unsupported = 0, ps_destructive_actions = 0, ps_upload_bytes = None,
     ps_matched_files = None\<rparr>"

fun count_action :: "plan_summary \<Rightarrow> sync_action \<Rightarrow> plan_summary" where
  "count_action s Upload = s\<lparr>ps_uploads := ps_uploads s + 1\<rparr>"
| "count_action s Download = s\<lparr>ps_downloads := ps_downloads s + 1\<rparr>"
| "count_action s CreateRemoteDirectory =
    s\<lparr>ps_remote_directories_created := ps_remote_directories_created s + 1\<rparr>"
| "count_action s CreateLocalDirectory =
    s\<lparr>ps_local_directories_created := ps_local_directories_created s + 1\<rparr>"
| "count_action s MoveLocal = s\<lparr>ps_local_moves := ps_local_moves s + 1\<rparr>"
| "count_action s MoveRemote = s\<lparr>ps_remote_moves := ps_remote_moves s + 1\<rparr>"
| "count_action s AutoLink = s\<lparr>ps_auto_links := ps_auto_links s + 1\<rparr>"
| "count_action s Conflict = s\<lparr>ps_conflicts := ps_conflicts s + 1\<rparr>"
| "count_action s TypeConflict = s\<lparr>ps_type_conflicts := ps_type_conflicts s + 1\<rparr>"
| "count_action s RemoteDelete = s\<lparr>ps_remote_deletes := ps_remote_deletes s + 1\<rparr>"
| "count_action s LocalDelete = s\<lparr>ps_local_deletes := ps_local_deletes s + 1\<rparr>"
| "count_action s Purge = s\<lparr>ps_purges := ps_purges s + 1\<rparr>"
| "count_action s SkipUnsupported = s\<lparr>ps_skipped_unsupported := ps_skipped_unsupported s + 1\<rparr>"

fun try_fold_sizes :: "u64 \<Rightarrow> plan \<Rightarrow> u64 option" where
  "try_fold_sizes acc [] = Some acc"
| "try_fold_sizes acc (a # as) =
    (case pa_size_bytes a of None \<Rightarrow> None | Some n \<Rightarrow> try_fold_sizes (saturating_add acc n) as)"

definition total_upload_bytes :: "plan \<Rightarrow> u64 option" where
  "total_upload_bytes pl = try_fold_sizes 0 (filter (\<lambda>a. pa_action a = Upload) pl)"

definition summary_from_plan :: "plan \<Rightarrow> plan_summary" where
  "summary_from_plan pl =
    (let s = foldl (\<lambda>s a. count_action s (pa_action a)) (summary_default\<lparr>ps_total := length pl\<rparr>) pl
     in s\<lparr>ps_destructive_actions := length (filter (\<lambda>a. is_destructive (pa_action a)) pl),
          ps_upload_bytes := total_upload_bytes pl\<rparr>)"

definition summary_from_outcome :: "plan \<Rightarrow> nat \<Rightarrow> plan_summary" where
  "summary_from_outcome pl matched = (summary_from_plan pl)\<lparr>ps_matched_files := Some matched\<rparr>"

record unsyncable_entry =
  ue_relative_path :: path
  ue_reason :: unsyncable_reason

record dry_run_report =
  dr_summary :: plan_summary
  dr_plan :: plan
  dr_cannot_sync :: "unsyncable_entry list"

definition report_new :: "plan \<Rightarrow> dry_run_report" where
  "report_new pl = \<lparr>dr_summary = summary_from_plan pl, dr_plan = pl, dr_cannot_sync = []\<rparr>"

definition report_from_outcome :: "plan_outcome \<Rightarrow> unsyncable_entry list \<Rightarrow> dry_run_report" where
  "report_from_outcome outcome cannot_sync =
    \<lparr>dr_summary = summary_from_outcome (po_actions outcome) (po_matched_files outcome),
     dr_plan = po_actions outcome, dr_cannot_sync = cannot_sync\<rparr>"

section \<open>The identity of a plan\<close>

text \<open>Little-endian bytes of a machine word.\<close>

fun le_bytes :: "nat \<Rightarrow> nat \<Rightarrow> bytes" where
  "le_bytes 0 n = []"
| "le_bytes (Suc k) n = char_of (n mod 256) # le_bytes k (n div 256)"

definition u64_le_bytes :: "u64 \<Rightarrow> bytes" where
  "u64_le_bytes w = le_bytes 8 (unat w)"

definition absent_field :: char where "absent_field = CHR 0x00"
definition present_field :: char where "present_field = CHR 0x01"

definition row_field :: "bytes \<Rightarrow> bytes" where
  "row_field bs = u64_le_bytes (of_nat (length bs)) @ bs"

fun row_optional :: "bytes option \<Rightarrow> bytes" where
  "row_optional None = row_field [absent_field]"
| "row_optional (Some bs) = u64_le_bytes (of_nat (length bs + 1)) @ present_field # bs"

definition plan_row_preimage :: "planned_action \<Rightarrow> bytes" where
  "plan_row_preimage a =
    row_field (sync_action_as_str (pa_action a)) @
    row_field (entity_kind_as_str (pa_entity_kind a)) @
    row_field (path_bytes (pa_path a)) @
    row_optional (map_option path_bytes (pa_destination_path a)) @
    row_optional (map_option path_bytes (pa_conflict_path a)) @
    row_optional (pa_remote_id a) @
    row_field [if pa_sidecar_from_local_copy a then CHR 0x01 else CHR 0x00] @
    row_optional (map_option reason_as_str (pa_skip_reason a)) @
    row_optional (map_option u64_le_bytes (pa_size_bytes a))"

definition plan_token_version :: bytes where "plan_token_version = ''1''"

text \<open>Everything the hasher is fed, in order.\<close>

definition plan_token_input :: "plan \<Rightarrow> bytes" where
  "plan_token_input pl =
    plan_token_version @ [CHR 0x00] @
    concat (map (\<lambda>row. u64_le_bytes (of_nat (length row)) @ row) (sort (map plan_row_preimage pl)))"

definition hex_digit :: "nat \<Rightarrow> char" where
  "hex_digit n = ''0123456789abcdef'' ! n"

definition hex_bytes :: "bytes \<Rightarrow> bytes" where
  "hex_bytes bs = concat (map (\<lambda>c. [hex_digit (of_char c div 16), hex_digit (of_char c mod 16)]) bs)"

definition plan_token :: "(bytes \<Rightarrow> bytes) \<Rightarrow> plan \<Rightarrow> bytes" where
  "plan_token sha1 pl = plan_token_version @ '':'' @ hex_bytes (sha1 (plan_token_input pl))"

definition report_token :: "(bytes \<Rightarrow> bytes) \<Rightarrow> dry_run_report \<Rightarrow> bytes" where
  "report_token sha1 r = plan_token sha1 (dr_plan r)"

section \<open>Laws of the summary\<close>

definition count_of :: "sync_action \<Rightarrow> plan \<Rightarrow> nat" where
  "count_of k pl = length (filter (\<lambda>a. pa_action a = k) pl)"

lemma count_of_simps [simp]:
  "count_of k [] = 0" "count_of k (a # pl) = (if pa_action a = k then Suc (count_of k pl) else count_of k pl)"
  by (simp_all add: count_of_def)

lemma foldl_count:
  "foldl (\<lambda>s a. count_action s (pa_action a)) s pl =
    \<lparr>ps_total = ps_total s, ps_uploads = ps_uploads s + count_of Upload pl,
     ps_downloads = ps_downloads s + count_of Download pl,
     ps_remote_directories_created = ps_remote_directories_created s + count_of CreateRemoteDirectory pl,
     ps_local_directories_created = ps_local_directories_created s + count_of CreateLocalDirectory pl,
     ps_local_moves = ps_local_moves s + count_of MoveLocal pl,
     ps_remote_moves = ps_remote_moves s + count_of MoveRemote pl,
     ps_auto_links = ps_auto_links s + count_of AutoLink pl,
     ps_conflicts = ps_conflicts s + count_of Conflict pl,
     ps_type_conflicts = ps_type_conflicts s + count_of TypeConflict pl,
     ps_remote_deletes = ps_remote_deletes s + count_of RemoteDelete pl,
     ps_local_deletes = ps_local_deletes s + count_of LocalDelete pl,
     ps_purges = ps_purges s + count_of Purge pl,
     ps_skipped_unsupported = ps_skipped_unsupported s + count_of SkipUnsupported pl,
     ps_destructive_actions = ps_destructive_actions s, ps_upload_bytes = ps_upload_bytes s,
     ps_matched_files = ps_matched_files s\<rparr>"
proof (induction pl arbitrary: s)
  case (Cons a pl)
  show ?case
    by (cases "pa_action a") (simp_all add: Cons)
qed simp

lemma destructive_count:
  "length (filter (\<lambda>a. is_destructive (pa_action a)) pl) =
    count_of RemoteDelete pl + count_of LocalDelete pl + count_of Purge pl"
proof (induction pl)
  case (Cons a pl)
  then show ?case by (cases "pa_action a") simp_all
qed simp

lemma length_by_action:
  "length pl = (\<Sum>k\<leftarrow>all_sync_actions. count_of k pl)"
proof (induction pl)
  case (Cons a pl)
  then show ?case by (cases "pa_action a") (simp_all add: all_sync_actions_def)
qed (simp add: all_sync_actions_def)

lemma try_fold_sizes_Some:
  "try_fold_sizes acc as = Some t \<longleftrightarrow>
    list_all (\<lambda>a. pa_size_bytes a \<noteq> None) as \<and>
    t = foldl saturating_add acc (map (the \<circ> pa_size_bytes) as)"
  by (induction as arbitrary: acc) (auto split: option.splits)

lemma foldl_saturating:
  "unat (foldl saturating_add t ns) = min (unat t + (\<Sum>n\<leftarrow>ns. unat n)) (2 ^ 64 - 1)"
proof (induction ns arbitrary: t)
  case Nil
  have "unat t \<le> 2 ^ 64 - 1" using unsigned_less[of t, where 'a = nat] by simp
  then show ?case by simp
next
  case (Cons n ns)
  show ?case by (simp add: Cons unat_saturating_add)
qed

section \<open>Laws of the identity\<close>

lemma le_bytes_length [simp]: "length (le_bytes k n) = k"
  by (induction k arbitrary: n) auto

lemma char_of_inj: "char_of (m mod 256) = char_of (n mod 256) \<Longrightarrow> m mod 256 = (n mod 256 :: nat)"
  by (metis mod_mod_trivial of_char_of)

lemma le_bytes_inj: "le_bytes k m = le_bytes k n \<Longrightarrow> m < 256 ^ k \<Longrightarrow> n < 256 ^ k \<Longrightarrow> m = n"
proof (induction k arbitrary: m n)
  case (Suc k)
  from Suc.prems(1) have "m mod 256 = n mod 256" "le_bytes k (m div 256) = le_bytes k (n div 256)"
    using char_of_inj[of m n] by simp_all
  moreover from Suc.prems(2,3) have "m div 256 < 256 ^ k" "n div 256 < 256 ^ k"
    using less_mult_imp_div_less[of m "256 ^ k" 256] less_mult_imp_div_less[of n "256 ^ k" 256]
    by (simp_all add: mult.commute)
  ultimately have dm: "m div 256 = n div 256" "m mod 256 = n mod 256" using Suc.IH by blast+
  have "m = m div 256 * 256 + m mod 256" by simp
  also have "\<dots> = n div 256 * 256 + n mod 256" unfolding dm ..
  finally show ?case by simp
qed simp

lemma u64_le_bytes_length [simp]: "length (u64_le_bytes w) = 8"
  by (simp add: u64_le_bytes_def)

lemma u64_le_bytes_nonempty [simp]: "u64_le_bytes w \<noteq> []" "[] \<noteq> u64_le_bytes w"
  using u64_le_bytes_length[of w] by (metis list.size(3) zero_neq_numeral)+

lemma u64_le_bytes_inj: "u64_le_bytes v = u64_le_bytes w \<longleftrightarrow> v = w"
proof
  assume "u64_le_bytes v = u64_le_bytes w"
  moreover have "unat v < 256 ^ 8" "unat w < 256 ^ 8"
    using unsigned_less[of v, where 'a = nat] unsigned_less[of w, where 'a = nat] by simp_all
  ultimately show "v = w" unfolding u64_le_bytes_def using le_bytes_inj by (metis unsigned_word_eqI)
qed simp

definition fits :: "bytes \<Rightarrow> bool" where
  "fits bs \<longleftrightarrow> length bs + 1 < 2 ^ 64"

lemma of_nat_u64_inj: "m < 2 ^ 64 \<Longrightarrow> n < 2 ^ 64 \<Longrightarrow> (of_nat m :: u64) = of_nat n \<longleftrightarrow> m = n"
  by (simp add: word_of_nat_eq_iff take_bit_nat_eq_self)

text \<open>A length-prefixed block can be cut off the front of a stream in one way only.\<close>

lemma length_prefixed_cut:
  assumes "u64_le_bytes (of_nat (length x)) @ x @ r = u64_le_bytes (of_nat (length y)) @ y @ s"
    and "length x < 2 ^ 64" "length y < 2 ^ 64"
  shows "x = y \<and> r = s"
proof -
  from assms(1) have "u64_le_bytes (of_nat (length x)) = u64_le_bytes (of_nat (length y))"
    and rest: "x @ r = y @ s" by (simp_all add: append_eq_append_conv)
  then have "length x = length y"
    using assms(2,3) by (simp add: u64_le_bytes_inj of_nat_u64_inj)
  with rest show ?thesis by simp
qed

lemma row_field_cut: "row_field x @ r = row_field y @ s \<Longrightarrow> fits x \<Longrightarrow> fits y \<Longrightarrow> x = y \<and> r = s"
  using length_prefixed_cut[of x r y s] by (simp add: row_field_def fits_def)

definition opt_fits :: "bytes option \<Rightarrow> bool" where
  "opt_fits x = (case x of None \<Rightarrow> True | Some bs \<Rightarrow> fits bs)"

definition tagged :: "bytes option \<Rightarrow> bytes" where
  "tagged x = (case x of None \<Rightarrow> [absent_field] | Some bs \<Rightarrow> present_field # bs)"

lemma row_optional_tagged: "row_optional x = u64_le_bytes (of_nat (length (tagged x))) @ tagged x"
  by (cases x) (simp_all add: tagged_def row_field_def)

lemma tagged_inj: "tagged x = tagged y \<longleftrightarrow> x = y"
  by (cases x; cases y) (auto simp: tagged_def absent_field_def present_field_def)

lemma row_optional_cut:
  assumes "row_optional x @ r = row_optional y @ s" "opt_fits x" "opt_fits y"
  shows "x = y \<and> r = s"
proof -
  have "length (tagged x) < 2 ^ 64" "length (tagged y) < 2 ^ 64"
    using assms(2,3) by (auto simp: opt_fits_def tagged_def fits_def split: option.splits)
  with length_prefixed_cut[of "tagged x" r "tagged y" s] assms(1) show ?thesis
    by (simp add: row_optional_tagged tagged_inj)
qed

text \<open>What identifies a row: every field that says what will happen, as it is spelled in bytes.\<close>

type_synonym row_identity =
  "sync_action \<times> entity_kind \<times> bytes \<times> bytes option \<times> bytes option \<times> bytes option \<times> bool \<times>
   bytes option \<times> u64 option"

definition row_identity :: "planned_action \<Rightarrow> row_identity" where
  "row_identity a =
    (pa_action a, pa_entity_kind a, path_bytes (pa_path a),
     map_option path_bytes (pa_destination_path a), map_option path_bytes (pa_conflict_path a),
     pa_remote_id a, pa_sidecar_from_local_copy a, map_option reason_as_str (pa_skip_reason a),
     pa_size_bytes a)"

definition row_fits :: "planned_action \<Rightarrow> bool" where
  "row_fits a \<longleftrightarrow> fits (path_bytes (pa_path a)) \<and>
    opt_fits (map_option path_bytes (pa_destination_path a)) \<and>
    opt_fits (map_option path_bytes (pa_conflict_path a)) \<and> opt_fits (pa_remote_id a) \<and>
    opt_fits (map_option reason_as_str (pa_skip_reason a)) \<and>
    length (plan_row_preimage a) < 2 ^ 64"

lemma token_fits: "fits (sync_action_as_str a)" "fits (entity_kind_as_str k)"
  by (cases a; simp add: fits_def) (cases k; simp add: fits_def)

lemma map_option_u64_inj: "map_option u64_le_bytes x = map_option u64_le_bytes y \<longleftrightarrow> x = y"
  by (cases x; cases y) (simp_all add: u64_le_bytes_inj)

lemma opt_fits_u64: "opt_fits (map_option u64_le_bytes x)"
  by (cases x) (simp_all add: opt_fits_def fits_def)

lemma plan_row_preimage_inj:
  assumes "row_fits a" "row_fits b" "plan_row_preimage a = plan_row_preimage b"
  shows "row_identity a = row_identity b"
proof -
  note eq = assms(3)[unfolded plan_row_preimage_def]
  note fa = assms(1)[unfolded row_fits_def] and fb = assms(2)[unfolded row_fits_def]
  note c1 = row_field_cut[OF eq token_fits(1) token_fits(1)]
  note c2 = row_field_cut[OF c1[THEN conjunct2] token_fits(2) token_fits(2)]
  have c3: "path_bytes (pa_path a) = path_bytes (pa_path b)" and r3: "row_optional (map_option path_bytes (pa_destination_path a)) @
      row_optional (map_option path_bytes (pa_conflict_path a)) @ row_optional (pa_remote_id a) @
      row_field [if pa_sidecar_from_local_copy a then CHR 0x01 else CHR 0x00] @
      row_optional (map_option reason_as_str (pa_skip_reason a)) @
      row_optional (map_option u64_le_bytes (pa_size_bytes a)) =
      row_optional (map_option path_bytes (pa_destination_path b)) @
      row_optional (map_option path_bytes (pa_conflict_path b)) @ row_optional (pa_remote_id b) @
      row_field [if pa_sidecar_from_local_copy b then CHR 0x01 else CHR 0x00] @
      row_optional (map_option reason_as_str (pa_skip_reason b)) @
      row_optional (map_option u64_le_bytes (pa_size_bytes b))"
    using row_field_cut[OF c2[THEN conjunct2]] fa fb by blast+
  have c4: "map_option path_bytes (pa_destination_path a) = map_option path_bytes (pa_destination_path b)"
    and r4: "row_optional (map_option path_bytes (pa_conflict_path a)) @ row_optional (pa_remote_id a) @
      row_field [if pa_sidecar_from_local_copy a then CHR 0x01 else CHR 0x00] @
      row_optional (map_option reason_as_str (pa_skip_reason a)) @
      row_optional (map_option u64_le_bytes (pa_size_bytes a)) =
      row_optional (map_option path_bytes (pa_conflict_path b)) @ row_optional (pa_remote_id b) @
      row_field [if pa_sidecar_from_local_copy b then CHR 0x01 else CHR 0x00] @
      row_optional (map_option reason_as_str (pa_skip_reason b)) @
      row_optional (map_option u64_le_bytes (pa_size_bytes b))"
    using row_optional_cut[OF r3] fa fb by blast+
  note c5 = row_optional_cut[OF r4]
  note c6 = row_optional_cut[OF c5[THEN conjunct2]]
  note c7 = row_field_cut[OF c6[THEN conjunct2]]
  note c8 = row_optional_cut[OF c7[THEN conjunct2]]
  have c9: "row_optional (map_option u64_le_bytes (pa_size_bytes a)) = row_optional (map_option u64_le_bytes (pa_size_bytes b))"
    using c8 fa fb by (simp add: fits_def)
  have "map_option u64_le_bytes (pa_size_bytes a) = map_option u64_le_bytes (pa_size_bytes b)"
    using row_optional_cut[of "map_option u64_le_bytes (pa_size_bytes a)" "[]"] c9 opt_fits_u64 by fastforce
  moreover have "pa_sidecar_from_local_copy a = pa_sidecar_from_local_copy b"
    using c7 fa fb by (simp add: fits_def split: if_splits)
  ultimately show ?thesis
    using c1 c2 c3 c4 c5 c6 c8 fa fb
    by (simp add: row_identity_def map_option_u64_inj fits_def action_token.as_str_inj kind_token.as_str_inj)
qed

lemma plan_row_preimage_identity: "row_identity a = row_identity b \<Longrightarrow> plan_row_preimage a = plan_row_preimage b"
  by (simp add: row_identity_def plan_row_preimage_def)

lemma concat_prefixed_inj:
  "concat (map (\<lambda>row. u64_le_bytes (of_nat (length row)) @ row) xs) =
   concat (map (\<lambda>row. u64_le_bytes (of_nat (length row)) @ row) ys) \<Longrightarrow>
   list_all (\<lambda>r. length r < 2 ^ 64) xs \<Longrightarrow> list_all (\<lambda>r. length r < 2 ^ 64) ys \<Longrightarrow> xs = ys"
proof (induction xs arbitrary: ys)
  case Nil
  then show ?case by (cases ys) simp_all
next
  case (Cons x xs)
  show ?case
  proof (cases ys)
    case Nil
    with Cons.prems(1) show ?thesis by simp
  next
    case ys: (Cons y ys')
    let ?c = "\<lambda>zs. concat (map (\<lambda>row. u64_le_bytes (of_nat (length row)) @ row) zs)"
    from Cons.prems ys length_prefixed_cut[of x "?c xs" y "?c ys'"] have "x = y" "?c xs = ?c ys'"
      by simp_all
    with Cons.IH[of ys'] Cons.prems ys show ?thesis by simp
  qed
qed

lemma sort_eq_mset: "sort xs = sort ys \<longleftrightarrow> mset xs = mset ys"
proof
  assume "sort xs = sort ys"
  then have "mset (sort xs) = mset (sort ys)" by simp
  then show "mset xs = mset ys" by simp
next
  assume "mset xs = mset ys"
  then have "sorted_list_of_multiset (mset xs) = sorted_list_of_multiset (mset ys)" by simp
  then show "sort xs = sort ys" by simp
qed

lemma plan_token_input_eq_iff:
  assumes "list_all row_fits xs" "list_all row_fits ys"
  shows "plan_token_input xs = plan_token_input ys \<longleftrightarrow> mset (map row_identity xs) = mset (map row_identity ys)"
proof
  assume "plan_token_input xs = plan_token_input ys"
  then have "sort (map plan_row_preimage xs) = sort (map plan_row_preimage ys)"
    using assms by (intro concat_prefixed_inj) (auto simp: plan_token_input_def list_all_iff row_fits_def)
  then have m: "image_mset plan_row_preimage (mset xs) = image_mset plan_row_preimage (mset ys)"
    by (simp add: sort_eq_mset)
  define ident_of where "ident_of = (\<lambda>bs. row_identity (SOME a. row_fits a \<and> plan_row_preimage a = bs))"
  have ident_of: "ident_of (plan_row_preimage a) = row_identity a" if "row_fits a" for a
    unfolding ident_of_def
    by (rule plan_row_preimage_inj) (use that someI[of "\<lambda>x. row_fits x \<and> plan_row_preimage x = plan_row_preimage a" a] in auto)
  have via: "image_mset ident_of (image_mset plan_row_preimage (mset zs)) = mset (map row_identity zs)"
    if "list_all row_fits zs" for zs
    using that by (induction zs) (simp_all add: ident_of)
  from arg_cong[OF m, of "image_mset ident_of"]
  show "mset (map row_identity xs) = mset (map row_identity ys)"
    unfolding via[OF assms(1)] via[OF assms(2)] .
next
  assume m: "mset (map row_identity xs) = mset (map row_identity ys)"
  define fwd where "fwd = (\<lambda>i. plan_row_preimage (SOME a. row_identity a = i))"
  have fwd: "fwd (row_identity a) = plan_row_preimage a" for a
    unfolding fwd_def by (rule plan_row_preimage_identity, rule someI[of "\<lambda>x. row_identity x = row_identity a" a], rule refl)
  have "mset (map plan_row_preimage zs) = image_mset fwd (mset (map row_identity zs))" for zs
    by (induction zs) (simp_all add: fwd)
  with m have "mset (map plan_row_preimage xs) = mset (map plan_row_preimage ys)" by metis
  then have "sort (map plan_row_preimage xs) = sort (map plan_row_preimage ys)"
    unfolding sort_eq_mset .
  then show "plan_token_input xs = plan_token_input ys" by (simp only: plan_token_input_def)
qed

section \<open>Properties\<close>

text \<open>The summary is the count of the rows: every counter is the number of rows with that action, the
  total is their sum, and the destructive count is exactly the deletions of either side and the purges.\<close>

theorem summary_counts_the_rows:
  "let s = summary_from_plan pl in
     ps_uploads s = count_of Upload pl \<and> ps_downloads s = count_of Download pl \<and>
     ps_remote_directories_created s = count_of CreateRemoteDirectory pl \<and>
     ps_local_directories_created s = count_of CreateLocalDirectory pl \<and>
     ps_local_moves s = count_of MoveLocal pl \<and> ps_remote_moves s = count_of MoveRemote pl \<and>
     ps_auto_links s = count_of AutoLink pl \<and> ps_conflicts s = count_of Conflict pl \<and>
     ps_type_conflicts s = count_of TypeConflict pl \<and> ps_remote_deletes s = count_of RemoteDelete pl \<and>
     ps_local_deletes s = count_of LocalDelete pl \<and> ps_purges s = count_of Purge pl \<and>
     ps_skipped_unsupported s = count_of SkipUnsupported pl \<and>
     ps_total s = (\<Sum>k\<leftarrow>all_sync_actions. count_of k pl) \<and>
     ps_destructive_actions s = ps_remote_deletes s + ps_local_deletes s + ps_purges s"
  by (simp add: summary_from_plan_def foldl_count summary_default_def destructive_count Let_def
      length_by_action[symmetric])

text \<open>The bytes the plan token hashes identify the plan up to the order of its rows: two plans (whose
  fields are shorter than the address space) feed the hash the same bytes if and only if they have the
  same rows, each as often, in every field that says what will happen, a missing field told apart from
  an empty one.\<close>

theorem plan_token_input_identifies_the_rows:
  assumes "list_all row_fits xs" "list_all row_fits ys"
  shows "plan_token_input xs = plan_token_input ys \<longleftrightarrow>
    mset (map row_identity xs) = mset (map row_identity ys)"
  using assms by (rule plan_token_input_eq_iff)

definition ex_row :: "bytes option \<Rightarrow> planned_action" where
  "ex_row rid = pa_new [Normal ''a''] Download File rid"

lemma ex_row_fits: "list_all row_fits [ex_row rid]" if "rid = None \<or> rid = Some []" for rid
  using that
  by (auto simp: ex_row_def pa_new_def row_fits_def fits_def opt_fits_def plan_row_preimage_def
      row_field_def)

theorem plan_token_input_witness:
  "plan_token_input [ex_row (Some [])] \<noteq> plan_token_input [ex_row None]"
  using plan_token_input_identifies_the_rows[OF ex_row_fits[of "Some []"] ex_row_fits[of None]]
  by (simp add: row_identity_def ex_row_def pa_new_def)

lemma modified_upload_sized:
  "plan_modified_record_action p l r base ld rd nm = Some a \<Longrightarrow> pa_action a = Upload \<Longrightarrow> pa_size_bytes a \<noteq> None"
  by (auto simp: plan_modified_record_action_def with_local_size_def split: option.splits if_splits file_delta.splits)

lemma ongoing_upload_sized:
  assumes "plan_ongoing_file_action p l r base nm = Some (Some a)" "pa_action a = Upload"
  shows "pa_size_bytes a \<noteq> None"
proof -
  from assms(1) obtain h where h: "fr_sha1_hash base = Some h"
    by (auto simp: plan_ongoing_file_action_def split: option.splits)
  show ?thesis
  proof (cases l)
    case None
    with assms h show ?thesis
      by (auto simp: plan_ongoing_file_action_def plan_ongoing_file_match_def Let_def
          split: option.splits if_splits file_delta.splits dest: modified_upload_sized)
  next
    case (Some f)
    with assms h show ?thesis
      by (auto simp: plan_ongoing_file_action_def plan_ongoing_file_match_def Let_def sized_if_def
          with_local_size_def
          split: option.splits if_splits file_delta.splits dest: modified_upload_sized)
  qed
qed

lemma bootstrap_upload_sized:
  "plan_bootstrap_entity_action p l r nm = Some a \<Longrightarrow> pa_action a = Upload \<Longrightarrow> pa_size_bytes a \<noteq> None"
  by (cases "(p, l, r, nm)" rule: plan_bootstrap_entity_action.cases)
    (auto simp: with_local_size_def split: if_splits elim!: plan_bootstrap_file_action.elims)

lemma entity_upload_sized:
  assumes "plan_entity_action p l r b boot vs nm = Some a" "pa_action a = Upload"
  shows "pa_size_bytes a \<noteq> None"
proof -
  have dir: "plan_ongoing_directory_action p l' r' base vs = Some a \<Longrightarrow> pa_action a \<noteq> Upload" for l' r' base
    by (auto simp: plan_ongoing_directory_action_def Let_def split: if_splits bool.splits)
  from assms show ?thesis
    by (auto simp del: plan_bootstrap_entity_action.simps simp: plan_entity_action_def type_conflict_path
        split: if_splits option.splits
        dest: bootstrap_upload_sized ongoing_upload_sized dir ongoing_file_the)
qed

text \<open>The byte total of a planned upload is never unknown and never partial: for every plan of the
  planner it is the sum of the sizes of all upload rows, saturating at the largest 64-bit number.\<close>

theorem planned_upload_bytes_are_complete:
  "map_option unat (ps_upload_bytes (summary_from_plan (plan_sync_entities L R B nm))) =
   Some (min (\<Sum>a\<leftarrow>filter (\<lambda>a. pa_action a = Upload) (plan_sync_entities L R B nm).
                 unat (the (pa_size_bytes a))) (2 ^ 64 - 1))"
proof -
  let ?ups = "filter (\<lambda>a. pa_action a = Upload) (plan_sync_entities L R B nm)"
  have "pa_size_bytes a \<noteq> None" if "a \<in> set ?ups" for a
  proof -
    from that have "a \<in> set (raw_plan L R B nm)" "pa_action a = Upload" by (auto dest: plan_subset_raw)
    then show ?thesis
      by (cases rule: raw_plan_cases) (auto simp: path_action_def dest: entity_upload_sized)
  qed
  then have "list_all (\<lambda>a. pa_size_bytes a \<noteq> None) ?ups" by (auto simp: list_all_iff)
  then have "total_upload_bytes (plan_sync_entities L R B nm) =
      Some (foldl saturating_add 0 (map (the \<circ> pa_size_bytes) ?ups))"
    unfolding total_upload_bytes_def by (subst try_fold_sizes_Some) simp
  then show ?thesis by (simp add: summary_from_plan_def Let_def foldl_saturating comp_def)
qed

end
