(* ===== verification/Scan_Options.thy ===== *)
theory Scan_Options
  imports Plan_Report
begin

text \<open>
  What the engine looks at (\<^verbatim>\<open>src/index.rs\<close>): the ignore rules and the selective-sync options, the
  local stat-walk over a file tree whose system calls can fail, the quick-check that reuses a recorded
  hash, and the byte key a path is stored under. The glob matcher is a library: a compiled glob set is
  a parameter, a predicate on paths.
\<close>

section \<open>Names\<close>

fun join_slash :: "bytes list \<Rightarrow> bytes" where
  "join_slash [] = []"
| "join_slash [x] = x"
| "join_slash (x # xs) = x @ ''/'' @ join_slash xs"

definition path_key :: "path \<Rightarrow> bytes" where
  "path_key p = join_slash (map (\<lambda>c. to_string_lossy (component_text c)) p)"

definition index_key :: "path \<Rightarrow> bytes" where
  "index_key p = foldl (\<lambda>key c. (if key \<noteq> [] then key @ ''/'' else key) @ component_text c) [] p"

definition read_index_key :: "bytes \<Rightarrow> path" where
  "read_index_key bs = parse_path bs"

definition sync_state_dir_name :: bytes where "sync_state_dir_name = ''.sync''"
definition directory_config_file_name :: bytes where "directory_config_file_name = ''.proton-sync.toml''"
definition download_scratch_prefix :: bytes where "download_scratch_prefix = ''.proton-sync-download-''"

definition is_sync_state_path :: "path \<Rightarrow> bool" where
  "is_sync_state_path p = (case p of [] \<Rightarrow> False | c # _ \<Rightarrow> component_text c = sync_state_dir_name)"

definition is_download_scratch_path :: "path \<Rightarrow> bool" where
  "is_download_scratch_path p = list_ex (\<lambda>c. prefix download_scratch_prefix (component_text c)) p"

definition is_ascii_digit :: "char \<Rightarrow> bool" where
  "is_ascii_digit c \<longleftrightarrow> 0x30 \<le> (of_char c :: nat) \<and> (of_char c :: nat) \<le> 0x39"

definition is_trash_name :: "bytes \<Rightarrow> bool" where
  "is_trash_name bs \<longleftrightarrow> bs = ''.Trash'' \<or>
    (prefix ''.Trash-'' bs \<and> drop 7 bs \<noteq> [] \<and> list_all is_ascii_digit (drop 7 bs))"

definition is_trash_dir_path :: "path \<Rightarrow> bool" where
  "is_trash_dir_path p = list_ex (\<lambda>c. is_trash_name (component_text c)) p"

definition is_never_synced_directory :: "path \<Rightarrow> bool" where
  "is_never_synced_directory p \<longleftrightarrow>
     is_download_scratch_path p \<or> is_sync_state_path p \<or> is_trash_dir_path p"

definition should_ignore_relative_path :: "path \<Rightarrow> conflict_naming \<Rightarrow> bool" where
  "should_ignore_relative_path p nm \<longleftrightarrow>
    is_conflict_copy nm p \<or> is_never_synced_directory p \<or>
    (let file_name = Option.bind (path_file_name p) to_str in
     file_name = Some ''sync_index.db'' \<or> file_name = Some ''sync_index.db-journal'' \<or>
     file_name = Some ''sync_index.db-wal'' \<or> file_name = Some ''sync_index.db-shm'' \<or>
     file_name = Some directory_config_file_name)"

definition should_ignore_path :: "path \<Rightarrow> conflict_naming \<Rightarrow> bool" where
  "should_ignore_path = should_ignore_relative_path"

definition sqlite_sidecar_paths :: "path \<Rightarrow> path list" where
  "sqlite_sidecar_paths p =
    map (\<lambda>s. parse_path (path_bytes p @ s)) [''-journal'', ''-wal'', ''-shm'']"

text \<open>\<open>canon\<close> is \<open>canonicalize_best_effort\<close>, which asks the file system.\<close>

definition is_absolute :: "path \<Rightarrow> bool" where
  "is_absolute p = (case p of c # _ \<Rightarrow> c = RootDir | [] \<Rightarrow> False)"

definition normalize_ignored_path :: "(path \<Rightarrow> path) \<Rightarrow> path \<Rightarrow> path \<Rightarrow> path option" where
  "normalize_ignored_path canon root p =
    (case Option.bind (strip_prefix p root) validate_relative_path of
       Some normalized \<Rightarrow> Some normalized
     | None \<Rightarrow>
         (case Option.bind (strip_prefix (canon p) (canon root)) validate_relative_path of
            Some normalized \<Rightarrow> Some normalized
          | None \<Rightarrow> if \<not> is_absolute p then validate_relative_path p else None))"

section \<open>Options\<close>

type_synonym glob_set = "path \<Rightarrow> bool"

record scan_options =
  so_ignored_relative_paths :: "path list"
  so_include_patterns :: glob_set
  so_include_pattern_strings :: "bytes list"
  so_has_include_patterns :: bool
  so_exclude_patterns :: glob_set
  so_conflict_naming :: conflict_naming

text \<open>\<open>build\<close> compiles patterns to a glob set, or fails on a malformed one.\<close>

definition scan_options_new ::
  "(bytes list \<Rightarrow> glob_set option) \<Rightarrow> (path \<Rightarrow> path) \<Rightarrow> path \<Rightarrow> path list \<Rightarrow> bytes list \<Rightarrow> bytes list \<Rightarrow>
   conflict_naming \<Rightarrow> scan_options option" where
  "scan_options_new build canon root ignored_paths include_patterns exclude_patterns nm =
    (let ignored = List.map_filter (normalize_ignored_path canon root)
           (concat (map (\<lambda>p. p # sqlite_sidecar_paths p) ignored_paths))
     in case build include_patterns of None \<Rightarrow> None
        | Some inc \<Rightarrow>
            (case build exclude_patterns of None \<Rightarrow> None
             | Some exc \<Rightarrow>
                 Some \<lparr>so_ignored_relative_paths = ignored, so_include_patterns = inc,
                       so_include_pattern_strings = include_patterns,
                       so_has_include_patterns = (include_patterns \<noteq> []),
                       so_exclude_patterns = exc, so_conflict_naming = nm\<rparr>))"

definition is_configured_ignored :: "scan_options \<Rightarrow> path \<Rightarrow> bool" where
  "is_configured_ignored so p = list_ex (\<lambda>ignored. ignored = p) (so_ignored_relative_paths so)"

definition glob_matches :: "glob_set \<Rightarrow> path \<Rightarrow> bool" where
  "glob_matches patterns p \<longleftrightarrow> patterns p \<or> patterns (parse_path (path_key p))"

definition allows_relative_file :: "scan_options \<Rightarrow> path \<Rightarrow> bool" where
  "allows_relative_file so p =
    (if should_ignore_relative_path p (so_conflict_naming so) \<or> is_configured_ignored so p then False
     else if glob_matches (so_exclude_patterns so) p then False
     else \<not> so_has_include_patterns so \<or> glob_matches (so_include_patterns so) p)"

definition allows_directory_traversal :: "scan_options \<Rightarrow> path \<Rightarrow> bool" where
  "allows_directory_traversal so p \<longleftrightarrow>
    p = [] \<or> (\<not> is_never_synced_directory p \<and> \<not> is_configured_ignored so p \<and>
              \<not> glob_matches (so_exclude_patterns so) p)"

definition allows_relative_directory :: "scan_options \<Rightarrow> path \<Rightarrow> bool" where
  "allows_relative_directory so p =
    (if \<not> allows_directory_traversal so p then False
     else if p = [] \<or> \<not> so_has_include_patterns so then True
     else if glob_matches (so_include_patterns so) p then True
     else list_ex (\<lambda>pattern. prefix (path_key p @ ''/'') pattern) (so_include_pattern_strings so))"

text \<open>The filters of \<^verbatim>\<open>src/daemon.rs\<close>, which put the remote map and the index behind the same options.\<close>

definition filter_remote_entities :: "remote_map \<Rightarrow> scan_options \<Rightarrow> remote_map" where
  "filter_remote_entities R so =
    filter (\<lambda>(p, entity). case entity of RemoteFile _ \<Rightarrow> allows_relative_file so p
                                  | RemoteDirectory _ \<Rightarrow> allows_relative_directory so p) R"

definition filter_base_index :: "base_map \<Rightarrow> scan_options \<Rightarrow> base_map" where
  "filter_base_index B so =
    filter (\<lambda>(p, record). case fr_entity_kind record of File \<Rightarrow> allows_relative_file so p
                                  | Directory \<Rightarrow> allows_relative_directory so p) B"

definition local_files_from_entities :: "local_map \<Rightarrow> (path, local_file_state) hmap" where
  "local_files_from_entities L =
    List.map_filter (\<lambda>(p, e). map_option (\<lambda>f. (p, f)) (local_as_file e)) L"

definition prepend_remote_root_creation_if_missing :: "plan \<Rightarrow> bool \<Rightarrow> plan" where
  "prepend_remote_root_creation_if_missing pl root_missing =
    (if root_missing then pa_new [] CreateRemoteDirectory Directory None # pl else pl)"

section \<open>The local walk\<close>

text \<open>
  A file tree as the walk meets it: the answer of every system call is part of the tree, so an entry
  that vanishes or cannot be read is a value. \<open>FsFile\<close> carries the metadata (size, modification time)
  and the digest of the content, \<open>FsDir\<close> the metadata and the listing in \<open>read_dir\<close> order; an entry
  is an error of the listing itself, a name whose \<open>file_type\<close> failed, or a name with its node.
\<close>

datatype io_error = NotFound | OtherIo

type_synonym 'a io = "io_error + 'a"

datatype special_kind = Symlink | Socket | Fifo | BlockDevice | CharDevice | UnknownKind

datatype fs_node =
  FsFile "io_error + u64 \<times> int" "io_error + bytes"
| FsDir "io_error + int" fs_listing
| FsSpecial special_kind
and fs_listing = ListError io_error | Entries "fs_entry list"
and fs_entry = EntryError io_error | EntryUntyped bytes io_error | Entry bytes fs_node

fun vanished_entry_to_skip :: "'a io \<Rightarrow> 'a option io" where
  "vanished_entry_to_skip (Inr v) = Inr (Some v)"
| "vanished_entry_to_skip (Inl NotFound) = Inr None"
| "vanished_entry_to_skip (Inl OtherIo) = Inl OtherIo"

fun local_unsyncable_reason :: "special_kind \<Rightarrow> unsyncable_reason" where
  "local_unsyncable_reason Symlink = LocalSymlink"
| "local_unsyncable_reason Socket = LocalSocket"
| "local_unsyncable_reason Fifo = LocalFifo"
| "local_unsyncable_reason BlockDevice = LocalDevice"
| "local_unsyncable_reason CharDevice = LocalDevice"
| "local_unsyncable_reason UnknownKind = LocalSpecialFile"

definition local_file_state_reusing_hash ::
  "path \<Rightarrow> path \<Rightarrow> base_map \<Rightarrow> (u64 \<times> int) io \<Rightarrow> bytes io \<Rightarrow> local_file_state io" where
  "local_file_state_reusing_hash root relative known metadata digest =
    (case metadata of Inl e \<Rightarrow> Inl e
     | Inr (file_size, mtime) \<Rightarrow>
         if mtime < 0 then Inl OtherIo
         else
           (let sha1_hash =
              (case hm_get known relative of
                 Some record \<Rightarrow>
                   if fr_entity_kind record = File \<and> fr_file_size record = file_size \<and> fr_mtime record = mtime
                   then (case fr_sha1_hash record of Some h \<Rightarrow> Inr h | None \<Rightarrow> digest)
                   else digest
               | None \<Rightarrow> digest)
            in case sha1_hash of Inl e \<Rightarrow> Inl e
               | Inr h \<Rightarrow>
                   Inr \<lparr>lf_relative_path = relative, lf_absolute_path = join_path root relative,
                        lf_file_size = file_size, lf_mtime = mtime, lf_sha1_hash = h\<rparr>))"

definition local_directory_state_at :: "path \<Rightarrow> path \<Rightarrow> int io \<Rightarrow> local_directory_state io" where
  "local_directory_state_at root relative metadata =
    (case metadata of Inl e \<Rightarrow> Inl e
     | Inr mtime \<Rightarrow>
         if mtime < 0 then Inl OtherIo
         else Inr \<lparr>ld_relative_path = relative, ld_absolute_path = join_path root relative, ld_mtime = mtime\<rparr>)"

record local_scan =
  ls_entities :: local_map
  ls_unsyncable :: "unsyncable_entry list"

record walk_context =
  wc_root :: path
  wc_options :: scan_options
  wc_known :: base_map

definition scan_add :: "path \<Rightarrow> local_entity_state \<Rightarrow> local_scan \<Rightarrow> local_scan" where
  "scan_add p e s = s\<lparr>ls_entities := hm_insert p e (ls_entities s)\<rparr>"

definition scan_drop :: "path \<Rightarrow> special_kind \<Rightarrow> local_scan \<Rightarrow> local_scan" where
  "scan_drop p k s =
    s\<lparr>ls_unsyncable := ls_unsyncable s @ [\<lparr>ue_relative_path = p, ue_reason = local_unsyncable_reason k\<rparr>]\<rparr>"

text \<open>
  The walk returns the scan it has so far beside the error that stopped it: the code fills the scan in
  place, and a directory that vanishes half way keeps what was found in it.
\<close>

fun visit_directory ::
  "walk_context \<Rightarrow> path \<Rightarrow> fs_listing \<Rightarrow> local_scan \<Rightarrow> local_scan \<times> io_error option"
and visit_entries ::
  "walk_context \<Rightarrow> path \<Rightarrow> fs_entry list \<Rightarrow> local_scan \<Rightarrow> local_scan \<times> io_error option"
and visit_node ::
  "walk_context \<Rightarrow> path \<Rightarrow> fs_node \<Rightarrow> local_scan \<Rightarrow> local_scan \<times> io_error option" where
  "visit_directory ctx dir (ListError e) s = (s, Some e)"
| "visit_directory ctx dir (Entries es) s = visit_entries ctx dir es s"
| "visit_entries ctx dir [] s = (s, None)"
| "visit_entries ctx dir (EntryError e # es) s = (s, Some e)"
| "visit_entries ctx dir (EntryUntyped name NotFound # es) s = visit_entries ctx dir es s"
| "visit_entries ctx dir (EntryUntyped name OtherIo # es) s = (s, Some OtherIo)"
| "visit_entries ctx dir (Entry name node # es) s =
    (case visit_node ctx (dir @ [Normal name]) node s of
       (s', None) \<Rightarrow> visit_entries ctx dir es s'
     | (s', Some e) \<Rightarrow> (s', Some e))"
| "visit_node ctx p (FsDir metadata listing) s =
    (if allows_directory_traversal (wc_options ctx) p then
       (case (if allows_relative_directory (wc_options ctx) p
              then map_sum id (map_option (\<lambda>d. scan_add p (LocalDirectory d) s))
                     (vanished_entry_to_skip (local_directory_state_at (wc_root ctx) p metadata))
              else Inr (Some s)) of
          Inl e \<Rightarrow> (s, Some e)
        | Inr None \<Rightarrow> (s, None)
        | Inr (Some s1) \<Rightarrow>
            (case visit_directory ctx p listing s1 of
               (s2, Some OtherIo) \<Rightarrow> (s2, Some OtherIo)
             | (s2, _) \<Rightarrow> (s2, None)))
     else (s, None))"
| "visit_node ctx p (FsFile metadata digest) s =
    (if \<not> allows_relative_file (wc_options ctx) p then (s, None)
     else (case vanished_entry_to_skip
                  (local_file_state_reusing_hash (wc_root ctx) p (wc_known ctx) metadata digest) of
        Inl e \<Rightarrow> (s, Some e)
      | Inr None \<Rightarrow> (s, None)
      | Inr (Some f) \<Rightarrow> (scan_add p (LocalFile f) s, None)))"
| "visit_node ctx p (FsSpecial k) s =
    (if \<not> allows_relative_file (wc_options ctx) p then (s, None) else (scan_drop p k s, None))"

definition empty_scan :: local_scan where
  "empty_scan = \<lparr>ls_entities = [], ls_unsyncable = []\<rparr>"

definition scan_local_tree :: "path \<Rightarrow> scan_options \<Rightarrow> base_map \<Rightarrow> fs_listing \<Rightarrow> local_scan io" where
  "scan_local_tree root so known listing =
    (case visit_directory \<lparr>wc_root = root, wc_options = so, wc_known = known\<rparr> [] listing empty_scan of
       (s, None) \<Rightarrow> Inr s
     | (s, Some e) \<Rightarrow> Inl e)"

definition scan_local_files :: "path \<Rightarrow> scan_options \<Rightarrow> fs_listing \<Rightarrow> (path, local_file_state) hmap io" where
  "scan_local_files root so listing =
    map_sum id (\<lambda>s. local_files_from_entities (ls_entities s)) (scan_local_tree root so [] listing)"

text \<open>The emptiness probe: the same rules, stopping at the first entry that would be kept.\<close>

fun holds_in :: "scan_options \<Rightarrow> path \<Rightarrow> fs_listing \<Rightarrow> bool io"
and holds_in_entries :: "scan_options \<Rightarrow> path \<Rightarrow> fs_entry list \<Rightarrow> bool io" where
  "holds_in so dir (ListError e) = Inl e"
| "holds_in so dir (Entries es) = holds_in_entries so dir es"
| "holds_in_entries so dir [] = Inr False"
| "holds_in_entries so dir (EntryError e # es) = Inl e"
| "holds_in_entries so dir (EntryUntyped name NotFound # es) = holds_in_entries so dir es"
| "holds_in_entries so dir (EntryUntyped name OtherIo # es) = Inl OtherIo"
| "holds_in_entries so dir (Entry name (FsDir metadata listing) # es) =
    (let p = dir @ [Normal name] in
     if \<not> allows_directory_traversal so p then holds_in_entries so dir es
     else if allows_relative_directory so p then Inr True
     else (case vanished_entry_to_skip (holds_in so p listing) of
         Inl e \<Rightarrow> Inl e
       | Inr r \<Rightarrow> if r = Some True then Inr True else holds_in_entries so dir es))"
| "holds_in_entries so dir (Entry name (FsFile metadata digest) # es) =
    (if allows_relative_file so (dir @ [Normal name]) then Inr True else holds_in_entries so dir es)"
| "holds_in_entries so dir (Entry name (FsSpecial k) # es) = holds_in_entries so dir es"

definition local_tree_holds_syncable_entry :: "scan_options \<Rightarrow> fs_listing \<Rightarrow> bool io" where
  "local_tree_holds_syncable_entry so listing = holds_in so [] listing"

section \<open>Laws of the keys\<close>

lemma split_join_slash:
  "xs \<noteq> [] \<Longrightarrow> list_all (\<lambda>x. CHR ''/'' \<notin> set x) xs \<Longrightarrow> split_on CHR ''/'' (join_slash xs) = xs"
  by (induction xs rule: join_slash.induct) (simp_all add: split_on_no_sep split_on_append)

lemma join_slash_snoc: "xs \<noteq> [] \<Longrightarrow> join_slash (xs @ [x]) = join_slash xs @ ''/'' @ x"
  by (induction xs rule: join_slash.induct) auto

lemma join_slash_nonempty: "xs \<noteq> [] \<Longrightarrow> list_all (\<lambda>x. x \<noteq> []) xs \<Longrightarrow> join_slash xs \<noteq> []"
  by (cases xs rule: join_slash.cases) auto

definition plain_path :: "path \<Rightarrow> bool" where
  "plain_path p \<longleftrightarrow> (\<exists>ns. p = map Normal ns \<and> list_all plain_name ns)"

lemma index_key_join: "list_all plain_name ns \<Longrightarrow> index_key (map Normal ns) = join_slash ns"
proof (induction ns rule: rev_induct)
  case (snoc n ns)
  have step: "index_key (p @ [Normal n]) = (if index_key p \<noteq> [] then index_key p @ ''/'' else index_key p) @ n" for p
    by (simp add: index_key_def)
  show ?case
  proof (cases "ns = []")
    case True
    then show ?thesis by (simp add: index_key_def)
  next
    case False
    from snoc.prems have "list_all (\<lambda>x. x \<noteq> []) ns" by (simp add: list_all_iff plain_name_def)
    from join_slash_nonempty[OF False this] snoc False show ?thesis
      by (simp add: step join_slash_snoc)
  qed
qed (simp add: index_key_def)

lemma map_filter_plain: "list_all plain_name ns \<Longrightarrow> List.map_filter component_of ns = map Normal ns"
  by (induction ns) (auto simp: List.map_filter_simps plain_name_def)

lemma parse_join_slash:
  assumes "list_all plain_name ns"
  shows "parse_path (join_slash ns) = map Normal ns"
proof (cases ns)
  case Nil
  then show ?thesis by (simp add: parse_path_def Let_def List.map_filter_simps)
next
  case (Cons n ms)
  with assms have n: "plain_name n" by simp
  have "split_on CHR ''/'' (join_slash ns) = ns"
    using assms Cons by (intro split_join_slash) (auto simp: list_all_iff plain_name_def)
  moreover have "join_slash ns \<noteq> []" "hd (join_slash ns) = hd n"
    using n Cons by (cases ms; auto simp: plain_name_def)+
  moreover have "hd n \<noteq> CHR ''/''" "n \<noteq> ''.''" using n by (cases n; auto simp: plain_name_def)+
  ultimately show ?thesis using Cons map_filter_plain[OF assms] by (simp add: parse_path_def Let_def)
qed

text \<open>The key of a relative path of plain names names that path and no other.\<close>

lemma read_index_key_plain: "plain_path p \<Longrightarrow> read_index_key (index_key p) = p"
  by (auto simp: plain_path_def read_index_key_def index_key_join parse_join_slash)

lemma index_key_inj: "plain_path p \<Longrightarrow> plain_path q \<Longrightarrow> index_key p = index_key q \<longleftrightarrow> p = q"
  by (metis read_index_key_plain)

section \<open>Laws of the walk\<close>

text \<open>What the walk can reach: an entry that stands before any error of its listing, in the scanned
  directory or in a directory below it that may be traversed and did not vanish.\<close>

inductive reaches :: "scan_options \<Rightarrow> path \<Rightarrow> fs_listing \<Rightarrow> path \<Rightarrow> fs_node \<Rightarrow> bool" for so where
  here: "reaches so dir (Entries (Entry name node # es)) (dir @ [Normal name]) node"
| later: "reaches so dir (Entries es) p node \<Longrightarrow> (\<And>err. e \<noteq> EntryError err) \<Longrightarrow>
    reaches so dir (Entries (e # es)) p node"
| below: "allows_directory_traversal so (dir @ [Normal name]) \<Longrightarrow>
    \<not> (allows_relative_directory so (dir @ [Normal name]) \<and> metadata = Inl NotFound) \<Longrightarrow>
    reaches so (dir @ [Normal name]) listing p node \<Longrightarrow>
    reaches so dir (Entries (Entry name (FsDir metadata listing) # es)) p node"

lemma vanished_Inl: "vanished_entry_to_skip r = Inl e \<longleftrightarrow> r = Inl OtherIo \<and> e = OtherIo"
  by (cases r rule: vanished_entry_to_skip.cases) auto

lemma vanished_None: "vanished_entry_to_skip r = Inr None \<longleftrightarrow> r = Inl NotFound"
  by (cases r rule: vanished_entry_to_skip.cases) auto

lemma vanished_Some: "vanished_entry_to_skip r = Inr (Some v) \<longleftrightarrow> r = Inr v"
  by (cases r rule: vanished_entry_to_skip.cases) auto

lemmas vanished_simps = vanished_Inl vanished_None vanished_Some

definition scan_keys :: "local_scan \<Rightarrow> path set" where
  "scan_keys s = set (hm_keys (ls_entities s))"

lemma scan_keys_add [simp]: "scan_keys (scan_add p e s) = insert p (scan_keys s)"
  by (auto simp: scan_keys_def scan_add_def hm_contains_iff[symmetric] hm_contains_def hm_get_insert
      split: if_splits)

lemma scan_keys_drop [simp]: "scan_keys (scan_drop p k s) = scan_keys s"
  by (simp add: scan_keys_def scan_drop_def)

text \<open>A directory node, step by step.\<close>

lemma visit_dir_cases:
  assumes "visit_node ctx p (FsDir metadata listing) s = (s', r)"
  obtains (closed) "\<not> allows_directory_traversal (wc_options ctx) p" "s' = s" "r = None"
  | (gone) "allows_relative_directory (wc_options ctx) p" "metadata = Inl NotFound" "s' = s" "r = None"
  | (failed) "allows_relative_directory (wc_options ctx) p" "s' = s" "r = Some OtherIo"
  | (entered) s1 r1 where "allows_directory_traversal (wc_options ctx) p"
      "s1 = s \<or> (allows_relative_directory (wc_options ctx) p \<and> (\<exists>d. s1 = scan_add p (LocalDirectory d) s))"
      "visit_directory ctx p listing s1 = (s', r1)" "r = (if r1 = Some OtherIo then r1 else None)"
proof (cases "allows_directory_traversal (wc_options ctx) p")
  case False
  with assms closed show thesis by simp
next
  case trav: True
  have final: "(case v of (s2, Some OtherIo) \<Rightarrow> (s2, Some OtherIo) | (s2, _) \<Rightarrow> (s2, None)) = (s', r) \<Longrightarrow>
      \<exists>r1. v = (s', r1) \<and> r = (if r1 = Some OtherIo then r1 else None)" for v
    by (auto split: prod.splits option.splits io_error.splits)
  show thesis
  proof (cases "allows_relative_directory (wc_options ctx) p")
    case False
    with assms trav have "\<exists>r1. visit_directory ctx p listing s = (s', r1) \<and> r = (if r1 = Some OtherIo then r1 else None)"
      by (intro final) simp
    with trav entered show thesis by blast
  next
    case rel: True
    let ?st = "local_directory_state_at (wc_root ctx) p metadata"
    show thesis
    proof (cases ?st)
      case (Inl e)
      show thesis
      proof (cases e)
        case NotFound
        with Inl have "metadata = Inl NotFound"
          by (auto simp: local_directory_state_at_def split: sum.splits if_splits)
        with assms trav rel Inl NotFound gone show thesis by simp
      next
        case OtherIo
        with assms trav rel Inl failed show thesis by simp
      qed
    next
      case (Inr d)
      with assms trav rel have "\<exists>r1. visit_directory ctx p listing (scan_add p (LocalDirectory d) s) = (s', r1) \<and>
          r = (if r1 = Some OtherIo then r1 else None)"
        by (intro final) simp
      with trav rel entered show thesis by blast
    qed
  qed
qed

lemma visit_node_no_NotFound: "snd (visit_node ctx p node s) \<noteq> Some NotFound"
proof (cases node)
  case (FsDir m l)
  obtain s' r where v: "visit_node ctx p (FsDir m l) s = (s', r)" by (metis surj_pair)
  then have "r \<noteq> Some NotFound" by (cases rule: visit_dir_cases) (simp_all split: if_splits)
  then show ?thesis unfolding FsDir v by simp
qed (auto simp: vanished_simps split: sum.splits option.splits)

text \<open>
  An invariant of the scan that every recorded directory, recorded file and dropped entry keeps is an
  invariant of the whole walk.
\<close>

lemma visit_invariant:
  assumes on_dir: "\<And>p d s. I s \<Longrightarrow> allows_relative_directory (wc_options ctx) p \<Longrightarrow> I (scan_add p (LocalDirectory d) s)"
    and on_file: "\<And>p f s. I s \<Longrightarrow> allows_relative_file (wc_options ctx) p \<Longrightarrow> I (scan_add p (LocalFile f) s)"
    and on_drop: "\<And>p k s. I s \<Longrightarrow> allows_relative_file (wc_options ctx) p \<Longrightarrow> I (scan_drop p k s)"
  shows "I s \<Longrightarrow> I (fst (visit_node ctx p node s))"
    and "I s \<Longrightarrow> I (fst (visit_directory ctx p listing s))"
    and "\<And>name node. e = Entry name node \<Longrightarrow> I s \<Longrightarrow> I (fst (visit_node ctx p node s))"
proof (induction node and listing and e arbitrary: p s and p s and p s)
  case (FsFile m h)
  then show ?case using on_file by (auto split: sum.splits option.splits)
next
  case (FsDir m l)
  obtain s' r where v: "visit_node ctx p (FsDir m l) s = (s', r)" by (metis surj_pair)
  then have "I s'"
  proof (cases rule: visit_dir_cases)
    case (entered s1 r1)
    with FsDir.prems on_dir have "I s1" by auto
    with FsDir.IH[of s1 p] entered show ?thesis by simp
  qed (use FsDir.prems in simp_all)
  then show ?case unfolding v by simp
next
  case (FsSpecial k)
  then show ?case using on_drop by auto
next
  case (Entries es)
  have "I (fst (visit_entries ctx p es s))"
    using Entries
  proof (induction es arbitrary: s)
    case (Cons e es)
    have IH: "I t \<Longrightarrow> I (fst (visit_entries ctx p es t))" for t
      by (rule Cons.IH, rule Cons.prems(1)) auto
    show ?case
    proof (cases e)
      case (EntryUntyped n err)
      with IH Cons.prems show ?thesis by (cases err) auto
    next
      case (Entry n node)
      have "Entry n node \<in> set (e # es)" using Entry by simp
      from Cons.prems(1)[OF this refl Cons.prems(2)] have "I (fst (visit_node ctx (p @ [Normal n]) node s))" .
      with IH Entry show ?thesis by (auto split: prod.splits option.splits)
    qed (use Cons.prems in simp)
  qed simp
  then show ?case by simp
qed auto

lemma visit_keys_mono:
  "scan_keys s \<subseteq> scan_keys (fst (visit_node ctx p node s))"
  "scan_keys s \<subseteq> scan_keys (fst (visit_directory ctx p listing s))"
  by (rule visit_invariant[where I = "\<lambda>t. scan_keys s \<subseteq> scan_keys t"]; auto)+

lemma visit_entries_mono: "scan_keys s \<subseteq> scan_keys (fst (visit_entries ctx dir es s))"
  using visit_keys_mono(2)[of s ctx dir "Entries es"] by simp

lemma visit_entries_Cons:
  assumes "snd (visit_entries ctx dir (e # es) s) \<noteq> Some OtherIo" "\<And>err. e \<noteq> EntryError err"
  shows "\<exists>s'. snd (visit_entries ctx dir es s') \<noteq> Some OtherIo \<and>
    fst (visit_entries ctx dir (e # es) s) = fst (visit_entries ctx dir es s') \<and>
    (\<forall>name node. e = Entry name node \<longrightarrow> visit_node ctx (dir @ [Normal name]) node s = (s', None))"
proof (cases e)
  case (EntryUntyped n err)
  with assms show ?thesis by (cases err) auto
next
  case (Entry n node)
  obtain s' r where v: "visit_node ctx (dir @ [Normal n]) node s = (s', r)" by (metis surj_pair)
  have "r = None"
  proof (rule ccontr)
    assume "r \<noteq> None"
    then obtain err where "r = Some err" by auto
    with visit_node_no_NotFound[of ctx "dir @ [Normal n]" node s] v have "r = Some OtherIo" by (cases err) auto
    with assms v Entry show False by simp
  qed
  with assms v Entry show ?thesis by auto
qed (use assms in blast)

text \<open>Completeness: a file the walk can reach is recorded, unless it vanished or the walk failed.\<close>

lemma visit_reaches:
  assumes "reaches (wc_options ctx) dir listing p node"
    and "snd (visit_directory ctx dir listing s) \<noteq> Some OtherIo"
    and "node = FsFile metadata digest" "allows_relative_file (wc_options ctx) p"
    and "metadata \<noteq> Inl NotFound" "digest \<noteq> Inl NotFound"
  shows "p \<in> scan_keys (fst (visit_directory ctx dir listing s))"
  using assms
proof (induction arbitrary: s rule: reaches.induct)
  case (here dir name node es)
  from here.prems(1) obtain s' where s': "visit_node ctx (dir @ [Normal name]) node s = (s', None)"
    and fin: "fst (visit_entries ctx dir (Entry name node # es) s) = fst (visit_entries ctx dir es s')"
    using visit_entries_Cons[of ctx dir "Entry name node" es s] by auto
  let ?p = "dir @ [Normal name]"
  let ?st = "local_file_state_reusing_hash (wc_root ctx) ?p (wc_known ctx) metadata digest"
  have "?st \<noteq> Inl NotFound"
    using here.prems by (auto simp: local_file_state_reusing_hash_def Let_def split: sum.splits option.splits if_splits)
  moreover have "?st \<noteq> Inl OtherIo" using s' here.prems by auto
  ultimately obtain f where "?st = Inr f" by (cases ?st) (auto, metis io_error.exhaust)
  with s' here.prems have "s' = scan_add ?p (LocalFile f) s" by simp
  then have "?p \<in> scan_keys s'" by simp
  with visit_entries_mono[of s' ctx dir es] fin show ?case by auto
next
  case (later dir es p node e)
  from later.prems(1) later.hyps(2) obtain s' where
    "snd (visit_entries ctx dir es s') \<noteq> Some OtherIo"
    "fst (visit_entries ctx dir (e # es) s) = fst (visit_entries ctx dir es s')"
    using visit_entries_Cons[of ctx dir e es s] by auto
  with later.IH[of s'] later.prems show ?case by simp
next
  case (below dir name m listing p node es)
  let ?d = "dir @ [Normal name]"
  from below.prems(1) obtain s' where s': "visit_node ctx ?d (FsDir m listing) s = (s', None)"
    and fin: "fst (visit_entries ctx dir (Entry name (FsDir m listing) # es) s) = fst (visit_entries ctx dir es s')"
    using visit_entries_Cons[of ctx dir "Entry name (FsDir m listing)" es s] by auto
  from s' have "p \<in> scan_keys s'"
  proof (cases rule: visit_dir_cases)
    case (entered s1 r1)
    then have "snd (visit_directory ctx ?d listing s1) \<noteq> Some OtherIo" by (auto split: if_splits)
    from below.IH[OF this below.prems(2-)] entered(3) show ?thesis by simp
  qed (use below.hyps in auto)
  with visit_entries_mono[of s' ctx dir es] fin show ?case by auto
qed

section \<open>Properties\<close>

text \<open>The byte key of the index loses nothing: reading back the key of a relative path of plain names,
  valid UTF-8 or not, gives the path.\<close>

theorem index_key_round_trip:
  assumes "list_all plain_name ns"
  shows "read_index_key (index_key (map Normal ns)) = map Normal ns"
  by (simp add: read_index_key_def index_key_join[OF assms] parse_join_slash[OF assms])

theorem index_key_round_trip_witness:
  "read_index_key (index_key (map Normal [''docs'', [CHR 0xFF], ''a.txt''])) = map Normal [''docs'', [CHR 0xFF], ''a.txt'']"
  by (rule index_key_round_trip) code_simp


definition ex_options :: scan_options where
  "ex_options = \<lparr>so_ignored_relative_paths = [], so_include_patterns = (\<lambda>_. False),
     so_include_pattern_strings = [], so_has_include_patterns = False,
     so_exclude_patterns = (\<lambda>_. False), so_conflict_naming = naming_from_suffix ''proton-cloud''\<rparr>"

definition ex_listing :: fs_listing where
  "ex_listing = Entries [Entry ''docs'' (FsDir (Inr 5) (Entries
     [EntryUntyped ''tmp'' NotFound, Entry ''a'' (FsFile (Inr (7, 6)) (Inr ''h''))]))]"

definition ex_scan :: local_scan where
  "ex_scan = (case scan_local_tree [RootDir] ex_options [] ex_listing of Inr s \<Rightarrow> s | Inl _ \<Rightarrow> empty_scan)"

lemma ex_scan_ok: "scan_local_tree [RootDir] ex_options [] ex_listing = Inr ex_scan"
  by code_simp

lemma ex_reaches: "reaches ex_options [] ex_listing [Normal ''docs'', Normal ''a''] (FsFile (Inr (7, 6)) (Inr ''h''))"
proof -
  have "allows_directory_traversal ex_options ([] @ [Normal ''docs''])" by code_simp
  moreover have "reaches ex_options ([] @ [Normal ''docs''])
      (Entries [EntryUntyped ''tmp'' NotFound, Entry ''a'' (FsFile (Inr (7, 6)) (Inr ''h''))])
      (([] @ [Normal ''docs'']) @ [Normal ''a'']) (FsFile (Inr (7, 6)) (Inr ''h''))"
    by (intro reaches.later reaches.here) simp
  ultimately show ?thesis unfolding ex_listing_def by (intro reaches.below) simp_all
qed


text \<open>Ascan records nothing the rules hide: no recorded path lies in the engine's state directory, in
  a download staging directory or in a trash directory, and no recorded file is a conflict sidecar.\<close>

theorem scan_records_nothing_hidden:
  assumes "scan_local_tree root so known listing = Inr s" "hm_get (ls_entities s) p = Some e" "p \<noteq> []"
  shows "\<not> is_never_synced_directory p \<and> (local_kind e = Directory \<or> \<not> is_conflict_copy (so_conflict_naming so) p)"
proof -
  let ?ctx = "\<lparr>wc_root = root, wc_options = so, wc_known = known\<rparr>"
  let ?I = "\<lambda>t. \<forall>q x. hm_get (ls_entities t) q = Some x \<longrightarrow> q \<noteq> [] \<longrightarrow>
      \<not> is_never_synced_directory q \<and> (local_kind x = Directory \<or> \<not> is_conflict_copy (so_conflict_naming so) q)"
  have "?I (fst (visit_directory ?ctx [] listing empty_scan))"
  proof (rule visit_invariant(2)[where I = ?I])
    show "?I empty_scan" by (simp add: empty_scan_def)
  qed (auto simp: scan_add_def scan_drop_def hm_get_insert allows_relative_directory_def
      allows_directory_traversal_def allows_relative_file_def should_ignore_relative_path_def
      split: if_splits)
  moreover from assms(1) have "fst (visit_directory ?ctx [] listing empty_scan) = s"
    by (auto simp: scan_local_tree_def split: option.splits prod.splits)
  ultimately show ?thesis using assms(2,3) by blast
qed

theorem scan_records_nothing_hidden_witness:
  "\<not> is_never_synced_directory [Normal ''docs'', Normal ''a''] \<and>
   \<not> is_conflict_copy (so_conflict_naming ex_options) [Normal ''docs'', Normal ''a'']"
proof -
  let ?p = "[Normal ''docs'', Normal ''a'']"
  have "hm_get (ls_entities ex_scan) ?p = Some (the (hm_get (ls_entities ex_scan) ?p))"
    and kind: "local_kind (the (hm_get (ls_entities ex_scan) ?p)) \<noteq> Directory" by code_simp+
  from scan_records_nothing_hidden[OF ex_scan_ok this(1)] kind show ?thesis by simp
qed

end
