(* ===== verification/Reconstruct.thy ===== *)
theory Reconstruct
  imports Scan_Options
begin

text \<open>
  The remote map as baseline plus delta (\<^verbatim>\<open>src/reconstruct.rs\<close>): the in-order replay of a volume-event
  delta over the last known remote view, with the nodes a listing does not show yet, the events that
  cannot be placed and the rule that decides at the end of the delta whether those lie outside the
  folder. The two remote questions are the resolver, a parameter. The human-readable reason of a
  fallback is a value of a type with one constructor per call site.
\<close>

section \<open>Events\<close>

datatype remote_change_kind = Created | Updated | Deleted

record remote_change =
  rc_kind :: remote_change_kind
  rc_node_id :: bytes
  rc_parent_id :: "bytes option"
  rc_trashed :: bool
  rc_shared :: bool
  rc_event_id :: bytes

definition node_uid :: "bytes \<Rightarrow> bytes \<Rightarrow> bytes" where
  "node_uid volume_id node_id = volume_id @ ''~'' @ node_id"

definition is_composed_on :: "bytes \<Rightarrow> bytes \<Rightarrow> bool" where
  "is_composed_on volume_id uid \<longleftrightarrow> prefix (volume_id @ ''~'') uid"

section \<open>The resolver\<close>

text \<open>
  The two remote questions: the path the unfiltered index holds for a composed id, and one
  non-recursive listing of a directory of the pair. Both may fail.
\<close>

record resolver =
  rv_indexed_path :: "bytes \<Rightarrow> bytes + path option"
  rv_list :: "path \<Rightarrow> bytes + remote_map"

section \<open>Results\<close>

record listing_behind =
  lb_node_id :: bytes
  lb_parent :: path

datatype placement_blocker = Unnamed path | RecordOutsideAnyFolder path

datatype fallback_reason =
  DuplicateId bytes path path
| RootChanged bytes
| CouldNotResolve bytes bytes
| ParentNotShown bytes
| NotUnderParentOrRoot bytes
| NamesNoParent bytes
| NamesUnheldParent bytes
| AppearedByUpdate path bytes
| CannotTellOutside bytes placement_blocker
| RemovalWhileUnnamed bytes path
| RemovalWhileOutsideFolder bytes path

datatype reconstruction =
  Complete remote_map nat "listing_behind list"
| FallbackToSnapshot fallback_reason

datatype deferred_kind = Placement | Removal

record behind_node =
  bn_node_id :: bytes
  bn_parent_uid :: bytes
  bn_listed_parent :: path

type_synonym behind_map = "(bytes, behind_node) hmap"

record replay =
  rp_remote :: remote_map
  rp_uid_to_path :: "(bytes, path) hmap"
  rp_deferred :: "(bytes \<times> deferred_kind) list"
  rp_taken_out :: "bytes set"
  rp_behind :: behind_map

section \<open>Helpers\<close>

definition remote_entity_from_record :: "file_record \<Rightarrow> remote_entity" where
  "remote_entity_from_record rec =
    (let name = (case Option.bind (path_file_name (fr_file_path rec)) to_str of Some n \<Rightarrow> n | None \<Rightarrow> []) in
     case fr_entity_kind rec of
       Directory \<Rightarrow> RemoteDirectory \<lparr>rd_path = fr_file_path rec, rd_id = fr_proton_id rec, rd_name = name\<rparr>
     | File \<Rightarrow> RemoteFile \<lparr>rf_path = fr_file_path rec,
                 rf_id = (case fr_proton_id rec of Some i \<Rightarrow> i | None \<Rightarrow> []), rf_name = name,
                 rf_sha1_hash = fr_sha1_hash rec, rf_downloadable = True\<rparr>)"

text \<open>The transitive removal of what was created beneath nodes that are gone: a loop that stops when a
  round drops nothing.\<close>

lemma filter_drops_length: "filter P xs \<noteq> [] \<Longrightarrow> length (filter (\<lambda>x. \<not> P x) xs) < length xs"
  using sum_length_filter_compl[of P xs] by (cases "filter P xs") auto

function drop_behind_beneath :: "behind_map \<Rightarrow> bytes set \<Rightarrow> behind_map" where
  "drop_behind_beneath behind gone =
    (let dropped = map fst (filter (\<lambda>(_, node). bn_parent_uid node \<in> gone) behind) in
     if dropped = [] then behind
     else drop_behind_beneath (foldl (\<lambda>b uid. hm_remove uid b) behind dropped) (gone \<union> set dropped))"
  by pat_completeness auto

lemma hm_remove_filter: "hm_remove k m = filter (\<lambda>kv. fst kv \<noteq> k) m"
  unfolding hm_remove_def AList.delete_eq by (rule filter_cong) auto

lemma foldl_remove: "foldl (\<lambda>b uid. hm_remove uid b) m us = filter (\<lambda>kv. fst kv \<notin> set us) m"
proof (induction us arbitrary: m)
  case (Cons u us)
  show ?case
    unfolding foldl_Cons Cons.IH unfolding hm_remove_filter filter_filter by (rule filter_cong) auto
qed simp

lemma foldl_remove_shorter:
  assumes "filter P m \<noteq> []"
  shows "length (foldl (\<lambda>b uid. hm_remove uid b) m (map fst (filter P m))) < length m"
proof -
  from assms obtain x where x: "x \<in> set m" "P x" by (metis filter_False)
  then have "\<not> fst x \<notin> set (map fst (filter P m))" by auto
  from length_filter_less[of x m "\<lambda>kv. fst kv \<notin> set (map fst (filter P m))", OF x(1)] this
  show ?thesis unfolding foldl_remove by blast
qed

termination drop_behind_beneath
proof (relation "measure (\<lambda>(b, g). length b)", goal_cases)
  case (2 behind gone dropped)
  then show ?case using foldl_remove_shorter[of "\<lambda>(_, node). bn_parent_uid node \<in> gone" behind] by simp
qed simp

declare drop_behind_beneath.simps [simp del]

definition locate_parent ::
  "remote_change \<Rightarrow> bytes \<Rightarrow> bytes option \<Rightarrow> (bytes, path) hmap \<Rightarrow> bytes set \<Rightarrow> resolver \<Rightarrow>
   bytes + path option" where
  "locate_parent change volume_id root_uid uid_to_path taken_out rv =
    (case rc_parent_id change of None \<Rightarrow> Inr None
     | Some parent_id \<Rightarrow>
         (let parent_uid = node_uid volume_id parent_id in
          case hm_get uid_to_path parent_uid of
            Some in_pass \<Rightarrow>
              if root_uid \<noteq> None then Inr (Some in_pass)
              else (case rv_indexed_path rv parent_uid of
                  Inl e \<Rightarrow> Inl e
                | Inr indexed \<Rightarrow>
                    if indexed \<noteq> Some in_pass then Inl ''placed or moved earlier in this delta''
                    else Inr indexed)
          | None \<Rightarrow>
              if root_uid = Some parent_uid then Inr (Some [])
              else if parent_uid \<in> taken_out then Inl ''taken out earlier in this delta''
              else rv_indexed_path rv parent_uid))"

definition remove_subtree :: "path \<Rightarrow> replay \<Rightarrow> replay" where
  "remove_subtree p st =
    st\<lparr>rp_remote := hm_retain (\<lambda>key _. \<not> is_strict_descendant p key) (hm_remove p (rp_remote st)),
       rp_uid_to_path := hm_retain (\<lambda>_ v. \<not> is_strict_descendant p v) (rp_uid_to_path st),
       rp_taken_out := rp_taken_out st \<union>
         set (map fst (filter (\<lambda>(_, v). is_strict_descendant p v) (rp_uid_to_path st)))\<rparr>"

definition find_entity_by_uid :: "remote_map \<Rightarrow> bytes \<Rightarrow> (path \<times> remote_entity) option" where
  "find_entity_by_uid listing uid = find (\<lambda>(_, e). remote_entity_id e = Some uid) listing"

definition parent_is_held :: "path \<Rightarrow> (path \<Rightarrow> bool) \<Rightarrow> bool" where
  "parent_is_held p is_directory =
    (case path_parent p of None \<Rightarrow> True | Some parent \<Rightarrow> if parent = [] then True else is_directory parent)"

definition first_record_outside_any_folder :: "base_map \<Rightarrow> remote_map \<Rightarrow> path option" where
  "first_record_outside_any_folder B R =
    min_of
      (filter (\<lambda>p. \<not> parent_is_held p (\<lambda>q. is_some_and (\<lambda>r. fr_entity_kind r = Directory) (hm_get B q)))
         (hm_keys B) @
       filter (\<lambda>p. \<not> parent_is_held p (\<lambda>q. is_some_and (\<lambda>e. remote_entity_kind e = Directory) (hm_get R q)))
         (hm_keys R))"

definition is_unnamed_directory_record :: "remote_map \<Rightarrow> path \<Rightarrow> bytes \<Rightarrow> bool" where
  "is_unnamed_directory_record R p volume_id =
    (case hm_get R p of
       Some (RemoteDirectory d) \<Rightarrow> \<not> is_some_and (is_composed_on volume_id) (rd_id d)
     | _ \<Rightarrow> False)"

section \<open>Seeding from the baseline\<close>

definition seed_step ::
  "fallback_reason + remote_map \<times> (bytes, path) hmap \<Rightarrow> path \<times> file_record \<Rightarrow>
   fallback_reason + remote_map \<times> (bytes, path) hmap" where
  "seed_step acc entry =
    (case (acc, entry) of
       (Inl r, _) \<Rightarrow> Inl r
     | (Inr (remote, uids), (p, rec)) \<Rightarrow>
         (case opt_filter (\<lambda>i. i \<noteq> []) (fr_proton_id rec) of
            Some i \<Rightarrow>
              (case hm_get uids i of
                 Some previous \<Rightarrow> Inl (DuplicateId i previous p)
               | None \<Rightarrow> Inr (hm_insert p (remote_entity_from_record rec) remote, hm_insert i p uids))
          | None \<Rightarrow> Inr (hm_insert p (remote_entity_from_record rec) remote, uids)))"

definition seed_baseline :: "base_map \<Rightarrow> fallback_reason + remote_map \<times> (bytes, path) hmap" where
  "seed_baseline B = foldl seed_step (Inr ([], [])) B"

section \<open>One event\<close>

definition is_removal :: "remote_change \<Rightarrow> bool" where
  "is_removal change \<longleftrightarrow> rc_kind change = Deleted \<or> (rc_kind change = Updated \<and> rc_trashed change)"

definition apply_removal :: "remote_change \<Rightarrow> bytes \<Rightarrow> bool \<Rightarrow> replay \<Rightarrow> replay" where
  "apply_removal change uid was_behind st0 =
    (let st = (if was_behind then st0\<lparr>rp_behind := drop_behind_beneath (rp_behind st0) {uid}\<rparr> else st0) in
     case hm_get (rp_uid_to_path st) uid of
       Some p \<Rightarrow>
         (let st1 = remove_subtree p (st\<lparr>rp_uid_to_path := hm_remove uid (rp_uid_to_path st)\<rparr>);
              st2 = st1\<lparr>rp_taken_out := insert uid (rp_taken_out st1)\<rparr>
          in st2\<lparr>rp_behind := drop_behind_beneath (rp_behind st2) (rp_taken_out st2)\<rparr>)
     | None \<Rightarrow> st\<lparr>rp_deferred := rp_deferred st @ [(rc_node_id change, Removal)]\<rparr>)"

text \<open>The listing that can show the node, or the decision to defer the event.\<close>

datatype listing_choice = Listed remote_map "path option" | DeferPlacement

definition choose_listing ::
  "remote_change \<Rightarrow> bytes \<Rightarrow> bytes option \<Rightarrow> replay \<Rightarrow> resolver \<Rightarrow> path option \<Rightarrow>
   fallback_reason + listing_choice" where
  "choose_listing change uid root_uid st rv parent_path =
    (case parent_path of
       Some p \<Rightarrow>
         (case rv_list rv p of
            Inl e \<Rightarrow> Inl (CouldNotResolve (rc_node_id change) e)
          | Inr listing \<Rightarrow> Inr (Listed listing (Some p)))
     | None \<Rightarrow>
         if root_uid = None then
           (case rv_list rv [] of
              Inl e \<Rightarrow> Inl (CouldNotResolve (rc_node_id change) e)
            | Inr listing \<Rightarrow>
                if find_entity_by_uid listing uid = None
                then Inl (NotUnderParentOrRoot (rc_node_id change))
                else Inr (Listed listing None))
         else if rc_parent_id change = None then Inl (NamesNoParent (rc_node_id change))
         else if hm_contains (rp_uid_to_path st) uid \<or> uid \<in> rp_taken_out st
         then Inl (NamesUnheldParent (rc_node_id change))
         else Inr DeferPlacement)"

definition place_entity ::
  "remote_change \<Rightarrow> bytes \<Rightarrow> bytes \<Rightarrow> scan_options \<Rightarrow> path \<Rightarrow> remote_entity \<Rightarrow> replay \<Rightarrow>
   fallback_reason + replay" where
  "place_entity change uid volume_id so p entity st =
    (let allowed = (case entity of RemoteFile _ \<Rightarrow> allows_relative_file so p
                            | RemoteDirectory _ \<Rightarrow> allows_relative_directory so p);
         tracked = hm_contains (rp_uid_to_path st) uid;
         own_folder = is_unnamed_directory_record (rp_remote st) p volume_id \<and>
           rp_deferred st = [] \<and> rp_behind st = []
     in if allowed \<and> \<not> tracked \<and> rc_kind change = Updated \<and>
           remote_entity_kind entity = Directory \<and> \<not> own_folder
        then Inl (AppearedByUpdate p (rc_node_id change))
        else
          (let st1 = (case hm_get (rp_uid_to_path st) uid of
                 Some old_path \<Rightarrow>
                   if old_path \<noteq> p then st\<lparr>rp_remote := hm_remove old_path (rp_remote st)\<rparr> else st
               | None \<Rightarrow> st)
           in if allowed then
                Inr (st1\<lparr>rp_uid_to_path := hm_insert uid p (rp_uid_to_path st1),
                         rp_remote := hm_insert p entity (rp_remote st1)\<rparr>)
              else if hm_contains (rp_uid_to_path st1) uid then
                Inr (st1\<lparr>rp_uid_to_path := hm_remove uid (rp_uid_to_path st1),
                         rp_taken_out := insert uid (rp_taken_out st1)\<rparr>)
              else Inr st1))"

definition absent_from_listing ::
  "remote_change \<Rightarrow> bytes \<Rightarrow> bytes \<Rightarrow> path option \<Rightarrow> replay \<Rightarrow> replay" where
  "absent_from_listing change uid volume_id listed_parent st =
    (let tracked = hm_contains (rp_uid_to_path st) uid in
     case (listed_parent, rc_kind change = Created \<or> \<not> tracked) of
       (Some lp, True) \<Rightarrow>
         st\<lparr>rp_behind := hm_insert uid
              \<lparr>bn_node_id = rc_node_id change,
               bn_parent_uid = (case rc_parent_id change of Some i \<Rightarrow> node_uid volume_id i | None \<Rightarrow> []),
               bn_listed_parent = lp\<rparr> (rp_behind st)\<rparr>
     | _ \<Rightarrow>
         (case hm_get (rp_uid_to_path st) uid of
            Some old_path \<Rightarrow>
              (let st1 = remove_subtree old_path (st\<lparr>rp_uid_to_path := hm_remove uid (rp_uid_to_path st)\<rparr>);
                   st2 = st1\<lparr>rp_taken_out := insert uid (rp_taken_out st1)\<rparr>
               in st2\<lparr>rp_behind := drop_behind_beneath (rp_behind st2) (rp_taken_out st2)\<rparr>)
          | None \<Rightarrow> st))"

text \<open>The node the event's parent is, when that parent is itself waiting for a listing.\<close>

definition behind_parent :: "remote_change \<Rightarrow> bytes \<Rightarrow> behind_map \<Rightarrow> (bytes \<times> behind_node) option" where
  "behind_parent change volume_id behind =
    (case rc_parent_id change of None \<Rightarrow> None
     | Some parent_id \<Rightarrow>
         map_option (\<lambda>n. (node_uid volume_id parent_id, n)) (hm_get behind (node_uid volume_id parent_id)))"

definition apply_change ::
  "bytes \<Rightarrow> bytes option \<Rightarrow> scan_options \<Rightarrow> resolver \<Rightarrow> remote_change \<Rightarrow> replay \<Rightarrow>
   fallback_reason + replay" where
  "apply_change volume_id root_uid so rv change st0 =
    (let uid = node_uid volume_id (rc_node_id change);
         was_behind = hm_contains (rp_behind st0) uid;
         st = st0\<lparr>rp_behind := hm_remove uid (rp_behind st0)\<rparr>
     in if root_uid = Some uid then Inl (RootChanged (rc_node_id change))
        else if is_removal change then Inr (apply_removal change uid was_behind st)
        else (case behind_parent change volume_id (rp_behind st) of
            Some (parent_uid, parent) \<Rightarrow>
              if hm_contains (rp_uid_to_path st) uid \<or> uid \<in> rp_taken_out st
              then Inl (ParentNotShown (rc_node_id change))
              else Inr (st\<lparr>rp_behind := hm_insert uid
                     \<lparr>bn_node_id = rc_node_id change, bn_parent_uid = parent_uid,
                      bn_listed_parent = bn_listed_parent parent\<rparr> (rp_behind st)\<rparr>)
          | None \<Rightarrow>
              (case locate_parent change volume_id root_uid (rp_uid_to_path st) (rp_taken_out st) rv of
                 Inl e \<Rightarrow> Inl (CouldNotResolve (rc_node_id change) e)
               | Inr parent_path \<Rightarrow>
                   (case choose_listing change uid root_uid st rv parent_path of
                      Inl r \<Rightarrow> Inl r
                    | Inr DeferPlacement \<Rightarrow>
                        (let st1 = (if was_behind
                               then st\<lparr>rp_behind := drop_behind_beneath (rp_behind st) {uid}\<rparr> else st)
                         in Inr (st1\<lparr>rp_deferred := rp_deferred st1 @ [(rc_node_id change, Placement)]\<rparr>))
                    | Inr (Listed listing listed_parent) \<Rightarrow>
                        (case find_entity_by_uid listing uid of
                           Some (p, entity) \<Rightarrow> place_entity change uid volume_id so p entity st
                         | None \<Rightarrow> Inr (absent_from_listing change uid volume_id listed_parent st))))))"

fun apply_changes ::
  "bytes \<Rightarrow> bytes option \<Rightarrow> scan_options \<Rightarrow> resolver \<Rightarrow> remote_change list \<Rightarrow> replay \<Rightarrow>
   fallback_reason + replay" where
  "apply_changes volume_id root_uid so rv [] st = Inr st"
| "apply_changes volume_id root_uid so rv (c # cs) st =
    (case apply_change volume_id root_uid so rv c st of
       Inl r \<Rightarrow> Inl r
     | Inr st' \<Rightarrow> apply_changes volume_id root_uid so rv cs st')"

section \<open>The end of the delta\<close>

definition named_paths :: "bytes \<Rightarrow> (bytes, path) hmap \<Rightarrow> path set" where
  "named_paths volume_id uids = set (map snd (filter (\<lambda>(uid, _). is_composed_on volume_id uid) uids))"

definition legacy_in_base :: "bytes \<Rightarrow> base_map \<Rightarrow> path option" where
  "legacy_in_base volume_id B =
    min_of (map fst (filter (\<lambda>(_, rec).
      is_some_and (\<lambda>i. i \<noteq> [] \<and> \<not> is_composed_on volume_id i) (fr_proton_id rec)) B))"

definition unnamed_directory :: "path set \<Rightarrow> remote_map \<Rightarrow> path option" where
  "unnamed_directory named R =
    min_of (map fst (filter (\<lambda>(p, e). remote_entity_kind e = Directory \<and> p \<notin> named) R))"

definition unnamed_record :: "bytes \<Rightarrow> bytes option \<Rightarrow> path set \<Rightarrow> base_map \<Rightarrow> remote_map \<Rightarrow> path option" where
  "unnamed_record volume_id root_uid named B R =
    (if root_uid \<noteq> None
     then or_else (legacy_in_base volume_id B) (min_of (filter (\<lambda>p. p \<notin> named) (hm_keys R)))
     else min_of (map fst (filter (\<lambda>(_, rec).
       \<not> is_some_and (is_composed_on volume_id) (fr_proton_id rec)) B)))"

definition placement_blocker_of ::
  "bytes \<Rightarrow> path option \<Rightarrow> path set \<Rightarrow> base_map \<Rightarrow> remote_map \<Rightarrow> placement_blocker option" where
  "placement_blocker_of volume_id outside_any_folder named B R =
    (case or_else (unnamed_directory named R) (legacy_in_base volume_id B) of
       Some p \<Rightarrow> Some (Unnamed p)
     | None \<Rightarrow> map_option RecordOutsideAnyFolder outside_any_folder)"

definition decide_deferred ::
  "placement_blocker option \<Rightarrow> path option \<Rightarrow> path option \<Rightarrow> bytes \<times> deferred_kind \<Rightarrow>
   fallback_reason option" where
  "decide_deferred blocker unnamed outside_any_folder event =
    (case event of
       (node_id, Placement) \<Rightarrow> map_option (CannotTellOutside node_id) blocker
     | (node_id, Removal) \<Rightarrow>
         (case unnamed of Some p \<Rightarrow> Some (RemovalWhileUnnamed node_id p)
          | None \<Rightarrow> map_option (RemovalWhileOutsideFolder node_id) outside_any_folder))"

fun drop_outside ::
  "placement_blocker option \<Rightarrow> path option \<Rightarrow> path option \<Rightarrow> (bytes \<times> deferred_kind) list \<Rightarrow> nat \<Rightarrow>
   fallback_reason + nat" where
  "drop_outside blocker unnamed outside_any [] n = Inr n"
| "drop_outside blocker unnamed outside_any (e # es) n =
    (case decide_deferred blocker unnamed outside_any e of
       Some r \<Rightarrow> Inl r
     | None \<Rightarrow> drop_outside blocker unnamed outside_any es (n + 1))"

definition behind_report :: "behind_map \<Rightarrow> listing_behind list" where
  "behind_report behind =
    map (\<lambda>(i, p). \<lparr>lb_node_id = i, lb_parent = p\<rparr>)
      (sort_key fst (sort_key snd (map (\<lambda>(_, n). (bn_node_id n, bn_listed_parent n)) behind)))"

definition finish_replay :: "bytes \<Rightarrow> bytes option \<Rightarrow> base_map \<Rightarrow> replay \<Rightarrow> reconstruction" where
  "finish_replay volume_id root_uid B st =
    (let R = rp_remote st;
         outside =
           (if rp_deferred st = [] then Inr 0
            else
              (let named = named_paths volume_id (rp_uid_to_path st);
                   outside_any_folder =
                     (if root_uid = None then None else first_record_outside_any_folder B R)
               in drop_outside (placement_blocker_of volume_id outside_any_folder named B R)
                    (unnamed_record volume_id root_uid named B R) outside_any_folder (rp_deferred st) 0))
     in case outside of
          Inl r \<Rightarrow> FallbackToSnapshot r
        | Inr n \<Rightarrow> Complete R n (behind_report (rp_behind st)))"

definition effective_root_uid :: "bytes \<Rightarrow> bytes option \<Rightarrow> scan_options \<Rightarrow> bytes option" where
  "effective_root_uid volume_id remote_root_uid so =
    opt_filter (\<lambda>_. \<not> so_has_include_patterns so) (opt_filter (is_composed_on volume_id) remote_root_uid)"

definition reconstruct_remote ::
  "base_map \<Rightarrow> remote_change list \<Rightarrow> bytes \<Rightarrow> bytes option \<Rightarrow> scan_options \<Rightarrow> resolver \<Rightarrow> reconstruction" where
  "reconstruct_remote B changes volume_id remote_root_uid so rv =
    (case seed_baseline B of
       Inl r \<Rightarrow> FallbackToSnapshot r
     | Inr (remote, uids) \<Rightarrow>
         (let root_uid = effective_root_uid volume_id remote_root_uid so in
          case apply_changes volume_id root_uid so rv changes
                 \<lparr>rp_remote = remote, rp_uid_to_path = uids, rp_deferred = [], rp_taken_out = {},
                  rp_behind = []\<rparr> of
            Inl r \<Rightarrow> FallbackToSnapshot r
          | Inr st \<Rightarrow> finish_replay volume_id root_uid B st))"

section \<open>Laws of the seed\<close>

text \<open>The ids of the baseline that name their record: the empty placeholder of a fresh upload does not.\<close>

definition base_uids :: "base_map \<Rightarrow> (bytes, path) hmap" where
  "base_uids B = List.map_filter
     (\<lambda>(p, rec). map_option (\<lambda>i. (i, p)) (opt_filter (\<lambda>i. i \<noteq> []) (fr_proton_id rec))) B"

definition base_remote :: "base_map \<Rightarrow> remote_map" where
  "base_remote B = map (\<lambda>(p, rec). (p, remote_entity_from_record rec)) B"

lemma base_remote_get: "hm_get (base_remote B) p = map_option remote_entity_from_record (hm_get B p)"
  unfolding base_remote_def by (induction B) auto

lemma base_remote_keys: "hm_keys (base_remote B) = hm_keys B"
  by (simp add: base_remote_def hm_keys_def case_prod_beta)

lemma hm_insert_fresh: "k \<notin> fst ` set m \<Longrightarrow> hm_insert k v m = m @ [(k, v)]"
  unfolding hm_insert_def by (induction m) auto

lemma seed_fallback_sticks: "foldl seed_step (Inl r) B = Inl r"
  by (induction B) (simp_all add: seed_step_def)

lemma base_uids_Cons:
  "base_uids ((p, rec) # B) =
     (case opt_filter (\<lambda>i. i \<noteq> []) (fr_proton_id rec) of None \<Rightarrow> base_uids B
      | Some i \<Rightarrow> (i, p) # base_uids B)"
  by (cases "opt_filter (\<lambda>i. i \<noteq> []) (fr_proton_id rec)") 
    (simp_all add: base_uids_def map_filter_simps opt_filter_def)

lemma seed_from:
  assumes "distinct (map fst B)" "fst ` set R \<inter> fst ` set B = {}"
    and "distinct (map fst (base_uids B))" "fst ` set U \<inter> fst ` set (base_uids B) = {}"
  shows "foldl seed_step (Inr (R, U)) B = Inr (R @ base_remote B, U @ base_uids B)"
  using assms
proof (induction B arbitrary: R U)
  case Nil
  then show ?case by (simp add: base_remote_def base_uids_def map_filter_simps)
next
  case (Cons e B)
  obtain p rec where e: "e = (p, rec)" by (cases e)
  have fresh: "p \<notin> fst ` set R" "p \<notin> fst ` set B" using Cons.prems e by auto
  show ?case
  proof (cases "opt_filter (\<lambda>i. i \<noteq> []) (fr_proton_id rec)")
    case None
    have step: "seed_step (Inr (R, U)) e = Inr (R @ [(p, remote_entity_from_record rec)], U)"
      by (simp add: seed_step_def e None hm_insert_fresh fresh)
    have "foldl seed_step (Inr (R @ [(p, remote_entity_from_record rec)], U)) B =
        Inr ((R @ [(p, remote_entity_from_record rec)]) @ base_remote B, U @ base_uids B)"
      using Cons.prems fresh by (intro Cons.IH) (auto simp: e base_uids_Cons None)
    then show ?thesis by (simp add: step) (simp add: e base_remote_def base_uids_Cons None)
  next
    case (Some i)
    have new: "i \<notin> fst ` set U" "i \<notin> fst ` set (base_uids B)"
      using Cons.prems(3,4) unfolding e base_uids_Cons Some by auto
    then have "hm_get U i = None" by (simp add: map_of_eq_None_iff)
    then have step: "seed_step (Inr (R, U)) e = Inr (R @ [(p, remote_entity_from_record rec)], U @ [(i, p)])"
      using new by (simp add: seed_step_def e Some hm_insert_fresh fresh)
    have "foldl seed_step (Inr (R @ [(p, remote_entity_from_record rec)], U @ [(i, p)])) B =
        Inr ((R @ [(p, remote_entity_from_record rec)]) @ base_remote B, (U @ [(i, p)]) @ base_uids B)"
      using Cons.prems fresh new by (intro Cons.IH) (auto simp: e base_uids_Cons Some)
    then show ?thesis by (simp add: step) (simp add: e base_remote_def base_uids_Cons Some)
  qed
qed

lemma seed_duplicate:
  assumes "\<not> distinct (map fst (base_uids B)) \<or> fst ` set U \<inter> fst ` set (base_uids B) \<noteq> {}"
  shows "\<exists>i p q. foldl seed_step (Inr (R, U)) B = Inl (DuplicateId i p q)"
  using assms
proof (induction B arbitrary: R U)
  case Nil
  then show ?case by (simp add: base_uids_def map_filter_simps)
next
  case (Cons e B)
  obtain p rec where e: "e = (p, rec)" by (cases e)
  show ?case
  proof (cases "opt_filter (\<lambda>i. i \<noteq> []) (fr_proton_id rec)")
    case None
    have "seed_step (Inr (R, U)) e = Inr (hm_insert p (remote_entity_from_record rec) R, U)"
      by (simp add: seed_step_def e None)
    moreover have "\<not> distinct (map fst (base_uids B)) \<or> fst ` set U \<inter> fst ` set (base_uids B) \<noteq> {}"
      using Cons.prems unfolding e base_uids_Cons None by simp
    ultimately show ?thesis using Cons.IH by simp
  next
    case (Some i)
    show ?thesis
    proof (cases "hm_get U i")
      case None
      have U: "fst ` set (hm_insert i p U) = insert i (fst ` set U)"
        using None by (simp add: hm_insert_fresh map_of_eq_None_iff)
      have "\<not> distinct (map fst (base_uids B)) \<or> fst ` set (hm_insert i p U) \<inter> fst ` set (base_uids B) \<noteq> {}"
        using Cons.prems None unfolding e base_uids_Cons Some U by (auto simp: map_of_eq_None_iff)
      moreover have "seed_step (Inr (R, U)) e =
          Inr (hm_insert p (remote_entity_from_record rec) R, hm_insert i p U)"
        by (simp add: seed_step_def e Some None)
      ultimately show ?thesis using Cons.IH by simp
    next
      case (Some q)
      then have "seed_step (Inr (R, U)) e = Inl (DuplicateId i q p)"
        using \<open>opt_filter _ _ = Some i\<close> by (auto simp: e seed_step_def opt_filter_def)
      then show ?thesis by (simp add: seed_fallback_sticks)
    qed
  qed
qed

lemma seed_baseline_unique:
  "hm_wf B \<Longrightarrow> distinct (map fst (base_uids B)) \<Longrightarrow> seed_baseline B = Inr (base_remote B, base_uids B)"
  unfolding seed_baseline_def using seed_from[of B "[]" "[]"] by (simp add: hm_wf_def)

lemma seed_baseline_duplicate:
  "\<not> distinct (map fst (base_uids B)) \<Longrightarrow> \<exists>i p q. seed_baseline B = Inl (DuplicateId i p q)"
  unfolding seed_baseline_def by (rule seed_duplicate) simp

lemma seed_cases:
  assumes "hm_wf B"
  obtains (unique) "distinct (map fst (base_uids B))" "seed_baseline B = Inr (base_remote B, base_uids B)"
  | (duplicate) i p q where "\<not> distinct (map fst (base_uids B))" "seed_baseline B = Inl (DuplicateId i p q)"
  using seed_baseline_unique[OF assms] seed_baseline_duplicate[of B] by metis

section \<open>Laws of the replay\<close>

text \<open>What stays true of the rows of the map and of the ids: every entry comes from the baseline or from
  a listing the resolver gave, at the path the listing gives it and allowed by the options.\<close>

definition entity_allowed :: "scan_options \<Rightarrow> path \<Rightarrow> remote_entity \<Rightarrow> bool" where
  "entity_allowed so p e =
    (case e of RemoteFile _ \<Rightarrow> allows_relative_file so p | RemoteDirectory _ \<Rightarrow> allows_relative_directory so p)"

definition listed_by :: "resolver \<Rightarrow> path \<Rightarrow> remote_entity \<Rightarrow> bool" where
  "listed_by rv p e \<longleftrightarrow> (\<exists>d listing. rv_list rv d = Inr listing \<and> (p, e) \<in> set listing)"

definition has_source :: "base_map \<Rightarrow> scan_options \<Rightarrow> resolver \<Rightarrow> path \<Rightarrow> remote_entity \<Rightarrow> bool" where
  "has_source B so rv p e \<longleftrightarrow>
    (\<exists>rec. hm_get B p = Some rec \<and> e = remote_entity_from_record rec) \<or>
    (listed_by rv p e \<and> entity_allowed so p e)"

definition sourced :: "base_map \<Rightarrow> scan_options \<Rightarrow> resolver \<Rightarrow> replay \<Rightarrow> bool" where
  "sourced B so rv st \<longleftrightarrow> hm_wf (rp_remote st) \<and> (\<forall>p e. hm_get (rp_remote st) p = Some e \<longrightarrow> has_source B so rv p e)"

lemma remove_subtree_remote:
  "hm_wf (rp_remote st) \<Longrightarrow> hm_get (rp_remote (remove_subtree p st)) q =
     (if prefix p q then None else hm_get (rp_remote st) q)"
  by (auto simp: remove_subtree_def hm.get_retain hm.get_remove hm.wf_remove is_strict_descendant_def
      split: option.split)

lemma remove_subtree_wf: "hm_wf (rp_remote st) \<Longrightarrow> hm_wf (rp_remote (remove_subtree p st))"
  by (simp add: remove_subtree_def hm.wf_retain hm.wf_remove)

lemma find_entity_listed:
  "rv_list rv d = Inr listing \<Longrightarrow> find_entity_by_uid listing uid = Some (p, e) \<Longrightarrow>
   listed_by rv p e \<and> remote_entity_id e = Some uid"
  unfolding find_entity_by_uid_def listed_by_def by (auto simp: find_Some_iff) (metis nth_mem)+

lemma choose_listing_Listed:
  "choose_listing change uid root_uid st rv pp = Inr (Listed listing lp) \<Longrightarrow> \<exists>d. rv_list rv d = Inr listing"
  unfolding choose_listing_def by (auto split: option.splits sum.splits if_splits)

text \<open>The shapes an event that does not fall back can take.\<close>

definition forget_behind :: "bytes \<Rightarrow> replay \<Rightarrow> replay" where
  "forget_behind uid st = st\<lparr>rp_behind := hm_remove uid (rp_behind st)\<rparr>"

lemma forget_behind_simps [simp]:
  "rp_remote (forget_behind uid st) = rp_remote st"
  "rp_uid_to_path (forget_behind uid st) = rp_uid_to_path st"
  "rp_deferred (forget_behind uid st) = rp_deferred st"
  "rp_taken_out (forget_behind uid st) = rp_taken_out st"
  by (simp_all add: forget_behind_def)

lemma apply_change_cases:
  assumes "apply_change volume_id root_uid so rv change st0 = Inr st'"
  defines "uid \<equiv> node_uid volume_id (rc_node_id change)"
  obtains
    (removal) w where "root_uid \<noteq> Some uid" "is_removal change"
      "st' = apply_removal change uid w (forget_behind uid st0)"
  | (beneath) node where "root_uid \<noteq> Some uid" "\<not> is_removal change"
      "st' = forget_behind uid st0\<lparr>rp_behind := hm_insert uid node (rp_behind (forget_behind uid st0))\<rparr>"
      "\<not> hm_contains (rp_uid_to_path st0) uid"
  | (deferral) b where "root_uid \<noteq> Some uid" "\<not> is_removal change" "root_uid \<noteq> None"
      "rc_parent_id change \<noteq> None" "\<not> hm_contains (rp_uid_to_path st0) uid" "uid \<notin> rp_taken_out st0"
      "st' = forget_behind uid st0\<lparr>rp_behind := b, rp_deferred := rp_deferred st0 @ [(rc_node_id change, Placement)]\<rparr>"
  | (placed) listing p e where "root_uid \<noteq> Some uid" "\<not> is_removal change"
      "find_entity_by_uid listing uid = Some (p, e)" "\<exists>d. rv_list rv d = Inr listing"
      "place_entity change uid volume_id so p e (forget_behind uid st0) = Inr st'"
  | (absent) lp where "root_uid \<noteq> Some uid" "\<not> is_removal change"
      "st' = absent_from_listing change uid volume_id lp (forget_behind uid st0)"
proof -

  note step = assms(1)[unfolded apply_change_def Let_def, folded uid_def, folded forget_behind_def]
  have root: "root_uid \<noteq> Some uid" using step by auto
  show thesis
  proof (cases "is_removal change")
    case True
    with step root show thesis by (intro removal) auto
  next
    case live: False
    show thesis
    proof (cases "behind_parent change volume_id (rp_behind (forget_behind uid st0))")
      case (Some bp)
      then show thesis using step root live
        by (cases bp) (intro beneath, auto split: if_splits)
    next
      case None
      from step root live None obtain pp where
        pp: "locate_parent change volume_id root_uid (rp_uid_to_path st0) (rp_taken_out st0) rv = Inr pp"
        by (auto split: sum.splits)
      show thesis
      proof (cases "choose_listing change uid root_uid (forget_behind uid st0) rv pp")
        case (Inl r)
        with step root live None pp show thesis by simp
      next
        case (Inr c)
        show thesis
        proof (cases c)
          case (Listed listing lp)
          note src = choose_listing_Listed[OF Inr[unfolded Listed]]
          show thesis
          proof (cases "find_entity_by_uid listing uid")
            case None
            with step root live Inr Listed pp \<open>behind_parent _ _ _ = None\<close> show thesis
              by (intro absent) auto
          next
            case (Some pe)
            with step root live Inr Listed pp None src show thesis
              by (cases pe) (intro placed, auto)
          qed
        next
          case DeferPlacement
          have "root_uid \<noteq> None" "rc_parent_id change \<noteq> None"
            "\<not> hm_contains (rp_uid_to_path st0) uid" "uid \<notin> rp_taken_out st0"
            using Inr[unfolded DeferPlacement] unfolding choose_listing_def
            by (auto split: option.splits sum.splits if_splits)
          moreover have "st' = forget_behind uid st0\<lparr>rp_behind :=
                (if hm_contains (rp_behind st0) uid
                 then drop_behind_beneath (rp_behind (forget_behind uid st0)) {uid}
                 else rp_behind (forget_behind uid st0)),
                rp_deferred := rp_deferred st0 @ [(rc_node_id change, Placement)]\<rparr>"
            using step root live Inr DeferPlacement pp None by (simp split: if_splits)
          ultimately show thesis using root live by (intro deferral)
        qed
      qed
    qed
  qed
qed

text \<open>
  An invariant of the replay, as an interface: what every event that does not fall back keeps, the whole
  delta keeps.
\<close>

locale replay_invariant =
  fixes I :: "replay \<Rightarrow> bool"
    and step :: "remote_change \<Rightarrow> replay \<Rightarrow> fallback_reason + replay"
    and run :: "remote_change list \<Rightarrow> replay \<Rightarrow> fallback_reason + replay"
  assumes run_Nil: "run [] st = Inr st"
    and run_Cons: "run (c # cs) st = (case step c st of Inl r \<Rightarrow> Inl r | Inr st' \<Rightarrow> run cs st')"
    and step_keeps: "I st \<Longrightarrow> step c st = Inr st' \<Longrightarrow> I st'"
begin

lemma run_keeps: "I st \<Longrightarrow> run cs st = Inr st' \<Longrightarrow> I st'"
proof (induction cs arbitrary: st)
  case Nil
  then show ?case by (simp add: run_Nil)
next
  case (Cons c cs)
  then show ?case by (auto simp: run_Cons split: sum.splits dest: step_keeps)
qed

end

lemma apply_removal_remote:
  assumes "hm_wf (rp_remote st)"
  shows "hm_wf (rp_remote (apply_removal change uid w st))"
    and "hm_get (rp_remote (apply_removal change uid w st)) q =
      (case hm_get (rp_uid_to_path st) uid of
         Some p \<Rightarrow> if prefix p q then None else hm_get (rp_remote st) q
       | None \<Rightarrow> hm_get (rp_remote st) q)"
  using assms
  by (auto simp: apply_removal_def remove_subtree_remote remove_subtree_wf Let_def split: option.splits)

lemma absent_remote:
  assumes "hm_wf (rp_remote st)"
  shows "hm_wf (rp_remote (absent_from_listing change uid volume_id lp st))"
    and "hm_get (rp_remote (absent_from_listing change uid volume_id lp st)) q = Some e \<Longrightarrow>
      hm_get (rp_remote st) q = Some e"
  using assms
  by (auto simp: absent_from_listing_def remove_subtree_remote remove_subtree_wf Let_def
      split: option.splits bool.splits if_splits)

lemma place_remote:
  assumes "place_entity change uid volume_id so p e st = Inr st'" "hm_wf (rp_remote st)"
  shows "hm_wf (rp_remote st')"
    and "hm_get (rp_remote st') q = Some e' \<Longrightarrow>
      hm_get (rp_remote st) q = Some e' \<or> (q = p \<and> e' = e \<and> entity_allowed so p e)"
  using assms
  by (auto simp: place_entity_def Let_def entity_allowed_def hm.wf_insert hm.wf_remove hm.get_insert hm.get_remove
      split: if_splits option.splits remote_entity.splits)

lemma sourced_step:
  assumes "sourced B so rv st" "apply_change volume_id root_uid so rv change st = Inr st'"
  shows "sourced B so rv st'"
  using assms(2)
proof (cases rule: apply_change_cases)
  case (removal w)
  with assms(1) show ?thesis
    by (auto simp: sourced_def apply_removal_remote split: option.splits if_splits)
next
  case (beneath node)
  with assms(1) show ?thesis by (simp add: sourced_def)
next
  case (deferral b)
  with assms(1) show ?thesis by (simp add: sourced_def)
next
  case (placed listing p e)
  from placed(3,4) have src: "listed_by rv p e" using find_entity_listed by blast
  show ?thesis
    using assms(1) place_remote[OF placed(5)] src by (auto simp: sourced_def has_source_def)
next
  case (absent lp)
  with assms(1) show ?thesis using absent_remote[of "forget_behind (node_uid volume_id (rc_node_id change)) st"]
    by (auto simp: sourced_def)
qed

interpretation sourced_replay:
  replay_invariant "sourced B so rv" "apply_change volume_id root_uid so rv" "apply_changes volume_id root_uid so rv"
  by unfold_locales (auto intro: sourced_step)

text \<open>The root's own events end the replay, whatever comes before or after them.\<close>

lemma root_event_ends_replay:
  "root_uid = Some (node_uid volume_id (rc_node_id c)) \<Longrightarrow> c \<in> set cs \<Longrightarrow>
   \<exists>r. apply_changes volume_id root_uid so rv cs st = Inl r"
proof (induction cs arbitrary: st)
  case (Cons d cs)
  then show ?case
    by (cases "apply_change volume_id root_uid so rv d st") (auto simp: apply_change_def Let_def)
qed simp

text \<open>The decision on the deferred events.\<close>

lemma drop_outside_Inr:
  "drop_outside blocker unnamed outside es n = Inr m \<longleftrightarrow>
   m = n + length es \<and> (\<forall>e\<in>set es. decide_deferred blocker unnamed outside e = None)"
  by (induction es arbitrary: n) (auto split: option.splits)

lemma decide_deferred_None:
  "decide_deferred blocker unnamed outside e = None \<longleftrightarrow>
   (case snd e of Placement \<Rightarrow> blocker = None | Removal \<Rightarrow> unnamed = None \<and> outside = None)"
  by (cases e) (auto simp: decide_deferred_def split: deferred_kind.splits option.splits)

lemma placement_blocker_None:
  "placement_blocker_of volume_id outside named B R = None \<longleftrightarrow>
   unnamed_directory named R = None \<and> legacy_in_base volume_id B = None \<and> outside = None"
  by (auto simp: placement_blocker_of_def or_else_def split: option.splits)

lemma legacy_in_base_None:
  "legacy_in_base volume_id B = None \<longleftrightarrow>
   (\<forall>(p, rec)\<in>set B. \<forall>i. fr_proton_id rec = Some i \<longrightarrow> i = [] \<or> is_composed_on volume_id i)"
  unfolding legacy_in_base_def
  by (auto simp: filter_empty_conv is_some_and_def split: option.splits)

lemma unnamed_record_None_legacy:
  "unnamed_record volume_id root_uid named B R = None \<Longrightarrow> legacy_in_base volume_id B = None"
  by (fastforce simp: unnamed_record_def or_else_def legacy_in_base_None filter_empty_conv is_some_and_def
      split: option.splits if_splits)

lemma outside_any_folder_None:
  "first_record_outside_any_folder B R = None \<longleftrightarrow>
   (\<forall>p\<in>set (hm_keys B). parent_is_held p (\<lambda>q. is_some_and (\<lambda>r. fr_entity_kind r = Directory) (hm_get B q))) \<and>
   (\<forall>p\<in>set (hm_keys R). parent_is_held p (\<lambda>q. is_some_and (\<lambda>e. remote_entity_kind e = Directory) (hm_get R q)))"
  by (auto simp: first_record_outside_any_folder_def filter_empty_conv)

lemma finish_Complete:
  "finish_replay volume_id root_uid B st = Complete R n bh \<Longrightarrow>
   R = rp_remote st \<and> n = length (rp_deferred st) \<and> bh = behind_report (rp_behind st)"
  by (auto simp: finish_replay_def Let_def drop_outside_Inr split: sum.splits if_splits)

lemma finish_Complete_outside:
  assumes "finish_replay volume_id root_uid B st = Complete R n bh" "0 < n"
  shows "legacy_in_base volume_id B = None"
    and "root_uid \<noteq> None \<Longrightarrow> first_record_outside_any_folder B R = None"
proof -
  have R: "R = rp_remote st" and ne: "rp_deferred st \<noteq> []" using finish_Complete[OF assms(1)] assms(2) by auto
  then obtain e where e: "e \<in> set (rp_deferred st)" by (meson last_in_set)
  define named where "named = named_paths volume_id (rp_uid_to_path st)"
  define out where "out = (if root_uid = None then None else first_record_outside_any_folder B (rp_remote st))"
  have dec: "decide_deferred (placement_blocker_of volume_id out named B (rp_remote st))
      (unnamed_record volume_id root_uid named B (rp_remote st)) out e = None"
    using assms(1) ne e unfolding finish_replay_def Let_def named_def[symmetric] out_def[symmetric]
    by (auto simp: drop_outside_Inr split: sum.splits)
  have "legacy_in_base volume_id B = None \<and> out = None"
    using dec unfolding decide_deferred_None placement_blocker_None
    by (auto split: deferred_kind.splits dest: unnamed_record_None_legacy)
  then show "legacy_in_base volume_id B = None"
    and "root_uid \<noteq> None \<Longrightarrow> first_record_outside_any_folder B R = None"
    by (auto simp: out_def R split: if_splits)
qed

text \<open>The replay state a reconstruction starts from, and how a completed one runs.\<close>

definition replay_start :: "base_map \<Rightarrow> replay" where
  "replay_start B = \<lparr>rp_remote = base_remote B, rp_uid_to_path = base_uids B, rp_deferred = [],
     rp_taken_out = {}, rp_behind = []\<rparr>"

lemma reconstruct_from_start:
  "hm_wf B \<Longrightarrow> distinct (map fst (base_uids B)) \<Longrightarrow>
   reconstruct_remote B cs volume_id rid so rv =
     (case apply_changes volume_id (effective_root_uid volume_id rid so) so rv cs (replay_start B) of
        Inl r \<Rightarrow> FallbackToSnapshot r
      | Inr st \<Rightarrow> finish_replay volume_id (effective_root_uid volume_id rid so) B st)"
  by (simp add: reconstruct_remote_def seed_baseline_unique replay_start_def Let_def)

lemma reconstruct_Complete:
  assumes "hm_wf B" "reconstruct_remote B cs volume_id rid so rv = Complete R n bh"
  obtains st where
    "apply_changes volume_id (effective_root_uid volume_id rid so) so rv cs (replay_start B) = Inr st"
    "finish_replay volume_id (effective_root_uid volume_id rid so) B st = Complete R n bh"
  using assms(1)
proof (cases rule: seed_cases)
  case unique
  with assms show ?thesis by (auto simp: reconstruct_from_start split: sum.splits intro: that)
next
  case (duplicate i p q)
  with assms show ?thesis by (simp add: reconstruct_remote_def)
qed

lemma sourced_start: "hm_wf B \<Longrightarrow> sourced B so rv (replay_start B)"
  using base_remote_keys[of B]
  by (auto simp: sourced_def replay_start_def hm_wf_def hm_keys_def has_source_def base_remote_get)

text \<open>What waits for a listing beneath nodes that are gone, transitively.\<close>

inductive beneath_gone :: "behind_map \<Rightarrow> bytes set \<Rightarrow> bytes \<Rightarrow> bool" for behind gone where
  direct: "(k, n) \<in> set behind \<Longrightarrow> bn_parent_uid n \<in> gone \<Longrightarrow> beneath_gone behind gone k"
| further: "(k, n) \<in> set behind \<Longrightarrow> beneath_gone behind gone (bn_parent_uid n) \<Longrightarrow> beneath_gone behind gone k"

lemma beneath_gone_round:
  assumes "D = fst ` {(k, n) \<in> set behind. bn_parent_uid n \<in> gone}"
    and "behind' = filter (\<lambda>kv. fst kv \<notin> D) behind" "gone' = gone \<union> D"
  shows "beneath_gone behind gone k \<longleftrightarrow> k \<in> D \<or> beneath_gone behind' gone' k"
proof
  show "beneath_gone behind gone k \<Longrightarrow> k \<in> D \<or> beneath_gone behind' gone' k"
  proof (induction rule: beneath_gone.induct)
    case (direct k n)
    then show ?case using assms(1) by force
  next
    case (further k n)
    then show ?case using assms(2,3)
      by (cases "k \<in> D") (auto intro: beneath_gone.intros)
  qed
next
  have D: "d \<in> D \<Longrightarrow> beneath_gone behind gone d" for d using assms(1) by (auto intro: beneath_gone.direct)
  have "beneath_gone behind' gone' k \<Longrightarrow> beneath_gone behind gone k"
  proof (induction rule: beneath_gone.induct)
    case (direct k n)
    then show ?case using assms(2,3) D by (auto intro: beneath_gone.intros)
  next
    case (further k n)
    then show ?case using assms(2) by (auto intro: beneath_gone.intros)
  qed
  then show "k \<in> D \<or> beneath_gone behind' gone' k \<Longrightarrow> beneath_gone behind gone k" using D by blast
qed

lemma no_round_nothing_gone:
  assumes "\<forall>(k, n)\<in>set behind. bn_parent_uid n \<notin> gone"
  shows "\<not> beneath_gone behind gone k"
proof
  assume "beneath_gone behind gone k"
  then show False using assms by (induction rule: beneath_gone.induct) auto
qed

lemma drop_behind_beneath_Nil [simp]: "drop_behind_beneath [] gone = []"
  by (simp add: drop_behind_beneath.simps)

lemma hm_remove_Nil [simp]: "hm_remove k [] = []"
  by (simp add: hm_remove_def)

lemma base_uids_held: "hm_get (base_uids B) i = Some p \<Longrightarrow> hm_contains (base_remote B) p"
  unfolding hm_contains_iff base_remote_keys unfolding hm_keys_def
  by (drule map_of_SomeD) (force simp: base_uids_def map_filter_def)

section \<open>Properties\<close>

text \<open>With an empty delta the reconstruction is the baseline itself, read as remote entities, and
  two records under one id always force a snapshot, whatever the delta says.\<close>

theorem empty_delta_is_the_baseline:
  assumes "hm_wf B"
  shows "if distinct (map fst (base_uids B))
    then reconstruct_remote B [] volume_id rid so rv = Complete (base_remote B) 0 []
    else \<exists>i p q. reconstruct_remote B changes volume_id rid so rv = FallbackToSnapshot (DuplicateId i p q)"
  using assms
proof (cases rule: seed_cases)
  case unique
  with assms show ?thesis
    by (simp add: reconstruct_from_start) (simp add: finish_replay_def replay_start_def behind_report_def)
next
  case (duplicate i p q)
  then show ?thesis by (simp add: reconstruct_remote_def)
qed

text \<open>C27: every entry of a completed map is the baseline's own record at that path, or an entity that a
  listing of the resolver holds at exactly that path and that the selective-sync options allow.\<close>

theorem complete_map_has_sources:
  assumes "hm_wf B" "reconstruct_remote B changes volume_id rid so rv = Complete R n bh"
  shows "hm_wf R \<and> (\<forall>p e. hm_get R p = Some e \<longrightarrow>
      (\<exists>rec. hm_get B p = Some rec \<and> e = remote_entity_from_record rec) \<or>
      (entity_allowed so p e \<and> (\<exists>d listing. rv_list rv d = Inr listing \<and> (p, e) \<in> set listing)))"
proof -
  from assms obtain st where
    run: "apply_changes volume_id (effective_root_uid volume_id rid so) so rv changes (replay_start B) = Inr st"
    and R: "R = rp_remote st"
    by (elim reconstruct_Complete) (auto dest: finish_Complete)
  from sourced_replay.run_keeps[OF sourced_start[OF assms(1)] run] have "sourced B so rv st" .
  then show ?thesis unfolding R sourced_def has_source_def listed_by_def by blast
qed

text \<open>An event about the pair's own remote root is never skipped and never placed: a delta that
  holds one forces a snapshot.\<close>

theorem root_event_forces_snapshot:
  assumes "hm_wf B" "c \<in> set changes"
    and "effective_root_uid volume_id rid so = Some (node_uid volume_id (rc_node_id c))"
  shows "\<exists>r. reconstruct_remote B changes volume_id rid so rv = FallbackToSnapshot r"
  using assms(1)
proof (cases rule: seed_cases)
  case unique
  with assms root_event_ends_replay[OF assms(3,2), of so rv "replay_start B"] show ?thesis
    by (auto simp: reconstruct_from_start)
next
  case (duplicate i p q)
  then show ?thesis by (simp add: reconstruct_remote_def)
qed

text \<open>Events are dropped as lying outside the folder only when the tree is held: no record of the
  baseline carries an id this stream cannot name, and, for a pair that knows its root, every record of
  the baseline and of the map sits in the root or in a directory that is held.\<close>

theorem outside_only_when_the_tree_is_held:
  assumes "hm_wf B" "reconstruct_remote B changes volume_id rid so rv = Complete R n bh" "0 < n"
  shows "(\<forall>(p, rec)\<in>set B. \<forall>i. fr_proton_id rec = Some i \<longrightarrow> i = [] \<or> is_composed_on volume_id i) \<and>
    (effective_root_uid volume_id rid so \<noteq> None \<longrightarrow>
      (\<forall>p\<in>set (hm_keys B). parent_is_held p
         (\<lambda>q. is_some_and (\<lambda>r. fr_entity_kind r = Directory) (hm_get B q))) \<and>
      (\<forall>p\<in>set (hm_keys R). parent_is_held p
         (\<lambda>q. is_some_and (\<lambda>e. remote_entity_kind e = Directory) (hm_get R q))))"
proof -
  from assms obtain st where
    fin: "finish_replay volume_id (effective_root_uid volume_id rid so) B st = Complete R n bh"
    by (elim reconstruct_Complete)
  from finish_Complete_outside[OF fin assms(3)] show ?thesis
    unfolding legacy_in_base_None outside_any_folder_None by blast
qed

text \<open>The removal of a held node takes the node and everything beneath it out of the map, and
  leaves the rest of the baseline as it is.\<close>

theorem removal_takes_the_subtree:
  assumes "hm_wf B" "distinct (map fst (base_uids B))" "is_removal c"
    and "hm_get (base_uids B) (node_uid volume_id (rc_node_id c)) = Some p"
    and "effective_root_uid volume_id rid so \<noteq> Some (node_uid volume_id (rc_node_id c))"
  shows "\<exists>R. reconstruct_remote B [c] volume_id rid so rv = Complete R 0 [] \<and>
    (\<forall>q. hm_get R q =
      (if prefix p q then None else map_option remote_entity_from_record (hm_get B q)))"
proof -
  define uid where "uid = node_uid volume_id (rc_node_id c)"
  define st where "st = apply_removal c uid False (forget_behind uid (replay_start B))"
  have wf: "hm_wf (rp_remote (replay_start B))"
    using sourced_start[OF assms(1)] by (simp add: sourced_def)
  have start: "rp_uid_to_path (replay_start B) = base_uids B" "rp_remote (replay_start B) = base_remote B"
    "rp_behind (replay_start B) = []" "rp_deferred (replay_start B) = []"
    by (simp_all add: replay_start_def)
  have step: "apply_change volume_id (effective_root_uid volume_id rid so) so rv c (replay_start B) = Inr st"
    using assms(3,5) by (simp add: apply_change_def Let_def st_def uid_def forget_behind_def start hm_contains_def)
  have st: "rp_deferred st = []" "rp_behind st = []"
    using assms(4) by (simp_all add: st_def apply_removal_def uid_def Let_def start remove_subtree_def
        forget_behind_def hm_remove_Nil)
  have get: "hm_get (rp_remote st) q = (if prefix p q then None else map_option remote_entity_from_record (hm_get B q))" for q
    unfolding st_def using assms(4) wf
    by (subst apply_removal_remote(2)) (simp_all add: start uid_def base_remote_get)
  have "reconstruct_remote B [c] volume_id rid so rv = Complete (rp_remote st) 0 []"
    using assms(1,2) by (simp add: reconstruct_from_start step finish_replay_def st behind_report_def)
  with get show ?thesis by blast
qed

text \<open>Dropping what waits beneath nodes that are gone is the transitive closure: a waiting node is
  kept exactly when no chain of waiting parents leads from it to a node that is gone.\<close>

theorem drop_behind_beneath_is_transitive:
  "set (drop_behind_beneath behind gone) = {(k, n) \<in> set behind. \<not> beneath_gone behind gone k}"
proof (induction behind gone rule: drop_behind_beneath.induct)
  case (1 behind gone)
  define dropped where "dropped = map fst (filter (\<lambda>(_, node). bn_parent_uid node \<in> gone) behind)"
  have D: "set dropped = fst ` {(k, n) \<in> set behind. bn_parent_uid n \<in> gone}"
    by (auto simp: dropped_def)
  show ?case
  proof (cases "dropped = []")
    case True
    then have "\<forall>(k, n)\<in>set behind. bn_parent_uid n \<notin> gone" by (auto simp: dropped_def filter_empty_conv)
    from no_round_nothing_gone[OF this] True show ?thesis
      by (auto simp: drop_behind_beneath.simps dropped_def)
  next
    case False
    define behind' where "behind' = filter (\<lambda>kv. fst kv \<notin> set dropped) behind"
    from False have run: "drop_behind_beneath behind gone = drop_behind_beneath behind' (gone \<union> set dropped)"
      unfolding behind'_def by (subst drop_behind_beneath.simps) (simp add: Let_def dropped_def[symmetric] foldl_remove)
    have IH: "set (drop_behind_beneath behind' (gone \<union> set dropped)) =
        {(k, n) \<in> set behind'. \<not> beneath_gone behind' (gone \<union> set dropped) k}"
      using 1[OF dropped_def False] by (simp add: foldl_remove behind'_def)
    from beneath_gone_round[OF D behind'_def refl] show ?thesis
      unfolding run IH by (auto simp: behind'_def)
  qed
qed

text \<open>Acreation event of a node the baseline already holds, which its parent's listing does not
  show, leaves the map as it was and reports the node: the caller holds the cursor, and the map still
  has the node's entry.\<close>

theorem created_event_of_a_held_node_is_behind_and_held:
  assumes "hm_wf B" "distinct (map fst (base_uids B))" "rc_kind c = Created"
    and "hm_get (base_uids B) (node_uid volume_id (rc_node_id c)) = Some p"
    and "rc_parent_id c = Some parent_id"
    and "hm_get (base_uids B) (node_uid volume_id parent_id) = Some d"
    and "effective_root_uid volume_id rid so = Some root_uid"
    and "root_uid \<noteq> node_uid volume_id (rc_node_id c)"
    and "rv_list rv d = Inr listing"
    and "find_entity_by_uid listing (node_uid volume_id (rc_node_id c)) = None"
  shows "reconstruct_remote B [c] volume_id rid so rv =
      Complete (base_remote B) 0 [\<lparr>lb_node_id = rc_node_id c, lb_parent = d\<rparr>] \<and>
    hm_contains (base_remote B) p"
proof -
  have "reconstruct_remote B [c] volume_id rid so rv =
      Complete (base_remote B) 0 [\<lparr>lb_node_id = rc_node_id c, lb_parent = d\<rparr>]"
    using assms by (simp add: reconstruct_from_start apply_change_def is_removal_def behind_parent_def
        locate_parent_def choose_listing_def absent_from_listing_def finish_replay_def behind_report_def
        replay_start_def hm_remove_def hm_insert_def Let_def)
  with base_uids_held[OF assms(4)] show ?thesis by simp
qed

section \<open>Witnesses\<close>

text \<open>A folder with one file, on a volume whose root the pair knows; the folder's listing shows one file.\<close>

definition rx_base :: base_map where
  "rx_base =
    [([Normal ''docs''], \<lparr>fr_file_path = [Normal ''docs''], fr_entity_kind = Directory, fr_file_size = 0,
        fr_mtime = 0, fr_sha1_hash = None, fr_proton_id = Some ''v~d'', fr_sync_status = Synced\<rparr>),
     ([Normal ''docs'', Normal ''a''], \<lparr>fr_file_path = [Normal ''docs'', Normal ''a''], fr_entity_kind = File,
        fr_file_size = 7, fr_mtime = 0, fr_sha1_hash = Some ''h'', fr_proton_id = Some ''v~a'',
        fr_sync_status = Synced\<rparr>)]"

definition rx_b :: "path \<times> remote_entity" where
  "rx_b = ([Normal ''docs'', Normal ''b''], RemoteFile \<lparr>rf_path = [Normal ''docs'', Normal ''b''],
     rf_id = ''v~b'', rf_name = ''b'', rf_sha1_hash = Some ''g'', rf_downloadable = True\<rparr>)"

definition rx_resolver :: resolver where
  "rx_resolver = \<lparr>rv_indexed_path = (\<lambda>_. Inr None),
     rv_list = (\<lambda>d. if d = [Normal ''docs''] then Inr [rx_b] else Inl ''no such directory'')\<rparr>"

definition rx_change :: "remote_change_kind \<Rightarrow> bytes \<Rightarrow> bytes option \<Rightarrow> remote_change" where
  "rx_change k i parent = \<lparr>rc_kind = k, rc_node_id = i, rc_parent_id = parent, rc_trashed = False,
     rc_shared = False, rc_event_id = ''e''\<rparr>"

definition rx_delta :: "remote_change list" where
  "rx_delta = [rx_change Created ''b'' (Some ''d''), rx_change Created ''x'' (Some ''elsewhere'')]"

definition rx_map :: remote_map where
  "rx_map = base_remote rx_base @ [rx_b]"

lemma rx_wf: "hm_wf rx_base" by code_simp

lemma rx_unique: "distinct (map fst (base_uids rx_base))" by code_simp

lemma rx_root: "effective_root_uid ''v'' (Some ''v~root'') ex_options = Some ''v~root''" by code_simp

lemma rx_run: "reconstruct_remote rx_base rx_delta ''v'' (Some ''v~root'') ex_options rx_resolver = Complete rx_map 1 []"
  by code_simp

theorem empty_delta_witness:
  "reconstruct_remote rx_base [] ''v'' (Some ''v~root'') ex_options rx_resolver = Complete (base_remote rx_base) 0 []"
  using empty_delta_is_the_baseline[OF rx_wf, of "''v''" "Some ''v~root''" ex_options rx_resolver] rx_unique by simp

theorem complete_map_witness: "hm_wf rx_map \<and> entity_allowed ex_options (fst rx_b) (snd rx_b)"
proof -
  have "hm_get rx_map (fst rx_b) = Some (snd rx_b)" by code_simp
  moreover have "hm_get rx_base (fst rx_b) = None" by code_simp
  ultimately show ?thesis using complete_map_has_sources[OF rx_wf rx_run] by fastforce
qed

theorem root_event_witness:
  "\<exists>r. reconstruct_remote rx_base [rx_change Updated ''root'' None] ''v'' (Some ''v~root'') ex_options rx_resolver =
     FallbackToSnapshot r"
proof (rule root_event_forces_snapshot[OF rx_wf])
  show "rx_change Updated ''root'' None \<in> set [rx_change Updated ''root'' None]" by simp
  show "effective_root_uid ''v'' (Some ''v~root'') ex_options =
      Some (node_uid ''v'' (rc_node_id (rx_change Updated ''root'' None)))"
    by code_simp
qed

theorem outside_witness:
  "parent_is_held [Normal ''docs'', Normal ''b'']
     (\<lambda>q. is_some_and (\<lambda>e. remote_entity_kind e = Directory) (hm_get rx_map q))"
proof -
  have "[Normal ''docs'', Normal ''b''] \<in> set (hm_keys rx_map)" by code_simp
  then show ?thesis using outside_only_when_the_tree_is_held[OF rx_wf rx_run] rx_root by simp
qed

theorem removal_witness:
  "\<exists>R. reconstruct_remote rx_base [rx_change Deleted ''d'' None] ''v'' (Some ''v~root'') ex_options rx_resolver =
     Complete R 0 [] \<and> hm_get R [Normal ''docs'', Normal ''a''] = None"
proof -
  have "is_removal (rx_change Deleted ''d'' None)" by code_simp
  moreover have "hm_get (base_uids rx_base) (node_uid ''v'' (rc_node_id (rx_change Deleted ''d'' None))) =
      Some [Normal ''docs'']" by code_simp
  moreover have "effective_root_uid ''v'' (Some ''v~root'') ex_options \<noteq>
      Some (node_uid ''v'' (rc_node_id (rx_change Deleted ''d'' None)))" by code_simp
  ultimately obtain R where
    "reconstruct_remote rx_base [rx_change Deleted ''d'' None] ''v'' (Some ''v~root'') ex_options rx_resolver =
       Complete R 0 []"
    and "\<forall>q. hm_get R q = (if prefix [Normal ''docs''] q then None
      else map_option remote_entity_from_record (hm_get rx_base q))"
    using removal_takes_the_subtree[OF rx_wf rx_unique] by blast
  then show ?thesis by simp
qed

theorem created_event_witness:
  "reconstruct_remote rx_base [rx_change Created ''a'' (Some ''d'')] ''v'' (Some ''v~root'') ex_options rx_resolver =
     Complete (base_remote rx_base) 0 [\<lparr>lb_node_id = ''a'', lb_parent = [Normal ''docs'']\<rparr>] \<and>
   hm_contains (base_remote rx_base) [Normal ''docs'', Normal ''a'']"
proof -
  let ?c = "rx_change Created ''a'' (Some ''d'')"
  have "rc_kind ?c = Created" "rc_parent_id ?c = Some ''d''" and id: "rc_node_id ?c = ''a''"
    by (simp_all add: rx_change_def)
  moreover have "hm_get (base_uids rx_base) (node_uid ''v'' (rc_node_id ?c)) = Some [Normal ''docs'', Normal ''a'']"
    "hm_get (base_uids rx_base) (node_uid ''v'' ''d'') = Some [Normal ''docs'']"
    "''v~root'' \<noteq> node_uid ''v'' (rc_node_id ?c)"
    "rv_list rx_resolver [Normal ''docs''] = Inr [rx_b]"
    "find_entity_by_uid [rx_b] (node_uid ''v'' (rc_node_id ?c)) = None"
    by code_simp+
  ultimately have "reconstruct_remote rx_base [?c] ''v'' (Some ''v~root'') ex_options rx_resolver =
      Complete (base_remote rx_base) 0 [\<lparr>lb_node_id = rc_node_id ?c, lb_parent = [Normal ''docs'']\<rparr>] \<and>
    hm_contains (base_remote rx_base) [Normal ''docs'', Normal ''a'']"
    using created_event_of_a_held_node_is_behind_and_held[OF rx_wf rx_unique _ _ _ _ rx_root] by blast
  then show ?thesis by (simp only: id)
qed

end
