(* ===== verification/Dir_Config.thy ===== *)
theory Dir_Config
  imports Scan_Options
begin

text \<open>
  The per-directory configuration layer (\<^verbatim>\<open>src/dirconfig.rs\<close>) and the named deletion policies of
  \<^verbatim>\<open>src/config.rs\<close>: which deletions need the user's approval at a path. A directory file is what
  reading it gives; the TOML parser is a parameter.
\<close>

section \<open>Deletion policies\<close>

datatype deletion_policy = AskEveryTime | OnlyPermanent | Never | OnlyRecoverable

fun from_directions :: "bool \<Rightarrow> bool \<Rightarrow> deletion_policy" where
  "from_directions True True = AskEveryTime"
| "from_directions False True = OnlyPermanent"
| "from_directions False False = Never"
| "from_directions True False = OnlyRecoverable"

fun policy_directions :: "deletion_policy \<Rightarrow> bool \<times> bool" where
  "policy_directions AskEveryTime = (True, True)"
| "policy_directions OnlyPermanent = (False, True)"
| "policy_directions Never = (False, False)"
| "policy_directions OnlyRecoverable = (True, False)"

fun policy_is_drawn :: "deletion_policy \<Rightarrow> bool" where
  "policy_is_drawn OnlyRecoverable = False"
| "policy_is_drawn _ = True"

fun policy_as_str :: "deletion_policy \<Rightarrow> bytes" where
  "policy_as_str AskEveryTime = ''ask_every_time''"
| "policy_as_str OnlyPermanent = ''only_permanent''"
| "policy_as_str Never = ''never''"
| "policy_as_str OnlyRecoverable = ''only_recoverable''"

definition policy_all :: "deletion_policy list" where
  "policy_all = [AskEveryTime, OnlyPermanent, Never, OnlyRecoverable]"

definition policy_from_str :: "bytes \<Rightarrow> deletion_policy option" where
  "policy_from_str value = find (\<lambda>policy. policy_as_str policy = value) policy_all"

interpretation policy_token: wire_token policy_as_str policy_from_str
proof
  show "policy_from_str t = Some a \<Longrightarrow> policy_as_str a = t" for t a
    by (auto simp: policy_from_str_def find_Some_iff)
  show "policy_from_str (policy_as_str a) = Some a" for a
    by (cases a) (simp_all add: policy_from_str_def policy_all_def)
qed

section \<open>Directory settings\<close>

record delete_approval_settings =
  das_remote :: "bool option"
  das_local :: "bool option"

record directory_settings =
  ds_delete_approval :: "delete_approval_settings option"
  ds_deletion_policy :: "deletion_policy option"

definition default_directory_settings :: directory_settings where
  "default_directory_settings = \<lparr>ds_delete_approval = None, ds_deletion_policy = None\<rparr>"

record effective_settings =
  es_remote :: bool
  es_local :: bool

fun requires_approval :: "effective_settings \<Rightarrow> delete_direction \<Rightarrow> bool" where
  "requires_approval e DeleteRemote = es_remote e"
| "requires_approval e DeleteLocal = es_local e"

definition settings_conflict :: "directory_settings \<Rightarrow> bool" where
  "settings_conflict s \<longleftrightarrow> ds_delete_approval s \<noteq> None \<and> ds_deletion_policy s \<noteq> None"

definition apply_to :: "directory_settings \<Rightarrow> effective_settings \<Rightarrow> effective_settings" where
  "apply_to s e0 =
    (let e1 = (case ds_deletion_policy s of
           None \<Rightarrow> e0
         | Some policy \<Rightarrow>
             (case policy_directions policy of (remote, local) \<Rightarrow> e0\<lparr>es_remote := remote, es_local := local\<rparr>))
     in case ds_delete_approval s of
          None \<Rightarrow> e1
        | Some approval \<Rightarrow>
            (let e2 = (case das_remote approval of None \<Rightarrow> e1 | Some b \<Rightarrow> e1\<lparr>es_remote := b\<rparr>)
             in case das_local approval of None \<Rightarrow> e2 | Some b \<Rightarrow> e2\<lparr>es_local := b\<rparr>))"

text \<open>What reading a directory's file gives, by the full path of the file.\<close>

datatype config_read = FileContents bytes | FileMissing | FileUnreadable

type_synonym toml_parser = "bytes \<Rightarrow> directory_settings option"

definition load_directory ::
  "toml_parser \<Rightarrow> (path \<Rightarrow> config_read) \<Rightarrow> path \<Rightarrow> path \<Rightarrow> directory_settings" where
  "load_directory parse read local_root directory =
    (case read (join_path (join_path local_root directory) [Normal directory_config_file_name]) of
       FileContents contents \<Rightarrow>
         (case parse contents of
            Some settings \<Rightarrow>
              if settings_conflict settings then default_directory_settings else settings
          | None \<Rightarrow> default_directory_settings)
     | FileMissing \<Rightarrow> default_directory_settings
     | FileUnreadable \<Rightarrow> default_directory_settings)"

section \<open>The resolver and its cache\<close>

type_synonym config_cache = "(path, directory_settings) hmap"

fun chain_from :: "path \<Rightarrow> bytes list \<Rightarrow> path list" where
  "chain_from accumulated [] = []"
| "chain_from accumulated (n # ns) = (accumulated @ [Normal n]) # chain_from (accumulated @ [Normal n]) ns"

definition normal_names :: "path \<Rightarrow> bytes list" where
  "normal_names p = List.map_filter (\<lambda>c. case c of Normal n \<Rightarrow> Some n | _ \<Rightarrow> None) p"

definition directory_chain :: "path \<Rightarrow> bool \<Rightarrow> path list" where
  "directory_chain p include_self =
    (let components = normal_names p;
         depth = (if include_self then length components else length components - 1)
     in [] # chain_from [] (take depth components))"

definition settings_for_directory ::
  "toml_parser \<Rightarrow> (path \<Rightarrow> config_read) \<Rightarrow> path \<Rightarrow> path \<Rightarrow> config_cache \<Rightarrow> directory_settings \<times> config_cache" where
  "settings_for_directory parse read local_root directory cache =
    (case hm_get cache directory of
       Some cached \<Rightarrow> (cached, cache)
     | None \<Rightarrow>
         (let settings = load_directory parse read local_root directory
          in (settings, hm_insert directory settings cache)))"

definition resolve_step ::
  "toml_parser \<Rightarrow> (path \<Rightarrow> config_read) \<Rightarrow> path \<Rightarrow> effective_settings \<times> config_cache \<Rightarrow> path \<Rightarrow>
   effective_settings \<times> config_cache" where
  "resolve_step parse read local_root st directory =
    (case st of (effective, cache) \<Rightarrow>
       (case settings_for_directory parse read local_root directory cache of
          (settings, cache') \<Rightarrow> (apply_to settings effective, cache')))"

definition resolve_settings ::
  "toml_parser \<Rightarrow> (path \<Rightarrow> config_read) \<Rightarrow> path \<Rightarrow> effective_settings \<Rightarrow> path \<Rightarrow> bool \<Rightarrow> config_cache \<Rightarrow>
   effective_settings \<times> config_cache" where
  "resolve_settings parse read local_root default_settings p is_directory cache =
    foldl (resolve_step parse read local_root) (default_settings, cache) (directory_chain p is_directory)"

section \<open>Laws\<close>

lemma directions_from: "policy_directions (from_directions r l) = (r, l)"
  by (cases r; cases l) simp_all

lemma from_policy_directions: "case_prod from_directions (policy_directions policy) = policy"
  by (cases policy) simp_all

text \<open>What a directory's settings say about one direction, if they say anything.\<close>

definition stated :: "directory_settings \<Rightarrow> delete_direction \<Rightarrow> bool option" where
  "stated s d =
    or_else
      (Option.bind (ds_delete_approval s) (\<lambda>a. case d of DeleteRemote \<Rightarrow> das_remote a | DeleteLocal \<Rightarrow> das_local a))
      (map_option (\<lambda>p. case d of DeleteRemote \<Rightarrow> fst (policy_directions p) | DeleteLocal \<Rightarrow> snd (policy_directions p))
        (ds_deletion_policy s))"

lemma apply_to_stated:
  "requires_approval (apply_to s e) d = (case stated s d of Some b \<Rightarrow> b | None \<Rightarrow> requires_approval e d)"
  by (cases d) (simp_all add: apply_to_def stated_def or_else_def Let_def split: option.split prod.split)

lemma stated_default [simp]: "stated default_directory_settings d = None"
  by (simp add: stated_def default_directory_settings_def)

lemma foldl_nearest:
  "requires_approval (foldl (\<lambda>e s. apply_to s e) e ss) d =
     (case find (\<lambda>s. stated s d \<noteq> None) (rev ss) of
        Some s \<Rightarrow> the (stated s d) | None \<Rightarrow> requires_approval e d)"
proof (induction ss rule: rev_induct)
  case (snoc s ss)
  then show ?case by (auto simp: apply_to_stated split: option.split)
qed simp

text \<open>A cache that holds only what loading gives makes no difference, and stays one.\<close>

definition cache_agrees ::
  "toml_parser \<Rightarrow> (path \<Rightarrow> config_read) \<Rightarrow> path \<Rightarrow> config_cache \<Rightarrow> bool" where
  "cache_agrees parse read local_root cache \<longleftrightarrow>
    (\<forall>d s. hm_get cache d = Some s \<longrightarrow> s = load_directory parse read local_root d)"

lemma settings_for_directory_agrees:
  assumes "cache_agrees parse read local_root cache"
  shows "fst (settings_for_directory parse read local_root d cache) = load_directory parse read local_root d"
    and "cache_agrees parse read local_root (snd (settings_for_directory parse read local_root d cache))"
  using assms
  by (auto simp: settings_for_directory_def cache_agrees_def Let_def hm.get_insert split: option.split)

lemma resolve_fold_agrees:
  assumes "cache_agrees parse read local_root cache"
  shows "fst (foldl (resolve_step parse read local_root) (e, cache) ds) =
      foldl (\<lambda>e s. apply_to s e) e (map (load_directory parse read local_root) ds)"
    and "cache_agrees parse read local_root (snd (foldl (resolve_step parse read local_root) (e, cache) ds))"
  using assms
proof (induction ds arbitrary: e cache)
  case Nil
  {
    case 1
    show ?case by simp
  next
    case 2
    then show ?case by simp
  }
next
  case (Cons d ds)
  {
    case 1
    note agrees = settings_for_directory_agrees[OF 1, of d]
    show ?case using Cons.IH(1)[OF agrees(2)] agrees(1)
      by (simp add: resolve_step_def case_prod_beta)
  next
    case 2
    note agrees = settings_for_directory_agrees[OF 2, of d]
    show ?case using Cons.IH(2)[OF agrees(2)] by (simp add: resolve_step_def case_prod_beta)
  }
qed

lemma chain_from_take: "chain_from acc ns = map (\<lambda>k. acc @ map Normal (take (Suc k) ns)) [0..<length ns]"
proof (induction ns arbitrary: acc)
  case (Cons n ns)
  have "[0..<length (n # ns)] = 0 # map Suc [0..<length ns]"
    unfolding map_Suc_upt length_Cons by (rule upt_conv_Cons) simp
  then show ?case by (simp add: Cons.IH comp_def del: upt_Suc)
qed simp

lemma normal_names_map [simp]: "normal_names (map Normal ns) = ns"
  by (induction ns) (simp_all add: normal_names_def map_filter_simps)


lemma directory_chain_plain:
  "directory_chain (map Normal ns) include_self =
     map (\<lambda>k. map Normal (take k ns)) [0..<Suc (if include_self then length ns else length ns - 1)]"
proof -
  have "chain_from [] (take n ns) = map (\<lambda>k. map Normal (take k ns)) [1..<Suc n]" if "n \<le> length ns" for n
  proof -
    have "map (\<lambda>k. map Normal (take k ns)) (map Suc [0..<n]) =
        map (\<lambda>k. map Normal (take (Suc k) (take n ns))) [0..<n]"
      by (auto simp: min_def)
    with that show ?thesis by (simp add: chain_from_take map_Suc_upt)
  qed
  moreover have "[0..<Suc m] = 0 # [1..<Suc m]" for m
    unfolding One_nat_def by (rule upt_conv_Cons) simp
  ultimately show ?thesis
    unfolding directory_chain_def Let_def normal_names_map by (simp del: upt_Suc)
qed

lemma find_map_option: "find P (map f xs) = map_option f (find (\<lambda>x. P (f x)) xs)"
  by (induction xs) auto

lemma apply_to_default [simp]: "apply_to default_directory_settings e = e"
  by (simp add: apply_to_def default_directory_settings_def)

section \<open>Properties\<close>

text \<open>The resolver refines the rule it documents. Whatever its cache already holds, the guard at a path
  is what the nearest directory file above it states, for each direction on its own, and the daemon-wide
  default where none states one; the cache stays faithful to the files.\<close>

theorem nearest_directory_file_decides:
  assumes "cache_agrees parse read local_root cache"
  shows "requires_approval (fst (resolve_settings parse read local_root e p is_directory cache)) d =
      (case find (\<lambda>dir. stated (load_directory parse read local_root dir) d \<noteq> None)
              (rev (directory_chain p is_directory)) of
         Some dir \<Rightarrow> the (stated (load_directory parse read local_root dir) d)
       | None \<Rightarrow> requires_approval e d) \<and>
    cache_agrees parse read local_root (snd (resolve_settings parse read local_root e p is_directory cache))"
  unfolding resolve_settings_def resolve_fold_agrees(1)[OF assms] foldl_nearest rev_map find_map_option
  using resolve_fold_agrees(2)[OF assms] by (simp split: option.split)

text \<open>Afile that is missing, cannot be read, does not parse or spells the guard two ways changes
  nothing: with only such files above a path the daemon-wide default holds there.\<close>

theorem broken_directory_files_keep_the_default:
  assumes "\<forall>dir\<in>set (directory_chain p is_directory).
    case read (join_path (join_path local_root dir) [Normal directory_config_file_name]) of
      FileContents text \<Rightarrow> (case parse text of None \<Rightarrow> True | Some s \<Rightarrow> settings_conflict s)
    | FileMissing \<Rightarrow> True | FileUnreadable \<Rightarrow> True"
  shows "fst (resolve_settings parse read local_root e p is_directory []) = e"
proof -
  have inert: "load_directory parse read local_root dir = default_directory_settings"
    if "dir \<in> set (directory_chain p is_directory)" for dir
    using assms that by (fastforce simp: load_directory_def split: config_read.splits option.splits)
  have "foldl (\<lambda>e s. apply_to s e) e (map (load_directory parse read local_root) dirs) = e"
    if "set dirs \<subseteq> set (directory_chain p is_directory)" for dirs
    using that
  proof (induction dirs)
    case (Cons dir dirs)
    from Cons.prems have "load_directory parse read local_root dir = default_directory_settings"
      by (intro inert) simp
    with Cons show ?case by simp
  qed simp
  then show ?thesis
    unfolding resolve_settings_def
    by (subst resolve_fold_agrees(1)) (simp_all add: cache_agrees_def)
qed

section \<open>Witnesses\<close>

definition dx_parse :: toml_parser where
  "dx_parse contents =
    (if contents = ''off'' then Some \<lparr>ds_delete_approval = None, ds_deletion_policy = Some Never\<rparr>
     else if contents = ''ask'' then
       Some \<lparr>ds_delete_approval = Some \<lparr>das_remote = None, das_local = Some True\<rparr>, ds_deletion_policy = None\<rparr>
     else None)"

definition dx_read :: "path \<Rightarrow> config_read" where
  "dx_read p =
    (if p = [RootDir, Normal directory_config_file_name] then FileContents ''off''
     else if p = [RootDir, Normal ''docs'', Normal directory_config_file_name] then FileContents ''ask''
     else if p = [RootDir, Normal ''junk'', Normal directory_config_file_name] then FileContents ''?''
     else FileMissing)"

lemma dx_empty: "cache_agrees dx_parse dx_read [RootDir] []"
  by (simp add: cache_agrees_def)

theorem nearest_directory_file_witness:
  "requires_approval (fst (resolve_settings dx_parse dx_read [RootDir] \<lparr>es_remote = True, es_local = True\<rparr>
     [Normal ''docs'', Normal ''a''] False [])) DeleteLocal \<and>
   \<not> requires_approval (fst (resolve_settings dx_parse dx_read [RootDir] \<lparr>es_remote = True, es_local = True\<rparr>
     [Normal ''docs'', Normal ''a''] False [])) DeleteRemote"
  unfolding nearest_directory_file_decides[OF dx_empty, THEN conjunct1] by code_simp

theorem broken_directory_files_witness:
  "fst (resolve_settings dx_parse (\<lambda>p. if p = [RootDir, Normal directory_config_file_name] then FileUnreadable
        else dx_read p) [RootDir] \<lparr>es_remote = True, es_local = True\<rparr>
     [Normal ''junk'', Normal ''a''] False []) = \<lparr>es_remote = True, es_local = True\<rparr>"
  by (rule broken_directory_files_keep_the_default) code_simp

end
