(* ===== verification/Ancestor.thy ===== *)
theory Ancestor
  imports Plan_Report
begin

text \<open>
  What each side of a conflict did to the last agreed version (\<^verbatim>\<open>src/ancestor.rs\<close>): the line splitter,
  the stored line summary and its encoding, and the comparison with its trimmed head and tail, its table
  of longest common subsequences, its op stream and its pairing within contiguous runs. SHA-1 is a
  parameter. The comparison is proved against the declarative notion: the longest common subsequence of
  the two whole files.
\<close>

section \<open>Lines\<close>

definition max_summary_bytes :: nat where "max_summary_bytes = 256 * 1024"
definition max_summary_lines :: nat where "max_summary_lines = 4096"
definition max_diff_cells :: nat where "max_diff_cells = 250000"

definition ch_newline :: char where "ch_newline = CHR 0x0A"
definition ch_return :: char where "ch_return = CHR 0x0D"

definition is_line_end :: "char \<Rightarrow> bool" where
  "is_line_end c \<longleftrightarrow> c = ch_newline \<or> c = ch_return"

definition find_line_end :: "bytes \<Rightarrow> nat option" where
  "find_line_end text =
    (let pos = length (takeWhile (\<lambda>c. \<not> is_line_end c) text) in if pos < length text then Some pos else None)"

lemma find_line_end_Some: "find_line_end s = Some pos \<Longrightarrow> pos < length s \<and> is_line_end (s ! pos)"
  using nth_length_takeWhile[of "\<lambda>c. \<not> is_line_end c" s]
  by (auto simp: find_line_end_def Let_def split: if_splits)

function split_lines :: "bytes \<Rightarrow> bytes list" where
  "split_lines text =
    (case find_line_end text of
       None \<Rightarrow> if text = [] then [] else [text]
     | Some pos \<Rightarrow>
         (let skip = (if prefix [ch_return, ch_newline] (drop pos text) then 2 else 1)
          in take pos text # split_lines (drop (pos + skip) text)))"
  by pat_completeness auto

termination split_lines
  by (relation "measure length") (auto dest!: find_line_end_Some)

declare split_lines.simps [simp del]

section \<open>Summaries\<close>

record line_summary =
  sum_lines :: "bytes list"

definition line_digest :: "(bytes \<Rightarrow> bytes) \<Rightarrow> bytes \<Rightarrow> bytes" where
  "line_digest sha1 line = hex_bytes (take 8 (sha1 line))"

definition summary_of :: "(bytes \<Rightarrow> bytes) \<Rightarrow> bytes \<Rightarrow> line_summary option" where
  "summary_of sha1 text =
    (if length text > max_summary_bytes then None
     else
       (let lines = split_lines text in
        if length lines > max_summary_lines then None
        else Some \<lparr>sum_lines = map (line_digest sha1) lines\<rparr>))"

definition line_count :: "line_summary \<Rightarrow> nat" where
  "line_count s = length (sum_lines s)"

fun join_lines :: "bytes list \<Rightarrow> bytes" where
  "join_lines [] = []"
| "join_lines [x] = x"
| "join_lines (x # y # ys) = x @ ch_newline # join_lines (y # ys)"

definition summary_encode :: "line_summary \<Rightarrow> bytes" where
  "summary_encode s = join_lines (sum_lines s)"

definition summary_decode :: "bytes \<Rightarrow> line_summary" where
  "summary_decode stored = \<lparr>sum_lines = (if stored = [] then [] else split_on ch_newline stored)\<rparr>"

section \<open>The comparison\<close>

record version_facts =
  vf_added :: nat
  vf_changed :: nat
  vf_removed :: nat

definition is_unchanged :: "version_facts \<Rightarrow> bool" where
  "is_unchanged f \<longleftrightarrow> vf_added f = 0 \<and> vf_changed f = 0 \<and> vf_removed f = 0"

text \<open>The agreeing head and tail. The tail stops where the head ended, on the shorter side.\<close>

fun agreeing :: "'a list \<Rightarrow> 'a list \<Rightarrow> nat" where
  "agreeing (x # xs) (y # ys) = (if x = y then Suc (agreeing xs ys) else 0)"
| "agreeing _ _ = 0"

definition agreeing_tail :: "'a list \<Rightarrow> 'a list \<Rightarrow> nat \<Rightarrow> nat" where
  "agreeing_tail before after head = agreeing (rev (drop head before)) (rev (drop head after))"

definition middle :: "'a list \<Rightarrow> nat \<Rightarrow> nat \<Rightarrow> 'a list" where
  "middle xs head tail = take (length xs - tail - head) (drop head xs)"

text \<open>The table, row by row from the last, each row from its last column.\<close>

fun lcs_row :: "'a \<Rightarrow> 'a list \<Rightarrow> nat list \<Rightarrow> nat list" where
  "lcs_row b [] below = [0]"
| "lcs_row b (a # ys) below =
    (let rest = lcs_row b ys (tl below)
     in (if b = a then below ! 1 + 1 else max (below ! 0) (rest ! 0)) # rest)"

fun lcs_table :: "'a list \<Rightarrow> 'a list \<Rightarrow> nat list list" where
  "lcs_table [] ys = [replicate (length ys + 1) 0]"
| "lcs_table (b # bs) ys = (let t = lcs_table bs ys in lcs_row b ys (hd t) # t)"

datatype diff_op = Keep | OnlyBefore | OnlyAfter

function diff_ops :: "'a list \<Rightarrow> 'a list \<Rightarrow> nat list list \<Rightarrow> nat \<Rightarrow> nat \<Rightarrow> diff_op list" where
  "diff_ops before after table i j =
    (if i < length before \<and> j < length after then
       (if before ! i = after ! j then Keep # diff_ops before after table (i + 1) (j + 1)
        else if table ! (i + 1) ! j \<ge> table ! i ! (j + 1)
        then OnlyBefore # diff_ops before after table (i + 1) j
        else OnlyAfter # diff_ops before after table i (j + 1))
     else replicate (length before - i) OnlyBefore @ replicate (length after - j) OnlyAfter)"
  by pat_completeness auto

termination diff_ops
  by (relation "measure (\<lambda>(before, after, table, i, j). (length before - i) + (length after - j))") auto

declare diff_ops.simps [simp del]

definition count_op :: "diff_op \<Rightarrow> diff_op list \<Rightarrow> nat" where
  "count_op x ops = length (filter (\<lambda>y. y = x) ops)"

text \<open>Pairing within each contiguous run of lines that are not kept.\<close>

definition add_block :: "diff_op list \<Rightarrow> version_facts \<Rightarrow> version_facts" where
  "add_block block f =
    (let only_before = count_op OnlyBefore block;
         only_after = length block - only_before;
         paired = min only_before only_after
     in \<lparr>vf_added = vf_added f + (only_after - paired), vf_changed = vf_changed f + paired,
         vf_removed = vf_removed f + (only_before - paired)\<rparr>)"

function fold_blocks :: "diff_op list \<Rightarrow> version_facts \<Rightarrow> version_facts" where
  "fold_blocks ops f =
    (case ops of [] \<Rightarrow> f
     | x # rest \<Rightarrow>
         if x = Keep then fold_blocks rest f
         else fold_blocks (dropWhile (\<lambda>y. y \<noteq> Keep) ops) (add_block (takeWhile (\<lambda>y. y \<noteq> Keep) ops) f))"
  by pat_completeness auto

termination fold_blocks
  by (relation "measure (\<lambda>(ops, f). length ops)") (auto simp: length_dropWhile_le le_imp_less_Suc)

declare fold_blocks.simps [simp del]

definition compare_to_ancestor :: "line_summary \<Rightarrow> line_summary \<Rightarrow> version_facts option" where
  "compare_to_ancestor ancestor current =
    (let before0 = sum_lines ancestor; after0 = sum_lines current;
         head = agreeing before0 after0;
         tail = agreeing_tail before0 after0 head;
         before = middle before0 head tail; after = middle after0 head tail
     in if (length before + 1) * (length after + 1) > max_diff_cells then None
        else Some (fold_blocks (diff_ops before after (lcs_table before after) 0 0)
                     \<lparr>vf_added = 0, vf_changed = 0, vf_removed = 0\<rparr>))"

section \<open>Laws of lines and of their encoding\<close>

lemma find_line_end_append:
  "list_all (\<lambda>c. \<not> is_line_end c) l \<Longrightarrow> is_line_end e \<Longrightarrow> find_line_end (l @ e # s) = Some (length l)"
  by (simp add: find_line_end_def Let_def takeWhile_append list_all_iff)

lemma split_lines_Nil [simp]: "split_lines [] = []"
  by (simp add: split_lines.simps find_line_end_def)

lemma split_lines_LF:
  "list_all (\<lambda>c. \<not> is_line_end c) l \<Longrightarrow> split_lines (l @ ch_newline # s) = l # split_lines s"
  by (subst split_lines.simps)
    (simp add: find_line_end_append is_line_end_def ch_newline_def ch_return_def)

lemma split_lines_CRLF:
  "list_all (\<lambda>c. \<not> is_line_end c) l \<Longrightarrow> split_lines (l @ ch_return # ch_newline # s) = l # split_lines s"
  by (subst split_lines.simps) (simp add: find_line_end_append is_line_end_def)

lemma join_split_newline:
  "xs \<noteq> [] \<Longrightarrow> list_all (\<lambda>x. ch_newline \<notin> set x) xs \<Longrightarrow> split_on ch_newline (join_lines xs) = xs"
  by (induction xs rule: join_lines.induct) (simp_all add: split_on_no_sep split_on_append)

lemma join_lines_nonempty: "xs \<noteq> [] \<Longrightarrow> list_all (\<lambda>x. x \<noteq> []) xs \<Longrightarrow> join_lines xs \<noteq> []"
  by (cases xs rule: join_lines.cases) auto

lemma hex_digit_not_newline: "n < 16 \<Longrightarrow> hex_digit n \<noteq> ch_newline"
proof -
  assume "n < 16"
  then have "hex_digit n \<in> set ''0123456789abcdef''"
    unfolding hex_digit_def by (intro nth_mem) simp
  moreover have "ch_newline \<notin> set ''0123456789abcdef''" by (simp add: ch_newline_def)
  ultimately show "hex_digit n \<noteq> ch_newline" by metis
qed

lemma hex_bytes_no_newline: "ch_newline \<notin> set (hex_bytes bs)"
proof -
  have "of_char c div 16 < (16 :: nat)" "of_char c mod 16 < (16 :: nat)" for c
    using nat_of_char_less_256[of c] by (simp_all add: div_less_iff_less_mult)
  note digits = this[THEN hex_digit_not_newline]
  show ?thesis by (auto simp: hex_bytes_def digits digits[symmetric])
qed

lemma hex_bytes_Nil_iff: "hex_bytes bs = [] \<longleftrightarrow> bs = []"
  by (cases bs) (simp_all add: hex_bytes_def)

section \<open>Longest common subsequences\<close>

text \<open>The recursion the table tabulates, and what it computes.\<close>

fun lcs_len :: "'a list \<Rightarrow> 'a list \<Rightarrow> nat" where
  "lcs_len [] ys = 0"
| "lcs_len (x # xs) [] = 0"
| "lcs_len (x # xs) (y # ys) =
    (if x = y then Suc (lcs_len xs ys) else max (lcs_len xs (y # ys)) (lcs_len (x # xs) ys))"

definition is_lcs_length :: "nat \<Rightarrow> 'a list \<Rightarrow> 'a list \<Rightarrow> bool" where
  "is_lcs_length n xs ys \<longleftrightarrow>
    (\<exists>zs. subseq zs xs \<and> subseq zs ys \<and> length zs = n) \<and>
    (\<forall>zs. subseq zs xs \<and> subseq zs ys \<longrightarrow> length zs \<le> n)"

lemma is_lcs_length_unique: "is_lcs_length m xs ys \<Longrightarrow> is_lcs_length n xs ys \<Longrightarrow> m = n"
  by (auto simp: is_lcs_length_def intro: antisym)

lemma lcs_len_Nil [simp]: "lcs_len xs [] = 0"
  by (cases xs) simp_all

lemma lcs_len_upper: "subseq zs xs \<Longrightarrow> subseq zs ys \<Longrightarrow> length zs \<le> lcs_len xs ys"
proof (induction xs ys arbitrary: zs rule: lcs_len.induct)
  case (3 x xs y ys)
  show ?case
  proof (cases zs)
    case (Cons z zs')
    show ?thesis
    proof (cases "x = y")
      case True
      then show ?thesis using "3.prems" "3.IH"(1)[of zs] "3.IH"(1)[of zs'] Cons
        by (auto simp: subseq_Cons2_iff split: if_splits)
    next
      case False
      then show ?thesis using "3.prems" "3.IH"(2,3)[of zs] Cons
        by (auto simp: subseq_Cons2_iff split: if_splits)
    qed
  qed simp
qed (auto dest: list_emb_Nil2)

lemma lcs_len_reached: "\<exists>zs. subseq zs xs \<and> subseq zs ys \<and> length zs = lcs_len xs ys"
proof (induction xs ys rule: lcs_len.induct)
  case (3 x xs y ys)
  show ?case
  proof (cases "x = y")
    case True
    with "3.IH"(1) obtain zs where "subseq zs xs" "subseq zs ys" "length zs = lcs_len xs ys" by blast
    then have "subseq (x # zs) (x # xs) \<and> subseq (x # zs) (y # ys) \<and> length (x # zs) = lcs_len (x # xs) (y # ys)"
      using True by simp
    then show ?thesis by blast
  next
    case False
    from False "3.IH"(2) obtain us where us: "subseq us xs" "subseq us (y # ys)" "length us = lcs_len xs (y # ys)"
      by blast
    from False "3.IH"(3) obtain vs where vs: "subseq vs (x # xs)" "subseq vs ys" "length vs = lcs_len (x # xs) ys"
      by blast
    show ?thesis
    proof (cases "lcs_len xs (y # ys) \<ge> lcs_len (x # xs) ys")
      case True
      with us False show ?thesis by (intro exI[of _ us]) (auto intro: list_emb_Cons)
    next
      case le: False
      with vs False show ?thesis by (intro exI[of _ vs]) (auto intro: list_emb_Cons)
    qed
  qed
qed auto

lemma lcs_len_is: "is_lcs_length (lcs_len xs ys) xs ys"
  unfolding is_lcs_length_def using lcs_len_reached lcs_len_upper by blast

lemma subseq_rev: "subseq xs ys \<Longrightarrow> subseq (rev xs) (rev ys)"
proof (induction rule: list_emb.induct)
  case (list_emb_Cons2 x y xs ys)
  then show ?case by (auto intro: list_emb_append_mono)
qed (auto intro: list_emb_append2 simp: list_emb_prefix)

lemma lcs_len_rev: "lcs_len (rev xs) (rev ys) = lcs_len xs ys"
proof (rule is_lcs_length_unique)
  have "is_lcs_length n xs ys \<Longrightarrow> is_lcs_length n (rev xs) (rev ys)" for n and xs ys :: "'a list"
    unfolding is_lcs_length_def by (metis length_rev rev_rev_ident subseq_rev)
  then show "is_lcs_length (lcs_len xs ys) (rev xs) (rev ys)" using lcs_len_is by blast
qed (rule lcs_len_is)

lemma lcs_len_head: "lcs_len (ps @ xs) (ps @ ys) = length ps + lcs_len xs ys"
  by (induction ps) simp_all

lemma lcs_len_tail: "lcs_len (xs @ ss) (ys @ ss) = lcs_len xs ys + length ss"
  using lcs_len_head[of "rev ss" "rev xs" "rev ys"] lcs_len_rev[of "xs @ ss" "ys @ ss"] lcs_len_rev[of xs ys]
  by simp

section \<open>The table and the op stream\<close>

lemma lcs_row_nth:
  "(\<And>j. j \<le> length ys \<Longrightarrow> below ! j = lcs_len bs (drop j ys)) \<Longrightarrow> length below = length ys + 1 \<Longrightarrow>
   j \<le> length ys \<Longrightarrow> lcs_row b ys below ! j = lcs_len (b # bs) (drop j ys)"
proof (induction ys arbitrary: below j)
  case Nil
  then show ?case by simp
next
  case (Cons y ys)
  have below: "tl below ! k = below ! Suc k" "length (tl below) = length ys + 1" for k
    using Cons.prems(2) by (cases below; simp)+
  have rest: "lcs_row b ys (tl below) ! k = lcs_len (b # bs) (drop k ys)" if "k \<le> length ys" for k
    using Cons.prems(1)[of "Suc _"] Cons.prems(2) that below by (intro Cons.IH) simp_all
  show ?case
  proof (cases j)
    case 0
    then show ?thesis using rest[of 0] Cons.prems(1)[of 0] Cons.prems(1)[of 1] by (simp add: Let_def)
  next
    case (Suc k)
    then show ?thesis using rest[of k] Cons.prems(3) by (simp add: Let_def)
  qed
qed

lemma lcs_row_length [simp]: "length (lcs_row b ys below) = length ys + 1"
  by (induction ys arbitrary: below) (simp_all add: Let_def)

lemma lcs_table_length [simp]: "length (lcs_table bs ys) = length bs + 1"
  by (induction bs) (simp_all add: Let_def)

lemma lcs_table_row_length: "i \<le> length bs \<Longrightarrow> length (lcs_table bs ys ! i) = length ys + 1"
  by (induction bs arbitrary: i) (auto simp: Let_def nth_Cons split: nat.split)

lemma lcs_table_nth:
  "i \<le> length bs \<Longrightarrow> j \<le> length ys \<Longrightarrow> lcs_table bs ys ! i ! j = lcs_len (drop i bs) (drop j ys)"
proof (induction bs arbitrary: i j)
  case Nil
  then show ?case using nth_replicate[of j "length ys + 1" "0 :: nat"] by simp
next
  case (Cons b bs)
  have hd: "hd (lcs_table bs ys) = lcs_table bs ys ! 0"
    by (intro hd_conv_nth) (metis lcs_table_length add_is_0 list.size(3) one_neq_zero)
  show ?case
  proof (cases i)
    case 0
    with Cons show ?thesis
      by (simp add: Let_def hd) (rule lcs_row_nth, simp_all add: lcs_table_row_length)
  next
    case (Suc k)
    with Cons show ?thesis by (simp add: Let_def)
  qed
qed

lemma count_op_simps [simp]:
  "count_op x [] = 0" "count_op x (y # ys) = (if y = x then Suc (count_op x ys) else count_op x ys)"
  "count_op x (ys @ zs) = count_op x ys + count_op x zs"
  by (simp_all add: count_op_def)

lemma count_op_replicate [simp]: "count_op x (replicate n y) = (if y = x then n else 0)"
  by (simp add: count_op_def)

lemma diff_ops_counts:
  assumes "i \<le> length bs" "j \<le> length ys"
  shows "count_op Keep (diff_ops bs ys (lcs_table bs ys) i j) = lcs_len (drop i bs) (drop j ys) \<and>
    count_op Keep (diff_ops bs ys (lcs_table bs ys) i j) +
      count_op OnlyBefore (diff_ops bs ys (lcs_table bs ys) i j) = length bs - i \<and>
    count_op Keep (diff_ops bs ys (lcs_table bs ys) i j) +
      count_op OnlyAfter (diff_ops bs ys (lcs_table bs ys) i j) = length ys - j"
  using assms
proof (induction bs ys "lcs_table bs ys" i j rule: diff_ops.induct)
  case (1 bs ys i j)
  note step = diff_ops.simps[of bs ys "lcs_table bs ys" i j]
  show ?case
  proof (cases "i < length bs \<and> j < length ys")
    case True
    then have d: "drop i bs = bs ! i # drop (Suc i) bs" "drop j ys = ys ! j # drop (Suc j) ys"
      by (simp_all add: Cons_nth_drop_Suc)
    show ?thesis
    proof (cases "bs ! i = ys ! j")
      case eq: True
      show ?thesis unfolding step using 1(1)[OF True eq] True eq by (auto simp: d)
    next
      case ne: False
      have t: "lcs_table bs ys ! (i + 1) ! j = lcs_len (drop (i + 1) bs) (drop j ys)"
        "lcs_table bs ys ! i ! (j + 1) = lcs_len (drop i bs) (drop (j + 1) ys)"
        using True by (simp_all add: lcs_table_nth)
      show ?thesis
      proof (cases "lcs_table bs ys ! (i + 1) ! j \<ge> lcs_table bs ys ! i ! (j + 1)")
        case ge: True
        show ?thesis unfolding step using 1(2)[OF True ne ge] 1(5) True ne ge
          unfolding t by (auto simp: d)
      next
        case lt: False
        show ?thesis unfolding step using 1(3)[OF True ne lt] 1(4) True ne lt
          unfolding t by (auto simp: d)
      qed
    qed
  next
    case False
    with 1(4,5) show ?thesis unfolding step by auto
  qed
qed

section \<open>Pairing and trimming\<close>

lemma add_block_counts:
  "Keep \<notin> set block \<Longrightarrow>
   vf_removed (add_block block f) + vf_changed (add_block block f) = vf_removed f + vf_changed f + count_op OnlyBefore block \<and>
   vf_added (add_block block f) + vf_changed (add_block block f) = vf_added f + vf_changed f + count_op OnlyAfter block"
proof -
  assume k: "Keep \<notin> set block"
  have "length block = count_op OnlyBefore block + count_op OnlyAfter block"
    using k
  proof (induction block)
    case (Cons x block)
    then show ?case by (cases x) auto
  qed simp
  then show ?thesis by (simp add: add_block_def Let_def min_def)
qed

lemma fold_blocks_counts:
  "vf_removed (fold_blocks ops f) + vf_changed (fold_blocks ops f) = vf_removed f + vf_changed f + count_op OnlyBefore ops \<and>
   vf_added (fold_blocks ops f) + vf_changed (fold_blocks ops f) = vf_added f + vf_changed f + count_op OnlyAfter ops"
proof (induction ops f rule: fold_blocks.induct)
  case (1 ops f)
  show ?case
  proof (cases ops)
    case Nil
    then show ?thesis by (simp add: fold_blocks.simps)
  next
    case (Cons x rest)
    show ?thesis
    proof (cases "x = Keep")
      case True
      then have "fold_blocks ops f = fold_blocks rest f"
        using Cons by (subst fold_blocks.simps) simp
      then show ?thesis using 1(1)[OF Cons True] Cons True by simp
    next
      case False
      let ?t = "takeWhile (\<lambda>y. y \<noteq> Keep) ops" and ?d = "dropWhile (\<lambda>y. y \<noteq> Keep) ops"
      have step: "fold_blocks ops f = fold_blocks ?d (add_block ?t f)"
        using False Cons by (subst fold_blocks.simps) simp
      have "count_op y ops = count_op y ?t + count_op y ?d" for y
        by (metis count_op_simps(3) takeWhile_dropWhile_id)
      moreover have "Keep \<notin> set ?t" by (auto dest: set_takeWhileD)
      ultimately show ?thesis
        unfolding step using 1(2)[OF Cons False] add_block_counts[of ?t f] Cons by simp
    qed
  qed
qed

lemma agreeing_split:
  "\<exists>ps us vs. length ps = agreeing xs ys \<and> xs = ps @ us \<and> ys = ps @ vs"
proof (induction xs ys rule: agreeing.induct)
  case (1 x xs y ys)
  show ?case
  proof (cases "x = y")
    case True
    with 1 obtain ps us vs where "length ps = agreeing xs ys" "xs = ps @ us" "ys = ps @ vs" by blast
    then show ?thesis using True by (intro exI[of _ "x # ps"] exI[of _ us] exI[of _ vs]) simp
  qed simp
qed simp_all

lemma trimmed:
  fixes xs ys :: "'a list"
  defines "h \<equiv> agreeing xs ys"
  defines "t \<equiv> agreeing_tail xs ys h"
  obtains ps ss where "length ps = h" "length ss = t"
    "xs = ps @ middle xs h t @ ss" "ys = ps @ middle ys h t @ ss"
proof -
  obtain ps us vs where ps: "length ps = h" "xs = ps @ us" "ys = ps @ vs"
    using agreeing_split unfolding h_def by metis
  obtain qs us' vs' where qs: "length qs = t" "rev us = qs @ us'" "rev vs = qs @ vs'"
    using agreeing_split[of "rev us" "rev vs"] ps unfolding t_def agreeing_tail_def by auto
  then have "us = rev us' @ rev qs" "vs = rev vs' @ rev qs" by (simp_all add: rev_swap)
  with ps qs(1) have "xs = ps @ middle xs h t @ rev qs" "ys = ps @ middle ys h t @ rev qs"
    by (simp_all add: middle_def)
  with ps(1) qs(1) show thesis by (intro that[of ps "rev qs"]) simp_all
qed

lemma same_length_lcs:
  assumes "is_lcs_length (length xs) xs ys" "length xs = length ys"
  shows "xs = ys"
proof -
  obtain zs where "subseq zs xs" "subseq zs ys" "length zs = length xs"
    using assms(1) by (auto simp: is_lcs_length_def)
  with assms(2) show ?thesis by (metis subseq_same_length)
qed

text \<open>The exact account of a comparison, over the two whole files.\<close>

lemma compare_account:
  assumes "compare_to_ancestor s t = Some f"
  defines "L \<equiv> lcs_len (sum_lines s) (sum_lines t)"
  shows "vf_removed f + vf_changed f + L = length (sum_lines s)"
    and "vf_added f + vf_changed f + L = length (sum_lines t)"
proof -
  let ?xs = "sum_lines s" and ?ys = "sum_lines t"
  let ?h = "agreeing ?xs ?ys"
  let ?t = "agreeing_tail ?xs ?ys ?h"
  let ?b = "middle ?xs ?h ?t" and ?a = "middle ?ys ?h ?t"
  let ?ops = "diff_ops ?b ?a (lcs_table ?b ?a) 0 0"
  obtain ps ss where split: "?xs = ps @ ?b @ ss" "?ys = ps @ ?a @ ss"
    using trimmed[of ?xs ?ys] by metis
  then have len: "length ?xs = length ps + length ?b + length ss" "length ?ys = length ps + length ?a + length ss"
    by (metis append.assoc length_append)+
  have L: "L = length ps + lcs_len ?b ?a + length ss"
    unfolding L_def by (subst split(1), subst split(2)) (simp only: lcs_len_head lcs_len_tail add.assoc)
  have f: "f = fold_blocks ?ops \<lparr>vf_added = 0, vf_changed = 0, vf_removed = 0\<rparr>"
    using assms(1) by (simp add: compare_to_ancestor_def Let_def split: if_splits)
  have ops: "count_op Keep ?ops = lcs_len ?b ?a" "count_op Keep ?ops + count_op OnlyBefore ?ops = length ?b"
    "count_op Keep ?ops + count_op OnlyAfter ?ops = length ?a"
    using diff_ops_counts[of 0 ?b 0 ?a] by simp_all
  have facts: "vf_removed f + vf_changed f = count_op OnlyBefore ?ops"
    "vf_added f + vf_changed f = count_op OnlyAfter ?ops"
    using fold_blocks_counts[of ?ops "\<lparr>vf_added = 0, vf_changed = 0, vf_removed = 0\<rparr>"]
    unfolding f by simp_all
  show "vf_removed f + vf_changed f + L = length ?xs" "vf_added f + vf_changed f + L = length ?ys"
    unfolding L len using facts ops by linarith+
qed

section \<open>Properties\<close>


text \<open>Aside is reported as unchanged exactly when its lines are the agreed ones.\<close>

theorem unchanged_iff_same_lines:
  assumes "compare_to_ancestor s t = Some f"
  shows "is_unchanged f \<longleftrightarrow> sum_lines s = sum_lines t"
proof
  assume "is_unchanged f"
  with compare_account[OF assms] have "length (sum_lines s) = length (sum_lines t)"
    "lcs_len (sum_lines s) (sum_lines t) = length (sum_lines s)" by (simp_all add: is_unchanged_def)
  with same_length_lcs lcs_len_is show "sum_lines s = sum_lines t" by metis
next
  assume eq: "sum_lines s = sum_lines t"
  have "lcs_len (sum_lines t) (sum_lines t) = length (sum_lines t)"
    using lcs_len_head[of "sum_lines t" "[]" "[]"] by simp
  with compare_account[OF assms] eq show "is_unchanged f" by (simp add: is_unchanged_def)
qed

text \<open>The stored form of a summary reads back as the summary, the empty file included.\<close>

theorem summary_round_trip:
  assumes "summary_of sha1 contents = Some s" "\<And>l. sha1 l \<noteq> []"
  shows "summary_decode (summary_encode s) = s"
proof -
  from assms(1) obtain ls where s: "s = \<lparr>sum_lines = map (line_digest sha1) ls\<rparr>"
    by (auto simp: summary_of_def Let_def split: if_splits)
  let ?ds = "map (line_digest sha1) ls"
  have "list_all (\<lambda>x. x \<noteq> []) ?ds"
    using assms(2) by (simp add: list_all_iff line_digest_def hex_bytes_Nil_iff)
  then have "?ds \<noteq> [] \<Longrightarrow> join_lines ?ds \<noteq> []" by (rule join_lines_nonempty[rotated])
  moreover have "list_all (\<lambda>x. ch_newline \<notin> set x) ?ds"
    by (simp add: list_all_iff line_digest_def hex_bytes_no_newline)
  ultimately show ?thesis
    using join_split_newline[of ?ds] by (cases "ls = []") (simp_all add: summary_encode_def summary_decode_def s)
qed

text \<open>The splitter reads the lines back whatever mixture of line endings separates them, and a final
  line ending adds no empty line.\<close>

theorem splitter_normalises_line_endings:
  assumes "list_all (\<lambda>(l, crlf). list_all (\<lambda>c. \<not> is_line_end c) l) ps"
  shows "split_lines (concat (map (\<lambda>(l, crlf). l @ (if crlf then [ch_return, ch_newline] else [ch_newline])) ps))
    = map fst ps"
  using assms
  by (induction ps) (auto simp: split_lines_LF split_lines_CRLF)

section \<open>Witnesses\<close>

definition ax_old :: line_summary where "ax_old = \<lparr>sum_lines = [''a'', ''b'', ''c'', ''d'']\<rparr>"
definition ax_new :: line_summary where "ax_new = \<lparr>sum_lines = [''a'', ''x'', ''c'', ''e'', ''d'']\<rparr>"
definition ax_facts :: version_facts where
  "ax_facts = \<lparr>vf_added = 1, vf_changed = 1, vf_removed = 0\<rparr>"

lemma ax_trim: "agreeing (sum_lines ax_old) (sum_lines ax_new) = 1"
  "agreeing_tail (sum_lines ax_old) (sum_lines ax_new) 1 = 1"
  "middle (sum_lines ax_old) 1 1 = [''b'', ''c'']" "middle (sum_lines ax_new) 1 1 = [''x'', ''c'', ''e'']"
  by code_simp+

lemma ax_blocks: "fold_blocks (diff_ops [''b'', ''c''] [''x'', ''c'', ''e'']
    (lcs_table [''b'', ''c''] [''x'', ''c'', ''e'']) 0 0) \<lparr>vf_added = 0, vf_changed = 0, vf_removed = 0\<rparr> = ax_facts"
  by code_simp

lemma ax_compare: "compare_to_ancestor ax_old ax_new = Some ax_facts"
  unfolding compare_to_ancestor_def Let_def ax_trim ax_blocks max_diff_cells_def by simp


theorem unchanged_iff_same_lines_witness: "\<not> is_unchanged ax_facts \<and> sum_lines ax_old \<noteq> sum_lines ax_new"
  using unchanged_iff_same_lines[OF ax_compare] by (simp add: is_unchanged_def ax_facts_def)

theorem summary_round_trip_witness:
  "summary_decode (summary_encode \<lparr>sum_lines = map (line_digest (\<lambda>_. ''sha'')) [''a'', ''b'']\<rparr>)
    = \<lparr>sum_lines = map (line_digest (\<lambda>_. ''sha'')) [''a'', ''b'']\<rparr>"
proof (rule summary_round_trip)
  have "split_lines (''a'' @ ch_newline # ''b'') = [''a'', ''b'']"
    by (subst split_lines_LF) code_simp+
  then show "summary_of (\<lambda>_. ''sha'') (''a'' @ ch_newline # ''b'')
    = Some \<lparr>sum_lines = map (line_digest (\<lambda>_. ''sha'')) [''a'', ''b'']\<rparr>"
    by (simp add: summary_of_def max_summary_bytes_def max_summary_lines_def)
qed simp

theorem splitter_witness:
  "split_lines (concat (map (\<lambda>(l, crlf). l @ (if crlf then [ch_return, ch_newline] else [ch_newline]))
     [(''a'', True), ([], False), (''b'', False)])) = [''a'', [], ''b'']"
  by (subst splitter_normalises_line_endings) code_simp+

end
