(* ===== verification/Index_Store.thy ===== *)
theory Index_Store
  imports Reconstruct Ancestor
begin

text \<open>
  The index database (\<^verbatim>\<open>src/index.rs\<close>): its tables as maps from primary keys to columns, in the order
  of their row ids, and every statement the engine runs on them. A statement is taken to succeed;
  what can fail here is reading a row whose token this build does not know, which is \<open>None\<close>. A key of
  the baseline keeps its storage class, because a statement that binds a BLOB does not see a TEXT row.
  The schema migrations that rebuild a table are not modelled.
\<close>

section \<open>Tables\<close>

datatype sql_key = TextKey bytes | BlobKey bytes

fun key_bytes :: "sql_key \<Rightarrow> bytes" where
  "key_bytes (TextKey bs) = bs"
| "key_bytes (BlobKey bs) = bs"

record index_columns =
  ic_entity_kind :: bytes
  ic_file_size :: int
  ic_mtime :: int
  ic_sha1_hash :: "bytes option"
  ic_proton_id :: "bytes option"
  ic_sync_status :: bytes

record remote_root_row =
  rr_remote_root :: bytes
  rr_uid :: "bytes option"
  rr_learned_at :: "int option"

record database =
  db_file_index :: "(sql_key, index_columns) hmap"
  db_event_cursor :: "(bytes, bytes \<times> int) hmap"
  db_delete_approvals :: "(bytes \<times> bytes, bytes \<times> int) hmap"
  db_warm_start :: "int option"
  db_forced_approval :: "int option"
  db_remote_root :: "remote_root_row option"
  db_pair_pause :: "int option"
  db_unsyncable :: "(bytes, bytes \<times> bytes \<times> int) hmap"
  db_withheld :: "(bytes \<times> bytes, bytes \<times> int) hmap"
  db_summaries :: "(bytes, bytes \<times> bytes \<times> int) hmap"

text \<open>The signed column an unsigned value is stored in, saturating, and how it is read back.\<close>

definition saturate_i64 :: "u64 \<Rightarrow> int" where
  "saturate_i64 x = min (uint x) (2 ^ 63 - 1)"

definition clamp_u64 :: "int \<Rightarrow> u64" where
  "clamp_u64 v = of_int (max v 0)"

section \<open>The baseline\<close>

definition columns_of_record :: "file_record \<Rightarrow> index_columns" where
  "columns_of_record r =
    \<lparr>ic_entity_kind = entity_kind_as_str (fr_entity_kind r), ic_file_size = sint (fr_file_size r),
     ic_mtime = fr_mtime r, ic_sha1_hash = fr_sha1_hash r, ic_proton_id = fr_proton_id r,
     ic_sync_status = sync_status_as_str (fr_sync_status r)\<rparr>"

definition record_of_row :: "sql_key \<times> index_columns \<Rightarrow> file_record option" where
  "record_of_row row =
    (case row of (key, c) \<Rightarrow>
       (case entity_kind_from_str (ic_entity_kind c) of None \<Rightarrow> None
        | Some kind \<Rightarrow>
            (case sync_status_from_str (ic_sync_status c) of None \<Rightarrow> None
             | Some status \<Rightarrow>
                 Some \<lparr>fr_file_path = read_index_key (key_bytes key), fr_entity_kind = kind,
                       fr_file_size = of_int (ic_file_size c), fr_mtime = ic_mtime c,
                       fr_sha1_hash = ic_sha1_hash c, fr_proton_id = ic_proton_id c,
                       fr_sync_status = status\<rparr>)))"

definition upsert_record :: "database \<Rightarrow> file_record \<Rightarrow> database" where
  "upsert_record db r =
    db\<lparr>db_file_index := hm_insert (BlobKey (index_key (fr_file_path r))) (columns_of_record r) (db_file_index db)\<rparr>"

definition get_record :: "database \<Rightarrow> path \<Rightarrow> file_record option option" where
  "get_record db p =
    (case hm_get (db_file_index db) (BlobKey (index_key p)) of
       None \<Rightarrow> Some None
     | Some c \<Rightarrow> map_option Some (record_of_row (BlobKey (index_key p), c)))"

definition mark_modified :: "database \<Rightarrow> path \<Rightarrow> database" where
  "mark_modified db p =
    (let key = BlobKey (index_key p) in
     case hm_get (db_file_index db) key of
       None \<Rightarrow> db
     | Some c \<Rightarrow> db\<lparr>db_file_index := hm_insert key (c\<lparr>ic_sync_status := ''modified''\<rparr>) (db_file_index db)\<rparr>)"

definition purge_record :: "database \<Rightarrow> path \<Rightarrow> database" where
  "purge_record db p = db\<lparr>db_file_index := hm_remove (BlobKey (index_key p)) (db_file_index db)\<rparr>"

definition purge_subtree_records :: "database \<Rightarrow> path \<Rightarrow> database \<times> path list" where
  "purge_subtree_records db root =
    (let paths = filter (\<lambda>p. starts_with p root) (map (\<lambda>(key, _). read_index_key (key_bytes key)) (db_file_index db))
     in (foldl purge_record db paths, paths))"

definition load_index_step :: "base_map option \<Rightarrow> sql_key \<times> index_columns \<Rightarrow> base_map option" where
  "load_index_step acc row =
    (case acc of None \<Rightarrow> None
     | Some m \<Rightarrow>
         (case record_of_row row of None \<Rightarrow> None
          | Some r \<Rightarrow> Some (hm_insert (fr_file_path r) r m)))"

definition load_index :: "database \<Rightarrow> base_map option" where
  "load_index db = foldl load_index_step (Some []) (db_file_index db)"

definition path_for_proton_id :: "database \<Rightarrow> bytes \<Rightarrow> path option" where
  "path_for_proton_id db i =
    (let paths = take 2 (map (\<lambda>(key, _). read_index_key (key_bytes key))
           (filter (\<lambda>(_, c). ic_proton_id c = Some i) (db_file_index db)))
     in if length paths > 1 then None else if paths = [] then None else Some (last paths))"

text \<open>The TEXT keys of old builds: a lossy one is dropped, one that a BLOB row has superseded is dropped,
  and what is left becomes a BLOB.\<close>

definition replacement_char :: bytes where "replacement_char = [CHR 0xEF, CHR 0xBF, CHR 0xBD]"

definition contains_bytes :: "bytes \<Rightarrow> bytes \<Rightarrow> bool" where
  "contains_bytes pattern s = list_ex (\<lambda>n. prefix pattern (drop n s)) [0..<length s + 1]"

fun is_text_key :: "sql_key \<Rightarrow> bool" where
  "is_text_key (TextKey _) = True"
| "is_text_key (BlobKey _) = False"

definition normalize_legacy_text_keys :: "database \<Rightarrow> database" where
  "normalize_legacy_text_keys db =
    (let t1 = filter (\<lambda>(k, _). \<not> (is_text_key k \<and> contains_bytes replacement_char (key_bytes k))) (db_file_index db);
         blobs = map key_bytes (filter (\<lambda>k. \<not> is_text_key k) (map fst t1));
         t2 = filter (\<lambda>(k, _). \<not> (is_text_key k \<and> key_bytes k \<in> set blobs)) t1
     in db\<lparr>db_file_index := map (\<lambda>(k, c). (BlobKey (key_bytes k), c)) t2\<rparr>)"

section \<open>Cursors and counters\<close>

record event_cursor =
  ec_scope_id :: bytes
  ec_last_event_id :: bytes
  ec_updated_at :: int

definition load_event_cursor :: "database \<Rightarrow> bytes \<Rightarrow> event_cursor option" where
  "load_event_cursor db scope =
    map_option (\<lambda>(last_id, updated). \<lparr>ec_scope_id = scope, ec_last_event_id = last_id, ec_updated_at = updated\<rparr>)
      (hm_get (db_event_cursor db) scope)"

definition load_sole_event_cursor :: "database \<Rightarrow> event_cursor option" where
  "load_sole_event_cursor db =
    (let cursors = take 2 (filter (\<lambda>(scope, _). scope \<noteq> ''core'') (db_event_cursor db)) in
     if length cursors \<noteq> 1 then None
     else (case last cursors of (scope, last_id, updated) \<Rightarrow>
       Some \<lparr>ec_scope_id = scope, ec_last_event_id = last_id, ec_updated_at = updated\<rparr>))"

definition store_event_cursor :: "database \<Rightarrow> bytes \<Rightarrow> bytes \<Rightarrow> int \<Rightarrow> database" where
  "store_event_cursor db scope last_id updated =
    db\<lparr>db_event_cursor := hm_insert scope (last_id, updated) (db_event_cursor db)\<rparr>"

definition clear_event_cursor :: "database \<Rightarrow> bytes \<Rightarrow> database" where
  "clear_event_cursor db scope = db\<lparr>db_event_cursor := hm_remove scope (db_event_cursor db)\<rparr>"

definition load_warm_start_count :: "database \<Rightarrow> u64" where
  "load_warm_start_count db = clamp_u64 (case db_warm_start db of None \<Rightarrow> 0 | Some n \<Rightarrow> n)"

definition store_warm_start_count :: "database \<Rightarrow> u64 \<Rightarrow> database" where
  "store_warm_start_count db n = db\<lparr>db_warm_start := Some (saturate_i64 n)\<rparr>"

definition load_forced_delete_approval :: "database \<Rightarrow> bool" where
  "load_forced_delete_approval db = ((case db_forced_approval db of None \<Rightarrow> 0 | Some n \<Rightarrow> n) \<noteq> 0)"

definition store_forced_delete_approval :: "database \<Rightarrow> bool \<Rightarrow> database" where
  "store_forced_delete_approval db active = db\<lparr>db_forced_approval := Some (if active then 1 else 0)\<rparr>"

definition load_pair_paused :: "database \<Rightarrow> bool" where
  "load_pair_paused db = ((case db_pair_pause db of None \<Rightarrow> 0 | Some n \<Rightarrow> n) \<noteq> 0)"

definition store_pair_paused :: "database \<Rightarrow> bool \<Rightarrow> database" where
  "store_pair_paused db paused = db\<lparr>db_pair_pause := Some (if paused then 1 else 0)\<rparr>"

section \<open>The folder the baseline describes\<close>

definition load_remote_root_uid :: "database \<Rightarrow> path \<Rightarrow> bytes option" where
  "load_remote_root_uid db key =
    (case db_remote_root db of
       Some row \<Rightarrow> if rr_remote_root row = index_key key then rr_uid row else None
     | None \<Rightarrow> None)"

definition store_remote_root_uid :: "database \<Rightarrow> path \<Rightarrow> bytes \<Rightarrow> int \<Rightarrow> database \<times> bool" where
  "store_remote_root_uid db key uid learned_at =
    (case db_remote_root db of
       Some row \<Rightarrow>
         if rr_remote_root row = index_key key
         then (db\<lparr>db_remote_root := Some (row\<lparr>rr_uid := Some uid, rr_learned_at := Some learned_at\<rparr>)\<rparr>, True)
         else (db, False)
     | None \<Rightarrow> (db, False))"

definition clear_remote_root_uid :: "database \<Rightarrow> database" where
  "clear_remote_root_uid db =
    db\<lparr>db_remote_root := map_option (\<lambda>row. row\<lparr>rr_uid := None, rr_learned_at := None\<rparr>) (db_remote_root db)\<rparr>"

definition load_recorded_remote_root :: "database \<Rightarrow> path option" where
  "load_recorded_remote_root db =
    (if db_file_index db = [] then None
     else map_option (\<lambda>row. read_index_key (rr_remote_root row)) (db_remote_root db))"

definition remote_root_outlived_its_baseline :: "database \<Rightarrow> path \<Rightarrow> bool" where
  "remote_root_outlived_its_baseline db key \<longleftrightarrow>
    is_some_and (\<lambda>row. rr_remote_root row \<noteq> index_key key) (db_remote_root db) \<and> db_file_index db = []"

definition record_remote_root_of_baseline :: "database \<Rightarrow> path \<Rightarrow> database \<times> bool" where
  "record_remote_root_of_baseline db key =
    (if db_file_index db \<noteq> [] \<and> db_remote_root db = None
     then (db\<lparr>db_remote_root := Some \<lparr>rr_remote_root = index_key key, rr_uid = None, rr_learned_at = None\<rparr>\<rparr>, True)
     else (db, False))"

section \<open>Approvals and withheld deletions\<close>

definition upsert_delete_approval :: "database \<Rightarrow> path \<Rightarrow> delete_direction \<Rightarrow> bytes \<Rightarrow> int \<Rightarrow> database" where
  "upsert_delete_approval db p d fingerprint approved_at =
    db\<lparr>db_delete_approvals :=
      hm_insert (index_key p, delete_direction_as_str d) (fingerprint, approved_at) (db_delete_approvals db)\<rparr>"

definition matching_delete_approval :: "database \<Rightarrow> path \<Rightarrow> delete_direction \<Rightarrow> bytes \<Rightarrow> bool" where
  "matching_delete_approval db p d fingerprint =
    is_some_and (\<lambda>(stored, _). stored = fingerprint)
      (hm_get (db_delete_approvals db) (index_key p, delete_direction_as_str d))"

definition delete_delete_approval :: "database \<Rightarrow> path \<Rightarrow> delete_direction \<Rightarrow> database" where
  "delete_delete_approval db p d =
    db\<lparr>db_delete_approvals := hm_remove (index_key p, delete_direction_as_str d) (db_delete_approvals db)\<rparr>"

record withheld_deletion =
  wd_path :: path
  wd_direction :: delete_direction
  wd_fingerprint :: bytes
  wd_first_seen :: u64

fun load_withheld_rows :: "((bytes \<times> bytes) \<times> bytes \<times> int) list \<Rightarrow> withheld_deletion list option" where
  "load_withheld_rows [] = Some []"
| "load_withheld_rows (((key, direction), fingerprint, first_seen) # rows) =
    (case delete_direction_from_str direction of None \<Rightarrow> None
     | Some d \<Rightarrow>
         map_option (\<lambda>items. \<lparr>wd_path = read_index_key key, wd_direction = d, wd_fingerprint = fingerprint,
             wd_first_seen = clamp_u64 first_seen\<rparr> # items) (load_withheld_rows rows))"

definition load_withheld_deletions :: "database \<Rightarrow> withheld_deletion list option" where
  "load_withheld_deletions db = load_withheld_rows (db_withheld db)"

text \<open>The wholesale replacement is one transaction: two items under one key fail it, and then nothing
  changes.\<close>

definition withheld_row :: "withheld_deletion \<Rightarrow> (bytes \<times> bytes) \<times> bytes \<times> int" where
  "withheld_row w =
    ((index_key (wd_path w), delete_direction_as_str (wd_direction w)),
     wd_fingerprint w, saturate_i64 (wd_first_seen w))"

definition replace_withheld_deletions :: "database \<Rightarrow> withheld_deletion list \<Rightarrow> database option" where
  "replace_withheld_deletions db items =
    (let rows = map withheld_row items in
     if distinct (map fst rows) then Some (db\<lparr>db_withheld := rows\<rparr>) else None)"

section \<open>Summaries\<close>

definition max_agreed_summaries :: nat where "max_agreed_summaries = 20000"

definition store_agreed_summary :: "database \<Rightarrow> path \<Rightarrow> bytes \<Rightarrow> line_summary \<Rightarrow> u64 \<Rightarrow> database" where
  "store_agreed_summary db p agreed_digest summary recorded_at =
    db\<lparr>db_summaries := hm_remove (index_key p) (db_summaries db) @
         [(index_key p, agreed_digest, summary_encode summary, saturate_i64 recorded_at)]\<rparr>"

definition load_agreed_summary :: "database \<Rightarrow> path \<Rightarrow> bytes \<Rightarrow> line_summary option" where
  "load_agreed_summary db p agreed_digest =
    (case hm_get (db_summaries db) (index_key p) of
       Some (digest, stored, _) \<Rightarrow> if digest = agreed_digest then Some (summary_decode stored) else None
     | None \<Rightarrow> None)"

definition newest_agreed_summary :: "database \<Rightarrow> path \<Rightarrow> line_summary option" where
  "newest_agreed_summary db p =
    map_option (\<lambda>(_, stored, _). summary_decode stored) (hm_get (db_summaries db) (index_key p))"

definition prune_agreed_summaries :: "database \<Rightarrow> database" where
  "prune_agreed_summaries db =
    (let kept = take max_agreed_summaries (rev (sort_key (\<lambda>(_, _, _, recorded). recorded) (db_summaries db)))
     in db\<lparr>db_summaries := filter (\<lambda>(k, _). k \<in> fst ` set kept) (db_summaries db)\<rparr>)"

section \<open>Starting over\<close>

definition reset_index_state :: "database \<Rightarrow> database" where
  "reset_index_state db =
    db\<lparr>db_file_index := [], db_event_cursor := [], db_warm_start := None, db_forced_approval := None,
       db_remote_root := None, db_delete_approvals := [], db_unsyncable := [], db_summaries := []\<rparr>"

section \<open>The store as a map\<close>

text \<open>
  What the engine relies on from a store of records: a lookup answers what was last put at a path, and
  nothing once the path is purged. Paths are the relative paths of plain names.
\<close>

locale record_store =
  fixes sound :: "'db \<Rightarrow> bool"
    and look :: "'db \<Rightarrow> path \<Rightarrow> file_record option"
    and put :: "'db \<Rightarrow> file_record \<Rightarrow> 'db"
    and purge :: "'db \<Rightarrow> path \<Rightarrow> 'db"
  assumes look_put: "sound db \<Longrightarrow> plain_path (fr_file_path r) \<Longrightarrow> plain_path q \<Longrightarrow>
      look (put db r) q = (if q = fr_file_path r then Some r else look db q)"
    and look_purge: "sound db \<Longrightarrow> plain_path p \<Longrightarrow> plain_path q \<Longrightarrow>
      look (purge db p) q = (if q = p then None else look db q)"
    and sound_put: "sound db \<Longrightarrow> plain_path (fr_file_path r) \<Longrightarrow> sound (put db r)"
    and sound_purge: "sound db \<Longrightarrow> plain_path p \<Longrightarrow> sound (purge db p)"
begin

lemma purge_all:
  assumes "sound db" "list_all plain_path ps"
  shows "sound (foldl purge db ps)"
    and "plain_path q \<Longrightarrow> look (foldl purge db ps) q = (if q \<in> set ps then None else look db q)"
proof -
  have "sound (foldl purge db ps) \<and>
      (plain_path q \<longrightarrow> look (foldl purge db ps) q = (if q \<in> set ps then None else look db q))"
    using assms
  proof (induction ps arbitrary: db)
    case (Cons p ps)
    then show ?case using sound_purge[of db p] look_purge[of db p q] by auto
  qed simp
  then show "sound (foldl purge db ps)"
    and "plain_path q \<Longrightarrow> look (foldl purge db ps) q = (if q \<in> set ps then None else look db q)"
    by blast+
qed

end

text \<open>The rows this build writes, and the lookup they give.\<close>

definition index_sound :: "database \<Rightarrow> bool" where
  "index_sound db \<longleftrightarrow> hm_wf (db_file_index db) \<and>
    (\<forall>(k, c)\<in>set (db_file_index db). \<exists>r. plain_path (fr_file_path r) \<and>
      k = BlobKey (index_key (fr_file_path r)) \<and> c = columns_of_record r)"

definition index_look :: "database \<Rightarrow> path \<Rightarrow> file_record option" where
  "index_look db p = (case get_record db p of Some r \<Rightarrow> r | None \<Rightarrow> None)"

lemma of_int_sint_u64: "of_int (sint (w :: u64)) = w"
  by simp

lemma record_of_written_row:
  "plain_path (fr_file_path r) \<Longrightarrow> record_of_row (BlobKey (index_key (fr_file_path r)), columns_of_record r) = Some r"
  by (simp add: record_of_row_def columns_of_record_def kind_token.from_token_as_str
      status_token.from_token_as_str read_index_key_plain of_int_sint_u64)

lemma index_sound_entry:
  assumes "index_sound db" "(k, c) \<in> set (db_file_index db)"
  obtains r where "plain_path (fr_file_path r)" "k = BlobKey (index_key (fr_file_path r))" "c = columns_of_record r"
    "record_of_row (k, c) = Some r"
proof -
  from assms have "\<exists>r. plain_path (fr_file_path r) \<and> k = BlobKey (index_key (fr_file_path r)) \<and> c = columns_of_record r"
    unfolding index_sound_def by (auto dest!: bspec)
  then obtain r where "plain_path (fr_file_path r)" "k = BlobKey (index_key (fr_file_path r))" "c = columns_of_record r"
    by blast
  moreover from this have "record_of_row (k, c) = Some r" by (simp only: record_of_written_row)
  ultimately show thesis by (rule that)
qed

lemma index_sound_row:
  "index_sound db \<Longrightarrow> (k, c) \<in> set (db_file_index db) \<Longrightarrow>
   \<exists>r. plain_path (fr_file_path r) \<and> k = BlobKey (index_key (fr_file_path r)) \<and> c = columns_of_record r"
  by (erule index_sound_entry) auto

lemma get_record_sound:
  assumes "index_sound db" "plain_path p"
  shows "get_record db p = Some (index_look db p)"
    and "index_look db p = Some r \<longleftrightarrow> fr_file_path r = p \<and>
      (BlobKey (index_key p), columns_of_record r) \<in> set (db_file_index db)"
proof -
  have wf: "hm_wf (db_file_index db)" using assms(1) by (simp add: index_sound_def)
  have "get_record db p \<noteq> None \<and> (\<forall>r. get_record db p = Some (Some r) \<longleftrightarrow> fr_file_path r = p \<and>
      (BlobKey (index_key p), columns_of_record r) \<in> set (db_file_index db))"
  proof (cases "hm_get (db_file_index db) (BlobKey (index_key p))")
    case None
    then show ?thesis by (simp add: get_record_def hm_in_iff[OF wf])
  next
    case (Some c)
    then have mem: "(BlobKey (index_key p), c) \<in> set (db_file_index db)" by (rule hm_get_in)
    from index_sound_entry[OF assms(1) mem] obtain r where
      r: "plain_path (fr_file_path r)" "index_key p = index_key (fr_file_path r)" "c = columns_of_record r"
      "record_of_row (BlobKey (index_key p), c) = Some r" by auto
    then have path: "fr_file_path r = p" using index_key_inj[OF assms(2)] by metis
    have val: "get_record db p = Some (Some r)" using r(4) Some by (simp add: get_record_def)
    have uniq: "r' = r" if "columns_of_record r' = columns_of_record r" "fr_file_path r' = p" for r'
      using record_of_written_row[of r] record_of_written_row[of r'] path assms(2) that by simp
    show ?thesis
    proof (intro conjI allI)
      show "get_record db p \<noteq> None" by (simp add: val)
      fix r'
      show "get_record db p = Some (Some r') \<longleftrightarrow> fr_file_path r' = p \<and>
          (BlobKey (index_key p), columns_of_record r') \<in> set (db_file_index db)"
      proof
        assume "get_record db p = Some (Some r')"
        then have "r' = r" using val by simp
        with path r(3) mem show "fr_file_path r' = p \<and>
            (BlobKey (index_key p), columns_of_record r') \<in> set (db_file_index db)" by simp
      next
        assume r': "fr_file_path r' = p \<and>
            (BlobKey (index_key p), columns_of_record r') \<in> set (db_file_index db)"
        then have "columns_of_record r' = c" using Some by (simp add: hm_in_iff[OF wf])
        with r' r(3) uniq[of r'] val show "get_record db p = Some (Some r')" by simp
      qed
    qed
  qed
  then show "get_record db p = Some (index_look db p)"
    and "index_look db p = Some r \<longleftrightarrow> fr_file_path r = p \<and>
      (BlobKey (index_key p), columns_of_record r) \<in> set (db_file_index db)"
    by (auto simp: index_look_def split: option.splits)
qed

lemma index_sound_upsert:
  assumes "index_sound db" "plain_path (fr_file_path r)"
  shows "index_sound (upsert_record db r)"
proof -
  have "set (hm_insert k v m) \<subseteq> insert (k, v) (set m)" for k v and m :: "(sql_key, index_columns) hmap"
    unfolding hm_insert_def by (induction m) auto
  with assms show ?thesis
    by (fastforce simp: index_sound_def upsert_record_def intro: hm.wf_insert)
qed

lemma index_sound_purge: "index_sound db \<Longrightarrow> index_sound (purge_record db p)"
  by (auto simp: index_sound_def purge_record_def hm_remove_filter hm_wf_def distinct_map_filter)

interpretation index: record_store index_sound index_look upsert_record purge_record
proof
  fix db r q p
  assume db: "index_sound db"
  show "plain_path (fr_file_path r) \<Longrightarrow> plain_path q \<Longrightarrow>
      index_look (upsert_record db r) q = (if q = fr_file_path r then Some r else index_look db q)"
    using index_key_inj[of q "fr_file_path r"] record_of_written_row[of r]
    by (auto simp: index_look_def get_record_def upsert_record_def hm.get_insert)
  show "plain_path p \<Longrightarrow> plain_path q \<Longrightarrow>
      index_look (purge_record db p) q = (if q = p then None else index_look db q)"
    using index_key_inj[of q p]
    by (auto simp: index_look_def get_record_def purge_record_def hm.get_remove)
  show "plain_path (fr_file_path r) \<Longrightarrow> index_sound (upsert_record db r)" using db by (rule index_sound_upsert)
  show "plain_path p \<Longrightarrow> index_sound (purge_record db p)" using db by (rule index_sound_purge)
qed

text \<open>The index mutations a pass accumulates (\<^verbatim>\<open>IndexMutation\<close> of \<^verbatim>\<open>src/daemon.rs\<close>), applied in order.\<close>

datatype index_mutation = UpsertRow file_record | PurgeRow path

fun apply_mutation :: "database \<Rightarrow> index_mutation \<Rightarrow> database" where
  "apply_mutation db (UpsertRow r) = upsert_record db r"
| "apply_mutation db (PurgeRow p) = purge_record db p"

fun mutation_path :: "index_mutation \<Rightarrow> path" where
  "mutation_path (UpsertRow r) = fr_file_path r"
| "mutation_path (PurgeRow p) = p"

fun mutation_result :: "index_mutation \<Rightarrow> file_record option" where
  "mutation_result (UpsertRow r) = Some r"
| "mutation_result (PurgeRow p) = None"

lemma apply_mutation_look:
  assumes "index_sound db" "plain_path (mutation_path m)"
  shows "index_sound (apply_mutation db m)"
    and "plain_path q \<Longrightarrow> index_look (apply_mutation db m) q =
      (if q = mutation_path m then mutation_result m else index_look db q)"
  using assms by (cases m; simp add: index.sound_put index.sound_purge index.look_put index.look_purge)+

lemma apply_mutations_look:
  assumes "index_sound db" "list_all (\<lambda>m. plain_path (mutation_path m)) ms" "plain_path q"
  shows "index_sound (foldl apply_mutation db ms) \<and>
    index_look (foldl apply_mutation db ms) q =
      (case find (\<lambda>m. mutation_path m = q) (rev ms) of Some m \<Rightarrow> mutation_result m | None \<Rightarrow> index_look db q)"
  using assms(2)
proof (induction ms rule: rev_induct)
  case Nil
  then show ?case using assms(1) by simp
next
  case (snoc m ms)
  then have IH: "index_sound (foldl apply_mutation db ms)" and m: "plain_path (mutation_path m)" by auto
  show ?case
    using snoc apply_mutation_look(1)[OF IH m] apply_mutation_look(2)[OF IH m assms(3)] by auto
qed

text \<open>What lies beneath a folder, as the subtree purge reads it.\<close>

lemma stored_paths:
  assumes "index_sound db"
  shows "set (map (\<lambda>(key, _). read_index_key (key_bytes key)) (db_file_index db)) = {p. plain_path p \<and> index_look db p \<noteq> None}"
proof (intro set_eqI iffI)
  fix p
  assume "p \<in> set (map (\<lambda>(key, _). read_index_key (key_bytes key)) (db_file_index db))"
  then obtain k c where kc: "(k, c) \<in> set (db_file_index db)" "p = read_index_key (key_bytes k)" by auto
  from index_sound_entry[OF assms kc(1)] obtain r where
    r: "plain_path (fr_file_path r)" "k = BlobKey (index_key (fr_file_path r))" "c = columns_of_record r" by metis
  with kc(2) have "p = fr_file_path r" by (simp add: read_index_key_plain)
  with r kc(1) show "p \<in> {p. plain_path p \<and> index_look db p \<noteq> None}"
    using get_record_sound(2)[OF assms, of p r] by auto
next
  fix p
  assume "p \<in> {p. plain_path p \<and> index_look db p \<noteq> None}"
  then obtain r where r: "plain_path p" "index_look db p = Some r" by auto
  then have "(BlobKey (index_key p), columns_of_record r) \<in> set (db_file_index db)"
    using get_record_sound(2)[OF assms] by blast
  with r(1) show "p \<in> set (map (\<lambda>(key, _). read_index_key (key_bytes key)) (db_file_index db))"
    by (force simp: read_index_key_plain)
qed

lemma purge_subtree_look:
  assumes "index_sound db"
  shows "index_sound (fst (purge_subtree_records db root))"
    and "plain_path q \<Longrightarrow> index_look (fst (purge_subtree_records db root)) q =
      (if starts_with q root then None else index_look db q)"
    and "set (snd (purge_subtree_records db root)) = {p. plain_path p \<and> index_look db p \<noteq> None \<and> starts_with p root}"
proof -
  define ps where "ps = filter (\<lambda>p. starts_with p root)
      (map (\<lambda>(key, _). read_index_key (key_bytes key)) (db_file_index db))"
  have set: "set ps = {p. plain_path p \<and> index_look db p \<noteq> None \<and> starts_with p root}"
    using stored_paths[OF assms] by (auto simp: ps_def)
  then have plain: "list_all plain_path ps" by (auto simp: list_all_iff)
  have res: "purge_subtree_records db root = (foldl purge_record db ps, ps)"
    by (simp add: purge_subtree_records_def Let_def ps_def)
  show "index_sound (fst (purge_subtree_records db root))"
    unfolding res using index.purge_all(1)[OF assms plain] by simp
  show "plain_path q \<Longrightarrow> index_look (fst (purge_subtree_records db root)) q =
      (if starts_with q root then None else index_look db q)"
    unfolding res using index.purge_all(2)[OF assms plain, of q] set by auto
  show "set (snd (purge_subtree_records db root)) = {p. plain_path p \<and> index_look db p \<noteq> None \<and> starts_with p root}"
    unfolding res using set by simp
qed

text \<open>Loading reads every row.\<close>

lemma load_index_rows:
  assumes "\<forall>row\<in>set rows. record_of_row row \<noteq> None"
  shows "foldl load_index_step (Some m) rows =
    Some (foldl (\<lambda>m r. hm_insert (fr_file_path r) r m) m (map (\<lambda>row. the (record_of_row row)) rows))"
  using assms by (induction rows arbitrary: m) (auto simp: load_index_step_def)

lemma foldl_insert_records:
  assumes "distinct (map fr_file_path rs)" "hm_wf m"
  shows "hm_wf (foldl (\<lambda>m r. hm_insert (fr_file_path r) r m) m rs)"
    and "hm_get (foldl (\<lambda>m r. hm_insert (fr_file_path r) r m) m rs) p =
      (case find (\<lambda>r. fr_file_path r = p) rs of Some r \<Rightarrow> Some r | None \<Rightarrow> hm_get m p)"
proof -
  have "hm_wf (foldl (\<lambda>m r. hm_insert (fr_file_path r) r m) m rs) \<and>
    hm_get (foldl (\<lambda>m r. hm_insert (fr_file_path r) r m) m rs) p =
      (case find (\<lambda>r. fr_file_path r = p) rs of Some r \<Rightarrow> Some r | None \<Rightarrow> hm_get m p)"
    using assms
  proof (induction rs arbitrary: m)
    case (Cons r rs)
    have "find (\<lambda>s. fr_file_path s = fr_file_path r) rs = None"
      using Cons.prems(1) by (auto simp: find_None_iff rev_image_eqI)
    with Cons show ?case by (auto simp: hm.wf_insert hm.get_insert split: option.split)
  qed simp
  then show "hm_wf (foldl (\<lambda>m r. hm_insert (fr_file_path r) r m) m rs)"
    and "hm_get (foldl (\<lambda>m r. hm_insert (fr_file_path r) r m) m rs) p =
      (case find (\<lambda>r. fr_file_path r = p) rs of Some r \<Rightarrow> Some r | None \<Rightarrow> hm_get m p)"
    by blast+
qed

lemma load_index_sound:
  assumes "index_sound db"
  shows "\<exists>B. load_index db = Some B \<and> hm_wf B \<and> (\<forall>p. hm_get B p = (if plain_path p then index_look db p else None))"
proof -
  let ?rows = "db_file_index db"
  define rs where "rs = map (\<lambda>row. the (record_of_row row)) ?rows"
  have row: "\<exists>r. plain_path (fr_file_path r) \<and> row = (BlobKey (index_key (fr_file_path r)), columns_of_record r) \<and>
      record_of_row row = Some r" if "row \<in> set ?rows" for row
    using index_sound_entry[OF assms, of "fst row" "snd row"] that by (metis prod.collapse)
  have mem: "r \<in> set rs \<longleftrightarrow> plain_path (fr_file_path r) \<and>
      (BlobKey (index_key (fr_file_path r)), columns_of_record r) \<in> set ?rows" for r
    unfolding rs_def using row record_of_written_row by (force simp: image_iff)
  have "distinct (map fst ?rows)" using assms by (simp add: index_sound_def hm_wf_def)
  moreover have "map fst ?rows = map (\<lambda>r. BlobKey (index_key (fr_file_path r))) rs"
    unfolding rs_def using row by (force simp: comp_def)
  ultimately have "distinct (map (\<lambda>r. BlobKey (index_key (fr_file_path r))) rs)" by simp
  then have d: "distinct (map fr_file_path rs)"
    by (metis (no_types, lifting) distinct_map inj_on_def)
  have load: "load_index db = Some (foldl (\<lambda>m r. hm_insert (fr_file_path r) r m) [] rs)"
    unfolding load_index_def rs_def using row by (intro load_index_rows) fastforce
  have "hm_get (foldl (\<lambda>m r. hm_insert (fr_file_path r) r m) [] rs) p =
      (if plain_path p then index_look db p else None)" for p
  proof (cases "find (\<lambda>r. fr_file_path r = p) rs")
    case None
    have "index_look db p = None" if "plain_path p"
    proof (cases "index_look db p")
      case (Some r)
      then have "fr_file_path r = p" "r \<in> set rs"
        using get_record_sound(2)[OF assms that, of r] mem[of r] that by auto
      with None show ?thesis by (simp add: find_None_iff)
    qed
    then show ?thesis using foldl_insert_records(2)[OF d hm_wf_Nil, of p] None by auto
  next
    case (Some r)
    then have "r \<in> set rs" "fr_file_path r = p" by (auto simp: find_Some_iff)
    then have "plain_path p" "index_look db p = Some r"
      using get_record_sound(2)[OF assms, of p r] mem by auto
    then show ?thesis using foldl_insert_records(2)[OF d hm_wf_Nil, of p] Some by auto
  qed
  then show ?thesis using load foldl_insert_records(1)[OF d hm_wf_Nil] by blast
qed

section \<open>Looking up a node id\<close>

lemma stored_paths_distinct:
  assumes "index_sound db"
  shows "distinct (map (\<lambda>(key, _). read_index_key (key_bytes key)) (db_file_index db))"
proof -
  have d: "distinct (map fst (db_file_index db))" using assms by (simp add: index_sound_def hm_wf_def)
  have key: "fst row = BlobKey (index_key (read_index_key (key_bytes (fst row))))" if "row \<in> set (db_file_index db)" for row
  proof -
    from that have "(fst row, snd row) \<in> set (db_file_index db)" by simp
    from index_sound_row[OF assms this] obtain r :: file_record where
      "plain_path (fr_file_path r)" "fst row = BlobKey (index_key (fr_file_path r))" by blast
    then show ?thesis by (simp add: read_index_key_plain)
  qed
  have "inj_on (\<lambda>(key, _). read_index_key (key_bytes key)) (set (db_file_index db))"
  proof (rule inj_onI)
    fix x y
    assume xy: "x \<in> set (db_file_index db)" "y \<in> set (db_file_index db)"
      "(\<lambda>(key, _). read_index_key (key_bytes key)) x = (\<lambda>(key, _). read_index_key (key_bytes key)) y"
    then have "fst x = fst y" using key[OF xy(1)] key[OF xy(2)] by (simp add: case_prod_beta)
    with xy(1,2) d show "x = y" by (meson distinct_map inj_on_eq_iff)
  qed
  with d show ?thesis by (simp add: distinct_map)
qed

lemma paths_with_id:
  assumes "index_sound db"
  shows "set (map (\<lambda>(key, _). read_index_key (key_bytes key)) (filter (\<lambda>(_, c). ic_proton_id c = Some i) (db_file_index db)))
    = {p. plain_path p \<and> is_some_and (\<lambda>r. fr_proton_id r = Some i) (index_look db p)}" (is "?L = ?R")
proof (intro set_eqI iffI)
  fix p
  assume "p \<in> ?L"
  then obtain k c where kc: "(k, c) \<in> set (db_file_index db)" "ic_proton_id c = Some i" "p = read_index_key (key_bytes k)"
    by auto
  from index_sound_entry[OF assms kc(1)] obtain r where
    r: "plain_path (fr_file_path r)" "k = BlobKey (index_key (fr_file_path r))" "c = columns_of_record r" by metis
  with kc have "p = fr_file_path r" "fr_proton_id r = Some i"
    by (simp_all add: read_index_key_plain columns_of_record_def)
  with r kc(1) show "p \<in> ?R" using get_record_sound(2)[OF assms, of p r] by auto
next
  fix p
  assume "p \<in> ?R"
  then obtain r where r: "plain_path p" "index_look db p = Some r" "fr_proton_id r = Some i"
    by (auto simp: is_some_and_def split: option.splits)
  then have "(BlobKey (index_key p), columns_of_record r) \<in> set (db_file_index db)"
    using get_record_sound(2)[OF assms] by blast
  with r(1,3) show "p \<in> ?L" by (force simp: read_index_key_plain columns_of_record_def)
qed

lemma path_for_proton_id_iff:
  assumes "index_sound db"
  shows "path_for_proton_id db i = Some p \<longleftrightarrow>
    {q. plain_path q \<and> is_some_and (\<lambda>r. fr_proton_id r = Some i) (index_look db q)} = {p}"
proof -
  define ps where "ps = map (\<lambda>(key, _). read_index_key (key_bytes key))
      (filter (\<lambda>(_, c). ic_proton_id c = Some i) (db_file_index db))"
  have d: "distinct ps"
    using distinct_map_filter[OF stored_paths_distinct[OF assms]] unfolding ps_def by simp
  have "path_for_proton_id db i = Some p \<longleftrightarrow> ps = [p]"
    unfolding path_for_proton_id_def Let_def ps_def[symmetric]
    by (cases ps rule: sole.cases) auto
  also have "\<dots> \<longleftrightarrow> set ps = {p}"
  proof
    assume "set ps = {p}"
    with d show "ps = [p]" by (cases ps rule: sole.cases) auto
  qed simp
  finally show ?thesis using paths_with_id[OF assms, of i] unfolding ps_def by simp
qed

section \<open>Legacy keys\<close>

lemma normalize_rows:
  assumes "hm_wf (db_file_index db)"
  defines "t \<equiv> db_file_index (normalize_legacy_text_keys db)"
  shows "hm_wf t" and "(k, c) \<in> set t \<longleftrightarrow> (\<exists>bs. k = BlobKey bs \<and> ((BlobKey bs, c) \<in> set (db_file_index db) \<or>
      ((TextKey bs, c) \<in> set (db_file_index db) \<and> \<not> contains_bytes replacement_char bs \<and>
       hm_get (db_file_index db) (BlobKey bs) = None)))"
proof -
  define t1 where "t1 = filter (\<lambda>(k, _). \<not> (is_text_key k \<and> contains_bytes replacement_char (key_bytes k))) (db_file_index db)"
  define t2 where "t2 = filter (\<lambda>(k, _). \<not> (is_text_key k \<and> key_bytes k \<in> set (map key_bytes
      (filter (\<lambda>k. \<not> is_text_key k) (map fst t1))))) t1"
  have t: "t = map (\<lambda>(k, c). (BlobKey (key_bytes k), c)) t2"
    by (simp add: t_def normalize_legacy_text_keys_def Let_def t1_def t2_def)
  have blobs: "bs \<in> set (map key_bytes (filter (\<lambda>k. \<not> is_text_key k) (map fst t1))) \<longleftrightarrow>
      hm_get (db_file_index db) (BlobKey bs) \<noteq> None" for bs
  proof -
    have "bs \<in> set (map key_bytes (filter (\<lambda>k. \<not> is_text_key k) (map fst t1))) \<longleftrightarrow>
        BlobKey bs \<in> fst ` set (db_file_index db)"
    proof
      assume "bs \<in> set (map key_bytes (filter (\<lambda>k. \<not> is_text_key k) (map fst t1)))"
      then obtain k where "k \<in> fst ` set t1" "\<not> is_text_key k" "bs = key_bytes k" by auto
      then show "BlobKey bs \<in> fst ` set (db_file_index db)" by (cases k) (auto simp: t1_def)
    qed (force simp: t1_def)
    then show ?thesis by (simp add: map_of_eq_None_iff)
  qed
  have row: "(k, c) \<in> set t2 \<longleftrightarrow> (k, c) \<in> set (db_file_index db) \<and>
      (is_text_key k \<longrightarrow> \<not> contains_bytes replacement_char (key_bytes k) \<and>
        hm_get (db_file_index db) (BlobKey (key_bytes k)) = None)" for k c
    using blobs[of "key_bytes k"] unfolding t2_def by (auto simp: t1_def)
  have blob_row: "(BlobKey bs, c) \<in> set t2 \<longleftrightarrow> (BlobKey bs, c) \<in> set (db_file_index db)"
    and text_row: "(TextKey bs, c) \<in> set t2 \<longleftrightarrow> (TextKey bs, c) \<in> set (db_file_index db) \<and>
      \<not> contains_bytes replacement_char bs \<and> hm_get (db_file_index db) (BlobKey bs) = None" for bs c
    by (simp_all add: row)
  have "(k, c) \<in> set t \<longleftrightarrow> (\<exists>bs. k = BlobKey bs \<and> ((BlobKey bs, c) \<in> set t2 \<or> (TextKey bs, c) \<in> set t2))"
  proof
    assume "(k, c) \<in> set t"
    then obtain k' where "(k', c) \<in> set t2" "k = BlobKey (key_bytes k')" unfolding t by auto
    then show "\<exists>bs. k = BlobKey bs \<and> ((BlobKey bs, c) \<in> set t2 \<or> (TextKey bs, c) \<in> set t2)" by (cases k') auto
  qed (force simp: t)
  then show "(k, c) \<in> set t \<longleftrightarrow> (\<exists>bs. k = BlobKey bs \<and> ((BlobKey bs, c) \<in> set (db_file_index db) \<or>
      ((TextKey bs, c) \<in> set (db_file_index db) \<and> \<not> contains_bytes replacement_char bs \<and>
       hm_get (db_file_index db) (BlobKey bs) = None)))" by (simp only: blob_row text_row)
  have "distinct (map fst t2)" using assms(1) by (simp add: hm_wf_def t2_def t1_def distinct_map_filter)
  moreover have "inj_on (\<lambda>k. BlobKey (key_bytes k)) (set (map fst t2))"
  proof -
    define K where "K = set (map fst t2)"
    have one: "TextKey bs \<notin> K" if "BlobKey bs \<in> K" for bs
    proof
      assume "TextKey bs \<in> K"
      then obtain c where "(TextKey bs, c) \<in> set t2" by (auto simp: K_def)
      then have "hm_get (db_file_index db) (BlobKey bs) = None" using text_row by blast
      moreover from that obtain c' where "(BlobKey bs, c') \<in> set t2" by (auto simp: K_def)
      ultimately show False using blob_row by (auto simp: hm_in_iff[OF assms(1)])
    qed
    have "x = y" if "x \<in> K" "y \<in> K" "key_bytes x = key_bytes y" for x y
      using that one by (cases x; cases y) auto
    then show ?thesis by (auto simp: inj_on_def K_def[symmetric] simp del: set_map)
  qed
  ultimately have "distinct (map (\<lambda>k. BlobKey (key_bytes k)) (map fst t2))"
    by (simp only: distinct_map[of "\<lambda>k. BlobKey (key_bytes k)"])
  then show "hm_wf t" unfolding t hm_wf_def by (simp add: comp_def case_prod_beta)
qed

lemma normalize_idempotent: "normalize_legacy_text_keys (normalize_legacy_text_keys db) = normalize_legacy_text_keys db"
proof -
  have blob: "\<forall>(k, c)\<in>set (db_file_index (normalize_legacy_text_keys db)). \<not> is_text_key k"
    by (auto simp: normalize_legacy_text_keys_def Let_def)
  have "normalize_legacy_text_keys d = d" if "\<forall>(k, c)\<in>set (db_file_index d). \<not> is_text_key k" for d
  proof -
    have "filter (\<lambda>(k, _). \<not> (is_text_key k \<and> P k)) (db_file_index d) = db_file_index d" for P
      using that by (auto simp: filter_id_conv)
    moreover have "map (\<lambda>(k, c). (BlobKey (key_bytes k), c)) (db_file_index d) = db_file_index d"
    proof (intro map_idI)
      fix row
      assume "row \<in> set (db_file_index d)"
      then have "\<not> is_text_key (fst row)" using that by auto
      then show "(\<lambda>(k, c). (BlobKey (key_bytes k), c)) row = row" by (cases row; cases "fst row") auto
    qed
    ultimately show ?thesis by (simp add: normalize_legacy_text_keys_def Let_def)
  qed
  from this[OF blob] show ?thesis .
qed

section \<open>The engine's statements as steps\<close>

text \<open>
  Every statement the engine runs on an index it has opened, except the start-over, as one step. The
  rows it writes carry relative paths of plain names.
\<close>

inductive db_step :: "database \<Rightarrow> database \<Rightarrow> bool" where
  mutation: "plain_path (mutation_path m) \<Longrightarrow> db_step db (apply_mutation db m)"
| modified: "plain_path p \<Longrightarrow> db_step db (mark_modified db p)"
| subtree: "db_step db (fst (purge_subtree_records db root))"
| cursor: "db_step db (store_event_cursor db scope last_id updated)"
| cursor_cleared: "db_step db (clear_event_cursor db scope)"
| warm_start: "db_step db (store_warm_start_count db n)"
| forced: "db_step db (store_forced_delete_approval db active)"
| paused: "db_step db (store_pair_paused db b)"
| root_recorded: "db_step db (fst (record_remote_root_of_baseline db key))"
| root_uid: "db_step db (fst (store_remote_root_uid db key uid learned_at))"
| root_uid_cleared: "db_step db (clear_remote_root_uid db)"
| approved: "db_step db (upsert_delete_approval db p d fingerprint at_secs)"
| revoked: "db_step db (delete_delete_approval db p d)"
| withheld: "replace_withheld_deletions db items = Some db' \<Longrightarrow> db_step db db'"
| summary: "db_step db (store_agreed_summary db p digest s recorded)"
| pruned: "db_step db (prune_agreed_summaries db)"

lemma mark_modified_sound:
  assumes "index_sound db" "plain_path p"
  shows "index_sound (mark_modified db p)"
proof (cases "hm_get (db_file_index db) (BlobKey (index_key p))")
  case None
  then show ?thesis using assms by (simp add: mark_modified_def Let_def)
next
  case (Some c)
  from index_sound_entry[OF assms(1) hm_get_in[OF Some]] obtain r where
    r: "plain_path (fr_file_path r)" "index_key p = index_key (fr_file_path r)" "c = columns_of_record r"
    by (metis sql_key.inject(2))
  then have "columns_of_record (r\<lparr>fr_sync_status := Modified\<rparr>) = c\<lparr>ic_sync_status := ''modified''\<rparr>"
    by (simp add: columns_of_record_def)
  with r Some have "mark_modified db p = upsert_record db (r\<lparr>fr_sync_status := Modified\<rparr>)"
    by (simp add: mark_modified_def upsert_record_def)
  then show ?thesis using index_sound_upsert[OF assms(1), of "r\<lparr>fr_sync_status := Modified\<rparr>"] r(1) by simp
qed

lemma index_sound_frame: "index_sound db \<Longrightarrow> db_file_index db' = db_file_index db \<Longrightarrow> index_sound db'"
  by (simp add: index_sound_def)

lemma db_step_sound: "db_step db db' \<Longrightarrow> index_sound db \<Longrightarrow> index_sound db'"
proof (induction rule: db_step.induct)
  case (mutation m db)
  then show ?case by (intro apply_mutation_look(1))
next
  case (modified p db)
  then show ?case by (intro mark_modified_sound)
next
  case (subtree db root)
  then show ?case by (intro purge_subtree_look(1))
next
  case (withheld db items db')
  then have "db_file_index db' = db_file_index db"
    by (auto simp: replace_withheld_deletions_def Let_def split: if_splits)
  with withheld show ?case by (intro index_sound_frame[of db db'])
qed (erule index_sound_frame, simp add: store_event_cursor_def clear_event_cursor_def store_warm_start_count_def
    store_forced_delete_approval_def store_pair_paused_def record_remote_root_of_baseline_def
    store_remote_root_uid_def clear_remote_root_uid_def upsert_delete_approval_def delete_delete_approval_def
    store_agreed_summary_def prune_agreed_summaries_def Let_def split: option.split)+

lemma purge_all_root: "db_remote_root (foldl purge_record db ps) = db_remote_root db"
  by (induction ps arbitrary: db) (simp_all add: purge_record_def)

lemma db_step_root:
  "db_step db db' \<Longrightarrow> db_remote_root db = Some row \<Longrightarrow>
   \<exists>row'. db_remote_root db' = Some row' \<and> rr_remote_root row' = rr_remote_root row"
proof (induction rule: db_step.induct)
  case (mutation m db)
  then show ?case by (cases m) (simp_all add: upsert_record_def purge_record_def)
next
  case (modified p db)
  then show ?case by (simp add: mark_modified_def Let_def split: option.split)
next
  case (subtree db root)
  then show ?case by (simp add: purge_subtree_records_def Let_def purge_all_root)
next
  case (withheld db items db')
  then show ?case by (auto simp: replace_withheld_deletions_def Let_def split: if_splits)
qed (simp_all add: store_event_cursor_def clear_event_cursor_def store_warm_start_count_def
    store_forced_delete_approval_def store_pair_paused_def record_remote_root_of_baseline_def
    store_remote_root_uid_def clear_remote_root_uid_def upsert_delete_approval_def delete_delete_approval_def
    store_agreed_summary_def prune_agreed_summaries_def Let_def split: option.split)

definition fresh_database :: database where
  "fresh_database = \<lparr>db_file_index = [], db_event_cursor = [], db_delete_approvals = [], db_warm_start = None,
     db_forced_approval = None, db_remote_root = None, db_pair_pause = None, db_unsyncable = [],
     db_withheld = [], db_summaries = []\<rparr>"

text \<open>The databases the engine can reach from a new one, start-overs included.\<close>

inductive db_reachable :: "database \<Rightarrow> bool" where
  fresh: "db_reachable fresh_database"
| statement: "db_reachable db \<Longrightarrow> db_step db db' \<Longrightarrow> db_reachable db'"
| start_over: "db_reachable db \<Longrightarrow> db_reachable (reset_index_state db)"

lemma reachable_sound: "db_reachable db \<Longrightarrow> index_sound db"
proof (induction rule: db_reachable.induct)
  case fresh
  show ?case by (simp add: index_sound_def fresh_database_def)
next
  case (statement db db')
  then show ?case by (blast intro: db_step_sound)
next
  case (start_over db)
  show ?case by (simp add: index_sound_def reset_index_state_def)
qed

lemma pruned_rows:
  assumes "hm_wf (db_summaries db)"
  defines "sorted_rows \<equiv> rev (sort_key (\<lambda>(_, _, _, recorded). recorded) (db_summaries db))"
  shows "set (db_summaries (prune_agreed_summaries db)) = set (take max_agreed_summaries sorted_rows)"
    and "length (db_summaries (prune_agreed_summaries db)) \<le> max_agreed_summaries"
proof -
  have d: "distinct (map fst (db_summaries db))" using assms(1) by (simp add: hm_wf_def)
  have sub: "set (take max_agreed_summaries sorted_rows) \<subseteq> set (db_summaries db)"
    using set_take_subset[of max_agreed_summaries sorted_rows] by (simp add: sorted_rows_def)
  have rows: "db_summaries (prune_agreed_summaries db) =
      filter (\<lambda>(k, _). k \<in> fst ` set (take max_agreed_summaries sorted_rows)) (db_summaries db)"
    by (simp add: prune_agreed_summaries_def Let_def sorted_rows_def)
  have inj: "x = y" if "x \<in> set (db_summaries db)" "y \<in> set (db_summaries db)" "fst x = fst y" for x y
    using that d by (auto simp: distinct_map dest: inj_onD)
  define kept where "kept = set (take max_agreed_summaries sorted_rows)"
  have mem: "x \<in> set (db_summaries (prune_agreed_summaries db)) \<longleftrightarrow> x \<in> set (db_summaries db) \<and> fst x \<in> fst ` kept" for x
    unfolding rows kept_def by (simp add: case_prod_beta)
  have "x \<in> set (db_summaries (prune_agreed_summaries db)) \<longleftrightarrow> x \<in> kept" for x
  proof
    assume "x \<in> set (db_summaries (prune_agreed_summaries db))"
    then obtain y where "x \<in> set (db_summaries db)" "y \<in> kept" "fst x = fst y" unfolding mem by auto
    with inj[of x y] sub show "x \<in> kept" unfolding kept_def by blast
  next
    assume "x \<in> kept"
    with sub show "x \<in> set (db_summaries (prune_agreed_summaries db))" unfolding mem kept_def by blast
  qed
  then show set: "set (db_summaries (prune_agreed_summaries db)) = set (take max_agreed_summaries sorted_rows)"
    unfolding kept_def by blast
  have "distinct (db_summaries (prune_agreed_summaries db))"
    unfolding rows using d by (simp add: distinct_map)
  then have "length (db_summaries (prune_agreed_summaries db)) = card (set (take max_agreed_summaries sorted_rows))"
    by (metis distinct_card set)
  also have "\<dots> \<le> length (take max_agreed_summaries sorted_rows)" by (rule card_length)
  finally show "length (db_summaries (prune_agreed_summaries db)) \<le> max_agreed_summaries" by simp
qed

lemma option_same: "(\<And>p. a = Some p \<longleftrightarrow> b = Some p) \<Longrightarrow> a = b"
  by (cases a; cases b) auto

lemma distinct_base_uids: "hm_wf B \<Longrightarrow> distinct (base_uids B)"
proof (induction B)
  case (Cons e B)
  obtain p r where e: "e = (p, r)" by (cases e)
  have "(i, p) \<notin> set (base_uids B)" for i
    using Cons.prems e unfolding base_uids_def hm_wf_def set_map_filter by (force split: option.splits if_splits)
  with Cons e show ?case
    by (auto simp: base_uids_def hm_wf_def map_filter_simps split: option.split)
qed (simp add: base_uids_def map_filter_simps)

section \<open>Properties\<close>


text \<open>C33: the store refines a map from paths to records: after the mutations of a commit the index that
  is loaded holds, at each path, what the last mutation of that path left, and otherwise what it held.\<close>

theorem committed_mutations_are_loaded:
  assumes "db_reachable db" "list_all (\<lambda>m. plain_path (mutation_path m)) ms"
  shows "\<exists>B. load_index (foldl apply_mutation db ms) = Some B \<and>
    (\<forall>q. hm_get B q =
      (if \<not> plain_path q then None
       else (case find (\<lambda>m. mutation_path m = q) (rev ms) of
           Some m \<Rightarrow> mutation_result m | None \<Rightarrow> index_look db q)))"
proof -
  have s: "index_sound db" using assms(1) by (rule reachable_sound)
  have "index_sound (foldl apply_mutation db ms)"
    using apply_mutations_look[OF s assms(2), of "[]"] by (simp add: plain_path_def)
  then obtain B where "load_index (foldl apply_mutation db ms) = Some B"
    "\<And>p. hm_get B p = (if plain_path p then index_look (foldl apply_mutation db ms) p else None)"
    using load_index_sound by blast
  with apply_mutations_look[OF s assms(2)] show ?thesis by auto
qed

text \<open>Once the index records the Proton folder its baseline describes, no statement but the
  start-over changes which folder that is.\<close>

theorem recorded_folder_never_moves:
  assumes "rtranclp db_step db db'" "db_remote_root db = Some row"
  shows "\<exists>row'. db_remote_root db' = Some row' \<and> rr_remote_root row' = rr_remote_root row"
  using assms
proof (induction rule: rtranclp_induct)
  case (step db1 db2)
  then obtain row1 where "db_remote_root db1 = Some row1" "rr_remote_root row1 = rr_remote_root row" by blast
  with db_step_root[OF step.hyps(2)] show ?case by fastforce
qed simp

text \<open>When no two records of the loaded baseline share an id, the index answers an id exactly as the
  reconstruction's own table of ids does; an id two records share names no path.\<close>

theorem index_resolves_ids_as_the_baseline:
  assumes "db_reachable db" "load_index db = Some B" "i \<noteq> []"
  shows "if distinct (map fst (base_uids B)) then path_for_proton_id db i = hm_get (base_uids B) i
    else \<exists>j p q. j \<noteq> [] \<and> p \<noteq> q \<and> is_some_and (\<lambda>r. fr_proton_id r = Some j) (hm_get B p) \<and>
      is_some_and (\<lambda>r. fr_proton_id r = Some j) (hm_get B q) \<and> path_for_proton_id db j = None"
proof -
  have s: "index_sound db" using assms(1) by (rule reachable_sound)
  have B: "hm_wf B" "hm_get B p = (if plain_path p then index_look db p else None)" for p
    using load_index_sound[OF s] assms(2) by auto
  have held: "{q. plain_path q \<and> is_some_and (\<lambda>r. fr_proton_id r = Some j) (index_look db q)}
      = {q. is_some_and (\<lambda>r. fr_proton_id r = Some j) (hm_get B q)}" for j
    by (auto simp: B(2))
  have row: "(j, p) \<in> set (base_uids B) \<longleftrightarrow> j \<noteq> [] \<and> is_some_and (\<lambda>r. fr_proton_id r = Some j) (hm_get B p)" for j p
  proof -
    have "(j, p) \<in> set (base_uids B) \<longleftrightarrow> (\<exists>r. (p, r) \<in> set B \<and> fr_proton_id r = Some j \<and> j \<noteq> [])"
      unfolding base_uids_def set_map_filter by force
    then show ?thesis by (auto simp: hm_in_iff[OF B(1)] is_some_and_def split: option.splits)
  qed
  show ?thesis
  proof (cases "distinct (map fst (base_uids B))")
    case True
    have "path_for_proton_id db i = Some p \<longleftrightarrow> hm_get (base_uids B) i = Some p" for p
    proof -
      have "hm_get (base_uids B) i = Some p \<longleftrightarrow> (i, p) \<in> set (base_uids B)"
        using True by (auto dest: map_of_SomeD)
      moreover have "{q. is_some_and (\<lambda>r. fr_proton_id r = Some i) (hm_get B q)} = {p} \<longleftrightarrow> (i, p) \<in> set (base_uids B)"
      proof
        assume "{q. is_some_and (\<lambda>r. fr_proton_id r = Some i) (hm_get B q)} = {p}"
        then show "(i, p) \<in> set (base_uids B)" using row[of i p] assms(3) by blast
      next
        assume ip: "(i, p) \<in> set (base_uids B)"
        have "q = p" if "is_some_and (\<lambda>r. fr_proton_id r = Some i) (hm_get B q)" for q
        proof -
          from that row[of i q] assms(3) have "(i, q) \<in> set (base_uids B)" by simp
          with ip True show ?thesis by (metis map_of_is_SomeI option.inject)
        qed
        with ip row[of i p] show "{q. is_some_and (\<lambda>r. fr_proton_id r = Some i) (hm_get B q)} = {p}" by blast
      qed
      ultimately show ?thesis unfolding path_for_proton_id_iff[OF s] held by simp
    qed
    then have "path_for_proton_id db i = hm_get (base_uids B) i" by (rule option_same)
    with True show ?thesis by simp
  next
    case False
    have "distinct (base_uids B)" using B(1) by (rule distinct_base_uids)
    with False obtain j p q where jpq: "(j, p) \<in> set (base_uids B)" "(j, q) \<in> set (base_uids B)" "p \<noteq> q"
      by (auto simp: distinct_map inj_on_def, blast)
    moreover have "path_for_proton_id db j = None"
    proof (rule ccontr)
      assume "path_for_proton_id db j \<noteq> None"
      then obtain x where "{q. is_some_and (\<lambda>r. fr_proton_id r = Some j) (hm_get B q)} = {x}"
        using path_for_proton_id_iff[OF s, of j] held by auto
      moreover have "p \<in> {q. is_some_and (\<lambda>r. fr_proton_id r = Some j) (hm_get B q)}"
        "q \<in> {q. is_some_and (\<lambda>r. fr_proton_id r = Some j) (hm_get B q)}"
        using row[of j p] row[of j q] jpq(1,2) by simp_all
      ultimately show False using jpq(3) by simp
    qed
    moreover have "j \<noteq> []" "is_some_and (\<lambda>r. fr_proton_id r = Some j) (hm_get B p)"
      "is_some_and (\<lambda>r. fr_proton_id r = Some j) (hm_get B q)"
      using row[of j p] row[of j q] jpq(1,2) by simp_all
    ultimately show ?thesis using False jpq(3) by (simp only: if_False) blast
  qed
qed

text \<open>The upgrade of old keys leaves only byte-exact keys, one row each: a row of this build is kept as
  it is, and a TEXT row survives exactly when its key lost nothing and no newer row stands at its path.
  Running it again changes nothing.\<close>

theorem legacy_keys_normalise:
  assumes "hm_wf (db_file_index db)"
  shows "hm_wf (db_file_index (normalize_legacy_text_keys db)) \<and>
    (\<forall>k c. (k, c) \<in> set (db_file_index (normalize_legacy_text_keys db)) \<longleftrightarrow>
      (\<exists>bs. k = BlobKey bs \<and> ((BlobKey bs, c) \<in> set (db_file_index db) \<or>
        ((TextKey bs, c) \<in> set (db_file_index db) \<and> \<not> contains_bytes replacement_char bs \<and>
         hm_get (db_file_index db) (BlobKey bs) = None)))) \<and>
    normalize_legacy_text_keys (normalize_legacy_text_keys db) = normalize_legacy_text_keys db"
  using normalize_rows[OF assms] normalize_idempotent by auto

text \<open>Pruning the summaries keeps at most the cap, and drops none that is newer than one it keeps.\<close>

theorem pruning_keeps_the_newest:
  assumes "hm_wf (db_summaries db)"
  shows "length (db_summaries (prune_agreed_summaries db)) \<le> max_agreed_summaries \<and>
    (\<forall>kept\<in>set (db_summaries (prune_agreed_summaries db)).
     \<forall>row\<in>set (db_summaries db) - set (db_summaries (prune_agreed_summaries db)).
       snd (snd (snd row)) \<le> snd (snd (snd kept)))"
proof -
  let ?age = "\<lambda>(_ :: bytes, _ :: bytes, _ :: bytes, recorded :: int). recorded"
  define rows where "rows = sort_key ?age (db_summaries db)"
  have new: "set (db_summaries (prune_agreed_summaries db)) = set (take max_agreed_summaries (rev rows))"
    using pruned_rows(1)[OF assms] by (simp add: rows_def)
  have all: "set (db_summaries db) = set (rev rows)" by (simp add: rows_def)
  have "sorted (map ?age rows)" by (simp add: rows_def)
  then have "sorted_wrt (\<lambda>x y. ?age y \<le> ?age x) (rev rows)"
    by (simp add: sorted_wrt_rev sorted_map)
  then have "sorted_wrt (\<lambda>x y. ?age y \<le> ?age x) (take max_agreed_summaries (rev rows) @ drop max_agreed_summaries (rev rows))"
    by simp
  then have "\<forall>x\<in>set (take max_agreed_summaries (rev rows)). \<forall>y\<in>set (drop max_agreed_summaries (rev rows)). ?age y \<le> ?age x"
    unfolding sorted_wrt_append by blast
  moreover have "set (rev rows) \<subseteq> set (take max_agreed_summaries (rev rows)) \<union> set (drop max_agreed_summaries (rev rows))"
    by (metis append_take_drop_id order_refl set_append)
  ultimately show ?thesis
    using pruned_rows(2)[OF assms] unfolding new all by (auto simp: case_prod_beta)
qed

section \<open>Witnesses\<close>

definition ix_record :: file_record where
  "ix_record = \<lparr>fr_file_path = [Normal ''docs''], fr_entity_kind = Directory, fr_file_size = 0, fr_mtime = 5,
     fr_sha1_hash = None, fr_proton_id = Some ''v~d'', fr_sync_status = Synced\<rparr>"

definition ix_database :: database where
  "ix_database = fst (record_remote_root_of_baseline (upsert_record fresh_database ix_record) [Normal ''Drive''])"

lemma ix_plain: "plain_path [Normal ''docs'']"
  unfolding plain_path_def by (intro exI[of _ "[''docs'']"]) (simp add: plain_name_def)

lemma ix_mutation: "plain_path (mutation_path (UpsertRow ix_record))"
  using ix_plain by (simp add: ix_record_def)

lemma ix_reachable: "db_reachable ix_database"
proof -
  have "db_reachable (apply_mutation fresh_database (UpsertRow ix_record))"
    by (rule db_reachable.statement[OF db_reachable.fresh db_step.mutation[OF ix_mutation]])
  then show ?thesis
    unfolding ix_database_def apply_mutation.simps by (rule db_reachable.statement) (rule db_step.intros)
qed

lemma ix_loaded: "load_index ix_database = Some [([Normal ''docs''], ix_record)]"
  by code_simp


theorem committed_mutations_witness:
  "\<exists>B. load_index (foldl apply_mutation ix_database [PurgeRow [Normal ''docs'']]) = Some B \<and>
     hm_get B [Normal ''docs''] = None"
  using committed_mutations_are_loaded[OF ix_reachable, of "[PurgeRow [Normal ''docs'']]"] ix_plain
  by auto

theorem recorded_folder_witness:
  "\<exists>row'. db_remote_root (store_pair_paused (clear_remote_root_uid ix_database) True) = Some row' \<and>
     rr_remote_root row' = ''Drive''"
proof -
  have "rtranclp db_step ix_database (store_pair_paused (clear_remote_root_uid ix_database) True)"
    by (rule rtranclp.rtrancl_into_rtrancl[OF r_into_rtranclp]) (rule db_step.intros)+
  moreover have "db_remote_root ix_database =
      Some \<lparr>rr_remote_root = ''Drive'', rr_uid = None, rr_learned_at = None\<rparr>" by code_simp
  ultimately show ?thesis using recorded_folder_never_moves by fastforce
qed

theorem index_resolves_ids_witness: "path_for_proton_id ix_database ''v~d'' = Some [Normal ''docs'']"
proof -
  have "distinct (map fst (base_uids [([Normal ''docs''], ix_record)]))"
    "hm_get (base_uids [([Normal ''docs''], ix_record)]) ''v~d'' = Some [Normal ''docs'']" by code_simp+
  then show ?thesis using index_resolves_ids_as_the_baseline[OF ix_reachable ix_loaded, of "''v~d''"] by simp
qed

definition ix_old_rows :: database where
  "ix_old_rows = fresh_database\<lparr>db_file_index :=
     [(TextKey ''docs'', columns_of_record ix_record), (BlobKey ''docs'', columns_of_record ix_record),
      (TextKey ''notes'', columns_of_record ix_record)]\<rparr>"

theorem legacy_keys_witness:
  "(BlobKey ''notes'', columns_of_record ix_record) \<in> set (db_file_index (normalize_legacy_text_keys ix_old_rows))"
proof -
  have wf: "hm_wf (db_file_index ix_old_rows)" by code_simp
  have "(TextKey ''notes'', columns_of_record ix_record) \<in> set (db_file_index ix_old_rows)"
    "hm_get (db_file_index ix_old_rows) (BlobKey ''notes'') = None"
    "\<not> contains_bytes replacement_char ''notes''"
    by (simp add: ix_old_rows_def, code_simp, code_simp)
  then show ?thesis using legacy_keys_normalise[OF wf] by blast
qed

theorem pruning_witness:
  "length (db_summaries (prune_agreed_summaries (store_agreed_summary ix_database [Normal ''a''] ''h'' ax_old 5)))
     \<le> max_agreed_summaries"
proof -
  have "hm_wf (db_summaries (store_agreed_summary ix_database [Normal ''a''] ''h'' ax_old 5))"
    by (simp add: store_agreed_summary_def ix_database_def record_remote_root_of_baseline_def
        upsert_record_def fresh_database_def hm_wf_def)
  from pruning_keeps_the_newest[OF this] show ?thesis by blast
qed

end
