(* ===== verification/Display.thy ===== *)
theory Display
  imports Rust_Path
begin

text \<open>
  The strings the engine echoes back in a reply (\<^verbatim>\<open>src/daemon.rs\<close>, \<^verbatim>\<open>truncate_for_display\<close>): cut to a
  number of bytes, marker included, and never inside a character.
\<close>

section \<open>Cutting\<close>

text \<open>A string cut for display: at most the limit, marker included, on a character boundary.\<close>

definition ellipsis_marker :: bytes where "ellipsis_marker = [CHR 0xE2, CHR 0x80, CHR 0xA6]"

definition is_char_boundary :: "bytes \<Rightarrow> nat \<Rightarrow> bool" where
  "is_char_boundary s index \<longleftrightarrow> index = 0 \<or> index = length s \<or>
    (index < length s \<and> \<not> is_cont (of_char (s ! index)))"

definition truncate_for_display :: "bytes \<Rightarrow> nat \<Rightarrow> bytes" where
  "truncate_for_display s limit =
    (if length s \<le> limit then s
     else (let (budget, marker) =
                (if length ellipsis_marker \<le> limit then (limit - length ellipsis_marker, ellipsis_marker) else (limit, []));
               end_index = (case find (is_char_boundary s) (rev [0..<Suc budget]) of Some i \<Rightarrow> i | None \<Rightarrow> 0)
           in take end_index s @ marker))"

definition selector_display_limit :: nat where "selector_display_limit = 200"

definition truncate_selector :: "bytes \<Rightarrow> bytes" where
  "truncate_selector selector = truncate_for_display selector selector_display_limit"

section \<open>The scanner on a prefix\<close>

lemma utf8_step_cases:
  assumes "fst (utf8_step xs)"
  shows "(snd (utf8_step xs) = 1 \<and> byte_at xs 0 < 0x80) \<or>
    (snd (utf8_step xs) = 2 \<and> 0xC2 \<le> byte_at xs 0 \<and> byte_at xs 0 \<le> 0xDF \<and> is_cont (byte_at xs 1)) \<or>
    (snd (utf8_step xs) = 3 \<and> 0xE0 \<le> byte_at xs 0 \<and> byte_at xs 0 \<le> 0xEF \<and>
      second3 (byte_at xs 0) (byte_at xs 1) \<and> is_cont (byte_at xs 2)) \<or>
    (snd (utf8_step xs) = 4 \<and> 0xF0 \<le> byte_at xs 0 \<and> byte_at xs 0 \<le> 0xF4 \<and>
      second4 (byte_at xs 0) (byte_at xs 1) \<and> is_cont (byte_at xs 2) \<and> is_cont (byte_at xs 3))"
  using assms unfolding utf8_step_def Let_def by (simp split: if_splits)

text \<open>A step over a character reads only its own bytes, and all but the first continue it.\<close>

lemma utf8_step_agree:
  assumes "fst (utf8_step xs)" "\<And>j. j < snd (utf8_step xs) \<Longrightarrow> byte_at ys j = byte_at xs j"
  shows "utf8_step ys = utf8_step xs"
proof -
  define k where "k = snd (utf8_step xs)"
  have res: "utf8_step xs = (True, k)" using assms(1) by (simp add: k_def prod_eq_iff)
  have same: "byte_at ys j = byte_at xs j" if "j < k" for j using assms(2) that by (simp add: k_def)
  from utf8_step_cases[OF assms(1)] have "utf8_step ys = (True, k)"
    unfolding k_def[symmetric]
  proof (elim disjE conjE)
    assume "k = 1" "byte_at xs 0 < 0x80"
    with same[of 0] show ?thesis by (simp add: utf8_step_def Let_def)
  next
    assume "k = 2" "0xC2 \<le> byte_at xs 0" "byte_at xs 0 \<le> 0xDF" "is_cont (byte_at xs 1)"
    with same[of 0] same[of 1] show ?thesis by (simp add: utf8_step_def Let_def)
  next
    assume "k = 3" "0xE0 \<le> byte_at xs 0" "byte_at xs 0 \<le> 0xEF"
      "second3 (byte_at xs 0) (byte_at xs 1)" "is_cont (byte_at xs 2)"
    with same[of 0] same[of 1] same[of 2] show ?thesis by (simp add: utf8_step_def Let_def)
  next
    assume "k = 4" "0xF0 \<le> byte_at xs 0" "byte_at xs 0 \<le> 0xF4"
      "second4 (byte_at xs 0) (byte_at xs 1)" "is_cont (byte_at xs 2)" "is_cont (byte_at xs 3)"
    with same[of 0] same[of 1] same[of 2] same[of 3] show ?thesis by (simp add: utf8_step_def Let_def)
  qed
  with res show ?thesis by simp
qed

lemma utf8_step_inside:
  assumes "fst (utf8_step xs)" "0 < i" "i < snd (utf8_step xs)"
  shows "is_cont (byte_at xs i)"
proof -
  have cont: "is_cont b" if "second3 a b \<or> second4 a b" for a b
    using that by (auto simp: second3_def second4_def is_cont_def)
  have "i = 1 \<or> i = 2 \<or> i = 3"
    using utf8_step_cases[OF assms(1)] assms(2,3) by (elim disjE conjE; simp; arith)
  then show ?thesis
    using utf8_step_cases[OF assms(1)] assms(2,3) cont by (elim disjE conjE) auto
qed

lemma utf8_valid_step:
  assumes "xs \<noteq> []"
  shows "utf8_valid xs \<longleftrightarrow> fst (utf8_step xs) \<and> utf8_valid (drop (snd (utf8_step xs)) xs)"
  using assms by (subst utf8_valid.simps) simp

lemma utf8_valid_append: "utf8_valid xs \<Longrightarrow> utf8_valid ys \<Longrightarrow> utf8_valid (xs @ ys)"
proof (induction xs rule: utf8_valid.induct)
  case (1 xs)
  show ?case
  proof (cases "xs = []")
    case False
    define k where "k = snd (utf8_step xs)"
    have k: "k \<le> length xs" "fst (utf8_step xs)" "utf8_valid (drop k xs)"
      using False 1(2) utf8_step_le[OF False] by (simp_all add: utf8_valid_step k_def)
    have "utf8_step (xs @ ys) = utf8_step xs"
      using k(1) by (intro utf8_step_agree[OF k(2)]) (simp add: byte_at_append k_def)
    moreover have "utf8_valid (drop k xs @ ys)" using 1(1)[OF False k(2)] k(3) 1(3) by (simp add: k_def)
    ultimately show ?thesis using False k by (simp add: utf8_valid_step k_def[symmetric])
  qed (use 1 in simp)
qed

lemma utf8_valid_take:
  assumes "utf8_valid xs" "is_char_boundary xs i"
  shows "utf8_valid (take i xs)"
  using assms
proof (induction xs arbitrary: i rule: utf8_valid.induct)
  case (1 xs)
  show ?case
  proof (cases "xs = [] \<or> i = 0")
    case False
    then have ne: "xs \<noteq> []" and i: "0 < i" by simp_all
    define k where "k = snd (utf8_step xs)"
    have k: "k \<le> length xs" "fst (utf8_step xs)" "utf8_valid (drop k xs)" "0 < k"
      using ne 1(2) utf8_step_le[OF ne] utf8_step_pos by (simp_all add: utf8_valid_step k_def)
    have "k \<le> i"
    proof (rule ccontr)
      assume "\<not> k \<le> i"
      then have "is_cont (byte_at xs i)" "i < length xs"
        using utf8_step_inside[OF k(2) i] k(1) by (simp_all add: k_def)
      with 1(3) i show False by (simp add: is_char_boundary_def byte_at_def)
    qed
    then have same: "utf8_step (take i xs) = utf8_step xs"
      using k(1) by (intro utf8_step_agree[OF k(2)]) (simp add: byte_at_def k_def)
    have "is_char_boundary (drop k xs) (i - k)"
      using 1(3) \<open>k \<le> i\<close> k(1) by (auto simp: is_char_boundary_def)
    then have "utf8_valid (take (i - k) (drop k xs))" using 1(1)[OF ne k(2)] k(3) by (simp add: k_def)
    with same k(2) ne i show ?thesis
      by (simp add: utf8_valid_step k_def[symmetric] drop_take)
  qed (auto)
qed

lemma boundary_found:
  "\<exists>i. find (is_char_boundary s) (rev [0..<Suc n]) = Some i \<and> i \<le> n \<and> is_char_boundary s i"
proof (cases "find (is_char_boundary s) (rev [0..<Suc n])")
  case None
  then have "\<not> is_char_boundary s 0" by (simp add: find_None_iff del: upt_Suc)
  then show ?thesis by (simp add: is_char_boundary_def)
next
  case (Some i)
  then have "i \<in> set (rev [0..<Suc n])" "is_char_boundary s i"
    unfolding find_Some_iff by (metis nth_mem)+
  with Some show ?thesis by (simp add: less_Suc_eq_le del: upt_Suc)
qed

lemma truncated:
  obtains "length s \<le> limit" "truncate_for_display s limit = s"
  | i where "limit < length s" "is_char_boundary s i" "i + length ellipsis_marker \<le> limit"
      "truncate_for_display s limit = take i s @ ellipsis_marker"
  | i where "limit < length s" "is_char_boundary s i" "i \<le> limit" "limit < length ellipsis_marker"
      "truncate_for_display s limit = take i s"
proof -
  consider "length s \<le> limit" | "limit < length s" "length ellipsis_marker \<le> limit"
    | "limit < length s" "limit < length ellipsis_marker" by linarith
  then show thesis
  proof cases
    case 1
    then show thesis using that(1) by (simp add: truncate_for_display_def)
  next
    case 2
    from boundary_found[of s "limit - length ellipsis_marker"] obtain i where
      "find (is_char_boundary s) (rev [0..<Suc (limit - length ellipsis_marker)]) = Some i"
      "i \<le> limit - length ellipsis_marker" "is_char_boundary s i" by blast
    with 2 show thesis using that(2)[of i] by (simp add: truncate_for_display_def Let_def del: upt_Suc)
  next
    case 3
    from boundary_found[of s limit] obtain i where
      "find (is_char_boundary s) (rev [0..<Suc limit]) = Some i" "i \<le> limit" "is_char_boundary s i" by blast
    with 3 show thesis using that(3)[of i] by (simp add: truncate_for_display_def Let_def del: upt_Suc)
  qed
qed

lemma ellipsis_valid: "utf8_valid ellipsis_marker"
  by code_simp

text \<open>Astring cut for display is never longer than the limit, whatever the limit is, is still valid
  UTF-8, and is the string itself when it already fits.\<close>

theorem display_is_bounded_and_valid:
  assumes "utf8_valid s"
  shows "length (truncate_for_display s limit) \<le> limit \<and> utf8_valid (truncate_for_display s limit) \<and>
    (length s \<le> limit \<longrightarrow> truncate_for_display s limit = s)"
proof (cases rule: truncated[of s limit])
  case (2 i)
  then show ?thesis using utf8_valid_take[OF assms 2(2)] utf8_valid_append ellipsis_valid by simp
next
  case (3 i)
  then show ?thesis using utf8_valid_take[OF assms 3(2)] by simp
qed (use assms in simp)

theorem display_witness:
  "length (truncate_for_display (replacement @ replacement) 5) \<le> 5 \<and>
   utf8_valid (truncate_for_display (replacement @ replacement) 5)"
proof -
  have "utf8_valid (replacement @ replacement)" by code_simp
  from display_is_bounded_and_valid[OF this, of 5] show ?thesis by blast
qed

end
