(* ===== verification/Delete_Gate.thy ===== *)
theory Delete_Gate
  imports Dir_Config Index_Store Display
begin

text \<open>
  The delete-approval gate of the reconcile pass (\<^verbatim>\<open>src/daemon.rs\<close>, \<^verbatim>\<open>decide_delete_gate\<close> and the
  \<^verbatim>\<open>approve\<close>, \<^verbatim>\<open>deny\<close> and \<^verbatim>\<open>keep\<close> commands): which planned deletions a pass may run, which it
  withholds, and what the user's answers write to the index. Replies are a datatype with the counts and
  the selector the sentences carry; the clock is an argument.
\<close>

section \<open>What a deletion does to the entity\<close>

datatype local_delete_mode = TrashMode | PermanentMode

fun delete_mode_as_str :: "local_delete_mode \<Rightarrow> bytes" where
  "delete_mode_as_str TrashMode = ''trash''"
| "delete_mode_as_str PermanentMode = ''permanent''"

fun delete_mode_is_recoverable :: "local_delete_mode \<Rightarrow> bool" where
  "delete_mode_is_recoverable TrashMode = True"
| "delete_mode_is_recoverable PermanentMode = False"

definition delete_mode_all :: "local_delete_mode list" where
  "delete_mode_all = [TrashMode, PermanentMode]"

definition delete_mode_from_str :: "bytes \<Rightarrow> local_delete_mode option" where
  "delete_mode_from_str value = find (\<lambda>mode. delete_mode_as_str mode = value) delete_mode_all"

interpretation mode_token: wire_token delete_mode_as_str delete_mode_from_str
proof
  show "delete_mode_from_str t = Some a \<Longrightarrow> delete_mode_as_str a = t" for t a
    by (auto simp: delete_mode_from_str_def find_Some_iff)
  show "delete_mode_from_str (delete_mode_as_str a) = Some a" for a
    by (cases a) (simp_all add: delete_mode_from_str_def delete_mode_all_def)
qed

datatype local_disposal = DisposalRecoverable | DisposalPermanent

fun disposal_of :: "delete_direction \<Rightarrow> local_delete_mode \<Rightarrow> local_disposal" where
  "disposal_of DeleteRemote mode = DisposalRecoverable"
| "disposal_of DeleteLocal mode = (if delete_mode_is_recoverable mode then DisposalRecoverable else DisposalPermanent)"

fun disposal_as_str :: "local_disposal \<Rightarrow> bytes" where
  "disposal_as_str DisposalRecoverable = ''recoverable''"
| "disposal_as_str DisposalPermanent = ''permanent''"

definition disposal_from_token :: "bytes \<Rightarrow> local_disposal" where
  "disposal_from_token token = (if token = ''recoverable'' then DisposalRecoverable else DisposalPermanent)"

section \<open>The gate\<close>

record pending_deletion =
  pd_path :: path
  pd_direction :: delete_direction
  pd_entity_kind :: entity_kind
  pd_fingerprint :: bytes
  pd_detected :: u64
  pd_first_seen :: u64
  pd_subtree_files :: "u64 option"
  pd_subtree_bytes :: "u64 option"
  pd_disposal :: local_disposal

record delete_gate =
  dg_withheld_paths :: "path set"
  dg_pending :: "pending_deletion list"
  dg_consumed :: "(path \<times> delete_direction) list"
  dg_withheld :: "withheld_deletion list"
  dg_forced :: nat

definition empty_gate :: delete_gate where
  "empty_gate = \<lparr>dg_withheld_paths = {}, dg_pending = [], dg_consumed = [], dg_withheld = [], dg_forced = 0\<rparr>"

definition subtree_step :: "u64 \<times> u64 \<Rightarrow> path \<times> file_record \<Rightarrow> u64 \<times> u64" where
  "subtree_step acc row =
    (case acc of (files, sizes) \<Rightarrow> case row of (_, r) \<Rightarrow> (files + 1, saturating_add sizes (fr_file_size r)))"

definition subtree_totals :: "base_map \<Rightarrow> path \<Rightarrow> u64 \<times> u64" where
  "subtree_totals B root =
    foldl subtree_step (0, 0)
      (filter (\<lambda>(p, r). fr_entity_kind r = File \<and> is_strict_descendant root p) B)"

definition record_fingerprint :: "file_record \<Rightarrow> bytes option" where
  "record_fingerprint r = or_else (fr_sha1_hash r) (fr_proton_id r)"

definition delete_fingerprint :: "planned_action \<Rightarrow> base_map \<Rightarrow> bytes" where
  "delete_fingerprint a B =
    (case or_else (Option.bind (hm_get B (pa_path a)) record_fingerprint) (pa_remote_id a) of
       Some fingerprint \<Rightarrow> fingerprint | None \<Rightarrow> [])"

type_synonym withheld_ages = "(path \<times> delete_direction, withheld_deletion) hmap"

definition previous_ages :: "database \<Rightarrow> withheld_ages" where
  "previous_ages db =
    foldl (\<lambda>ages w. hm_insert (wd_path w, wd_direction w) w ages) []
      (case load_withheld_deletions db of Some items \<Rightarrow> items | None \<Rightarrow> [])"

text \<open>The pair's configuration, as the gate reads it.\<close>

record gate_config =
  gc_parse :: toml_parser
  gc_read :: "path \<Rightarrow> config_read"
  gc_local_root :: path
  gc_default :: effective_settings
  gc_local_delete_mode :: local_delete_mode
  gc_forced :: bool

definition gate_resolve ::
  "gate_config \<Rightarrow> planned_action \<Rightarrow> config_cache \<Rightarrow> effective_settings \<times> config_cache" where
  "gate_resolve cfg a cache =
    resolve_settings (gc_parse cfg) (gc_read cfg) (gc_local_root cfg) (gc_default cfg) (pa_path a)
      (pa_entity_kind a = Directory) cache"

definition withhold ::
  "gate_config \<Rightarrow> base_map \<Rightarrow> u64 \<Rightarrow> withheld_ages \<Rightarrow> planned_action \<Rightarrow> delete_direction \<Rightarrow> bytes \<Rightarrow> bool \<Rightarrow>
   delete_gate \<Rightarrow> delete_gate" where
  "withhold cfg B now previous a d fingerprint guarded gate =
    (let is_directory = (pa_entity_kind a = Directory);
         first_seen = (case opt_filter (\<lambda>stored. wd_fingerprint stored = fingerprint)
               (hm_get previous (pa_path a, d)) of
             Some stored \<Rightarrow> wd_first_seen stored | None \<Rightarrow> now);
         subtree = (if is_directory then map_prod Some Some (subtree_totals B (pa_path a)) else (None, None))
     in \<lparr>dg_withheld_paths = insert (pa_path a) (dg_withheld_paths gate),
         dg_pending = dg_pending gate @
           [\<lparr>pd_path = pa_path a, pd_direction = d, pd_entity_kind = pa_entity_kind a,
             pd_fingerprint = fingerprint, pd_detected = now, pd_first_seen = first_seen,
             pd_subtree_files = fst subtree, pd_subtree_bytes = snd subtree,
             pd_disposal = disposal_of d (gc_local_delete_mode cfg)\<rparr>],
         dg_consumed = dg_consumed gate,
         dg_withheld = dg_withheld gate @
           [\<lparr>wd_path = pa_path a, wd_direction = d, wd_fingerprint = fingerprint, wd_first_seen = first_seen\<rparr>],
         dg_forced = dg_forced gate + (if guarded then 0 else 1)\<rparr>)"

definition gate_step ::
  "gate_config \<Rightarrow> database \<Rightarrow> base_map \<Rightarrow> u64 \<Rightarrow> withheld_ages \<Rightarrow> delete_gate \<times> config_cache \<Rightarrow>
   planned_action \<Rightarrow> delete_gate \<times> config_cache" where
  "gate_step cfg db B now previous st a =
    (case st of (gate, cache) \<Rightarrow>
     case action_delete_direction (pa_action a) of
       None \<Rightarrow> st
     | Some d \<Rightarrow>
         (case gate_resolve cfg a cache of (settings, cache') \<Rightarrow>
           (let guarded = requires_approval settings d;
                fingerprint = delete_fingerprint a B
            in if \<not> guarded \<and> \<not> gc_forced cfg then (gate, cache')
               else if matching_delete_approval db (pa_path a) d fingerprint
                    then (gate\<lparr>dg_consumed := dg_consumed gate @ [(pa_path a, d)]\<rparr>, cache')
                    else (withhold cfg B now previous a d fingerprint guarded gate, cache'))))"

definition decide_delete_gate ::
  "gate_config \<Rightarrow> database \<Rightarrow> u64 \<Rightarrow> plan \<Rightarrow> base_map \<Rightarrow> delete_gate \<times> database" where
  "decide_delete_gate cfg db now pl B =
    (let previous = previous_ages db;
         gate = fst (foldl (gate_step cfg db B now previous) (empty_gate, []) pl);
         unchanged = (length (dg_withheld gate) = length previous \<and>
           list_all (\<lambda>item. hm_get previous (wd_path item, wd_direction item) = Some item) (dg_withheld gate))
     in if unchanged then (gate, db)
        else (gate, case replace_withheld_deletions db (dg_withheld gate) of Some db' \<Rightarrow> db' | None \<Rightarrow> db))"

text \<open>What the pass does with it: the deletions it skips, the cursor it holds and the approvals it
  consumes once a deletion has run.\<close>

definition gate_runs :: "delete_gate \<Rightarrow> planned_action \<Rightarrow> bool" where
  "gate_runs gate a \<longleftrightarrow>
    \<not> (action_delete_direction (pa_action a) \<noteq> None \<and> pa_path a \<in> dg_withheld_paths gate)"

definition cursor_after_gate :: "delete_gate \<Rightarrow> 'c option \<Rightarrow> 'c option" where
  "cursor_after_gate gate cursor_update = (if dg_withheld_paths gate = {} then cursor_update else None)"

definition replacement_settled :: "gate_config \<Rightarrow> delete_gate \<Rightarrow> bool" where
  "replacement_settled cfg gate \<longleftrightarrow> gc_forced cfg \<and> dg_forced gate = 0"

definition record_approval_consumption ::
  "(path \<times> delete_direction) list \<Rightarrow> path \<Rightarrow> delete_direction \<Rightarrow> (path \<times> delete_direction) list \<Rightarrow>
   (path \<times> delete_direction) list" where
  "record_approval_consumption approved p d pending =
    (if list_ex (\<lambda>(approved_path, approved_direction). approved_path = p \<and> approved_direction = d) approved
     then pending @ [(p, d)] else pending)"

section \<open>The user's answers\<close>

datatype command_reply =
    NoTarget
  | NoPendingMatch bytes
  | NothingPending
  | AmbiguousSelector nat bytes
  | Approved nat
  | Denied nat
  | NameTheDirection bytes
  | InvalidPath bytes
  | NoSyncedRecord bytes
  | PreApproved bytes
  | KeptNothing nat
  | Kept nat nat

definition ascii_lower :: "bytes \<Rightarrow> bytes" where
  "ascii_lower s = map (\<lambda>c. let n = of_char c :: nat in if 65 \<le> n \<and> n \<le> 90 then char_of (n + 32) else c) s"

record selection =
  sel_target :: "bytes option"
  sel_matches :: "pending_deletion list"

definition select_pending :: "pending_deletion list \<Rightarrow> bytes \<Rightarrow> bool \<Rightarrow> selection" where
  "select_pending pending selector literal_path =
    (let target = (if literal_path then Some selector
                   else if ascii_lower selector = ''all'' then None else Some selector)
     in \<lparr>sel_target = target,
         sel_matches = filter (\<lambda>p. case target of
             Some s \<Rightarrow> parse_path (wire_path (pd_path p)) = parse_path s
           | None \<Rightarrow> True) pending\<rparr>)"

definition ambiguous_selector_message ::
  "pending_deletion list \<Rightarrow> bytes option \<Rightarrow> command_reply option" where
  "ambiguous_selector_message matches target =
    (case target of None \<Rightarrow> None
     | Some t \<Rightarrow> if length matches < 2 then None
                else Some (AmbiguousSelector (length matches) (truncate_selector t)))"

text \<open>A command gives its reply and the database after it; a row it cannot read is \<open>None\<close>, and then
  nothing was written.\<close>

definition stored_fingerprint :: "database \<Rightarrow> path \<Rightarrow> bytes option option" where
  "stored_fingerprint db p = map_option (\<lambda>found. Option.bind found record_fingerprint) (get_record db p)"

definition pre_approve_planned_deletion ::
  "database \<Rightarrow> int \<Rightarrow> bytes \<Rightarrow> delete_direction option \<Rightarrow> (command_reply \<times> database) option" where
  "pre_approve_planned_deletion db now selector direction =
    (let shown = truncate_selector selector in
     case direction of
       None \<Rightarrow> Some (NameTheDirection shown, db)
     | Some d \<Rightarrow>
         (case validate_relative_path_non_empty (parse_path selector) of
            None \<Rightarrow> Some (InvalidPath shown, db)
          | Some p \<Rightarrow>
              (case stored_fingerprint db p of
                 None \<Rightarrow> None
               | Some None \<Rightarrow> Some (NoSyncedRecord shown, db)
               | Some (Some fingerprint) \<Rightarrow>
                   Some (PreApproved shown, upsert_delete_approval db p d fingerprint now))))"

definition answer_step :: "bool \<Rightarrow> int \<Rightarrow> database \<Rightarrow> pending_deletion \<Rightarrow> database" where
  "answer_step approve now db p =
    (if approve then upsert_delete_approval db (pd_path p) (pd_direction p) (pd_fingerprint p) now
     else delete_delete_approval db (pd_path p) (pd_direction p))"

definition apply_approval_command ::
  "database \<Rightarrow> int \<Rightarrow> pending_deletion list \<Rightarrow> bytes option \<Rightarrow> bool \<Rightarrow> bool \<Rightarrow> delete_direction option \<Rightarrow>
   (command_reply \<times> database) option" where
  "apply_approval_command db now pending selector literal_path approve direction =
    (case selector of
       None \<Rightarrow> Some (NoTarget, db)
     | Some s \<Rightarrow>
         (let sel = select_pending pending s literal_path; matches = sel_matches sel in
          if matches = [] then
            (case sel_target sel of
               Some p \<Rightarrow> if approve then pre_approve_planned_deletion db now p direction
                         else Some (NoPendingMatch (truncate_selector p), db)
             | None \<Rightarrow> Some (NothingPending, db))
          else (case (if approve then ambiguous_selector_message matches (sel_target sel) else None) of
              Some message \<Rightarrow> Some (message, db)
            | None \<Rightarrow>
                Some (if approve then Approved (length matches) else Denied (length matches),
                      foldl (answer_step approve now) db matches))))"

definition revoke_both :: "database \<Rightarrow> path \<Rightarrow> database" where
  "revoke_both db p = delete_delete_approval (delete_delete_approval db p DeleteLocal) p DeleteRemote"

text \<open>Keeping: the database, how many were kept and how many no longer matched.\<close>

definition keep_step :: "(database \<times> nat \<times> nat) option \<Rightarrow> pending_deletion \<Rightarrow> (database \<times> nat \<times> nat) option" where
  "keep_step st p =
    (case st of None \<Rightarrow> None
     | Some (db, kept, stale) \<Rightarrow>
         (case stored_fingerprint db (pd_path p) of
            None \<Rightarrow> None
          | Some current \<Rightarrow>
              if current \<noteq> Some (pd_fingerprint p) then Some (db, kept, stale + 1)
              else (case purge_subtree_records db (pd_path p) of
                  (db', purged) \<Rightarrow> Some (foldl revoke_both db' purged, kept + 1, stale))))"

definition apply_keep_command ::
  "database \<Rightarrow> pending_deletion list \<Rightarrow> bytes option \<Rightarrow> bool \<Rightarrow> ((command_reply \<times> bool) \<times> database) option" where
  "apply_keep_command db pending selector literal_path =
    (case selector of
       None \<Rightarrow> Some ((NoTarget, False), db)
     | Some s \<Rightarrow>
         (let sel = select_pending pending s literal_path; matches = sel_matches sel in
          if matches = [] then
            (case sel_target sel of
               Some p \<Rightarrow> Some ((NoPendingMatch (truncate_selector p), False), db)
             | None \<Rightarrow> Some ((NothingPending, False), db))
          else (case ambiguous_selector_message matches (sel_target sel) of
              Some message \<Rightarrow> Some ((message, False), db)
            | None \<Rightarrow>
                (case foldl keep_step (Some (db, 0, 0)) matches of
                   None \<Rightarrow> None
                 | Some (db', kept, stale) \<Rightarrow>
                     if kept = 0 then Some ((KeptNothing stale, False), db')
                     else Some ((Kept kept stale, True), db')))))"

section \<open>The gate, row by row\<close>

text \<open>Whether the policy guards a deletion, read from the directory files alone, and whether the gate
  holds it.\<close>

definition guard_at :: "gate_config \<Rightarrow> planned_action \<Rightarrow> delete_direction \<Rightarrow> bool" where
  "guard_at cfg a d = requires_approval (fst (gate_resolve cfg a [])) d"

definition held_direction :: "gate_config \<Rightarrow> database \<Rightarrow> base_map \<Rightarrow> planned_action \<Rightarrow> delete_direction option" where
  "held_direction cfg db B a =
    opt_filter (\<lambda>d. (guard_at cfg a d \<or> gc_forced cfg) \<and>
        \<not> matching_delete_approval db (pa_path a) d (delete_fingerprint a B))
      (action_delete_direction (pa_action a))"

abbreviation cache_faithful :: "gate_config \<Rightarrow> config_cache \<Rightarrow> bool" where
  "cache_faithful cfg \<equiv> cache_agrees (gc_parse cfg) (gc_read cfg) (gc_local_root cfg)"

lemma gate_resolve_faithful:
  assumes "cache_faithful cfg cache"
  shows "fst (gate_resolve cfg a cache) = fst (gate_resolve cfg a [])"
    and "cache_faithful cfg (snd (gate_resolve cfg a cache))"
proof -
  have empty: "cache_faithful cfg []" by (simp add: cache_agrees_def)
  show "fst (gate_resolve cfg a cache) = fst (gate_resolve cfg a [])"
    unfolding gate_resolve_def resolve_settings_def resolve_fold_agrees(1)[OF assms] resolve_fold_agrees(1)[OF empty] ..
  show "cache_faithful cfg (snd (gate_resolve cfg a cache))"
    unfolding gate_resolve_def resolve_settings_def using assms by (rule resolve_fold_agrees(2))
qed

text \<open>The step on the gate alone.\<close>

definition gate_row ::
  "gate_config \<Rightarrow> database \<Rightarrow> base_map \<Rightarrow> u64 \<Rightarrow> withheld_ages \<Rightarrow> delete_gate \<Rightarrow> planned_action \<Rightarrow> delete_gate" where
  "gate_row cfg db B now previous gate a =
    (case action_delete_direction (pa_action a) of None \<Rightarrow> gate
     | Some d \<Rightarrow>
         if \<not> guard_at cfg a d \<and> \<not> gc_forced cfg then gate
         else if matching_delete_approval db (pa_path a) d (delete_fingerprint a B)
              then gate\<lparr>dg_consumed := dg_consumed gate @ [(pa_path a, d)]\<rparr>
              else withhold cfg B now previous a d (delete_fingerprint a B) (guard_at cfg a d) gate)"

lemma gate_step_row:
  assumes "cache_faithful cfg cache"
  shows "fst (gate_step cfg db B now previous (gate, cache) a) = gate_row cfg db B now previous gate a"
    and "cache_faithful cfg (snd (gate_step cfg db B now previous (gate, cache) a))"
  using gate_resolve_faithful[OF assms, of a] assms
  by (auto simp: gate_step_def gate_row_def guard_at_def Let_def case_prod_beta split: option.split)

lemma gate_fold_rows:
  assumes "cache_faithful cfg cache"
  shows "fst (foldl (gate_step cfg db B now previous) (gate, cache) pl) = foldl (gate_row cfg db B now previous) gate pl"
  using assms
proof (induction pl arbitrary: gate cache)
  case (Cons a pl)
  from gate_step_row[OF Cons.prems] Cons.IH show ?case
    by (cases "gate_step cfg db B now previous (gate, cache) a") (metis foldl_Cons fst_conv snd_conv)
qed simp

definition held_age :: "base_map \<Rightarrow> u64 \<Rightarrow> withheld_ages \<Rightarrow> planned_action \<Rightarrow> delete_direction \<Rightarrow> u64" where
  "held_age B now previous a d =
    (case opt_filter (\<lambda>stored. wd_fingerprint stored = delete_fingerprint a B) (hm_get previous (pa_path a, d)) of
       Some stored \<Rightarrow> wd_first_seen stored | None \<Rightarrow> now)"

definition held_item :: "gate_config \<Rightarrow> database \<Rightarrow> base_map \<Rightarrow> u64 \<Rightarrow> withheld_ages \<Rightarrow> planned_action \<Rightarrow> pending_deletion option" where
  "held_item cfg db B now previous a =
    map_option (\<lambda>d. \<lparr>pd_path = pa_path a, pd_direction = d, pd_entity_kind = pa_entity_kind a,
        pd_fingerprint = delete_fingerprint a B, pd_detected = now, pd_first_seen = held_age B now previous a d,
        pd_subtree_files = (if pa_entity_kind a = Directory then Some (fst (subtree_totals B (pa_path a))) else None),
        pd_subtree_bytes = (if pa_entity_kind a = Directory then Some (snd (subtree_totals B (pa_path a))) else None),
        pd_disposal = disposal_of d (gc_local_delete_mode cfg)\<rparr>)
      (held_direction cfg db B a)"

definition withheld_of :: "pending_deletion \<Rightarrow> withheld_deletion" where
  "withheld_of p = \<lparr>wd_path = pd_path p, wd_direction = pd_direction p, wd_fingerprint = pd_fingerprint p,
     wd_first_seen = pd_first_seen p\<rparr>"

lemma gate_row_pending:
  "dg_pending (gate_row cfg db B now previous gate a) =
     dg_pending gate @ (case held_item cfg db B now previous a of Some p \<Rightarrow> [p] | None \<Rightarrow> [])"
  "dg_withheld (gate_row cfg db B now previous gate a) =
     dg_withheld gate @ (case held_item cfg db B now previous a of Some p \<Rightarrow> [withheld_of p] | None \<Rightarrow> [])"
  "dg_withheld_paths (gate_row cfg db B now previous gate a) =
     dg_withheld_paths gate \<union> (case held_item cfg db B now previous a of Some p \<Rightarrow> {pd_path p} | None \<Rightarrow> {})"
  by (auto simp: gate_row_def withhold_def held_item_def held_age_def held_direction_def opt_filter_def withheld_of_def
      Let_def map_prod_def case_prod_beta split: option.split)

lemma gate_rows_pending:
  "dg_pending (foldl (gate_row cfg db B now previous) gate pl) =
     dg_pending gate @ List.map_filter (held_item cfg db B now previous) pl"
  "dg_withheld (foldl (gate_row cfg db B now previous) gate pl) =
     dg_withheld gate @ map withheld_of (List.map_filter (held_item cfg db B now previous) pl)"
  "dg_withheld_paths (foldl (gate_row cfg db B now previous) gate pl) =
     dg_withheld_paths gate \<union> pd_path ` set (List.map_filter (held_item cfg db B now previous) pl)"
  by (induction pl arbitrary: gate) (simp_all add: gate_row_pending map_filter_simps split: option.split)

lemma decided_gate:
  "fst (decide_delete_gate cfg db now pl B) = foldl (gate_row cfg db B now (previous_ages db)) empty_gate pl"
  by (simp add: decide_delete_gate_def Let_def gate_fold_rows cache_agrees_def)

lemma decided_pending:
  "dg_pending (fst (decide_delete_gate cfg db now pl B)) = List.map_filter (held_item cfg db B now (previous_ages db)) pl"
  "dg_withheld (fst (decide_delete_gate cfg db now pl B)) =
     map withheld_of (List.map_filter (held_item cfg db B now (previous_ages db)) pl)"
  "dg_withheld_paths (fst (decide_delete_gate cfg db now pl B)) =
     pd_path ` set (List.map_filter (held_item cfg db B now (previous_ages db)) pl)"
  unfolding decided_gate gate_rows_pending by (simp_all add: empty_gate_def)

lemma pending_iff:
  "p \<in> set (dg_pending (fst (decide_delete_gate cfg db now pl B))) \<longleftrightarrow>
   (\<exists>a\<in>set pl. held_item cfg db B now (previous_ages db) a = Some p)"
  by (auto simp: decided_pending set_map_filter)

lemma held_item_fields:
  assumes "held_item cfg db B now ages a = Some p"
  shows "pd_path p = pa_path a" "held_direction cfg db B a = Some (pd_direction p)"
    "pd_fingerprint p = delete_fingerprint a B" "pd_first_seen p = held_age B now ages a (pd_direction p)"
    "action_delete_direction (pa_action a) = Some (pd_direction p)"
  using assms by (auto simp: held_item_def held_direction_def)

lemma held_item_None: "held_item cfg db B now ages a = None \<longleftrightarrow> held_direction cfg db B a = None"
  by (simp add: held_item_def)

text \<open>On a plan with one row per path a row runs exactly when the gate does not hold that row.\<close>

lemma same_row: "distinct (map pa_path pl) \<Longrightarrow> a \<in> set pl \<Longrightarrow> b \<in> set pl \<Longrightarrow> pa_path a = pa_path b \<Longrightarrow> a = b"
  by (auto simp: distinct_map dest: inj_onD)

lemma gate_runs_iff:
  assumes "distinct (map pa_path pl)" "a \<in> set pl"
  shows "gate_runs (fst (decide_delete_gate cfg db now pl B)) a \<longleftrightarrow> held_direction cfg db B a = None"
proof -
  have "pa_path a \<in> dg_withheld_paths (fst (decide_delete_gate cfg db now pl B)) \<longleftrightarrow> held_direction cfg db B a \<noteq> None"
  proof
    assume "pa_path a \<in> dg_withheld_paths (fst (decide_delete_gate cfg db now pl B))"
    then obtain b p where b: "b \<in> set pl" "held_item cfg db B now (previous_ages db) b = Some p" "pd_path p = pa_path a"
      by (auto simp: decided_pending set_map_filter)
    with held_item_fields(1)[OF b(2)] same_row[OF assms(1,2) b(1)] have "a = b" by simp
    with b(2) show "held_direction cfg db B a \<noteq> None" by (auto simp: held_item_def)
  next
    assume "held_direction cfg db B a \<noteq> None"
    then obtain p where p: "held_item cfg db B now (previous_ages db) a = Some p"
      using held_item_None by fastforce
    then have "p \<in> set (List.map_filter (held_item cfg db B now (previous_ages db)) pl)"
      using assms(2) by (force simp: set_map_filter)
    with held_item_fields(1)[OF p] show "pa_path a \<in> dg_withheld_paths (fst (decide_delete_gate cfg db now pl B))"
      unfolding decided_pending by (metis imageI)
  qed
  then show ?thesis by (auto simp: gate_runs_def held_direction_def opt_filter_def)
qed

section \<open>Standing approvals\<close>

lemma matching_upsert:
  assumes "plain_path p" "plain_path q"
  shows "matching_delete_approval (upsert_delete_approval db p d f t) q e g \<longleftrightarrow>
    (if p = q \<and> d = e then f = g else matching_delete_approval db q e g)"
  using index_key_inj[OF assms]
  by (auto simp: matching_delete_approval_def upsert_delete_approval_def hm.get_insert direction_token.as_str_inj)

lemma matching_delete:
  assumes "plain_path p" "plain_path q"
  shows "matching_delete_approval (delete_delete_approval db p d) q e g \<longleftrightarrow>
    \<not> (p = q \<and> d = e) \<and> matching_delete_approval db q e g"
  using index_key_inj[OF assms]
  by (auto simp: matching_delete_approval_def delete_delete_approval_def hm.get_remove direction_token.as_str_inj)

lemma matching_answers:
  assumes "list_all (\<lambda>p. plain_path (pd_path p)) ps" "plain_path q" "distinct (map pd_path ps)"
  shows "matching_delete_approval (foldl (answer_step True t) db ps) q e g \<longleftrightarrow>
    (case find (\<lambda>p. pd_path p = q \<and> pd_direction p = e) ps of
       Some p \<Rightarrow> pd_fingerprint p = g | None \<Rightarrow> matching_delete_approval db q e g)"
  using assms
proof (induction ps arbitrary: db)
  case (Cons p ps)
  have "find (\<lambda>p'. pd_path p' = q \<and> pd_direction p' = e) ps = None" if "pd_path p = q"
    using Cons.prems(3) that by (auto simp: find_None_iff image_iff)
  with Cons show ?case
    by (auto simp: answer_step_def matching_upsert split: option.split)
qed simp

lemma select_all: "sel_target (select_pending ps ''all'' False) = None" "sel_matches (select_pending ps ''all'' False) = ps"
proof -
  have "ascii_lower ''all'' = ''all''" by code_simp
  then show "sel_target (select_pending ps ''all'' False) = None" "sel_matches (select_pending ps ''all'' False) = ps"
    by (simp_all add: select_pending_def)
qed

lemma approve_all:
  "apply_approval_command db t ps (Some ''all'') False True direction =
     (if ps = [] then Some (NothingPending, db)
      else Some (Approved (length ps), foldl (answer_step True t) db ps))"
  by (simp add: apply_approval_command_def select_all Let_def ambiguous_selector_message_def)

lemma pending_of_plan:
  assumes "distinct (map pa_path pl)"
  shows "distinct (map pd_path (dg_pending (fst (decide_delete_gate cfg db now pl B))))"
    and "list_all (\<lambda>a. plain_path (pa_path a)) pl \<Longrightarrow>
      list_all (\<lambda>p. plain_path (pd_path p)) (dg_pending (fst (decide_delete_gate cfg db now pl B)))"
proof -
  have "distinct (map pd_path (List.map_filter (held_item cfg db B now ages) pl)) \<and>
      pd_path ` set (List.map_filter (held_item cfg db B now ages) pl) \<subseteq> pa_path ` set pl" for ages
    using assms
  proof (induction pl)
    case (Cons a pl)
    show ?case
    proof (cases "held_item cfg db B now ages a")
      case (Some p)
      have "pd_path p \<notin> pd_path ` set (List.map_filter (held_item cfg db B now ages) pl)"
        using Cons held_item_fields(1)[OF Some] by auto
      with Cons Some held_item_fields(1)[OF Some] show ?thesis by (auto simp: map_filter_simps)
    qed (use Cons in \<open>auto simp: map_filter_simps\<close>)
  qed (simp add: map_filter_simps)
  then show "distinct (map pd_path (dg_pending (fst (decide_delete_gate cfg db now pl B))))"
    unfolding decided_pending by blast
  show "list_all (\<lambda>p. plain_path (pd_path p)) (dg_pending (fst (decide_delete_gate cfg db now pl B)))"
    if "list_all (\<lambda>a. plain_path (pa_path a)) pl"
    using that unfolding list_all_iff by (metis held_item_fields(1) pending_iff)
qed

lemma decided_database:
  "db_delete_approvals (snd (decide_delete_gate cfg db now pl B)) = db_delete_approvals db"
  "db_file_index (snd (decide_delete_gate cfg db now pl B)) = db_file_index db"
  by (auto simp: decide_delete_gate_def replace_withheld_deletions_def Let_def split: option.split)

lemma matching_frame: "db_delete_approvals db = db_delete_approvals db' \<Longrightarrow>
  matching_delete_approval db p d f = matching_delete_approval db' p d f"
  by (simp add: matching_delete_approval_def)

section \<open>The ages\<close>

lemma find_pending:
  assumes "distinct (map pd_path ps)" "p \<in> set ps"
  shows "find (\<lambda>q. pd_path q = pd_path p \<and> pd_direction q = pd_direction p) ps = Some p"
proof (cases "find (\<lambda>q. pd_path q = pd_path p \<and> pd_direction q = pd_direction p) ps")
  case None
  with assms(2) show ?thesis by (auto simp: find_None_iff)
next
  case (Some q)
  then have "q \<in> set ps" "pd_path q = pd_path p" by (auto simp: find_Some_iff)
  with assms have "q = p" by (auto simp: distinct_map dest: inj_onD)
  with Some show ?thesis by simp
qed

lemma find_append: "find P (xs @ ys) = or_else (find P xs) (find P ys)"
  by (induction xs) auto

lemma foldl_insert_find:
  "distinct (map f ws) \<Longrightarrow> hm_get (foldl (\<lambda>m w. hm_insert (f w) w m) [] ws) k = find (\<lambda>w. f w = k) ws"
proof (induction ws rule: rev_induct)
  case (snoc w ws)
  then have "find (\<lambda>w'. f w' = k) ws = None" if "f w = k"
    using that by (auto simp: find_None_iff image_iff)
  with snoc show ?case by (auto simp: hm.get_insert find_append or_else_def split: option.split)
qed simp

definition stored_withheld :: "withheld_deletion \<Rightarrow> withheld_deletion" where
  "stored_withheld w = w\<lparr>wd_first_seen := clamp_u64 (saturate_i64 (wd_first_seen w))\<rparr>"

lemma load_stored_withheld:
  "list_all (\<lambda>w. plain_path (wd_path w)) ws \<Longrightarrow> load_withheld_rows (map withheld_row ws) = Some (map stored_withheld ws)"
  by (induction ws)
    (simp_all add: withheld_row_def stored_withheld_def direction_token.from_token_as_str read_index_key_plain)

lemma stored_age_exact: "uint x < 2 ^ 63 \<Longrightarrow> clamp_u64 (saturate_i64 x) = x"
  by (simp add: clamp_u64_def saturate_i64_def min_def max_def)

lemma decided_store:
  "snd (decide_delete_gate cfg db now pl B) =
    (let g = fst (decide_delete_gate cfg db now pl B) in
     if length (dg_withheld g) = length (previous_ages db) \<and>
       list_all (\<lambda>item. hm_get (previous_ages db) (wd_path item, wd_direction item) = Some item) (dg_withheld g)
     then db else (case replace_withheld_deletions db (dg_withheld g) of Some db' \<Rightarrow> db' | None \<Rightarrow> db))"
  by (auto simp: decide_delete_gate_def Let_def)

lemma ages_after_gate:
  fixes cfg db now pl B
  defines "g \<equiv> fst (decide_delete_gate cfg db now pl B)"
  assumes "distinct (map pa_path pl)" "list_all (\<lambda>a. plain_path (pa_path a)) pl" "p \<in> set (dg_pending g)"
    and "uint (pd_first_seen p) < 2 ^ 63"
    and "db_withheld db' = db_withheld (snd (decide_delete_gate cfg db now pl B))"
  shows "hm_get (previous_ages db') (pd_path p, pd_direction p) = Some (withheld_of p)"
proof -
  have items: "dg_withheld g = map withheld_of (dg_pending g)" by (simp add: g_def decided_pending)
  have dist: "distinct (map pd_path (dg_pending g))" and plain: "list_all (\<lambda>p. plain_path (pd_path p)) (dg_pending g)"
    using pending_of_plan(1)[OF assms(2)] pending_of_plan(2)[OF assms(2,3)] by (simp_all add: g_def)
  have same: "previous_ages db' = previous_ages (snd (decide_delete_gate cfg db now pl B))"
    using assms(6) by (simp add: previous_ages_def load_withheld_deletions_def)
  let ?unchanged = "length (dg_withheld g) = length (previous_ages db) \<and>
    list_all (\<lambda>item. hm_get (previous_ages db) (wd_path item, wd_direction item) = Some item) (dg_withheld g)"
  show ?thesis
  proof (cases ?unchanged)
    case True
    then have "snd (decide_delete_gate cfg db now pl B) = db"
      unfolding decided_store g_def[symmetric] Let_def by simp
    moreover have "hm_get (previous_ages db) (pd_path p, pd_direction p) = Some (withheld_of p)"
      using True assms(4) unfolding items list_all_iff by (auto simp: withheld_of_def)
    ultimately show ?thesis by (simp add: same)
  next
    case False
    let ?rows = "map withheld_row (dg_withheld g)"
    have "distinct (map (fst \<circ> fst) ?rows)"
    proof -
      have "map (fst \<circ> fst) ?rows = map index_key (map pd_path (dg_pending g))"
        by (simp add: items withheld_row_def withheld_of_def)
      moreover have "inj_on index_key (set (map pd_path (dg_pending g)))"
        using plain by (auto simp: inj_on_def list_all_iff index_key_inj)
      ultimately show ?thesis using dist by (simp only: distinct_map)
    qed
    then have "distinct (map fst ?rows)" by (metis distinct_map map_map)
    then have "db_withheld (snd (decide_delete_gate cfg db now pl B)) = ?rows"
      unfolding decided_store g_def[symmetric] Let_def if_not_P[OF False]
      by (simp add: replace_withheld_deletions_def Let_def)
    moreover have "list_all (\<lambda>w. plain_path (wd_path w)) (dg_withheld g)"
      using plain by (auto simp: items list_all_iff withheld_of_def)
    ultimately have "load_withheld_deletions db' = Some (map stored_withheld (dg_withheld g))"
      by (simp add: load_withheld_deletions_def assms(6) load_stored_withheld del: map_map)
    moreover have "distinct (map (\<lambda>w. (wd_path w, wd_direction w)) (map stored_withheld (dg_withheld g)))"
    proof -
      have "map (fst \<circ> (\<lambda>w. (wd_path w, wd_direction w))) (map stored_withheld (dg_withheld g)) = map pd_path (dg_pending g)"
        by (simp add: items stored_withheld_def withheld_of_def)
      with dist show ?thesis by (metis distinct_map map_map)
    qed
    ultimately have "hm_get (previous_ages db') (pd_path p, pd_direction p) =
        find (\<lambda>w. (wd_path w, wd_direction w) = (pd_path p, pd_direction p)) (map stored_withheld (dg_withheld g))"
      unfolding previous_ages_def by (simp add: foldl_insert_find)
    also have "\<dots> = map_option (stored_withheld \<circ> withheld_of)
        (find (\<lambda>q. pd_path q = pd_path p \<and> pd_direction q = pd_direction p) (dg_pending g))"
      by (simp add: items find_map_option stored_withheld_def withheld_of_def comp_def option.map_comp)
    also have "find (\<lambda>q. pd_path q = pd_path p \<and> pd_direction q = pd_direction p) (dg_pending g) = Some p"
      using dist assms(4) by (rule find_pending)
    also have "map_option (stored_withheld \<circ> withheld_of) (Some p) = Some (withheld_of p)"
      using stored_age_exact[OF assms(5)] by (simp add: stored_withheld_def withheld_of_def)
    finally show ?thesis .
  qed
qed

section \<open>Keeping\<close>

definition as_shown :: "database \<Rightarrow> pending_deletion \<Rightarrow> bool" where
  "as_shown db p \<longleftrightarrow> stored_fingerprint db (pd_path p) = Some (Some (pd_fingerprint p))"

lemma as_shown_look:
  "index_sound db \<Longrightarrow> plain_path (pd_path p) \<Longrightarrow>
   as_shown db p \<longleftrightarrow> Option.bind (index_look db (pd_path p)) record_fingerprint = Some (pd_fingerprint p)"
  by (simp add: as_shown_def stored_fingerprint_def get_record_sound(1))

lemma revoke_both_simps [simp]:
  "db_file_index (revoke_both db p) = db_file_index db"
  by (simp add: revoke_both_def delete_delete_approval_def)

lemma matching_revoke_all:
  assumes "list_all plain_path ps" "plain_path q"
  shows "matching_delete_approval (foldl revoke_both db ps) q e g \<longleftrightarrow> q \<notin> set ps \<and> matching_delete_approval db q e g"
  using assms
proof (induction ps arbitrary: db)
  case (Cons p ps)
  then have "matching_delete_approval (revoke_both db p) q e g \<longleftrightarrow> q \<noteq> p \<and> matching_delete_approval db q e g"
    by (cases e) (auto simp: revoke_both_def matching_delete)
  with Cons show ?case by auto
qed simp

lemma revoke_all_index: "db_file_index (foldl revoke_both db ps) = db_file_index db"
  by (induction ps arbitrary: db) simp_all

lemma look_frame: "db_file_index db = db_file_index db' \<Longrightarrow> index_look db q = index_look db' q"
  by (simp add: index_look_def get_record_def)

lemma purge_approvals: "db_delete_approvals (foldl purge_record db ps) = db_delete_approvals db"
  by (induction ps arbitrary: db) (simp_all add: purge_record_def)

definition covered_by :: "database \<Rightarrow> pending_deletion list \<Rightarrow> path \<Rightarrow> bool" where
  "covered_by db ps q \<longleftrightarrow> (\<exists>p\<in>set ps. as_shown db p \<and> starts_with q (pd_path p))"

lemma keep_fold:
  assumes "index_sound db" "list_all (\<lambda>p. plain_path (pd_path p)) ps"
  shows "\<exists>db' k s. foldl keep_step (Some (db, kept, stale)) ps = Some (db', k, s) \<and> index_sound db' \<and>
    (kept < k \<longleftrightarrow> (\<exists>p\<in>set ps. as_shown db p)) \<and> kept \<le> k \<and>
    (\<forall>q. plain_path q \<longrightarrow>
      index_look db' q = (if covered_by db ps q then None else index_look db q) \<and>
      (\<forall>e g. matching_delete_approval db' q e g \<longleftrightarrow>
        matching_delete_approval db q e g \<and> \<not> (index_look db q \<noteq> None \<and> covered_by db ps q)))"
  using assms
proof (induction ps arbitrary: db kept stale)
  case Nil
  then show ?case by (simp add: covered_by_def)
next
  case (Cons p ps)
  have plain: "plain_path (pd_path p)" "list_all (\<lambda>p. plain_path (pd_path p)) ps" using Cons.prems(2) by simp_all
  have found: "stored_fingerprint db (pd_path p) = Some (Option.bind (index_look db (pd_path p)) record_fingerprint)"
    using get_record_sound(1)[OF Cons.prems(1) plain(1)] by (simp add: stored_fingerprint_def)
  show ?case
  proof (cases "as_shown db p")
    case False
    then have step: "keep_step (Some (db, kept, stale)) p = Some (db, kept, stale + 1)"
      using found by (simp add: keep_step_def as_shown_def)
    have "covered_by db (p # ps) q \<longleftrightarrow> covered_by db ps q" for q using False by (simp add: covered_by_def)
    with Cons.IH[OF Cons.prems(1) plain(2), of kept "stale + 1"] False show ?thesis
      by (simp only: foldl_Cons step) simp
  next
    case True
    define purged where "purged = snd (purge_subtree_records db (pd_path p))"
    define db1 where "db1 = foldl revoke_both (fst (purge_subtree_records db (pd_path p))) purged"
    have step: "keep_step (Some (db, kept, stale)) p = Some (db1, kept + 1, stale)"
      using True by (simp add: keep_step_def as_shown_def db1_def purged_def case_prod_beta)
    note purge = purge_subtree_look[OF Cons.prems(1), where root = "pd_path p", folded purged_def]
    have sound: "index_sound db1"
      using purge(1) by (rule index_sound_frame) (simp add: db1_def revoke_all_index)
    have look: "index_look db1 q = (if starts_with q (pd_path p) then None else index_look db q)" if "plain_path q" for q
      using purge(2)[OF that] look_frame[of db1 "fst (purge_subtree_records db (pd_path p))" q]
      by (simp add: db1_def revoke_all_index)
    have match: "matching_delete_approval db1 q e g \<longleftrightarrow> matching_delete_approval db q e g \<and>
        \<not> (index_look db q \<noteq> None \<and> starts_with q (pd_path p))" if "plain_path q" for q e g
    proof -
      have "list_all plain_path purged" using purge(3) by (simp add: list_all_iff)
      moreover have "db_delete_approvals (fst (purge_subtree_records db (pd_path p))) = db_delete_approvals db"
        by (simp add: purge_subtree_records_def Let_def purge_approvals)
      ultimately show ?thesis
        using that purge(3) matching_frame[of "fst (purge_subtree_records db (pd_path p))" db q e g]
        by (auto simp: db1_def matching_revoke_all)
    qed
    have shown: "as_shown db1 p' \<longleftrightarrow> as_shown db p' \<and> \<not> starts_with (pd_path p') (pd_path p)"
      if "p' \<in> set ps" for p'
    proof -
      have p': "plain_path (pd_path p')" using that plain(2) by (simp add: list_all_iff)
      show ?thesis
        unfolding as_shown_look[OF sound p'] as_shown_look[OF Cons.prems(1) p'] look[OF p'] by simp
    qed
    have cover: "covered_by db (p # ps) q \<longleftrightarrow> starts_with q (pd_path p) \<or> covered_by db1 ps q" for q
      using True shown unfolding covered_by_def by (auto intro: prefix_order.trans)
    from Cons.IH[OF sound plain(2), of "kept + 1" stale] obtain db' k s where
      "foldl keep_step (Some (db1, kept + 1, stale)) ps = Some (db', k, s)" "index_sound db'" "kept + 1 \<le> k"
      and q: "\<forall>q. plain_path q \<longrightarrow>
        index_look db' q = (if covered_by db1 ps q then None else index_look db1 q) \<and>
        (\<forall>e g. matching_delete_approval db' q e g \<longleftrightarrow>
          matching_delete_approval db1 q e g \<and> \<not> (index_look db1 q \<noteq> None \<and> covered_by db1 ps q))" by blast
    moreover have "index_look db' q = (if covered_by db (p # ps) q then None else index_look db q)"
      "matching_delete_approval db' q e g \<longleftrightarrow>
        matching_delete_approval db q e g \<and> \<not> (index_look db q \<noteq> None \<and> covered_by db (p # ps) q)"
      if "plain_path q" for q e g
      using q that look[OF that] match[OF that, of e g] by (auto simp: cover)
    ultimately show ?thesis using True by (simp only: foldl_Cons step) (auto intro!: exI)
  qed
qed

section \<open>Properties\<close>

text \<open>C5: a planned deletion runs exactly when it is authorised: the directory files leave its direction
  unguarded at its path and no replacement forces approval, or a standing approval names this path, this
  direction and the fingerprint of the entity it removes.\<close>

theorem deletions_run_only_when_authorised:
  assumes "distinct (map pa_path pl)" "a \<in> set pl" "action_delete_direction (pa_action a) = Some d"
  shows "gate_runs (fst (decide_delete_gate cfg db now pl B)) a \<longleftrightarrow>
    \<not> guard_at cfg a d \<and> \<not> gc_forced cfg \<or>
    matching_delete_approval db (pa_path a) d (delete_fingerprint a B)"
  unfolding gate_runs_iff[OF assms(1,2)] using assms(3) by (auto simp: held_direction_def opt_filter_def)

text \<open>Nothing the gate skips goes unseen: the deletions it holds are the pending list, one entry each
  with the fingerprint an approval must name, no other action is skipped, and the event cursor moves only
  when nothing is pending.\<close>

theorem held_deletions_are_pending:
  assumes "distinct (map pa_path pl)"
  shows "let gate = fst (decide_delete_gate cfg db now pl B) in
    (\<forall>a\<in>set pl. gate_runs gate a \<longleftrightarrow> (\<forall>p\<in>set (dg_pending gate). pd_path p \<noteq> pa_path a)) \<and>
    distinct (map pd_path (dg_pending gate)) \<and>
    (\<forall>p\<in>set (dg_pending gate). \<exists>a\<in>set pl. pa_path a = pd_path p \<and>
      action_delete_direction (pa_action a) = Some (pd_direction p) \<and> pd_fingerprint p = delete_fingerprint a B) \<and>
    (cursor_after_gate gate (Some c) = Some c \<longleftrightarrow> dg_pending gate = [])"
proof -
  define gate where "gate = fst (decide_delete_gate cfg db now pl B)"
  have paths: "dg_withheld_paths gate = pd_path ` set (dg_pending gate)" by (simp add: gate_def decided_pending)
  have row: "\<exists>a\<in>set pl. pa_path a = pd_path p \<and> action_delete_direction (pa_action a) = Some (pd_direction p) \<and>
      pd_fingerprint p = delete_fingerprint a B" if "p \<in> set (dg_pending gate)" for p
    using that held_item_fields unfolding gate_def pending_iff by metis
  have "gate_runs gate a \<longleftrightarrow> (\<forall>p\<in>set (dg_pending gate). pd_path p \<noteq> pa_path a)" if a: "a \<in> set pl" for a
  proof -
    have "action_delete_direction (pa_action a) \<noteq> None" if p: "p \<in> set (dg_pending gate)" "pd_path p = pa_path a" for p
      using row[OF p(1)] same_row[OF assms(1) a] p(2) by force
    then show ?thesis by (auto simp: gate_runs_def paths image_iff)
  qed
  moreover have "cursor_after_gate gate (Some c) = Some c \<longleftrightarrow> dg_pending gate = []"
    by (auto simp: cursor_after_gate_def paths)
  moreover have "distinct (map pd_path (dg_pending gate))"
    unfolding gate_def using assms by (rule pending_of_plan(1))
  ultimately show ?thesis using row unfolding Let_def gate_def[symmetric] by blast
qed

text \<open>C38: an approval releases exactly what was shown. After approving the whole queue a later pass, with
  any plan and any baseline, runs a deletion that was pending as soon as it plans it again, provided it
  still removes what the queue showed, and holds it again when it does not (unless nothing guards it).\<close>

theorem approval_releases_what_was_shown:
  assumes "distinct (map pa_path pl)" "list_all (\<lambda>a. plain_path (pa_path a)) pl"
    and "p \<in> set (dg_pending (fst (decide_delete_gate cfg db now pl B)))"
    and "apply_approval_command (snd (decide_delete_gate cfg db now pl B)) t
      (dg_pending (fst (decide_delete_gate cfg db now pl B))) (Some ''all'') False True None = Some (reply, db')"
    and "distinct (map pa_path pl')" "a \<in> set pl'" "pa_path a = pd_path p"
    and "action_delete_direction (pa_action a) = Some (pd_direction p)"
  shows "gate_runs (fst (decide_delete_gate cfg' db' now' pl' B')) a \<longleftrightarrow>
    delete_fingerprint a B' = pd_fingerprint p \<or> \<not> guard_at cfg' a (pd_direction p) \<and> \<not> gc_forced cfg'"
proof -
  let ?ps = "dg_pending (fst (decide_delete_gate cfg db now pl B))"
  have db': "db' = foldl (answer_step True t) (snd (decide_delete_gate cfg db now pl B)) ?ps"
    using assms(3,4) by (auto simp: approve_all split: if_splits)
  have plain: "list_all (\<lambda>p. plain_path (pd_path p)) ?ps" and dist: "distinct (map pd_path ?ps)"
    using pending_of_plan[OF assms(1)] assms(2) by blast+
  have "plain_path (pa_path a)" using plain assms(3,7) by (simp add: list_all_iff)
  from matching_answers[OF plain this dist] assms(7) find_pending[OF dist assms(3)]
  have "matching_delete_approval db' (pa_path a) (pd_direction p) g \<longleftrightarrow> pd_fingerprint p = g" for g
    unfolding db' by simp
  from this[of "delete_fingerprint a B'"]
  have "held_direction cfg' db' B' a = None \<longleftrightarrow>
      pd_fingerprint p = delete_fingerprint a B' \<or> \<not> guard_at cfg' a (pd_direction p) \<and> \<not> gc_forced cfg'"
    by (simp add: held_direction_def opt_filter_def assms(8))
  then show ?thesis unfolding gate_runs_iff[OF assms(5,6)] by (simp only: eq_commute)
qed

text \<open>The age a pending deletion shows is the age of the deletion: while a later pass holds the same
  deletion it shows the first date again, whatever passes ran in between left the stored list alone, and a
  deletion with another fingerprint starts anew.\<close>

theorem pending_age_is_kept:
  assumes "distinct (map pa_path pl)" "list_all (\<lambda>a. plain_path (pa_path a)) pl"
    and "p \<in> set (dg_pending (fst (decide_delete_gate cfg db now pl B)))" "uint (pd_first_seen p) < 2 ^ 63"
    and "db_withheld db' = db_withheld (snd (decide_delete_gate cfg db now pl B))"
    and "p' \<in> set (dg_pending (fst (decide_delete_gate cfg' db' now' pl' B')))"
    and "pd_path p' = pd_path p" "pd_direction p' = pd_direction p"
  shows "pd_first_seen p' = (if pd_fingerprint p' = pd_fingerprint p then pd_first_seen p else now')"
proof -
  from assms(6) obtain a where a: "held_item cfg' db' B' now' (previous_ages db') a = Some p'"
    unfolding pending_iff by blast
  note fields = held_item_fields[OF a]
  have "hm_get (previous_ages db') (pa_path a, pd_direction p') = Some (withheld_of p)"
    using ages_after_gate[OF assms(1-5)] assms(7,8) fields(1) by simp
  then show ?thesis
    unfolding fields(4) held_age_def by (simp add: opt_filter_def withheld_of_def fields(3)[symmetric] eq_commute)
qed

text \<open>Refusing a deletion ends it. Once a pending deletion that still matched what was shown has been
  kept, the index that is loaded has no record at its path or beneath it, so whatever the two sides hold no
  plan deletes or purges anything there, and no approval of a path that was purged is left to act on the
  content that comes back. Records outside the kept subtrees stay as they were.\<close>

theorem keeping_ends_the_deletion:
  assumes "db_reachable db" "list_all (\<lambda>p. plain_path (pd_path p)) pending"
    and "apply_keep_command db pending (Some selector) literal_path = Some ((reply, True), db')"
    and "p \<in> set (sel_matches (select_pending pending selector literal_path))" "as_shown db p"
  shows "\<exists>B'. load_index db' = Some B' \<and>
    (\<forall>q. starts_with q (pd_path p) \<longrightarrow> hm_get B' q = None) \<and>
    (\<forall>L R nm a. a \<in> set (plan_sync_entities L R B' nm) \<and> is_destructive (pa_action a) \<longrightarrow>
      \<not> starts_with (pa_path a) (pd_path p)) \<and>
    (\<forall>q d f. plain_path q \<and> starts_with q (pd_path p) \<and> index_look db q \<noteq> None \<longrightarrow>
      \<not> matching_delete_approval db' q d f) \<and>
    (\<forall>q. plain_path q \<and> (\<forall>m\<in>set (sel_matches (select_pending pending selector literal_path)).
        \<not> starts_with q (pd_path m)) \<longrightarrow> hm_get B' q = index_look db q)"
proof -
  let ?ms = "sel_matches (select_pending pending selector literal_path)"
  have plain: "list_all (\<lambda>p. plain_path (pd_path p)) ?ms"
    using assms(2) by (auto simp: select_pending_def Let_def list_all_iff)
  from keep_fold[OF reachable_sound[OF assms(1)] plain, of 0 0] obtain db1 k s where
    fold: "foldl keep_step (Some (db, 0, 0)) ?ms = Some (db1, k, s)" and sound: "index_sound db1" and
    q: "\<And>q. plain_path q \<Longrightarrow> index_look db1 q = (if covered_by db ?ms q then None else index_look db q)"
       "\<And>q e g. plain_path q \<Longrightarrow> matching_delete_approval db1 q e g \<longleftrightarrow>
         matching_delete_approval db q e g \<and> \<not> (index_look db q \<noteq> None \<and> covered_by db ?ms q)" by blast
  have "db' = db1"
    using assms(3,4) fold by (auto simp: apply_keep_command_def Let_def split: option.splits if_splits)
  obtain B' where B': "load_index db1 = Some B'"
    "\<And>p. hm_get B' p = (if plain_path p then index_look db1 p else None)"
    using load_index_sound[OF sound] by blast
  have gone: "hm_get B' r = None" if "starts_with r (pd_path p)" for r
    using that assms(4,5) B'(2)[of r] q(1)[of r] by (auto simp: covered_by_def)
  moreover have "\<not> starts_with (pa_path a) (pd_path p)"
    if "a \<in> set (plan_sync_entities L R B' nm)" "is_destructive (pa_action a)" for L R nm a
    using plan_destructive_source[OF that] gone[of "pa_path a"] entity_untracked_not_destructive that(2) by fastforce
  moreover have "\<not> matching_delete_approval db1 r d f"
    if "plain_path r" "starts_with r (pd_path p)" "index_look db r \<noteq> None" for r d f
    using that q(2)[OF that(1)] assms(4,5) by (auto simp: covered_by_def)
  moreover have "hm_get B' r = index_look db r" if "plain_path r" "\<forall>m\<in>set ?ms. \<not> starts_with r (pd_path m)" for r
    using that B'(2)[of r] q(1)[of r] by (auto simp: covered_by_def)
  ultimately show ?thesis unfolding \<open>db' = db1\<close> using B'(1) by blast
qed

text \<open>Apre-approval is as narrow as an approval from the queue: when it writes anything, it writes one
  row, for the direction that was named and a path below the root, pinned to the fingerprint the index holds
  for that path.\<close>

theorem pre_approval_is_pinned_to_the_index:
  assumes "pre_approve_planned_deletion db t selector direction = Some (reply, db')"
  shows "db' = db \<and> (\<forall>shown. reply \<noteq> PreApproved shown) \<or>
    (\<exists>d p f. direction = Some d \<and> validate_relative_path_non_empty (parse_path selector) = Some p \<and> p \<noteq> [] \<and>
      stored_fingerprint db p = Some (Some f) \<and> db' = upsert_delete_approval db p d f t \<and>
      matching_delete_approval db' p d f)"
proof -
  have nonempty: "p \<noteq> []" if "validate_relative_path_non_empty q = Some p" for p q
    using that by (auto simp: validate_relative_path_non_empty_def)
  have match: "matching_delete_approval (upsert_delete_approval db p d f t) p d f" for p d f
    by (simp add: matching_delete_approval_def upsert_delete_approval_def hm.get_insert)
  show ?thesis
    using assms unfolding pre_approve_planned_deletion_def Let_def
    by (auto split: option.splits dest: nonempty simp: match)
qed

section \<open>Witnesses\<close>

definition gx_record :: file_record where
  "gx_record = \<lparr>fr_file_path = [Normal ''docs'', Normal ''a''], fr_entity_kind = File, fr_file_size = 5, fr_mtime = 3,
     fr_sha1_hash = Some ''h1'', fr_proton_id = Some ''v~n'', fr_sync_status = Synced\<rparr>"

definition gx_db :: database where "gx_db = upsert_record fresh_database gx_record"

definition gx_B :: base_map where "gx_B = [([Normal ''docs'', Normal ''a''], gx_record)]"

definition gx_config :: gate_config where
  "gx_config = \<lparr>gc_parse = dx_parse, gc_read = dx_read, gc_local_root = [RootDir],
     gc_default = \<lparr>es_remote = False, es_local = False\<rparr>, gc_local_delete_mode = TrashMode, gc_forced = False\<rparr>"

definition gx_action :: planned_action where
  "gx_action = pa_new [Normal ''docs'', Normal ''a''] LocalDelete File (Some ''v~n'')"

definition gx_pending :: pending_deletion where
  "gx_pending = \<lparr>pd_path = [Normal ''docs'', Normal ''a''], pd_direction = DeleteLocal, pd_entity_kind = File,
     pd_fingerprint = ''h1'', pd_detected = 9, pd_first_seen = 9, pd_subtree_files = None, pd_subtree_bytes = None,
     pd_disposal = DisposalRecoverable\<rparr>"

lemma gx_gate: "dg_pending (fst (decide_delete_gate gx_config gx_db 9 [gx_action] gx_B)) = [gx_pending]"
  by code_simp

lemma gx_facts: "pa_path gx_action = pd_path gx_pending" "pa_path gx_action = [Normal ''docs'', Normal ''a'']"
  "action_delete_direction (pa_action gx_action) = Some DeleteLocal" "pd_direction gx_pending = DeleteLocal"
  "delete_fingerprint gx_action gx_B = pd_fingerprint gx_pending" "pd_path gx_pending = [Normal ''docs'', Normal ''a'']"
  "guard_at gx_config gx_action DeleteLocal" "\<not> matching_delete_approval gx_db [Normal ''docs'', Normal ''a''] DeleteLocal ''h1''"
  "pd_fingerprint gx_pending = ''h1''" "pd_first_seen gx_pending = 9"
  by code_simp+

lemma gx_plain: "plain_path [Normal ''docs'', Normal ''a'']"
  unfolding plain_path_def by (intro exI[of _ "[''docs'', ''a'']"]) (simp add: plain_name_def)

lemma gx_reachable: "db_reachable gx_db"
proof -
  have "plain_path (mutation_path (UpsertRow gx_record))" using gx_plain by (simp add: gx_record_def)
  then have "db_reachable (apply_mutation fresh_database (UpsertRow gx_record))"
    by (intro db_reachable.statement[OF db_reachable.fresh] db_step.mutation)
  then show ?thesis by (simp add: gx_db_def)
qed

theorem deletions_run_witness: "\<not> gate_runs (fst (decide_delete_gate gx_config gx_db 9 [gx_action] gx_B)) gx_action"
  using deletions_run_only_when_authorised[of "[gx_action]" gx_action DeleteLocal gx_config gx_db 9 gx_B]
  by (simp add: gx_facts)

theorem held_deletions_witness:
  "cursor_after_gate (fst (decide_delete_gate gx_config gx_db 9 [gx_action] gx_B)) (Some ()) = None"
  using held_deletions_are_pending[of "[gx_action]" gx_config gx_db 9 gx_B "()"] gx_gate
  by (simp add: Let_def cursor_after_gate_def split: if_splits)

theorem approval_witness:
  "\<exists>reply db'. apply_approval_command (snd (decide_delete_gate gx_config gx_db 9 [gx_action] gx_B)) 10
      [gx_pending] (Some ''all'') False True None = Some (reply, db') \<and>
    gate_runs (fst (decide_delete_gate gx_config db' 20 [gx_action] gx_B)) gx_action"
proof -
  obtain reply db' where cmd: "apply_approval_command (snd (decide_delete_gate gx_config gx_db 9 [gx_action] gx_B)) 10
      [gx_pending] (Some ''all'') False True None = Some (reply, db')"
    by (simp add: approve_all)
  have "gate_runs (fst (decide_delete_gate gx_config db' 20 [gx_action] gx_B)) gx_action"
    using approval_releases_what_was_shown[of "[gx_action]" gx_pending gx_config gx_db 9 gx_B 10 reply db'
        "[gx_action]" gx_action gx_config 20 gx_B] cmd gx_plain
    by (simp add: gx_gate gx_facts)
  with cmd show ?thesis by blast
qed

lemma gx_gate_again:
  "dg_pending (fst (decide_delete_gate gx_config (snd (decide_delete_gate gx_config gx_db 9 [gx_action] gx_B)) 20
     [gx_action] gx_B)) = [gx_pending\<lparr>pd_detected := 20\<rparr>]"
  by code_simp

theorem pending_age_witness:
  "pd_first_seen (hd (dg_pending (fst (decide_delete_gate gx_config
      (snd (decide_delete_gate gx_config gx_db 9 [gx_action] gx_B)) 20 [gx_action] gx_B)))) = 9"
  using pending_age_is_kept[of "[gx_action]" gx_pending gx_config gx_db 9 gx_B
      "snd (decide_delete_gate gx_config gx_db 9 [gx_action] gx_B)" "gx_pending\<lparr>pd_detected := 20\<rparr>"
      gx_config 20 "[gx_action]" gx_B] gx_plain
  by (simp add: gx_gate gx_gate_again gx_facts)

lemma gx_keep:
  "map_option (\<lambda>((_, changed), db'). (changed, db')) (apply_keep_command gx_db [gx_pending] (Some ''docs/a'') True)
     = Some (True, fresh_database)"
  "sel_matches (select_pending [gx_pending] ''docs/a'' True) = [gx_pending]"
  by code_simp+

theorem keeping_witness:
  "\<exists>reply db' B'. apply_keep_command gx_db [gx_pending] (Some ''docs/a'') True = Some ((reply, True), db') \<and>
    load_index db' = Some B' \<and> hm_get B' [Normal ''docs'', Normal ''a''] = None"
proof -
  from gx_keep(1) obtain reply db' where cmd:
    "apply_keep_command gx_db [gx_pending] (Some ''docs/a'') True = Some ((reply, True), db')" by auto
  have "as_shown gx_db gx_pending" by code_simp
  moreover have "list_all (\<lambda>p. plain_path (pd_path p)) [gx_pending]" using gx_plain by (simp add: gx_facts)
  ultimately obtain B' where "load_index db' = Some B'" "\<forall>q. starts_with q (pd_path gx_pending) \<longrightarrow> hm_get B' q = None"
    using keeping_ends_the_deletion[OF gx_reachable _ cmd, of gx_pending] gx_keep(2) by auto
  with cmd show ?thesis by (auto simp: gx_facts)
qed

theorem pre_approval_witness:
  "\<exists>reply db'. pre_approve_planned_deletion gx_db 4 ''docs/a'' (Some DeleteLocal) = Some (reply, db') \<and>
    matching_delete_approval db' [Normal ''docs'', Normal ''a''] DeleteLocal ''h1''"
proof -
  have reply: "map_option fst (pre_approve_planned_deletion gx_db 4 ''docs/a'' (Some DeleteLocal)) = Some (PreApproved ''docs/a'')"
    and "validate_relative_path_non_empty (parse_path ''docs/a'') = Some [Normal ''docs'', Normal ''a'']"
    and "stored_fingerprint gx_db [Normal ''docs'', Normal ''a''] = Some (Some ''h1'')"
    by code_simp+
  moreover from reply obtain db' where
    "pre_approve_planned_deletion gx_db 4 ''docs/a'' (Some DeleteLocal) = Some (PreApproved ''docs/a'', db')" by auto
  ultimately show ?thesis using pre_approval_is_pinned_to_the_index by fastforce
qed

end
