(* ===== verification/Unsyncable.thy ===== *)
theory Unsyncable
  imports Plan_Report Index_Store
begin

text \<open>
  The standing list of entities that cannot be synced: how a pass folds its evidence into it
  (\<^verbatim>\<open>record_unsyncable\<close> in \<^verbatim>\<open>src/daemon.rs\<close>) and the table that carries it over a restart
  (\<^verbatim>\<open>load_unsyncable_items\<close>, \<^verbatim>\<open>replace_unsyncable_items\<close> in \<^verbatim>\<open>src/index.rs\<close>). The set of paths already
  named in the log is left out.
\<close>

section \<open>The stored list\<close>

fun load_unsyncable_rows :: "(bytes \<times> bytes \<times> bytes \<times> int) list \<Rightarrow> unsyncable_item list option" where
  "load_unsyncable_rows [] = Some []"
| "load_unsyncable_rows ((key, kind, reason, first_seen) # rows) =
    (case entity_kind_from_str kind of None \<Rightarrow> None
     | Some k \<Rightarrow>
         map_option (\<lambda>items. \<lparr>ui_path = read_index_key key, ui_entity_kind = k, ui_reason = reason_from_token reason,
             ui_first_seen_epoch_secs = clamp_u64 first_seen\<rparr> # items) (load_unsyncable_rows rows))"

definition load_unsyncable_items :: "database \<Rightarrow> unsyncable_item list option" where
  "load_unsyncable_items db = load_unsyncable_rows (sort_key fst (db_unsyncable db))"

definition unsyncable_row :: "unsyncable_item \<Rightarrow> bytes \<times> bytes \<times> bytes \<times> int" where
  "unsyncable_row i =
    (index_key (ui_path i), entity_kind_as_str (ui_entity_kind i), reason_as_str (ui_reason i),
     saturate_i64 (ui_first_seen_epoch_secs i))"

definition replace_unsyncable_items :: "database \<Rightarrow> unsyncable_item list \<Rightarrow> database option" where
  "replace_unsyncable_items db items =
    (let rows = map unsyncable_row items in
     if distinct (map fst rows) then Some (db\<lparr>db_unsyncable := rows\<rparr>) else None)"

section \<open>Folding in a pass\<close>

record remote_map_shape =
  rs_remote_root_missing :: bool
  rs_full_snapshot :: bool

definition proves_absence :: "remote_map_shape \<Rightarrow> bool" where
  "proves_absence shape \<longleftrightarrow> rs_full_snapshot shape \<and> \<not> rs_remote_root_missing shape"

fun pass_proves_absence_of :: "unsyncable_origin \<Rightarrow> bool \<Rightarrow> bool" where
  "pass_proves_absence_of OriginLocal full_snapshot = True"
| "pass_proves_absence_of OriginRemote full_snapshot = full_snapshot"
| "pass_proves_absence_of OriginUnknown full_snapshot = full_snapshot"

definition superseded_paths :: "plan \<Rightarrow> path list" where
  "superseded_paths pl =
    concat (map (\<lambda>a. pa_path a # (case pa_destination_path a of Some d \<Rightarrow> [d] | None \<Rightarrow> []))
      (filter (\<lambda>a. pa_action a \<noteq> SkipUnsupported) pl))"

definition observed_items :: "plan \<Rightarrow> unsyncable_entry list \<Rightarrow> u64 \<Rightarrow> unsyncable_item list" where
  "observed_items pl local now =
    unsyncable_items pl now @
    map (\<lambda>e. \<lparr>ui_path = ue_relative_path e, ui_entity_kind = File, ui_reason = ue_reason e,
              ui_first_seen_epoch_secs = now\<rparr>) local"

definition item_stands :: "plan \<Rightarrow> unsyncable_item list \<Rightarrow> bool \<Rightarrow> unsyncable_item \<Rightarrow> bool" where
  "item_stands pl observed full_snapshot i \<longleftrightarrow>
    (if ui_path i \<in> set (map ui_path observed) then True
     else if ui_path i \<in> set (superseded_paths pl) then False
     else \<not> pass_proves_absence_of (reason_origin (ui_reason i)) full_snapshot)"

definition merge_observed :: "(path, unsyncable_item) hmap \<Rightarrow> unsyncable_item \<Rightarrow> (path, unsyncable_item) hmap" where
  "merge_observed m i =
    (case hm_get m (ui_path i) of
       Some old \<Rightarrow> hm_insert (ui_path i) (i\<lparr>ui_first_seen_epoch_secs := ui_first_seen_epoch_secs old\<rparr>) m
     | None \<Rightarrow> hm_insert (ui_path i) i m)"

text \<open>\<^verbatim>\<open>into_values\<close> of the ordered map.\<close>

definition btree_values :: "('k::linorder, 'v) hmap \<Rightarrow> 'v list" where
  "btree_values m = map (\<lambda>k. the (hm_get m k)) (btree_of (hm_keys m))"

definition merge_unsyncable ::
  "plan \<Rightarrow> unsyncable_entry list \<Rightarrow> bool \<Rightarrow> u64 \<Rightarrow> unsyncable_item list \<Rightarrow> unsyncable_item list" where
  "merge_unsyncable pl local full_snapshot now standing =
    (let observed = observed_items pl local now;
         kept = foldl (\<lambda>m i. hm_insert (ui_path i) i m) [] (filter (item_stands pl observed full_snapshot) standing)
     in btree_values (foldl merge_observed kept observed))"

text \<open>A write that fails is logged and changes nothing.\<close>

definition record_unsyncable ::
  "plan \<Rightarrow> unsyncable_entry list \<Rightarrow> bool \<Rightarrow> u64 \<Rightarrow> unsyncable_item list \<times> database \<Rightarrow> unsyncable_item list \<times> database" where
  "record_unsyncable pl local full_snapshot now st =
    (case st of (standing, db) \<Rightarrow>
       (let merged = merge_unsyncable pl local full_snapshot now standing in
        if merged = standing then (standing, db)
        else (merged, (case replace_unsyncable_items db merged of Some db' \<Rightarrow> db' | None \<Rightarrow> db))))"

section \<open>What the list holds\<close>

definition item_at :: "unsyncable_item list \<Rightarrow> path \<Rightarrow> unsyncable_item option" where
  "item_at items p = find (\<lambda>i. ui_path i = p) items"

lemma item_at_path: "item_at items p = Some i \<Longrightarrow> ui_path i = p \<and> i \<in> set items"
  by (auto simp: item_at_def find_Some_iff)

lemma item_at_None: "item_at items p = None \<longleftrightarrow> p \<notin> set (map ui_path items)"
  by (auto simp: item_at_def find_None_iff)

lemma item_at_mem: "distinct (map ui_path items) \<Longrightarrow> item_at items p = Some i \<longleftrightarrow> i \<in> set items \<and> ui_path i = p"
  by (induction items) (auto simp: item_at_def rev_image_eqI)

lemma item_at_filter:
  "distinct (map ui_path items) \<Longrightarrow>
    item_at (filter Q items) p = (case item_at items p of Some i \<Rightarrow> if Q i then Some i else None | None \<Rightarrow> None)"
proof (cases "item_at items p")
  case None
  then have "item_at (filter Q items) p = None" unfolding item_at_None by auto
  with None show ?thesis by simp
next
  assume d: "distinct (map ui_path items)"
  case (Some i)
  then have i: "i \<in> set items" "ui_path i = p" by (simp_all add: item_at_mem[OF d])
  show ?thesis
  proof (cases "Q i")
    case True
    with i have "item_at (filter Q items) p = Some i" by (simp add: item_at_mem distinct_map_filter[OF d])
    with Some True show ?thesis by simp
  next
    case False
    have "item_at (filter Q items) p = None"
      unfolding item_at_None using False i d by (auto dest: inj_onD simp: distinct_map)
    with Some False show ?thesis by simp
  qed
qed

text \<open>A map whose values are filed under their own path.\<close>

definition by_path :: "(path, unsyncable_item) hmap \<Rightarrow> bool" where
  "by_path m \<longleftrightarrow> hm_wf m \<and> (\<forall>p i. hm_get m p = Some i \<longrightarrow> ui_path i = p)"

lemma by_path_insert: "by_path m \<Longrightarrow> by_path (hm_insert (ui_path i) i m)"
  by (simp add: by_path_def hm.wf_insert hm.get_insert)

lemma kept_items:
  assumes "by_path m" "distinct (map ui_path items)"
  shows "by_path (foldl (\<lambda>m i. hm_insert (ui_path i) i m) m items) \<and>
    hm_get (foldl (\<lambda>m i. hm_insert (ui_path i) i m) m items) p =
      (case item_at items p of Some i \<Rightarrow> Some i | None \<Rightarrow> hm_get m p)"
  using assms
proof (induction items arbitrary: m)
  case (Cons i items)
  have "item_at items (ui_path i) = None" using Cons.prems(2) by (simp add: item_at_None)
  with Cons.IH[OF by_path_insert[OF Cons.prems(1)]] Cons.prems(2) show ?case
    by (auto simp: item_at_def hm.get_insert split: option.split)
qed (simp add: item_at_def)

lemma merge_observed_step:
  assumes "by_path m"
  shows "by_path (merge_observed m i)"
    and "hm_get (merge_observed m i) p = (if p = ui_path i
      then Some (i\<lparr>ui_first_seen_epoch_secs :=
        (case hm_get m p of Some old \<Rightarrow> ui_first_seen_epoch_secs old | None \<Rightarrow> ui_first_seen_epoch_secs i)\<rparr>)
      else hm_get m p)"
proof -
  have "ui_path (i\<lparr>ui_first_seen_epoch_secs := t\<rparr>) = ui_path i" for t by simp
  from by_path_insert[OF assms, of "i\<lparr>ui_first_seen_epoch_secs := t\<rparr>" for t, unfolded this] by_path_insert[OF assms]
  show "by_path (merge_observed m i)" by (simp add: merge_observed_def split: option.split)
qed (auto simp: merge_observed_def hm.get_insert split: option.split)

lemma merged_items:
  assumes "by_path m" "\<forall>i\<in>set items. ui_first_seen_epoch_secs i = now"
  shows "by_path (foldl merge_observed m items) \<and>
    hm_get (foldl merge_observed m items) p =
      (case item_at (rev items) p of
         Some i \<Rightarrow> Some (i\<lparr>ui_first_seen_epoch_secs :=
           (case hm_get m p of Some old \<Rightarrow> ui_first_seen_epoch_secs old | None \<Rightarrow> now)\<rparr>)
       | None \<Rightarrow> hm_get m p)"
  using assms(2)
proof (induction items rule: rev_induct)
  case Nil
  with assms(1) show ?case by (simp add: item_at_def)
next
  case (snoc i items)
  then have IH: "by_path (foldl merge_observed m items)" by simp
  have age: "(case hm_get (foldl merge_observed m items) p of Some old \<Rightarrow> ui_first_seen_epoch_secs old | None \<Rightarrow> now) =
      (case hm_get m p of Some old \<Rightarrow> ui_first_seen_epoch_secs old | None \<Rightarrow> now)"
    using snoc by (auto split: option.split)
  have now: "ui_first_seen_epoch_secs i = now" using snoc.prems by simp
  show ?case
  proof (cases "p = ui_path i")
    case True
    have "item_at (rev (items @ [i])) p = Some i" using True by (simp add: item_at_def)
    then show ?thesis
      using merge_observed_step(1)[OF IH, of i] merge_observed_step(2)[OF IH, of i p, unfolded now age] True by simp
  next
    case False
    then have "item_at (rev (items @ [i])) p = item_at (rev items) p" by (simp add: item_at_def)
    then show ?thesis using merge_observed_step[OF IH, of i] False snoc by simp
  qed
qed

lemma btree_values_by_path:
  assumes "by_path m"
  shows "item_at (btree_values m) p = hm_get m p" "map ui_path (btree_values m) = btree_of (hm_keys m)"
proof -
  have path: "ui_path (the (hm_get m k)) = k" if "k \<in> set (hm_keys m)" for k
    using assms that by (auto simp: by_path_def hm_contains_iff[symmetric] hm_contains_def)
  then show keys: "map ui_path (btree_values m) = btree_of (hm_keys m)"
    by (simp add: btree_values_def) (rule map_idI, simp add: path)
  show "item_at (btree_values m) p = hm_get m p"
  proof (cases "hm_get m p")
    case None
    then have "p \<notin> set (hm_keys m)" by (simp add: hm_contains_iff[symmetric] hm_contains_def)
    with keys None show ?thesis by (simp add: item_at_None)
  next
    case (Some i)
    then have k: "p \<in> set (hm_keys m)" by (simp add: hm_contains_iff[symmetric] hm_contains_def)
    then have "i \<in> set (btree_values m)" using Some by (force simp: btree_values_def)
    moreover have "distinct (map ui_path (btree_values m))" unfolding keys by simp
    moreover have "ui_path i = p" using assms Some by (simp add: by_path_def)
    ultimately show ?thesis using item_at_mem Some by metis
  qed
qed

lemma observed_now: "\<forall>i\<in>set (observed_items pl local now). ui_first_seen_epoch_secs i = now"
  by (auto simp: observed_items_def unsyncable_items_def)

lemma merge_unsyncable_map:
  assumes "distinct (map ui_path standing)"
  shows "\<exists>m. by_path m \<and> merge_unsyncable pl local full now standing = btree_values m \<and>
    (\<forall>p. hm_get m p = (case item_at (rev (observed_items pl local now)) p of
       Some i \<Rightarrow> Some (i\<lparr>ui_first_seen_epoch_secs :=
         (case item_at standing p of Some old \<Rightarrow> ui_first_seen_epoch_secs old | None \<Rightarrow> now)\<rparr>)
     | None \<Rightarrow> (case item_at standing p of
         Some i \<Rightarrow> if p \<in> set (superseded_paths pl) \<or> pass_proves_absence_of (reason_origin (ui_reason i)) full
           then None else Some i
       | None \<Rightarrow> None)))"
proof -
  define obs where "obs = observed_items pl local now"
  define kept where "kept = filter (item_stands pl obs full) standing"
  define m0 where "m0 = foldl (\<lambda>m i. hm_insert (ui_path i) i m) [] kept"
  have "by_path []" by (simp add: by_path_def hm_wf_def)
  moreover have "distinct (map ui_path kept)" using assms by (simp add: kept_def distinct_map_filter)
  ultimately have m0: "by_path m0" "\<And>p. hm_get m0 p = item_at kept p"
    using kept_items[of "[]" kept] by (simp_all add: m0_def split: option.split)
  note merged = merged_items[OF m0(1) observed_now[of pl local now, folded obs_def]]
  have at: "item_at kept p = (case item_at standing p of Some i \<Rightarrow> if item_stands pl obs full i then Some i else None | None \<Rightarrow> None)" for p
    using item_at_filter[OF assms] by (simp add: kept_def)
  have stands: "item_stands pl obs full i \<longleftrightarrow> p \<in> set (map ui_path obs) \<or>
      \<not> (p \<in> set (superseded_paths pl) \<or> pass_proves_absence_of (reason_origin (ui_reason i)) full)"
    if "item_at standing p = Some i" for p i
    using item_at_path[OF that] by (auto simp: item_stands_def)
  have seen: "item_at (rev obs) p = None \<longleftrightarrow> p \<notin> set (map ui_path obs)" for p by (simp add: item_at_None)
  show ?thesis
    unfolding obs_def[symmetric]
  proof (intro exI[of _ "foldl merge_observed m0 obs"] conjI allI)
    show "merge_unsyncable pl local full now standing = btree_values (foldl merge_observed m0 obs)"
      by (simp add: merge_unsyncable_def Let_def obs_def m0_def kept_def)
    show "by_path (foldl merge_observed m0 obs)" using merged by blast
  next
    fix p
    show "hm_get (foldl merge_observed m0 obs) p = (case item_at (rev obs) p of
       Some i \<Rightarrow> Some (i\<lparr>ui_first_seen_epoch_secs :=
         (case item_at standing p of Some old \<Rightarrow> ui_first_seen_epoch_secs old | None \<Rightarrow> now)\<rparr>)
     | None \<Rightarrow> (case item_at standing p of
         Some i \<Rightarrow> if p \<in> set (superseded_paths pl) \<or> pass_proves_absence_of (reason_origin (ui_reason i)) full
           then None else Some i
       | None \<Rightarrow> None))"
      using merged[of p] m0(2)[of p] at[of p] stands[of p] seen[of p]
      by (auto split: option.splits if_splits)
  qed
qed

text \<open>The list of entities that cannot be synced follows the evidence of each pass. What the pass saw is on
  it with what the pass saw of it and the date it was first seen; what it did not see stays, unless the pass
  planned a real action for the path or looked everywhere its reason can come from. Nothing else is on it,
  and it is in path order without repetition.\<close>

theorem unsyncable_list_follows_the_evidence:
  assumes "distinct (map ui_path standing)"
  shows "sorted (map ui_path (merge_unsyncable pl local full now standing)) \<and>
    distinct (map ui_path (merge_unsyncable pl local full now standing)) \<and>
    item_at (merge_unsyncable pl local full now standing) p =
      (case item_at (rev (observed_items pl local now)) p of
         Some i \<Rightarrow> Some (i\<lparr>ui_first_seen_epoch_secs :=
           (case item_at standing p of Some old \<Rightarrow> ui_first_seen_epoch_secs old | None \<Rightarrow> now)\<rparr>)
       | None \<Rightarrow> (case item_at standing p of
           Some i \<Rightarrow> if p \<in> set (superseded_paths pl) \<or> pass_proves_absence_of (reason_origin (ui_reason i)) full
             then None else Some i
         | None \<Rightarrow> None))"
proof -
  obtain m where m: "by_path m" "merge_unsyncable pl local full now standing = btree_values m"
    "\<forall>p. hm_get m p = (case item_at (rev (observed_items pl local now)) p of
       Some i \<Rightarrow> Some (i\<lparr>ui_first_seen_epoch_secs :=
         (case item_at standing p of Some old \<Rightarrow> ui_first_seen_epoch_secs old | None \<Rightarrow> now)\<rparr>)
     | None \<Rightarrow> (case item_at standing p of
         Some i \<Rightarrow> if p \<in> set (superseded_paths pl) \<or> pass_proves_absence_of (reason_origin (ui_reason i)) full
           then None else Some i
       | None \<Rightarrow> None))"
    using merge_unsyncable_map[OF assms] by blast
  show ?thesis
    unfolding m(2) btree_values_by_path[OF m(1)] using m(3) by simp
qed

section \<open>Witnesses\<close>

definition ux_standing :: "unsyncable_item list" where
  "ux_standing = [\<lparr>ui_path = [Normal ''a''], ui_entity_kind = File, ui_reason = LocalSocket, ui_first_seen_epoch_secs = 3\<rparr>,
     \<lparr>ui_path = [Normal ''b''], ui_entity_kind = File, ui_reason = RemoteNotDownloadable, ui_first_seen_epoch_secs = 4\<rparr>]"

theorem unsyncable_list_witness:
  "item_at (merge_unsyncable [] [\<lparr>ue_relative_path = [Normal ''a''], ue_reason = LocalSymlink\<rparr>] False 9 ux_standing)
     [Normal ''a''] = Some \<lparr>ui_path = [Normal ''a''], ui_entity_kind = File, ui_reason = LocalSymlink,
       ui_first_seen_epoch_secs = 3\<rparr> \<and>
   item_at (merge_unsyncable [] [\<lparr>ue_relative_path = [Normal ''a''], ue_reason = LocalSymlink\<rparr>] False 9 ux_standing)
     [Normal ''b''] = Some (ux_standing ! 1)"
proof -
  have "distinct (map ui_path ux_standing)" by (simp add: ux_standing_def)
  from unsyncable_list_follows_the_evidence[OF this] show ?thesis
    by (simp add: ux_standing_def item_at_def observed_items_def unsyncable_items_def superseded_paths_def)
qed

end
