(* ===== verification/Executor_World.thy ===== *)
theory Executor_World
  imports Delete_Gate
begin

text \<open>
  What the executor of a pass is built from (\<^verbatim>\<open>src/daemon.rs\<close>): calls to the Proton CLI client and the
  file system, the failures they report, the guard on local paths, the failure counter of a pass and
  its checkpoints. The outside is a state of any type \<open>'w\<close>; a call may change it and answers as it
  likes, so every look at a folder or at the cancel flag may differ from the one before.
\<close>

section \<open>Calls and failures\<close>

datatype failure_kind = NodeNotFoundFailure | AuthFailureKind | RootUnavailableFailure | OtherFailure

record failure =
  fl_kind :: failure_kind
  fl_text :: bytes

definition is_node_not_found_error :: "failure \<Rightarrow> bool" where
  "is_node_not_found_error e \<longleftrightarrow> fl_kind e = NodeNotFoundFailure"

definition is_root_unavailable_error :: "failure \<Rightarrow> bool" where
  "is_root_unavailable_error e \<longleftrightarrow> fl_kind e = RootUnavailableFailure"

definition is_auth_failure_error :: "failure \<Rightarrow> bool" where
  "is_auth_failure_error e \<longleftrightarrow> fl_kind e = AuthFailureKind"

text \<open>What stands at a path, without following a link.\<close>

datatype path_metadata = RegularFile u64 | OtherObject | NothingThere

record download_request =
  dr_remote_path :: path
  dr_destination :: path
  dr_expected_sha1 :: "bytes option"

type_synonym ('w, 'a) call = "'w \<Rightarrow> (failure + 'a) \<times> 'w"

record 'w outside =
  ow_cancelled :: "'w \<Rightarrow> bool \<times> 'w"
  ow_ensure_root_available :: "('w, unit) call"
  ow_ensure_root_directory :: "('w, unit) call"
  ow_ensure_directory :: "path \<Rightarrow> ('w, unit) call"
  ow_upload :: "path \<Rightarrow> path \<Rightarrow> ('w, unit) call"
  ow_download :: "path \<Rightarrow> path \<Rightarrow> ('w, unit) call"
  ow_download_many :: "download_request list \<Rightarrow> 'w \<Rightarrow> (failure + unit) list \<times> 'w"
  ow_delete :: "path \<Rightarrow> ('w, unit) call"
  ow_rename_or_move :: "path \<Rightarrow> path \<Rightarrow> ('w, unit) call"
  ow_canonicalize :: "path \<Rightarrow> 'w \<Rightarrow> path option \<times> 'w"
  ow_ensure_parent_directory :: "path \<Rightarrow> ('w, unit) call"
  ow_ensure_directory_below :: "path \<Rightarrow> ('w, unit) call"
  ow_file_state :: "path \<Rightarrow> ('w, local_file_state) call"
  ow_directory_state :: "path \<Rightarrow> ('w, local_directory_state) call"
  ow_rename :: "path \<Rightarrow> path \<Rightarrow> ('w, unit) call"
  ow_exists :: "path \<Rightarrow> 'w \<Rightarrow> bool \<times> 'w"
  ow_dispose :: "local_delete_mode \<Rightarrow> path \<Rightarrow> entity_kind \<Rightarrow> ('w, unit) call"
  ow_symlink_metadata :: "path \<Rightarrow> ('w, path_metadata) call"
  ow_copy_into_new_file :: "path \<Rightarrow> path \<Rightarrow> ('w, unit) call"
  ow_read_to_string :: "path \<Rightarrow> 'w \<Rightarrow> bytes option \<times> 'w"
  ow_epoch_secs :: "'w \<Rightarrow> u64 \<times> 'w"

section \<open>The running state of an action\<close>

text \<open>What outlives an action that fails: the outside, the writes whose echo the watcher must ignore and
  the paths the next pass looks at again.\<close>

record 'w run_state =
  rs_world :: 'w
  rs_authored :: "path set"
  rs_rescan :: "path set"

type_synonym ('w, 'a) act = "'w run_state \<Rightarrow> (failure + 'a) \<times> 'w run_state"

definition act_return :: "'a \<Rightarrow> ('w, 'a) act" where
  "act_return x = (\<lambda>s. (Inr x, s))"

definition act_fail :: "failure \<Rightarrow> ('w, 'a) act" where
  "act_fail e = (\<lambda>s. (Inl e, s))"

definition act_bind :: "('w, 'a) act \<Rightarrow> ('a \<Rightarrow> ('w, 'b) act) \<Rightarrow> ('w, 'b) act" where
  "act_bind m f = (\<lambda>s. case m s of (Inl e, s') \<Rightarrow> (Inl e, s') | (Inr x, s') \<Rightarrow> f x s')"

definition act_call :: "('w, 'a) call \<Rightarrow> ('w, 'a) act" where
  "act_call f = (\<lambda>s. case f (rs_world s) of (r, w) \<Rightarrow> (r, s\<lparr>rs_world := w\<rparr>))"

definition act_look :: "('w \<Rightarrow> 'a \<times> 'w) \<Rightarrow> ('w, 'a) act" where
  "act_look f = (\<lambda>s. case f (rs_world s) of (x, w) \<Rightarrow> (Inr x, s\<lparr>rs_world := w\<rparr>))"

definition act_authored :: "path \<Rightarrow> ('w, unit) act" where
  "act_authored p = (\<lambda>s. (Inr (), s\<lparr>rs_authored := insert p (rs_authored s)\<rparr>))"

definition act_rescan :: "path \<Rightarrow> ('w, unit) act" where
  "act_rescan p = (\<lambda>s. (Inr (), s\<lparr>rs_rescan := insert p (rs_rescan s)\<rparr>))"

text \<open>\<^verbatim>\<open>match call { Ok, Err }\<close> where the code looks at the failure itself.\<close>

definition act_try :: "('w, 'a) act \<Rightarrow> ('w, failure + 'a) act" where
  "act_try m = (\<lambda>s. case m s of (r, s') \<Rightarrow> (Inr r, s'))"

lemma act_simps [simp]:
  "act_bind (act_return x) f = f x"
  "act_bind (act_fail e) f = act_fail e"
  "act_return x s = (Inr x, s)" "act_fail e s = (Inl e, s)"
  by (auto simp: act_bind_def act_return_def act_fail_def)

lemma act_bind_Inr: "act_bind m f s = (Inr y, s'') \<longleftrightarrow> (\<exists>x s'. m s = (Inr x, s') \<and> f x s' = (Inr y, s''))"
  by (auto simp: act_bind_def split: prod.split sum.split)

lemma act_bind_Inl: "act_bind m f s = (Inl e, s'') \<longleftrightarrow>
    m s = (Inl e, s'') \<or> (\<exists>x s'. m s = (Inr x, s') \<and> f x s' = (Inl e, s''))"
  by (auto simp: act_bind_def split: prod.split sum.split)

section \<open>Guards on local paths\<close>

definition canonical_escapes :: "path \<Rightarrow> path option \<Rightarrow> bool" where
  "canonical_escapes canonical_root canonical =
    (case canonical of Some c \<Rightarrow> \<not> starts_with c canonical_root | None \<Rightarrow> True)"

fun first_canonical :: "(path \<Rightarrow> 'w \<Rightarrow> path option \<times> 'w) \<Rightarrow> path list \<Rightarrow> 'w \<Rightarrow> path option \<times> 'w" where
  "first_canonical canonicalize [] w = (None, w)"
| "first_canonical canonicalize (ancestor # rest) w =
    (case canonicalize ancestor w of
       (Some canonical, w') \<Rightarrow> (Some canonical, w')
     | (None, w') \<Rightarrow> first_canonical canonicalize rest w')"

definition local_write_escapes_root :: "'w outside \<Rightarrow> path \<Rightarrow> path \<Rightarrow> 'w \<Rightarrow> bool \<times> 'w" where
  "local_write_escapes_root ow local_root destination w =
    (case ow_canonicalize ow local_root w of
       (None, w') \<Rightarrow> (True, w')
     | (Some canonical_root, w') \<Rightarrow>
         (case first_canonical (ow_canonicalize ow) (ancestors destination) w' of
            (canonical, w'') \<Rightarrow> (canonical_escapes canonical_root canonical, w'')))"

definition safe_local_path :: "'w outside \<Rightarrow> path \<Rightarrow> path \<Rightarrow> 'w \<Rightarrow> path option \<times> 'w" where
  "safe_local_path ow local_root relative w =
    (case validate_relative_path_non_empty relative of
       None \<Rightarrow> (None, w)
     | Some safe \<Rightarrow>
         (let destination = join_path local_root safe in
          case local_write_escapes_root ow local_root destination w of
            (True, w') \<Rightarrow> (None, w')
          | (False, w') \<Rightarrow> (Some destination, w')))"

definition safe_remote_path :: "path \<Rightarrow> path \<Rightarrow> path option" where
  "safe_remote_path remote_root relative =
    map_option (join_path remote_root) (validate_relative_path_non_empty relative)"

definition descendant_index_paths :: "path \<Rightarrow> base_map \<Rightarrow> path list" where
  "descendant_index_paths directory_path B = filter (is_strict_descendant directory_path) (hm_keys B)"

section \<open>Failures of a pass\<close>

definition failed_items_reported :: nat where "failed_items_reported = 20"
definition consecutive_failure_limit :: nat where "consecutive_failure_limit = 20"
definition failed_item_error_limit :: nat where "failed_item_error_limit = 500"

definition truncate_error :: "bytes \<Rightarrow> bytes" where
  "truncate_error e = truncate_for_display e failed_item_error_limit"

record failed_item =
  fi_path :: path
  fi_action :: sync_action
  fi_error :: bytes

record pass_failures =
  pf_items :: "failed_item list"
  pf_count :: nat
  pf_consecutive :: nat
  pf_any_success :: bool
  pf_auth_failure :: bool

definition no_failures :: pass_failures where
  "no_failures = \<lparr>pf_items = [], pf_count = 0, pf_consecutive = 0, pf_any_success = False, pf_auth_failure = False\<rparr>"

definition record_failure :: "planned_action \<Rightarrow> failure \<Rightarrow> pass_failures \<Rightarrow> pass_failures" where
  "record_failure a e pf =
    pf\<lparr>pf_items := (if length (pf_items pf) < failed_items_reported
         then pf_items pf @ [\<lparr>fi_path = pa_path a, fi_action = pa_action a, fi_error = truncate_error (fl_text e)\<rparr>]
         else pf_items pf),
       pf_count := pf_count pf + 1, pf_consecutive := pf_consecutive pf + 1,
       pf_auth_failure := (pf_auth_failure pf \<or> is_auth_failure_error e)\<rparr>"

definition note_success :: "pass_failures \<Rightarrow> pass_failures" where
  "note_success pf = pf\<lparr>pf_any_success := True, pf_consecutive := 0\<rparr>"

definition breaker_tripped :: "pass_failures \<Rightarrow> bool" where
  "breaker_tripped pf \<longleftrightarrow> \<not> pf_any_success pf \<and> consecutive_failure_limit \<le> pf_consecutive pf"

datatype pass_outcome = PassClean | PassPartial nat

definition failures_outcome :: "pass_failures \<Rightarrow> pass_outcome" where
  "failures_outcome pf = (if pf_count pf = 0 then PassClean else PassPartial (pf_count pf))"

section \<open>Checkpoints\<close>

text \<open>The summaries a commit records, one per synced file it upserts whose text still hashes to the agreed
  digest. The file may have changed since; then it is left out.\<close>

record pass_config =
  pc_local_root :: path
  pc_remote_root :: path
  pc_remote_root_key :: path
  pc_local_delete_mode :: local_delete_mode
  pc_download_batch_size :: nat
  pc_sha1_hex :: "bytes \<Rightarrow> bytes"
  pc_skip_destructive :: bool

fun collect_agreed_summaries ::
  "pass_config \<Rightarrow> 'w outside \<Rightarrow> index_mutation list \<Rightarrow> 'w \<Rightarrow> (path \<times> bytes \<times> line_summary) list \<times> 'w" where
  "collect_agreed_summaries cfg ow [] w = ([], w)"
| "collect_agreed_summaries cfg ow (m # ms) w =
    (let skip = collect_agreed_summaries cfg ow ms in
     case m of
       PurgeRow _ \<Rightarrow> skip w
     | UpsertRow r \<Rightarrow>
         if fr_sync_status r \<noteq> Synced \<or> fr_entity_kind r \<noteq> File then skip w
         else (case fr_sha1_hash r of
             None \<Rightarrow> skip w
           | Some digest \<Rightarrow>
               (case safe_local_path ow (pc_local_root cfg) (fr_file_path r) w of
                  (None, w1) \<Rightarrow> skip w1
                | (Some absolute, w1) \<Rightarrow>
                    (case ow_symlink_metadata ow absolute w1 of
                       (Inr (RegularFile len), w2) \<Rightarrow>
                         if unat len \<le> max_summary_bytes
                         then (case ow_read_to_string ow absolute w2 of
                             (None, w3) \<Rightarrow> skip w3
                           | (Some contents, w3) \<Rightarrow>
                               if pc_sha1_hex cfg contents \<noteq> digest then skip w3
                               else (case summary_of (pc_sha1_hex cfg) contents of
                                   None \<Rightarrow> skip w3
                                 | Some summary \<Rightarrow>
                                     (case skip w3 of (rows, w4) \<Rightarrow> ((fr_file_path r, digest, summary) # rows, w4))))
                         else skip w2
                     | (_, w2) \<Rightarrow> skip w2))))"

fun store_agreed_summaries ::
  "'w outside \<Rightarrow> (path \<times> bytes \<times> line_summary) list \<Rightarrow> database \<Rightarrow> 'w \<Rightarrow> database \<times> 'w" where
  "store_agreed_summaries ow [] db w = (db, w)"
| "store_agreed_summaries ow ((p, digest, summary) # rows) db w =
    (case ow_epoch_secs ow w of (now, w') \<Rightarrow>
       store_agreed_summaries ow rows (store_agreed_summary db p digest summary now) w')"

definition consume_approvals :: "database \<Rightarrow> (path \<times> delete_direction) list \<Rightarrow> database" where
  "consume_approvals db cs = foldl (\<lambda>db (p, d). delete_delete_approval db p d) db cs"

end
