(* ===== verification/Executor_Actions.thy ===== *)
theory Executor_Actions
  imports Executor_World
begin

text \<open>
  The arms of the executor (\<^verbatim>\<open>execute_action\<close> in \<^verbatim>\<open>src/daemon.rs\<close>): what each planned action asks of the
  outside, in order, and the index mutations and consumed approvals it queues once its side effect has
  landed. Progress rows and the pass history are left out.
\<close>

section \<open>What an action queues\<close>

record action_result =
  ar_mutations :: "index_mutation list"
  ar_consumed :: "(path \<times> delete_direction) list"
  ar_vanished :: nat

definition queued :: "index_mutation list \<Rightarrow> action_result" where
  "queued ms = \<lparr>ar_mutations = ms, ar_consumed = [], ar_vanished = 0\<rparr>"

definition vanished_node :: action_result where
  "vanished_node = \<lparr>ar_mutations = [], ar_consumed = [], ar_vanished = 1\<rparr>"

record exec_context =
  xc_config :: pass_config
  xc_local_entities :: local_map
  xc_local_files :: "(path, local_file_state) hmap"
  xc_remote_entities :: remote_map
  xc_base :: base_map
  xc_gate :: delete_gate
  xc_planned_remote_directories :: "path list"

definition planned_failure :: "bytes \<Rightarrow> path \<Rightarrow> bytes \<Rightarrow> failure" where
  "planned_failure what p problem =
    \<lparr>fl_kind = OtherFailure, fl_text = ''planned '' @ what @ '' for '' @ wire_path p @ problem\<rparr>"

definition skip_if_node_vanished :: "('w, unit) act \<Rightarrow> ('w, bool) act" where
  "skip_if_node_vanished m =
    act_bind (act_try m) (\<lambda>r. case r of
        Inr _ \<Rightarrow> act_return True
      | Inl e \<Rightarrow> if is_node_not_found_error e then act_return False else act_fail e)"

definition recorded_id :: "exec_context \<Rightarrow> planned_action \<Rightarrow> bytes option" where
  "recorded_id xc a = or_else (pa_remote_id a) (Option.bind (hm_get (xc_base xc) (pa_path a)) fr_proton_id)"

abbreviation local_root_of :: "exec_context \<Rightarrow> path" where
  "local_root_of xc \<equiv> pc_local_root (xc_config xc)"

definition look_safe_local :: "'w outside \<Rightarrow> exec_context \<Rightarrow> path \<Rightarrow> ('w, path option) act" where
  "look_safe_local ow xc p = act_look (safe_local_path ow (local_root_of xc) p)"

definition ensure_remote_parent :: "'w outside \<Rightarrow> path list \<Rightarrow> path \<Rightarrow> ('w, unit) act" where
  "ensure_remote_parent ow planned p =
    (case path_parent p of
       Some parent \<Rightarrow>
         if parent \<noteq> [] \<and> parent \<notin> set planned then act_call (ow_ensure_directory ow parent) else act_return ()
     | None \<Rightarrow> act_return ())"

section \<open>Transfers\<close>

definition execute_upload :: "'w outside \<Rightarrow> exec_context \<Rightarrow> planned_action \<Rightarrow> ('w, action_result) act" where
  "execute_upload ow xc a =
    (case hm_get (xc_local_files xc) (pa_path a) of
       None \<Rightarrow> act_return (queued [])
     | Some local \<Rightarrow>
         act_bind (ensure_remote_parent ow (xc_planned_remote_directories xc) (pa_path a)) (\<lambda>_.
         act_bind (act_call (ow_ensure_root_available ow)) (\<lambda>_.
         act_bind (act_call (ow_upload ow (lf_absolute_path local) (pa_path a))) (\<lambda>_.
         act_return (queued [UpsertRow (record_from_local (pa_path a) local (recorded_id xc a) Synced)])))))"

definition execute_download :: "'w outside \<Rightarrow> exec_context \<Rightarrow> planned_action \<Rightarrow> ('w, action_result) act" where
  "execute_download ow xc a =
    (case pa_remote_id a of
       None \<Rightarrow> act_fail (planned_failure ''download'' (pa_path a) '' is missing a remote id'')
     | Some remote_id \<Rightarrow>
         (case safe_remote_path (pc_remote_root (xc_config xc)) (pa_path a) of
            None \<Rightarrow> act_fail (planned_failure ''download'' (pa_path a) '' has an unsafe remote path'')
          | Some remote_path \<Rightarrow>
              act_bind (look_safe_local ow xc (pa_path a)) (\<lambda>safe. case safe of
                  None \<Rightarrow> act_return (queued [])
                | Some destination \<Rightarrow>
                    act_bind (act_call (ow_ensure_parent_directory ow destination)) (\<lambda>_.
                    act_bind (skip_if_node_vanished (act_call (ow_download ow remote_path destination))) (\<lambda>landed.
                    if \<not> landed then act_return vanished_node
                    else act_bind (act_authored (pa_path a)) (\<lambda>_.
                         act_bind (act_call (ow_file_state ow destination)) (\<lambda>local_state.
                         act_return (queued
                           [UpsertRow (record_from_local (pa_path a) local_state (Some remote_id) Synced)]))))))))"

section \<open>Directories and moves\<close>

definition execute_create_remote_directory ::
  "'w outside \<Rightarrow> exec_context \<Rightarrow> planned_action \<Rightarrow> ('w, action_result) act" where
  "execute_create_remote_directory ow xc a =
    (if pa_path a = [] then
       act_bind (act_call (ow_ensure_root_directory ow)) (\<lambda>_. act_return (queued []))
     else (case hm_get (xc_local_entities xc) (pa_path a) of
         Some (LocalDirectory local) \<Rightarrow>
           act_bind (act_call (ow_ensure_directory ow (pa_path a))) (\<lambda>_.
           act_return (queued [UpsertRow (record_from_local_directory (pa_path a) local (recorded_id xc a) Synced)]))
       | _ \<Rightarrow> act_return (queued [])))"

definition execute_create_local_directory ::
  "'w outside \<Rightarrow> exec_context \<Rightarrow> planned_action \<Rightarrow> ('w, action_result) act" where
  "execute_create_local_directory ow xc a =
    act_bind (look_safe_local ow xc (pa_path a)) (\<lambda>safe. case safe of
        None \<Rightarrow> act_return (queued [])
      | Some destination \<Rightarrow>
          act_bind (act_call (ow_ensure_directory_below ow destination)) (\<lambda>_.
          act_bind (act_call (ow_directory_state ow destination)) (\<lambda>local_state.
          act_return (queued [UpsertRow (record_from_local_directory (pa_path a) local_state (pa_remote_id a) Synced)]))))"

text \<open>The records beneath a renamed directory, re-keyed one by one.\<close>

definition rebased_records :: "base_map \<Rightarrow> path \<Rightarrow> path \<Rightarrow> index_mutation list" where
  "rebased_records B old_path new_path =
    concat (map (\<lambda>(old_descendant, new_descendant).
        case hm_get B old_descendant of
          Some r \<Rightarrow> [PurgeRow old_descendant, UpsertRow (r\<lparr>fr_file_path := new_descendant\<rparr>)]
        | None \<Rightarrow> [])
      (directory_move_descendant_path_pairs old_path new_path B))"

definition execute_move_local :: "'w outside \<Rightarrow> exec_context \<Rightarrow> planned_action \<Rightarrow> ('w, action_result) act" where
  "execute_move_local ow xc a =
    (case pa_destination_path a of
       None \<Rightarrow> act_return (queued [])
     | Some destination_path \<Rightarrow>
         act_bind (look_safe_local ow xc (pa_path a)) (\<lambda>safe_source. case safe_source of
             None \<Rightarrow> act_return (queued [])
           | Some source \<Rightarrow>
         act_bind (look_safe_local ow xc destination_path) (\<lambda>safe_destination. case safe_destination of
             None \<Rightarrow> act_return (queued [])
           | Some destination \<Rightarrow>
         act_bind (act_call (ow_ensure_parent_directory ow destination)) (\<lambda>_.
         act_bind (act_call (ow_rename ow source destination)) (\<lambda>_.
         if pa_entity_kind a = Directory then
           act_bind (act_rescan destination_path) (\<lambda>_.
           act_bind (act_call (ow_directory_state ow destination)) (\<lambda>local_state.
           act_return (queued
             ([PurgeRow (pa_path a),
               UpsertRow (record_from_local_directory destination_path local_state (pa_remote_id a) Synced)]
              @ rebased_records (xc_base xc) (pa_path a) destination_path))))
         else
           act_bind (act_authored destination_path) (\<lambda>_.
           act_bind (act_call (ow_file_state ow destination)) (\<lambda>local_state.
           act_return (queued
             [PurgeRow (pa_path a),
              UpsertRow (record_from_local destination_path local_state (pa_remote_id a) Synced)]))))))))"

definition execute_move_remote :: "'w outside \<Rightarrow> exec_context \<Rightarrow> planned_action \<Rightarrow> ('w, action_result) act" where
  "execute_move_remote ow xc a =
    (case pa_destination_path a of
       None \<Rightarrow> act_return (queued [])
     | Some destination_path \<Rightarrow>
         (case hm_get (xc_local_files xc) destination_path of
            None \<Rightarrow> act_return (queued [])
          | Some local \<Rightarrow>
              act_bind (ensure_remote_parent ow [] destination_path) (\<lambda>_.
              act_bind (act_call (ow_ensure_root_available ow)) (\<lambda>_.
              act_bind (act_call (ow_rename_or_move ow (pa_path a) destination_path)) (\<lambda>_.
              act_return (queued
                [PurgeRow (pa_path a),
                 UpsertRow (record_from_local destination_path local (pa_remote_id a) Synced)]))))))"

definition execute_auto_link :: "exec_context \<Rightarrow> planned_action \<Rightarrow> ('w, action_result) act" where
  "execute_auto_link xc a =
    (case hm_get (xc_local_entities xc) (pa_path a) of
       Some (LocalFile local) \<Rightarrow>
         act_return (queued [UpsertRow (record_from_local (pa_path a) local (pa_remote_id a) Synced)])
     | Some (LocalDirectory local) \<Rightarrow>
         act_return (queued [UpsertRow (record_from_local_directory (pa_path a) local (pa_remote_id a) Synced)])
     | None \<Rightarrow> act_return (queued []))"
section \<open>Conflicts\<close>

definition conflict_record :: "exec_context \<Rightarrow> planned_action \<Rightarrow> action_result" where
  "conflict_record xc a =
    (case hm_get (xc_local_files xc) (pa_path a) of
       Some local \<Rightarrow> queued [UpsertRow (record_from_local (pa_path a) local (recorded_id xc a) StatusConflict)]
     | None \<Rightarrow> queued [])"

definition local_copy_sidecar :: "'w outside \<Rightarrow> exec_context \<Rightarrow> planned_action \<Rightarrow> ('w, action_result) act" where
  "local_copy_sidecar ow xc a =
    (case (pa_conflict_path a, hm_get (xc_local_files xc) (pa_path a)) of
       (Some conflict_path, Some local) \<Rightarrow>
         act_bind (look_safe_local ow xc conflict_path) (\<lambda>safe. case safe of
             None \<Rightarrow> act_return (queued [])
           | Some destination \<Rightarrow>
               act_bind (act_call (ow_symlink_metadata ow destination)) (\<lambda>there. case there of
                   NothingThere \<Rightarrow>
                     act_bind (act_call (ow_ensure_parent_directory ow destination)) (\<lambda>_.
                     act_bind (act_call (ow_copy_into_new_file ow (lf_absolute_path local) destination)) (\<lambda>_.
                     act_return (conflict_record xc a)))
                 | _ \<Rightarrow> act_return (conflict_record xc a)))
     | _ \<Rightarrow> act_return (queued []))"

definition remote_sidecar :: "'w outside \<Rightarrow> exec_context \<Rightarrow> planned_action \<Rightarrow> ('w, action_result) act" where
  "remote_sidecar ow xc a =
    (case (pa_remote_id a, safe_remote_path (pc_remote_root (xc_config xc)) (pa_path a), pa_conflict_path a) of
       (Some _, Some remote_path, Some conflict_path) \<Rightarrow>
         act_bind (look_safe_local ow xc conflict_path) (\<lambda>safe. case safe of
             None \<Rightarrow> act_return (conflict_record xc a)
           | Some destination \<Rightarrow>
               act_bind (act_call (ow_ensure_parent_directory ow destination)) (\<lambda>_.
               act_bind (skip_if_node_vanished (act_call (ow_download ow remote_path destination))) (\<lambda>landed.
               act_return (if landed then conflict_record xc a else vanished_node))))
     | _ \<Rightarrow> act_return (conflict_record xc a))"

definition execute_conflict :: "'w outside \<Rightarrow> exec_context \<Rightarrow> planned_action \<Rightarrow> ('w, action_result) act" where
  "execute_conflict ow xc a =
    (if pa_sidecar_from_local_copy a then local_copy_sidecar ow xc a else remote_sidecar ow xc a)"

definition execute_type_conflict :: "'w outside \<Rightarrow> exec_context \<Rightarrow> planned_action \<Rightarrow> ('w, action_result) act" where
  "execute_type_conflict ow xc a =
    (case (pa_entity_kind a, pa_conflict_path a, hm_get (xc_local_entities xc) (pa_path a)) of
       (Directory, Some conflict_path, Some (LocalDirectory local_directory)) \<Rightarrow>
         (let directory_row = UpsertRow (record_from_local_directory (pa_path a) local_directory None Synced);
              without_sidecar = act_return (queued [directory_row])
          in case (pa_remote_id a, safe_remote_path (pc_remote_root (xc_config xc)) (pa_path a)) of
               (Some remote_id, Some remote_path) \<Rightarrow>
                 act_bind (look_safe_local ow xc conflict_path) (\<lambda>safe. case safe of
                     None \<Rightarrow> without_sidecar
                   | Some destination \<Rightarrow>
                       act_bind (act_call (ow_ensure_parent_directory ow destination)) (\<lambda>_.
                       act_bind (skip_if_node_vanished (act_call (ow_download ow remote_path destination))) (\<lambda>landed.
                       if \<not> landed then act_return vanished_node
                       else act_bind (act_call (ow_file_state ow destination)) (\<lambda>local_state.
                            act_return (queued
                              [UpsertRow (record_from_local conflict_path local_state (Some remote_id) StatusConflict),
                               directory_row])))))
             | _ \<Rightarrow> without_sidecar)
     | _ \<Rightarrow> act_return (queued []))"

section \<open>Deletions\<close>

definition deletion_result :: "exec_context \<Rightarrow> planned_action \<Rightarrow> delete_direction \<Rightarrow> action_result" where
  "deletion_result xc a d =
    \<lparr>ar_mutations = PurgeRow (pa_path a) #
        (if pa_entity_kind a = Directory then map PurgeRow (descendant_index_paths (pa_path a) (xc_base xc)) else []),
     ar_consumed = record_approval_consumption (dg_consumed (xc_gate xc)) (pa_path a) d [],
     ar_vanished = 0\<rparr>"

definition execute_remote_delete :: "'w outside \<Rightarrow> exec_context \<Rightarrow> planned_action \<Rightarrow> ('w, action_result) act" where
  "execute_remote_delete ow xc a =
    (if pa_path a \<in> dg_withheld_paths (xc_gate xc) then act_return (queued [])
     else (case pa_remote_id a of
         None \<Rightarrow> act_fail (planned_failure ''remote delete'' (pa_path a) '' is missing a remote id'')
       | Some _ \<Rightarrow>
           (case safe_remote_path (pc_remote_root (xc_config xc)) (pa_path a) of
              None \<Rightarrow> act_fail (planned_failure ''remote delete'' (pa_path a) '' has an unsafe remote path'')
            | Some remote_path \<Rightarrow>
                act_bind (act_call (ow_delete ow remote_path)) (\<lambda>_.
                act_return (deletion_result xc a DeleteRemote)))))"

definition execute_local_delete :: "'w outside \<Rightarrow> exec_context \<Rightarrow> planned_action \<Rightarrow> ('w, action_result) act" where
  "execute_local_delete ow xc a =
    (if pa_path a \<in> dg_withheld_paths (xc_gate xc) then act_return (queued [])
     else act_bind (look_safe_local ow xc (pa_path a)) (\<lambda>safe. case safe of
         None \<Rightarrow> act_return (queued [])
       | Some destination \<Rightarrow>
           act_bind (act_look (ow_exists ow destination)) (\<lambda>present.
           act_bind (if present
                     then act_call (ow_dispose ow (pc_local_delete_mode (xc_config xc)) destination (pa_entity_kind a))
                     else act_return ()) (\<lambda>_.
           act_return (deletion_result xc a DeleteLocal)))))"

section \<open>The arm of each action\<close>

definition execute_action :: "'w outside \<Rightarrow> exec_context \<Rightarrow> planned_action \<Rightarrow> ('w, action_result) act" where
  "execute_action ow xc a =
    (case pa_action a of
       Upload \<Rightarrow> execute_upload ow xc a
     | Download \<Rightarrow> execute_download ow xc a
     | CreateRemoteDirectory \<Rightarrow> execute_create_remote_directory ow xc a
     | CreateLocalDirectory \<Rightarrow> execute_create_local_directory ow xc a
     | MoveLocal \<Rightarrow> execute_move_local ow xc a
     | MoveRemote \<Rightarrow> execute_move_remote ow xc a
     | AutoLink \<Rightarrow> execute_auto_link xc a
     | Conflict \<Rightarrow> execute_conflict ow xc a
     | TypeConflict \<Rightarrow> execute_type_conflict ow xc a
     | RemoteDelete \<Rightarrow> execute_remote_delete ow xc a
     | LocalDelete \<Rightarrow> execute_local_delete ow xc a
     | Purge \<Rightarrow> act_return (queued [PurgeRow (pa_path a)])
     | SkipUnsupported \<Rightarrow> act_return (queued []))"

definition action_performs_side_effects :: "sync_action \<Rightarrow> bool" where
  "action_performs_side_effects a \<longleftrightarrow> a \<notin> {AutoLink, Purge, SkipUnsupported}"

end
