(* ===== verification/Executor.thy ===== *)
theory Executor
  imports Executor_Actions Unsyncable
begin

text \<open>
  The pass executor (\<^verbatim>\<open>src/daemon.rs\<close>): the loop over a plan with its checkpoints, failure counting and
  batched downloads, and the commit that ends a pass and moves the event cursor
  (\<^verbatim>\<open>execute_plan_and_commit\<close>, \<^verbatim>\<open>execute_download_run\<close>, \<^verbatim>\<open>execute_download_chunk\<close>, \<^verbatim>\<open>commit_checkpoint\<close>).
\<close>

section \<open>The state of a running pass\<close>

record 'w exec_state =
  xs_run :: "'w run_state"
  xs_db :: database
  xs_mutations :: "index_mutation list"
  xs_consumptions :: "(path \<times> delete_direction) list"
  xs_failures :: pass_failures
  xs_vanished :: nat
  xs_skipped :: nat
  xs_unsyncable :: "unsyncable_item list"
  xs_gate :: "delete_gate option"

datatype pass_stop = StopCancelled | StopFailed failure | StopAbandoned bool

definition xs_look :: "('w \<Rightarrow> 'a \<times> 'w) \<Rightarrow> 'w exec_state \<Rightarrow> 'a \<times> 'w exec_state" where
  "xs_look f st = (case f (rs_world (xs_run st)) of (x, w) \<Rightarrow> (x, st\<lparr>xs_run := (xs_run st)\<lparr>rs_world := w\<rparr>\<rparr>))"

definition record_item_failure :: "planned_action \<Rightarrow> failure \<Rightarrow> 'w exec_state \<Rightarrow> 'w exec_state" where
  "record_item_failure a e st =
    st\<lparr>xs_failures := record_failure a e (xs_failures st),
       xs_run := (xs_run st)\<lparr>rs_rescan := insert (pa_path a) (rs_rescan (xs_run st))\<rparr>\<rparr>"

section \<open>Checkpoints\<close>

text \<open>The rows a commit writes before its cursor: the mutations, the folder they describe and the
  summaries.\<close>

definition commit_index_rows :: "'w outside \<Rightarrow> exec_context \<Rightarrow> 'w exec_state \<Rightarrow> 'w exec_state" where
  "commit_index_rows ow xc st =
    (case collect_agreed_summaries (xc_config xc) ow (xs_mutations st) (rs_world (xs_run st)) of (rows, w1) \<Rightarrow>
     case store_agreed_summaries ow rows
         (fst (record_remote_root_of_baseline (foldl apply_mutation (xs_db st) (xs_mutations st))
           (pc_remote_root_key (xc_config xc)))) w1 of (db', w2) \<Rightarrow>
       st\<lparr>xs_db := db', xs_run := (xs_run st)\<lparr>rs_world := w2\<rparr>\<rparr>)"

definition commit_checkpoint :: "'w outside \<Rightarrow> exec_context \<Rightarrow> 'w exec_state \<Rightarrow> 'w exec_state" where
  "commit_checkpoint ow xc st =
    (if xs_mutations st = [] \<and> xs_consumptions st = [] then st
     else (let st' = commit_index_rows ow xc st in
       st'\<lparr>xs_db := consume_approvals (xs_db st') (xs_consumptions st'), xs_mutations := [], xs_consumptions := []\<rparr>))"

abbreviation keep_accumulated_work :: "'w outside \<Rightarrow> exec_context \<Rightarrow> 'w exec_state \<Rightarrow> 'w exec_state" where
  "keep_accumulated_work \<equiv> commit_checkpoint"

section \<open>One action\<close>

definition execute_single ::
  "'w outside \<Rightarrow> exec_context \<Rightarrow> planned_action \<Rightarrow> 'w exec_state \<Rightarrow> pass_stop option \<times> 'w exec_state" where
  "execute_single ow xc a st =
    (let checkpoint = (\<lambda>st. if action_performs_side_effects (pa_action a) then commit_checkpoint ow xc st else st) in
     case execute_action ow xc a (xs_run st) of
       (Inr res, run) \<Rightarrow>
         (None, checkpoint (st\<lparr>xs_run := run, xs_mutations := xs_mutations st @ ar_mutations res,
            xs_consumptions := xs_consumptions st @ ar_consumed res,
            xs_failures := note_success (xs_failures st), xs_vanished := xs_vanished st + ar_vanished res\<rparr>))
     | (Inl e, run) \<Rightarrow>
         (case xs_look (ow_cancelled ow) (st\<lparr>xs_run := run\<rparr>) of
            (True, st1) \<Rightarrow> (Some (StopFailed e), st1)
          | (False, st1) \<Rightarrow>
              if is_root_unavailable_error e then (Some (StopFailed e), keep_accumulated_work ow xc st1)
              else (let st2 = record_item_failure a e st1 in
                if breaker_tripped (xs_failures st2)
                then (Some (StopAbandoned (pf_auth_failure (xs_failures st2))), st2)
                else (None, checkpoint st2))))"

section \<open>Batched downloads\<close>

record prepared_download =
  pr_action :: planned_action
  pr_remote_id :: bytes
  pr_request :: download_request

type_synonym download_groups = "(path \<times> prepared_download list) list"

definition push_download :: "path \<Rightarrow> prepared_download \<Rightarrow> download_groups \<Rightarrow> download_groups" where
  "push_download parent m groups =
    (if groups \<noteq> [] \<and> fst (last groups) = parent
     then butlast groups @ [(parent, snd (last groups) @ [m])]
     else groups @ [(parent, [m])])"

definition prepare_download ::
  "'w outside \<Rightarrow> exec_context \<Rightarrow> download_groups \<times> 'w exec_state \<Rightarrow> planned_action \<Rightarrow>
   download_groups \<times> 'w exec_state" where
  "prepare_download ow xc acc a =
    (case acc of (groups, st) \<Rightarrow>
     case pa_remote_id a of
       None \<Rightarrow> (groups, record_item_failure a
           (planned_failure ''download'' (pa_path a) '' is missing a remote id'') st)
     | Some remote_id \<Rightarrow>
         (case safe_remote_path (pc_remote_root (xc_config xc)) (pa_path a) of
            None \<Rightarrow> (groups, record_item_failure a
                (planned_failure ''download'' (pa_path a) '' has an unsafe remote path'') st)
          | Some remote_path \<Rightarrow>
              (case xs_look (safe_local_path ow (local_root_of xc) (pa_path a)) st of
                 (None, st1) \<Rightarrow> (groups, st1)
               | (Some destination, st1) \<Rightarrow>
                   (let expected = Option.bind (Option.bind (hm_get (xc_remote_entities xc) (pa_path a)) remote_as_file)
                          rf_sha1_hash;
                        parent = (case path_parent (pa_path a) of Some q \<Rightarrow> q | None \<Rightarrow> [])
                    in (push_download parent
                          \<lparr>pr_action = a, pr_remote_id = remote_id,
                           pr_request = \<lparr>dr_remote_path = remote_path, dr_destination = destination,
                             dr_expected_sha1 = expected\<rparr>\<rparr> groups, st1)))))"

function chunks :: "nat \<Rightarrow> 'a list \<Rightarrow> 'a list list" where
  "chunks n [] = []"
| "chunks n (x # xs) = take (max n 1) (x # xs) # chunks n (drop (max n 1) (x # xs))"
  by pat_completeness auto
termination by (relation "measure (\<lambda>(_, xs). length xs)") (simp_all add: max_def)

text \<open>One file of a chunk: the failures counted for the chunk, and the state.\<close>

definition chunk_file ::
  "'w outside \<Rightarrow> nat \<times> nat \<times> 'w exec_state \<Rightarrow> prepared_download \<times> (failure + unit) \<Rightarrow> nat \<times> nat \<times> 'w exec_state" where
  "chunk_file ow acc item =
    (case acc of (chunk_failures, vanished, st) \<Rightarrow>
     case item of (prepared, result) \<Rightarrow>
     case result of
       Inr _ \<Rightarrow>
         (case act_call (ow_file_state ow (dr_destination (pr_request prepared))) (xs_run st) of
            (Inr local_state, run) \<Rightarrow>
              (chunk_failures, vanished,
               st\<lparr>xs_run := run\<lparr>rs_authored := insert (pa_path (pr_action prepared)) (rs_authored run)\<rparr>,
                  xs_mutations := xs_mutations st @
                    [UpsertRow (record_from_local (pa_path (pr_action prepared)) local_state
                       (Some (pr_remote_id prepared)) Synced)]\<rparr>)
          | (Inl e, run) \<Rightarrow>
              (chunk_failures + 1, vanished,
               record_item_failure (pr_action prepared)
                 \<lparr>fl_kind = OtherFailure, fl_text = ''downloaded but could not be recorded: '' @ fl_text e\<rparr>
                 (st\<lparr>xs_run := run\<rparr>)))
     | Inl e \<Rightarrow>
         if is_node_not_found_error e then (chunk_failures, vanished + 1, st)
         else (chunk_failures + 1, vanished, record_item_failure (pr_action prepared) e st))"

definition execute_download_chunk ::
  "'w outside \<Rightarrow> exec_context \<Rightarrow> prepared_download list \<Rightarrow> 'w exec_state \<Rightarrow> pass_stop option \<times> 'w exec_state" where
  "execute_download_chunk ow xc members st =
    (case xs_look (ow_download_many ow (map pr_request members)) st of (results, st1) \<Rightarrow>
     case foldl (chunk_file ow) (0, 0, st1) (zip members results) of (chunk_failures, vanished, st2) \<Rightarrow>
       (let st3 = commit_checkpoint ow xc st2;
            st4 = (if chunk_failures + vanished < length members
                   then st3\<lparr>xs_failures := note_success (xs_failures st3)\<rparr> else st3);
            st5 = st4\<lparr>xs_vanished := xs_vanished st4 + vanished\<rparr>
        in if breaker_tripped (xs_failures st5)
           then (Some (StopAbandoned (pf_auth_failure (xs_failures st5))), st5) else (None, st5)))"

fun execute_chunks ::
  "'w outside \<Rightarrow> exec_context \<Rightarrow> prepared_download list list \<Rightarrow> 'w exec_state \<Rightarrow> pass_stop option \<times> 'w exec_state" where
  "execute_chunks ow xc [] st = (None, st)"
| "execute_chunks ow xc (members # rest) st =
    (case xs_look (ow_cancelled ow) st of
       (True, st1) \<Rightarrow> (Some StopCancelled, st1)
     | (False, st1) \<Rightarrow>
         (case xs_look (ow_ensure_root_available ow) st1 of
            (Inl e, st2) \<Rightarrow> (Some (StopFailed e), st2)
          | (Inr _, st2) \<Rightarrow>
              (case execute_download_chunk ow xc members st2 of
                 (Some stop, st3) \<Rightarrow> (Some stop, st3)
               | (None, st3) \<Rightarrow> execute_chunks ow xc rest st3)))"

fun execute_groups ::
  "'w outside \<Rightarrow> exec_context \<Rightarrow> download_groups \<Rightarrow> 'w exec_state \<Rightarrow> pass_stop option \<times> 'w exec_state" where
  "execute_groups ow xc [] st = (None, st)"
| "execute_groups ow xc ((parent, members) # rest) st =
    (case (case members of
             [] \<Rightarrow> (Inr (), st)
           | first # _ \<Rightarrow> xs_look (ow_ensure_parent_directory ow (dr_destination (pr_request first))) st) of
       (Inl e, st1) \<Rightarrow>
         if is_root_unavailable_error e then (Some (StopFailed e), st1)
         else execute_groups ow xc rest (foldl (\<lambda>st m. record_item_failure (pr_action m) e st) st1 members)
     | (Inr _, st1) \<Rightarrow>
         (case execute_chunks ow xc (chunks (pc_download_batch_size (xc_config xc)) members) st1 of
            (Some stop, st2) \<Rightarrow> (Some stop, st2)
          | (None, st2) \<Rightarrow> execute_groups ow xc rest st2))"

definition execute_download_run ::
  "'w outside \<Rightarrow> exec_context \<Rightarrow> plan \<Rightarrow> 'w exec_state \<Rightarrow> pass_stop option \<times> 'w exec_state" where
  "execute_download_run ow xc run st =
    (case foldl (prepare_download ow xc) ([], st) run of (groups, st') \<Rightarrow> execute_groups ow xc groups st')"
section \<open>The loop\<close>

function execute_actions ::
  "'w outside \<Rightarrow> exec_context \<Rightarrow> plan \<Rightarrow> 'w exec_state \<Rightarrow> pass_stop option \<times> 'w exec_state" where
  "execute_actions ow xc [] st = (None, st)"
| "execute_actions ow xc (a # rest) st =
    (case xs_look (ow_cancelled ow) st of
       (True, st1) \<Rightarrow> (Some StopCancelled, st1)
     | (False, st1) \<Rightarrow>
         (case xs_look (ow_ensure_root_available ow) st1 of
            (Inl e, st2) \<Rightarrow> (Some (StopFailed e), keep_accumulated_work ow xc st2)
          | (Inr _, st2) \<Rightarrow>
              if pc_skip_destructive (xc_config xc) \<and> is_destructive (pa_action a)
              then execute_actions ow xc rest (st2\<lparr>xs_skipped := xs_skipped st2 + 1\<rparr>)
              else (let run = takeWhile (\<lambda>b. pa_action b = Download) (a # rest) in
                if 1 < pc_download_batch_size (xc_config xc) \<and> pa_action a = Download \<and> 1 < length run
                then (case execute_download_run ow xc run st2 of
                    (None, st3) \<Rightarrow> execute_actions ow xc (drop (length run) (a # rest)) st3
                  | (Some (StopFailed e), st3) \<Rightarrow>
                      (Some (StopFailed e), if is_root_unavailable_error e then keep_accumulated_work ow xc st3 else st3)
                  | (Some stop, st3) \<Rightarrow> (Some stop, st3))
                else (case execute_single ow xc a st2 of
                    (None, st3) \<Rightarrow> execute_actions ow xc rest st3
                  | (Some stop, st3) \<Rightarrow> (Some stop, st3)))))"
  by pat_completeness auto
termination
  by (relation "measure (\<lambda>(_, _, pl, _). length pl)") auto

section \<open>The pass\<close>

record cursor_update =
  cu_scope_id :: bytes
  cu_last_event_id :: bytes

datatype root_node_update = RootKeep | RootSet bytes | RootClear

text \<open>What a pass was asked for, and how it ends.\<close>

datatype pass_intent = IntentSync | IntentApply bytes bool

datatype pass_end = PassEnded pass_outcome | PassStopped pass_stop | PassDiverged

text \<open>The one cursor policy: every cause that left something of the remote delta undone holds it.\<close>

definition held_cursor :: "delete_gate \<Rightarrow> 'w exec_state \<Rightarrow> cursor_update option \<Rightarrow> cursor_update option" where
  "held_cursor gate st cursor =
    (if 0 < xs_skipped st \<or> 0 < xs_vanished st \<or> 0 < pf_count (xs_failures st) then None
     else cursor_after_gate gate cursor)"

definition store_cursor_update :: "'w outside \<Rightarrow> cursor_update option \<Rightarrow> 'w exec_state \<Rightarrow> 'w exec_state" where
  "store_cursor_update ow cursor st =
    (case cursor of
       None \<Rightarrow> st
     | Some cu \<Rightarrow>
         (case xs_look (ow_epoch_secs ow) st of (now, st') \<Rightarrow>
            st'\<lparr>xs_db := store_event_cursor (xs_db st') (cu_scope_id cu) (cu_last_event_id cu) (sint now)\<rparr>))"

definition store_root_node :: "'w outside \<Rightarrow> exec_context \<Rightarrow> root_node_update \<Rightarrow> 'w exec_state \<Rightarrow> 'w exec_state" where
  "store_root_node ow xc update st =
    (case update of
       RootKeep \<Rightarrow> st
     | RootSet uid \<Rightarrow>
         (case xs_look (ow_epoch_secs ow) st of (now, st') \<Rightarrow>
            st'\<lparr>xs_db := fst (store_remote_root_uid (xs_db st') (pc_remote_root_key (xc_config xc)) uid (sint now))\<rparr>)
     | RootClear \<Rightarrow> st\<lparr>xs_db := clear_remote_root_uid (xs_db st)\<rparr>)"

definition finish_pass ::
  "'w outside \<Rightarrow> exec_context \<Rightarrow> bool \<Rightarrow> cursor_update option \<Rightarrow> root_node_update \<Rightarrow> 'w exec_state \<Rightarrow>
   pass_end \<times> 'w exec_state" where
  "finish_pass ow xc settled cursor root_node st =
    (case xs_look (ow_ensure_root_available ow) st of
       (Inl e, st1) \<Rightarrow> (PassStopped (StopFailed e), keep_accumulated_work ow xc st1)
     | (Inr _, st1) \<Rightarrow>
         (let st2 = commit_index_rows ow xc st1;
              st3 = store_cursor_update ow (held_cursor (xc_gate xc) st1 cursor) st2;
              st4 = store_root_node ow xc root_node st3;
              db1 = consume_approvals (xs_db st4) (xs_consumptions st4);
              db2 = (if settled then store_forced_delete_approval db1 False else db1)
          in (PassEnded (failures_outcome (xs_failures st4)),
              st4\<lparr>xs_db := db2, xs_mutations := [], xs_consumptions := []\<rparr>)))"

definition run_plan ::
  "'w outside \<Rightarrow> exec_context \<Rightarrow> bool \<Rightarrow> cursor_update option \<Rightarrow> root_node_update \<Rightarrow> plan \<Rightarrow> 'w exec_state \<Rightarrow>
   pass_end \<times> 'w exec_state" where
  "run_plan ow xc settled cursor root_node pl st =
    (case execute_actions ow xc pl st of
       (Some stop, st') \<Rightarrow> (PassStopped stop, st')
     | (None, st') \<Rightarrow> finish_pass ow xc settled cursor root_node st')"

definition planned_remote_directories :: "plan \<Rightarrow> path list" where
  "planned_remote_directories pl = btree_of (map pa_path (filter (\<lambda>a. pa_action a = CreateRemoteDirectory) pl))"

definition start_pass :: "database \<Rightarrow> unsyncable_item list \<Rightarrow> 'w \<Rightarrow> 'w exec_state" where
  "start_pass db standing w =
    \<lparr>xs_run = \<lparr>rs_world = w, rs_authored = {}, rs_rescan = {}\<rparr>, xs_db = db, xs_mutations = [],
     xs_consumptions = [], xs_failures = no_failures, xs_vanished = 0, xs_skipped = 0,
     xs_unsyncable = standing, xs_gate = None\<rparr>"

definition pass_context ::
  "pass_config \<Rightarrow> local_map \<Rightarrow> remote_map \<Rightarrow> base_map \<Rightarrow> delete_gate \<Rightarrow> plan \<Rightarrow> exec_context" where
  "pass_context cfg L R B gate pl =
    \<lparr>xc_config = cfg, xc_local_entities = L, xc_local_files = local_files_from_entities L, xc_remote_entities = R,
     xc_base = B, xc_gate = gate, xc_planned_remote_directories = planned_remote_directories pl\<rparr>"

definition execute_plan_and_commit ::
  "'w outside \<Rightarrow> (bytes \<Rightarrow> bytes) \<Rightarrow> conflict_naming \<Rightarrow> gate_config \<Rightarrow> pass_config \<Rightarrow> pass_intent \<Rightarrow>
   local_scan \<Rightarrow> remote_map \<Rightarrow> base_map \<Rightarrow> remote_map_shape \<Rightarrow> cursor_update option \<Rightarrow> root_node_update \<Rightarrow>
   database \<Rightarrow> unsyncable_item list \<Rightarrow> 'w \<Rightarrow> pass_end \<times> 'w exec_state" where
  "execute_plan_and_commit ow sha256 nm gcfg cfg0 intent scan R B shape cursor root_node db standing w =
    (let L = ls_entities scan;
         pl = prepend_remote_root_creation_if_missing (plan_sync_entities L R B nm) (rs_remote_root_missing shape);
         st = start_pass db standing w
     in if (case intent of IntentApply token _ \<Rightarrow> plan_token sha256 pl \<noteq> token | IntentSync \<Rightarrow> False)
        then (PassDiverged, st)
        else (let cfg = cfg0\<lparr>pc_skip_destructive := (case intent of IntentApply _ skip \<Rightarrow> skip | IntentSync \<Rightarrow> False)\<rparr> in
          case xs_look (ow_ensure_root_available ow) st of
            (Inl e, st1) \<Rightarrow> (PassStopped (StopFailed e), st1)
          | (Inr _, st1) \<Rightarrow>
              (case xs_look (ow_epoch_secs ow) st1 of (seen, st2) \<Rightarrow>
               case record_unsyncable pl (ls_unsyncable scan) (proves_absence shape) seen
                   (xs_unsyncable st2, xs_db st2) of (standing', db1) \<Rightarrow>
               case xs_look (ow_epoch_secs ow) st2 of (now, st3) \<Rightarrow>
               case decide_delete_gate gcfg db1 now pl B of (gate, db2) \<Rightarrow>
                 run_plan ow (pass_context cfg L R B gate pl) (replacement_settled gcfg gate) cursor root_node pl
                   (st3\<lparr>xs_db := db2, xs_unsyncable := standing', xs_gate := Some gate\<rparr>))))"

end
