(* ===== verification/Executor_Invariant.thy ===== *)
theory Executor_Invariant
  imports Executor
begin

text \<open>
  How the loop of the executor is reasoned about: which worlds a pass can reach by its calls, which fields
  its steps leave alone, and one induction over the loop, batched downloads included, stated as an interface
  that the invariants of \<^verbatim>\<open>Executor_Props\<close> instantiate.
\<close>

section \<open>What a run of the loop leaves\<close>

lemma xs_look_fields [simp]:
  "xs_db (snd (xs_look f st)) = xs_db st" "xs_mutations (snd (xs_look f st)) = xs_mutations st"
  "xs_consumptions (snd (xs_look f st)) = xs_consumptions st" "xs_failures (snd (xs_look f st)) = xs_failures st"
  "xs_vanished (snd (xs_look f st)) = xs_vanished st" "xs_skipped (snd (xs_look f st)) = xs_skipped st"
  by (simp_all add: xs_look_def case_prod_beta)

lemma xs_look_eq:
  assumes "xs_look f st = (x, st')"
  shows "xs_db st' = xs_db st" "xs_mutations st' = xs_mutations st" "xs_consumptions st' = xs_consumptions st"
    "xs_failures st' = xs_failures st" "xs_vanished st' = xs_vanished st" "xs_skipped st' = xs_skipped st"
  using xs_look_fields[of f st] assms by simp_all

lemma record_item_failure_fields [simp]:
  "xs_db (record_item_failure a e st) = xs_db st" "xs_mutations (record_item_failure a e st) = xs_mutations st"
  "xs_consumptions (record_item_failure a e st) = xs_consumptions st"
  "xs_failures (record_item_failure a e st) = record_failure a e (xs_failures st)"
  "xs_vanished (record_item_failure a e st) = xs_vanished st" "xs_skipped (record_item_failure a e st) = xs_skipped st"
  by (simp_all add: record_item_failure_def)

lemma failure_fields [simp]:
  "pf_count (record_failure a e pf) = pf_count pf + 1" "pf_consecutive (record_failure a e pf) = pf_consecutive pf + 1"
  "pf_any_success (record_failure a e pf) = pf_any_success pf"
  "pf_count (note_success pf) = pf_count pf" "pf_consecutive (note_success pf) = 0" "pf_any_success (note_success pf)"
  by (simp_all add: record_failure_def note_success_def)

text \<open>What the statements of a commit leave alone.\<close>

lemma apply_mutations_fields:
  "db_event_cursor (foldl apply_mutation db ms) = db_event_cursor db"
  "db_delete_approvals (foldl apply_mutation db ms) = db_delete_approvals db"
proof (induction ms arbitrary: db)
  case (Cons m ms)
  {
    case 1
    show ?case using Cons.IH(1) by (cases m) (simp_all add: upsert_record_def purge_record_def)
  next
    case 2
    show ?case using Cons.IH(2) by (cases m) (simp_all add: upsert_record_def purge_record_def)
  }
qed simp_all

lemma store_summaries_fields:
  "db_event_cursor (fst (store_agreed_summaries ow rows db w)) = db_event_cursor db"
  "db_delete_approvals (fst (store_agreed_summaries ow rows db w)) = db_delete_approvals db"
  "db_file_index (fst (store_agreed_summaries ow rows db w)) = db_file_index db"
  by (induction ow rows db w rule: store_agreed_summaries.induct)
    (simp_all add: store_agreed_summary_def case_prod_beta)

lemma consume_fields:
  "db_event_cursor (consume_approvals db cs) = db_event_cursor db"
  "db_file_index (consume_approvals db cs) = db_file_index db"
  by (induction cs arbitrary: db) (simp_all add: consume_approvals_def delete_delete_approval_def case_prod_beta)

lemma root_recorded_fields:
  "db_event_cursor (fst (record_remote_root_of_baseline db key)) = db_event_cursor db"
  "db_delete_approvals (fst (record_remote_root_of_baseline db key)) = db_delete_approvals db"
  "db_file_index (fst (record_remote_root_of_baseline db key)) = db_file_index db"
  by (simp_all add: record_remote_root_of_baseline_def)

lemma commit_rows_fields:
  "db_event_cursor (xs_db (commit_index_rows ow xc st)) = db_event_cursor (xs_db st)"
  "db_delete_approvals (xs_db (commit_index_rows ow xc st)) = db_delete_approvals (xs_db st)"
  "db_file_index (xs_db (commit_index_rows ow xc st)) = db_file_index (foldl apply_mutation (xs_db st) (xs_mutations st))"
  "xs_mutations (commit_index_rows ow xc st) = xs_mutations st"
  "xs_consumptions (commit_index_rows ow xc st) = xs_consumptions st"
  "xs_failures (commit_index_rows ow xc st) = xs_failures st"
  "xs_vanished (commit_index_rows ow xc st) = xs_vanished st"
  "xs_skipped (commit_index_rows ow xc st) = xs_skipped st"
  by (simp_all add: commit_index_rows_def case_prod_beta store_summaries_fields root_recorded_fields
      apply_mutations_fields)

lemma consume_index:
  "db_delete_approvals db = db_delete_approvals db' \<Longrightarrow>
   db_delete_approvals (consume_approvals db cs) = db_delete_approvals (consume_approvals db' cs)"
proof (induction cs arbitrary: db db')
  case (Cons c cs)
  obtain p d where "c = (p, d)" by (cases c)
  then have "db_delete_approvals (delete_delete_approval db p d) = db_delete_approvals (delete_delete_approval db' p d)"
    using Cons.prems by (simp add: delete_delete_approval_def)
  from Cons.IH[OF this] \<open>c = (p, d)\<close> show ?case by (simp add: consume_approvals_def)
qed (simp add: consume_approvals_def)

lemma checkpoint_fields:
  "db_event_cursor (xs_db (commit_checkpoint ow xc st)) = db_event_cursor (xs_db st)"
  "db_delete_approvals (xs_db (commit_checkpoint ow xc st)) =
    db_delete_approvals (consume_approvals (xs_db st) (xs_consumptions st))"
  "db_file_index (xs_db (commit_checkpoint ow xc st)) =
    db_file_index (foldl apply_mutation (xs_db st) (xs_mutations st))"
  "xs_mutations (commit_checkpoint ow xc st) = []" "xs_consumptions (commit_checkpoint ow xc st) = []"
  "xs_failures (commit_checkpoint ow xc st) = xs_failures st"
  "xs_vanished (commit_checkpoint ow xc st) = xs_vanished st"
  "xs_skipped (commit_checkpoint ow xc st) = xs_skipped st"
proof -
  show "db_delete_approvals (xs_db (commit_checkpoint ow xc st)) =
      db_delete_approvals (consume_approvals (xs_db st) (xs_consumptions st))"
    using consume_index[OF commit_rows_fields(2)[of ow xc st]]
    by (simp add: commit_checkpoint_def Let_def commit_rows_fields consume_approvals_def)
qed (simp_all add: commit_checkpoint_def Let_def commit_rows_fields consume_fields)

section \<open>The worlds of a pass\<close>

text \<open>The outside as the calls of a pass leave it, one after the other.\<close>

inductive reached :: "'w outside \<Rightarrow> 'w \<Rightarrow> 'w \<Rightarrow> bool" for ow w0 where
  start: "reached ow w0 w0"
| cancelled: "reached ow w0 w \<Longrightarrow> reached ow w0 (snd (ow_cancelled ow w))"
| root: "reached ow w0 w \<Longrightarrow> reached ow w0 (snd (ow_ensure_root_available ow w))"
| root_directory: "reached ow w0 w \<Longrightarrow> reached ow w0 (snd (ow_ensure_root_directory ow w))"
| directory: "reached ow w0 w \<Longrightarrow> reached ow w0 (snd (ow_ensure_directory ow p w))"
| upload: "reached ow w0 w \<Longrightarrow> reached ow w0 (snd (ow_upload ow p q w))"
| download: "reached ow w0 w \<Longrightarrow> reached ow w0 (snd (ow_download ow p q w))"
| download_many: "reached ow w0 w \<Longrightarrow> reached ow w0 (snd (ow_download_many ow reqs w))"
| deleted: "reached ow w0 w \<Longrightarrow> reached ow w0 (snd (ow_delete ow p w))"
| moved: "reached ow w0 w \<Longrightarrow> reached ow w0 (snd (ow_rename_or_move ow p q w))"
| canonicalized: "reached ow w0 w \<Longrightarrow> reached ow w0 (snd (ow_canonicalize ow p w))"
| parent_directory: "reached ow w0 w \<Longrightarrow> reached ow w0 (snd (ow_ensure_parent_directory ow p w))"
| directory_below: "reached ow w0 w \<Longrightarrow> reached ow w0 (snd (ow_ensure_directory_below ow p w))"
| file_state: "reached ow w0 w \<Longrightarrow> reached ow w0 (snd (ow_file_state ow p w))"
| directory_state: "reached ow w0 w \<Longrightarrow> reached ow w0 (snd (ow_directory_state ow p w))"
| renamed: "reached ow w0 w \<Longrightarrow> reached ow w0 (snd (ow_rename ow p q w))"
| looked_for: "reached ow w0 w \<Longrightarrow> reached ow w0 (snd (ow_exists ow p w))"
| disposed: "reached ow w0 w \<Longrightarrow> reached ow w0 (snd (ow_dispose ow mode p k w))"
| metadata: "reached ow w0 w \<Longrightarrow> reached ow w0 (snd (ow_symlink_metadata ow p w))"
| copied: "reached ow w0 w \<Longrightarrow> reached ow w0 (snd (ow_copy_into_new_file ow p q w))"
| contents: "reached ow w0 w \<Longrightarrow> reached ow w0 (snd (ow_read_to_string ow p w))"
| clock: "reached ow w0 w \<Longrightarrow> reached ow w0 (snd (ow_epoch_secs ow w))"

text \<open>Calls and actions that stay among these worlds.\<close>

definition keeps_world :: "('w \<Rightarrow> bool) \<Rightarrow> ('w \<Rightarrow> 'a \<times> 'w) \<Rightarrow> bool" where
  "keeps_world R f \<longleftrightarrow> (\<forall>w. R w \<longrightarrow> R (snd (f w)))"

definition keeps :: "('w \<Rightarrow> bool) \<Rightarrow> ('w run_state \<Rightarrow> 'a \<times> 'w run_state) \<Rightarrow> bool" where
  "keeps R m \<longleftrightarrow> (\<forall>s. R (rs_world s) \<longrightarrow> R (rs_world (snd (m s))))"

named_theorems keeping \<open>calls and actions that stay among the worlds of a pass\<close>

lemma reached_calls [keeping]:
  "keeps_world (reached ow w0) (ow_cancelled ow)" "keeps_world (reached ow w0) (ow_ensure_root_available ow)"
  "keeps_world (reached ow w0) (ow_ensure_root_directory ow)" "keeps_world (reached ow w0) (ow_ensure_directory ow p)"
  "keeps_world (reached ow w0) (ow_upload ow p q)" "keeps_world (reached ow w0) (ow_download ow p q)"
  "keeps_world (reached ow w0) (ow_download_many ow reqs)" "keeps_world (reached ow w0) (ow_delete ow p)"
  "keeps_world (reached ow w0) (ow_rename_or_move ow p q)" "keeps_world (reached ow w0) (ow_canonicalize ow p)"
  "keeps_world (reached ow w0) (ow_ensure_parent_directory ow p)"
  "keeps_world (reached ow w0) (ow_ensure_directory_below ow p)" "keeps_world (reached ow w0) (ow_file_state ow p)"
  "keeps_world (reached ow w0) (ow_directory_state ow p)" "keeps_world (reached ow w0) (ow_rename ow p q)"
  "keeps_world (reached ow w0) (ow_exists ow p)" "keeps_world (reached ow w0) (ow_dispose ow mode p k)"
  "keeps_world (reached ow w0) (ow_symlink_metadata ow p)" "keeps_world (reached ow w0) (ow_copy_into_new_file ow p q)"
  "keeps_world (reached ow w0) (ow_read_to_string ow p)" "keeps_world (reached ow w0) (ow_epoch_secs ow)"
  by (auto simp: keeps_world_def intro: reached.intros)

lemma keeps_worldD: "keeps_world R f \<Longrightarrow> f w = (x, w') \<Longrightarrow> R w \<Longrightarrow> R w'"
  unfolding keeps_world_def by force

lemma keepsD: "keeps R m \<Longrightarrow> m s = (x, s') \<Longrightarrow> R (rs_world s) \<Longrightarrow> R (rs_world s')"
  unfolding keeps_def by force

lemma keeps_act [keeping]:
  "keeps R (act_return x)" "keeps R (act_fail e)" "keeps R (act_authored p)" "keeps R (act_rescan p)"
  "keeps_world R f \<Longrightarrow> keeps R (act_call f)" "keeps_world R g \<Longrightarrow> keeps R (act_look g)"
  "keeps R m \<Longrightarrow> keeps R (act_try m)"
  by (auto simp: keeps_def keeps_world_def act_authored_def act_rescan_def act_call_def act_look_def act_try_def
      case_prod_beta)

lemma keeps_bind [keeping]:
  assumes "keeps R m" "\<And>x. keeps R (f x)"
  shows "keeps R (act_bind m f)"
  using assms by (auto simp: keeps_def act_bind_def case_prod_beta split: sum.split)

lemma keeps_splits [keeping]:
  "keeps R a \<Longrightarrow> (\<And>x. keeps R (b x)) \<Longrightarrow> keeps R (case o1 of None \<Rightarrow> a | Some x \<Rightarrow> b x)"
  "(c \<Longrightarrow> keeps R m1) \<Longrightarrow> (\<not> c \<Longrightarrow> keeps R m2) \<Longrightarrow> keeps R (if c then m1 else m2)"
  by (auto split: option.split)

lemma first_canonical_keeps:
  "(\<And>p. keeps_world R (canonicalize p)) \<Longrightarrow> keeps_world R (first_canonical canonicalize ps)"
proof (induction ps)
  case (Cons p ps)
  then show ?case by (auto simp: keeps_world_def case_prod_beta split: option.split)
qed (simp add: keeps_world_def)

lemma safe_local_path_keeps [keeping]: "keeps_world (reached ow w0) (safe_local_path ow root p)"
proof -
  have "keeps_world (reached ow w0) (local_write_escapes_root ow root q)" for q
    using reached_calls(10)[of ow w0 root]
      first_canonical_keeps[of "reached ow w0" "ow_canonicalize ow" "ancestors q"] reached_calls(10)[of ow w0]
    by (auto simp: keeps_world_def local_write_escapes_root_def case_prod_beta split: option.split)
  then show ?thesis
    by (auto simp: keeps_world_def safe_local_path_def Let_def case_prod_beta split: option.split bool.split)
qed

lemmas arm_defs = execute_upload_def execute_download_def execute_create_remote_directory_def
  execute_create_local_directory_def execute_move_local_def execute_move_remote_def execute_auto_link_def
  execute_conflict_def local_copy_sidecar_def remote_sidecar_def execute_type_conflict_def
  execute_remote_delete_def execute_local_delete_def ensure_remote_parent_def look_safe_local_def
  skip_if_node_vanished_def

lemma arms_keep [keeping]:
  "keeps (reached ow w0) (execute_upload ow xc a)" "keeps (reached ow w0) (execute_download ow xc a)"
  "keeps (reached ow w0) (execute_create_remote_directory ow xc a)"
  "keeps (reached ow w0) (execute_create_local_directory ow xc a)"
  "keeps (reached ow w0) (execute_move_local ow xc a)" "keeps (reached ow w0) (execute_move_remote ow xc a)"
  "keeps (reached ow w0) (execute_auto_link xc a)" "keeps (reached ow w0) (execute_conflict ow xc a)"
  "keeps (reached ow w0) (execute_type_conflict ow xc a)" "keeps (reached ow w0) (execute_remote_delete ow xc a)"
  "keeps (reached ow w0) (execute_local_delete ow xc a)"
  unfolding arm_defs Let_def
  by (intro keeping
      | simp only: split: option.split sum.split prod.split local_entity_state.split path_metadata.split entity_kind.split
      | intro conjI allI impI)+

lemma execute_action_keeps [keeping]: "keeps (reached ow w0) (execute_action ow xc a)"
  unfolding execute_action_def by (simp add: keeping split: sync_action.split)

lemma collect_keeps: "keeps_world (reached ow w0) (collect_agreed_summaries cfg ow ms)"
proof (induction ms)
  case (Cons m ms)
  note calls = safe_local_path_keeps reached_calls(18,20)
  show ?case
    using Cons calls[of ow w0]
    by (auto simp: keeps_world_def Let_def case_prod_beta
        split: index_mutation.split option.split path_metadata.split sum.split)
qed (simp add: keeps_world_def)

lemma store_summaries_keeps: "reached ow w0 w \<Longrightarrow> reached ow w0 (snd (store_agreed_summaries ow rows db w))"
proof (induction rows arbitrary: db w)
  case (Cons row rows)
  obtain p digest summary where "row = (p, digest, summary)" by (cases row)
  with Cons.IH[OF reached.clock[OF Cons.prems]] show ?case by (simp add: case_prod_beta)
qed simp

section \<open>What a pass keeps\<close>

text \<open>
  A property of the running pass that every elementary change keeps is kept by the whole loop, batched
  downloads included, and so is being in a world the pass can reach. A mutation is queued only by an action that returned, or by a download of a batch
  that the client reported landed and that could be read back.
\<close>

locale pass_invariant =
  fixes ow :: "'w outside" and xc :: exec_context and pl :: plan and w0 :: 'w and I :: "'w exec_state \<Rightarrow> bool"
  assumes ran: "I st \<Longrightarrow> I (st\<lparr>xs_run := run\<rparr>)"
    and failed: "I st \<Longrightarrow> a \<in> set pl \<Longrightarrow> I (st\<lparr>xs_failures := record_failure a e (xs_failures st)\<rparr>)"
    and succeeded: "I st \<Longrightarrow> I (st\<lparr>xs_failures := note_success (xs_failures st)\<rparr>)"
    and skipped: "I st \<Longrightarrow> I (st\<lparr>xs_skipped := xs_skipped st + 1\<rparr>)"
    and vanished: "I st \<Longrightarrow> I (st\<lparr>xs_vanished := xs_vanished st + n\<rparr>)"
    and acted: "I st \<Longrightarrow> a \<in> set pl \<Longrightarrow> reached ow w0 (rs_world s) \<Longrightarrow> execute_action ow xc a s = (Inr res, s') \<Longrightarrow>
      I (st\<lparr>xs_mutations := xs_mutations st @ ar_mutations res, xs_consumptions := xs_consumptions st @ ar_consumed res\<rparr>)"
    and fetched: "I st \<Longrightarrow> a \<in> set pl \<Longrightarrow> pa_action a = Download \<Longrightarrow> pa_remote_id a = Some rid \<Longrightarrow>
      safe_remote_path (pc_remote_root (xc_config xc)) (pa_path a) = Some (dr_remote_path req) \<Longrightarrow>
      reached ow w0 w \<Longrightarrow> ow_download_many ow reqs w = (results, w') \<Longrightarrow> (req, Inr ()) \<in> set (zip reqs results) \<Longrightarrow>
      reached ow w0 w2 \<Longrightarrow> ow_file_state ow (dr_destination req) w2 = (Inr lfs, w3) \<Longrightarrow>
      I (st\<lparr>xs_mutations := xs_mutations st @ [UpsertRow (record_from_local (pa_path a) lfs (Some rid) Synced)]\<rparr>)"
    and committed: "I st \<Longrightarrow> I (commit_checkpoint ow xc st)"
begin

definition good :: "'w exec_state \<Rightarrow> bool" where
  "good st \<longleftrightarrow> I st \<and> reached ow w0 (rs_world (xs_run st))"

lemma good_parts: "good st \<Longrightarrow> I st" "good st \<Longrightarrow> reached ow w0 (rs_world (xs_run st))"
  by (simp_all add: good_def)

lemma good_run: "good st \<Longrightarrow> reached ow w0 (rs_world run) \<Longrightarrow> good (st\<lparr>xs_run := run\<rparr>)"
  by (simp add: good_def ran)

lemma good_count:
  "good st \<Longrightarrow> good (st\<lparr>xs_failures := note_success (xs_failures st)\<rparr>)"
  "good st \<Longrightarrow> good (st\<lparr>xs_skipped := xs_skipped st + 1\<rparr>)"
  "good st \<Longrightarrow> good (st\<lparr>xs_vanished := xs_vanished st + n\<rparr>)"
  "good st \<Longrightarrow> a \<in> set pl \<Longrightarrow> good (st\<lparr>xs_failures := record_failure a e (xs_failures st)\<rparr>)"
  by (simp_all add: good_def succeeded skipped[simplified] vanished failed)

lemma good_commit: "good st \<Longrightarrow> good (commit_checkpoint ow xc st)"
proof -
  assume g: "good st"
  obtain rows w1 where c: "collect_agreed_summaries (xc_config xc) ow (xs_mutations st) (rs_world (xs_run st)) = (rows, w1)"
    by fastforce
  have "reached ow w0 w1" using keeps_worldD[OF collect_keeps c good_parts(2)[OF g]] .
  from store_summaries_keeps[OF this] good_parts(2)[OF g]
  have "reached ow w0 (rs_world (xs_run (commit_checkpoint ow xc st)))"
    by (simp add: commit_checkpoint_def commit_index_rows_def Let_def c case_prod_beta)
  with g show ?thesis by (simp add: good_def committed)
qed

lemma looked:
  "good st \<Longrightarrow> keeps_world (reached ow w0) f \<Longrightarrow> xs_look f st = (x, st') \<Longrightarrow> good st'"
  by (auto simp: xs_look_def case_prod_beta keeps_world_def good_parts intro!: good_run)

lemma item_failed: "good st \<Longrightarrow> a \<in> set pl \<Longrightarrow> good (record_item_failure a e st)"
  unfolding record_item_failure_def using good_run[OF good_count(4)]
  by (simp add: good_parts(2))

lemma items_failed: "good st \<Longrightarrow> (\<And>m. m \<in> set ms \<Longrightarrow> pr_action m \<in> set pl) \<Longrightarrow>
    good (foldl (\<lambda>st m. record_item_failure (pr_action m) e st) st ms)"
  by (induction ms arbitrary: st) (auto intro: item_failed)

lemma single:
  assumes "good st" "a \<in> set pl" "execute_single ow xc a st = (r, st')"
  shows "good st'"
proof (cases "execute_action ow xc a (xs_run st)")
  case (Pair res run)
  have run: "reached ow w0 (rs_world run)"
    using keepsD[OF execute_action_keeps Pair] assms(1) by (simp add: good_parts)
  show ?thesis
  proof (cases res)
    case (Inl e)
    have g: "good (st\<lparr>xs_run := run\<rparr>)" using assms(1) run by (rule good_run)
    obtain b st1 where c: "xs_look (ow_cancelled ow) (st\<lparr>xs_run := run\<rparr>) = (b, st1)" by fastforce
    have "good st1" using g reached_calls(1) c by (rule looked)
    with Pair Inl assms(2,3) c show ?thesis
      by (auto simp: execute_single_def Let_def split: bool.splits if_splits intro: good_commit item_failed)
  next
    case (Inr ar)
    let ?st = "st\<lparr>xs_mutations := xs_mutations st @ ar_mutations ar, xs_consumptions := xs_consumptions st @ ar_consumed ar\<rparr>"
    have "good ?st" using acted[of st a "xs_run st" ar run] assms(1,2) Pair Inr by (simp add: good_def)
    from good_count(3)[OF good_count(1)[OF good_run[OF this run]], of "ar_vanished ar"]
    have "good (st\<lparr>xs_run := run, xs_mutations := xs_mutations st @ ar_mutations ar,
        xs_consumptions := xs_consumptions st @ ar_consumed ar, xs_failures := note_success (xs_failures st),
        xs_vanished := xs_vanished st + ar_vanished ar\<rparr>)" by (cases st) simp
    with Pair Inr assms(3) show ?thesis by (auto simp: execute_single_def Let_def split: if_splits intro: good_commit)
  qed
qed

definition sound_download :: "prepared_download \<Rightarrow> bool" where
  "sound_download m \<longleftrightarrow> pr_action m \<in> set pl \<and> pa_action (pr_action m) = Download \<and>
    pa_remote_id (pr_action m) = Some (pr_remote_id m) \<and>
    safe_remote_path (pc_remote_root (xc_config xc)) (pa_path (pr_action m)) = Some (dr_remote_path (pr_request m))"

lemma chunk_files:
  assumes "reached ow w0 w" "ow_download_many ow reqs w = (results, w')"
    and "\<And>m r. (m, r) \<in> set items \<Longrightarrow> sound_download m \<and> (pr_request m, r) \<in> set (zip reqs results)"
    and "good st" "foldl (chunk_file ow) (cf, v, st) items = (cf', v', st')"
  shows "good st'"
  using assms(3-5)
proof (induction items arbitrary: cf v st)
  case (Cons item items)
  obtain m r where item: "item = (m, r)" by (cases item)
  with Cons.prems(1) have m: "sound_download m" "(pr_request m, r) \<in> set (zip reqs results)" by auto
  obtain cf1 v1 st1 where step: "chunk_file ow (cf, v, st) item = (cf1, v1, st1)" by (cases "chunk_file ow (cf, v, st) item")
  have "good st1"
  proof (cases r)
    case (Inl e)
    with step item Cons.prems(2) m(1) show ?thesis
      by (auto simp: chunk_file_def sound_download_def split: if_splits intro: item_failed)
  next
    case (Inr u)
    obtain fs w3 where look: "ow_file_state ow (dr_destination (pr_request m)) (rs_world (xs_run st)) = (fs, w3)"
      by (cases "ow_file_state ow (dr_destination (pr_request m)) (rs_world (xs_run st))")
    have w3: "reached ow w0 w3"
      using keeps_worldD[OF reached_calls(13) look] Cons.prems(2) by (simp add: good_parts)
    show ?thesis
    proof (cases fs)
      case (Inl e)
      with step item Inr look m(1) show ?thesis
        using good_run[OF Cons.prems(2)] w3 by (auto simp: chunk_file_def act_call_def sound_download_def intro: item_failed)
    next
      case (Inr lfs)
      have "good (st\<lparr>xs_mutations := xs_mutations st @
          [UpsertRow (record_from_local (pa_path (pr_action m)) lfs (Some (pr_remote_id m)) Synced)]\<rparr>)"
        using fetched[OF _ _ _ _ _ assms(1,2), of st "pr_action m" "pr_remote_id m" "pr_request m"
            "rs_world (xs_run st)" lfs w3] m Cons.prems(2) \<open>r = Inr u\<close> look Inr
        by (simp add: sound_download_def good_def)
      from good_run[OF this, of "xs_run st\<lparr>rs_world := w3,
          rs_authored := insert (pa_path (pr_action m)) (rs_authored (xs_run st))\<rparr>"] step item \<open>r = Inr u\<close> look Inr
      show ?thesis using w3 by (cases st) (auto simp: chunk_file_def act_call_def)
    qed
  qed
  moreover have "sound_download m \<and> (pr_request m, r) \<in> set (zip reqs results)" if "(m, r) \<in> set items" for m r
    by (rule Cons.prems(1)) (simp add: that)
  moreover have "foldl (chunk_file ow) (cf1, v1, st1) items = (cf', v', st')" using Cons.prems(3) step by simp
  ultimately show ?case by (intro Cons.IH)
qed simp

lemma chunk:
  assumes "good st" "\<And>m. m \<in> set ms \<Longrightarrow> sound_download m" "execute_download_chunk ow xc ms st = (r, st')"
  shows "good st'"
proof -
  obtain results st1 where look: "xs_look (ow_download_many ow (map pr_request ms)) st = (results, st1)"
    by (cases "xs_look (ow_download_many ow (map pr_request ms)) st")
  obtain cf v st2 where fold: "foldl (chunk_file ow) (0, 0, st1) (zip ms results) = (cf, v, st2)"
    by (cases "foldl (chunk_file ow) (0, 0, st1) (zip ms results)")
  obtain w' where many: "ow_download_many ow (map pr_request ms) (rs_world (xs_run st)) = (results, w')"
    using look by (auto simp: xs_look_def split: prod.splits)
  have "sound_download m \<and> (pr_request m, r) \<in> set (zip (map pr_request ms) results)" if "(m, r) \<in> set (zip ms results)" for m r
    using that assms(2)[OF set_zip_leftD[OF that]] by (force simp: zip_map1)
  from chunk_files[OF good_parts(2)[OF assms(1)] many this looked[OF assms(1) reached_calls(7) look] fold] have "good st2" by simp
  then have "good (commit_checkpoint ow xc st2)" by (rule good_commit)
  then have "good (if cf + v < length ms
      then (commit_checkpoint ow xc st2)\<lparr>xs_failures := note_success (xs_failures (commit_checkpoint ow xc st2))\<rparr>
      else commit_checkpoint ow xc st2)" by (simp add: good_count(1))
  from good_count(3)[OF this, of v] assms(3) show ?thesis
    by (simp add: execute_download_chunk_def look fold Let_def split: if_splits)
qed

lemma chunks_run:
  assumes "good st" "\<And>ms m. ms \<in> set mss \<Longrightarrow> m \<in> set ms \<Longrightarrow> sound_download m" "execute_chunks ow xc mss st = (r, st')"
  shows "good st'"
  using assms
proof (induction mss arbitrary: st)
  case (Cons ms mss)
  obtain b st1 where c: "xs_look (ow_cancelled ow) st = (b, st1)" by (cases "xs_look (ow_cancelled ow) st")
  obtain u st2 where l: "xs_look (ow_ensure_root_available ow) st1 = (u, st2)"
    by (cases "xs_look (ow_ensure_root_available ow) st1")
  have I: "good st1" "good st2" using looked[OF Cons.prems(1) reached_calls(1) c]
      looked[OF looked[OF Cons.prems(1) reached_calls(1) c] reached_calls(2) l] .
  obtain r3 st3 where d: "execute_download_chunk ow xc ms st2 = (r3, st3)" by (cases "execute_download_chunk ow xc ms st2")
  have "good st3" using I(2) _ d by (rule chunk) (rule Cons.prems(2)[OF list.set_intros(1)])
  have IH: "good st'" if "execute_chunks ow xc mss st3 = (r, st')"
    using \<open>good st3\<close> _ that by (rule Cons.IH) (rule Cons.prems(2)[OF list.set_intros(2)])
  have "st' = st1 \<or> st' = st2 \<or> st' = st3 \<or> execute_chunks ow xc mss st3 = (r, st')"
    using Cons.prems(3) by (cases b; cases u; cases r3) (simp_all add: c l d)
  with I \<open>good st3\<close> IH show ?case by blast
qed simp

lemma chunks_members: "ms \<in> set (chunks n xs) \<Longrightarrow> m \<in> set ms \<Longrightarrow> m \<in> set xs"
proof (induction n xs rule: chunks.induct)
  case (2 n x xs)
  from 2(2) consider "ms = take (max n 1) (x # xs)" | "ms \<in> set (chunks n (drop (max n 1) (x # xs)))" by auto
  then show ?case
  proof cases
    case 1
    with 2(3) show ?thesis using in_set_takeD by fast
  next
    case 2
    from \<open>m \<in> set ms\<close> have "m \<in> set (drop (max n 1) (x # xs))" by (rule "2.IH"[OF 2])
    then show ?thesis by (rule in_set_dropD)
  qed
qed simp

lemma groups_run:
  assumes "good st" "\<And>q ms m. (q, ms) \<in> set gs \<Longrightarrow> m \<in> set ms \<Longrightarrow> sound_download m"
    and "execute_groups ow xc gs st = (r, st')"
  shows "good st'"
  using assms
proof (induction gs arbitrary: st)
  case (Cons g gs)
  obtain parent ms where g: "g = (parent, ms)" by (cases g)
  obtain u st1 where u: "(case ms of [] \<Rightarrow> (Inr (), st)
      | first # _ \<Rightarrow> xs_look (ow_ensure_parent_directory ow (dr_destination (pr_request first))) st) = (u, st1)"
    by fastforce
  have I: "good st1" using u Cons.prems(1) by (auto split: list.splits dest: looked[OF _ reached_calls(11)])
  have ms: "sound_download m" if "m \<in> set ms" for m using Cons.prems(2)[of parent ms] that g by simp
  obtain r2 st2 where c: "execute_chunks ow xc (chunks (pc_download_batch_size (xc_config xc)) ms) st1 = (r2, st2)"
    by fastforce
  have "good st2" using I _ c by (rule chunks_run) (rule ms, rule chunks_members)
  moreover have "good (foldl (\<lambda>st m. record_item_failure (pr_action m) e st) st1 ms)" for e
    using I ms by (intro items_failed) (auto simp: sound_download_def)
  moreover have "\<And>st. good st \<Longrightarrow> execute_groups ow xc gs st = (r, st') \<Longrightarrow> good st'"
    using Cons.IH Cons.prems(2) by auto
  ultimately have rest: "\<And>e. execute_groups ow xc gs (foldl (\<lambda>st m. record_item_failure (pr_action m) e st) st1 ms)
        = (r, st') \<Longrightarrow> good st'" "execute_groups ow xc gs st2 = (r, st') \<Longrightarrow> good st'" by blast+
  show ?case
  proof (cases u)
    case (Inl e)
    have "st' = st1 \<or> execute_groups ow xc gs (foldl (\<lambda>st m. record_item_failure (pr_action m) e st) st1 ms) = (r, st')"
      using Cons.prems(3) unfolding g execute_groups.simps u Inl by (simp split: if_splits)
    with I rest(1) show ?thesis by blast
  next
    case (Inr v)
    have "st' = st2 \<or> execute_groups ow xc gs st2 = (r, st')"
      using Cons.prems(3) unfolding g execute_groups.simps u Inr by (cases r2) (simp_all add: c)
    with \<open>good st2\<close> rest(2) show ?thesis by blast
  qed
qed simp

lemma prepared:
  assumes "good st" "set run \<subseteq> {a \<in> set pl. pa_action a = Download}"
    and "\<And>q ms m. (q, ms) \<in> set gs \<Longrightarrow> m \<in> set ms \<Longrightarrow> sound_download m"
    and "foldl (prepare_download ow xc) (gs, st) run = (gs', st')"
  shows "good st' \<and> (\<forall>(q, ms)\<in>set gs'. \<forall>m\<in>set ms. sound_download m)"
  using assms
proof (induction run arbitrary: gs st)
  case Nil
  then show ?case by auto
next
  case (Cons a run)
  obtain gs1 st1 where step: "prepare_download ow xc (gs, st) a = (gs1, st1)" by fastforce
  have push: "sound_download m'" if "(q, ms) \<in> set (push_download parent m gs)" "m' \<in> set ms" "sound_download m"
    for q ms m m' parent
    using that Cons.prems(3)
    by (cases gs rule: rev_cases; cases "fst (last gs) = parent") (fastforce simp: push_download_def)+
  have a: "a \<in> set pl" "pa_action a = Download" using Cons.prems(2) by auto
  have "good st1" using step Cons.prems(1) a
    by (auto simp: prepare_download_def Let_def split: option.splits prod.splits intro: item_failed
        dest: looked[OF _ safe_local_path_keeps])
  moreover have "sound_download m" if "(q, ms) \<in> set gs1" "m \<in> set ms" for q ms m
    using step that a Cons.prems(3)
    by (auto simp: prepare_download_def Let_def sound_download_def split: option.splits prod.splits
        elim!: push[unfolded sound_download_def])
  ultimately show ?case using Cons.IH[of st1 gs1] Cons.prems(2,4) step by simp
qed

lemma download_run:
  assumes "good st" "set run \<subseteq> {a \<in> set pl. pa_action a = Download}" "execute_download_run ow xc run st = (r, st')"
  shows "good st'"
proof -
  obtain gs st1 where p: "foldl (prepare_download ow xc) ([], st) run = (gs, st1)" by fastforce
  from prepared[OF assms(1,2) _ p] have "good st1" "\<And>q ms m. (q, ms) \<in> set gs \<Longrightarrow> m \<in> set ms \<Longrightarrow> sound_download m"
    by auto
  then show ?thesis using assms(3) p by (auto simp: execute_download_run_def intro: groups_run)
qed

lemma loop:
  assumes "good st" "set as \<subseteq> set pl" "execute_actions ow xc as st = (r, st')"
  shows "good st'"
  using assms
proof (induction "length as" arbitrary: as st rule: less_induct)
  case less
  show ?case
  proof (cases as)
    case Nil
    with less.prems show ?thesis by simp
  next
    case (Cons a rest)
    obtain b st1 where c: "xs_look (ow_cancelled ow) st = (b, st1)" by fastforce
    obtain u st2 where l: "xs_look (ow_ensure_root_available ow) st1 = (u, st2)" by fastforce
    have I: "good st1" "good st2" using looked[OF less.prems(1) reached_calls(1) c]
      looked[OF looked[OF less.prems(1) reached_calls(1) c] reached_calls(2) l] .
    define run where "run = takeWhile (\<lambda>b. pa_action b = Download) (a # rest)"
    have a: "a \<in> set pl" "set rest \<subseteq> set pl" using less.prems(2) Cons by auto
    have run: "set run \<subseteq> {a \<in> set pl. pa_action a = Download}"
      using less.prems(2) Cons unfolding run_def by (auto dest: set_takeWhileD)
    obtain r3 st3 where d: "execute_download_run ow xc run st2 = (r3, st3)" by fastforce
    obtain r4 st4 where s: "execute_single ow xc a st2 = (r4, st4)" by fastforce
    have I3: "good st3" using download_run[OF I(2) run d] .
    have I4: "good st4" using single[OF I(2) a(1) s] .
    have again: "good st'" if "good sx" "execute_actions ow xc ys sx = (r, st')" "length ys < length as" "set ys \<subseteq> set pl" for ys sx
      using less.hyps[OF that(3,1,4,2)] .
    have "set (drop (length run) (a # rest)) \<subseteq> set pl"
      using less.prems(2) Cons set_drop_subset[of "length run" "a # rest"] by auto
    moreover have "length (drop (length run) (a # rest)) < length as" if "1 < length run" using Cons that by simp
    ultimately have runs: "good st'" if "execute_actions ow xc (drop (length run) (a # rest)) st3 = (r, st')" "1 < length run"
      using again[OF I3 that(1)] that(2) by blast
    have rests: "good st'" if "execute_actions ow xc rest sx = (r, st')" "good sx" for sx
      using again[OF that(2,1) _ a(2)] Cons by simp
    have step: "execute_actions ow xc (a # rest) st = (r, st')" using less.prems(3) Cons by simp
    show ?thesis
    proof (cases b)
      case True
      with step I c show ?thesis by simp
    next
      case False
      show ?thesis
      proof (cases u)
        case (Inl e)
        with step I False c l show ?thesis by (auto intro: good_commit)
      next
        case (Inr v)
        consider "pc_skip_destructive (xc_config xc) \<and> is_destructive (pa_action a)"
          | "\<not> (pc_skip_destructive (xc_config xc) \<and> is_destructive (pa_action a))"
            "1 < pc_download_batch_size (xc_config xc) \<and> pa_action a = Download \<and> 1 < length run"
          | "\<not> (pc_skip_destructive (xc_config xc) \<and> is_destructive (pa_action a))"
            "\<not> (1 < pc_download_batch_size (xc_config xc) \<and> pa_action a = Download \<and> 1 < length run)" by blast
        then show ?thesis
        proof cases
          case 1
          with step False Inr c l have "execute_actions ow xc rest (st2\<lparr>xs_skipped := xs_skipped st2 + 1\<rparr>) = (r, st')"
            by simp
          with good_count(2)[OF I(2)] rests show ?thesis by blast
        next
          case 2
          with step False Inr c l d have "(case (r3, st3) of
                (None, st3) \<Rightarrow> execute_actions ow xc (drop (length run) (a # rest)) st3
              | (Some (StopFailed e), st3) \<Rightarrow>
                  (Some (StopFailed e), if is_root_unavailable_error e then commit_checkpoint ow xc st3 else st3)
              | (Some stop, st3) \<Rightarrow> (Some stop, st3)) = (r, st')"
            by (simp only: execute_actions.simps prod.case bool.case sum.case Let_def run_def[symmetric] if_False if_True) simp
          with 2 runs I3 show ?thesis
            by (auto split: option.splits pass_stop.splits if_splits intro: good_commit)
        next
          case 3
          with step False Inr c l s have "(case (r4, st4) of
                (None, st4) \<Rightarrow> execute_actions ow xc rest st4 | (Some stop, st4) \<Rightarrow> (Some stop, st4)) = (r, st')"
            by (simp only: execute_actions.simps prod.case bool.case sum.case Let_def run_def[symmetric] if_False if_True)
          with rests I4 show ?thesis by (auto split: option.splits)
        qed
      qed
    qed
  qed
qed

end

end
