(* ===== verification/Executor_Props.thy ===== *)
theory Executor_Props
  imports Executor_Invariant
begin

text \<open>
  What a pass guarantees, whatever the CLI and the file system answer: the index and the approvals change
  only with side effects that landed, the cursor moves only behind a pass that left nothing undone, a
  failing item costs only itself, and a withheld deletion never reaches the outside.
\<close>

section \<open>Evidence\<close>

text \<open>How a mutation comes to be queued: by an action of the plan that returned, or by a file of a batch
  that the client reported landed, in a world the pass reached from the one it started in.\<close>

inductive landed :: "'w outside \<Rightarrow> exec_context \<Rightarrow> plan \<Rightarrow> 'w \<Rightarrow> index_mutation \<Rightarrow> bool" for ow xc pl w0 where
  action_returned: "a \<in> set pl \<Longrightarrow> reached ow w0 (rs_world s) \<Longrightarrow> execute_action ow xc a s = (Inr res, s') \<Longrightarrow> m \<in> set (ar_mutations res) \<Longrightarrow>
    landed ow xc pl w0 m"
| file_of_a_batch: "a \<in> set pl \<Longrightarrow> pa_action a = Download \<Longrightarrow> pa_remote_id a = Some rid \<Longrightarrow>
    safe_remote_path (pc_remote_root (xc_config xc)) (pa_path a) = Some (dr_remote_path req) \<Longrightarrow>
    reached ow w0 w \<Longrightarrow> ow_download_many ow reqs w = (results, w') \<Longrightarrow> (req, Inr ()) \<in> set (zip reqs results) \<Longrightarrow>
    reached ow w0 w2 \<Longrightarrow> ow_file_state ow (dr_destination req) w2 = (Inr lfs, w3) \<Longrightarrow>
    landed ow xc pl w0 (UpsertRow (record_from_local (pa_path a) lfs (Some rid) Synced))"

definition deletion_landed :: "'w outside \<Rightarrow> exec_context \<Rightarrow> plan \<Rightarrow> 'w \<Rightarrow> path \<times> delete_direction \<Rightarrow> bool" where
  "deletion_landed ow xc pl w0 c \<longleftrightarrow>
    (\<exists>a s res s'. a \<in> set pl \<and> reached ow w0 (rs_world s) \<and>
      execute_action ow xc a s = (Inr res, s') \<and> c \<in> set (ar_consumed res))"

lemma apply_mutations_index:
  "db_file_index db = db_file_index db' \<Longrightarrow>
   db_file_index (foldl apply_mutation db ms) = db_file_index (foldl apply_mutation db' ms)"
proof (induction ms arbitrary: db db')
  case (Cons m ms)
  have "db_file_index (apply_mutation db m) = db_file_index (apply_mutation db' m)"
    using Cons.prems by (cases m) (simp_all add: upsert_record_def purge_record_def)
  from Cons.IH[OF this] show ?case by simp
qed simp

definition rows_landed :: "'w outside \<Rightarrow> exec_context \<Rightarrow> plan \<Rightarrow> 'w \<Rightarrow> database \<Rightarrow> 'w exec_state \<Rightarrow> bool" where
  "rows_landed ow xc pl w0 db0 st \<longleftrightarrow>
    (\<exists>ms. db_file_index (xs_db st) = db_file_index (foldl apply_mutation db0 ms) \<and>
      (\<forall>m\<in>set ms \<union> set (xs_mutations st). landed ow xc pl w0 m))"

definition approvals_landed :: "'w outside \<Rightarrow> exec_context \<Rightarrow> plan \<Rightarrow> 'w \<Rightarrow> database \<Rightarrow> 'w exec_state \<Rightarrow> bool" where
  "approvals_landed ow xc pl w0 db0 st \<longleftrightarrow>
    (\<exists>cs. db_delete_approvals (xs_db st) = db_delete_approvals (consume_approvals db0 cs) \<and>
      (\<forall>c\<in>set cs \<union> set (xs_consumptions st). deletion_landed ow xc pl w0 c))"

interpretation rows: pass_invariant ow xc pl w0 "rows_landed ow xc pl w0 db0" for ow :: "'w outside" and xc pl w0 db0
proof
  fix st :: "'w exec_state" and a s res s'
  assume I: "rows_landed ow xc pl w0 db0 st" and a: "a \<in> set pl" "reached ow w0 (rs_world s)" "execute_action ow xc a s = (Inr res, s')"
  then have "\<forall>m\<in>set (ar_mutations res). landed ow xc pl w0 m" by (blast intro: landed.intros)
  with I show "rows_landed ow xc pl w0 db0 (st\<lparr>xs_mutations := xs_mutations st @ ar_mutations res,
      xs_consumptions := xs_consumptions st @ ar_consumed res\<rparr>)"
    by (auto simp: rows_landed_def)
next
  fix st :: "'w exec_state" and a rid req reqs w results w' w2 lfs w3
  assume I: "rows_landed ow xc pl w0 db0 st" and a: "a \<in> set pl" "pa_action a = Download" "pa_remote_id a = Some rid"
    "safe_remote_path (pc_remote_root (xc_config xc)) (pa_path a) = Some (dr_remote_path req)"
    "reached ow w0 w" "ow_download_many ow reqs w = (results, w')" "(req, Inr ()) \<in> set (zip reqs results)"
    "reached ow w0 w2" "ow_file_state ow (dr_destination req) w2 = (Inr lfs, w3)"
  from file_of_a_batch[OF a] I show "rows_landed ow xc pl w0 db0 (st\<lparr>xs_mutations := xs_mutations st @
      [UpsertRow (record_from_local (pa_path a) lfs (Some rid) Synced)]\<rparr>)"
    by (auto simp: rows_landed_def)
next
  fix st :: "'w exec_state"
  assume "rows_landed ow xc pl w0 db0 st"
  then obtain ms where ms: "db_file_index (xs_db st) = db_file_index (foldl apply_mutation db0 ms)"
    "\<forall>m\<in>set ms \<union> set (xs_mutations st). landed ow xc pl w0 m" by (auto simp: rows_landed_def)
  have "db_file_index (xs_db (commit_checkpoint ow xc st)) = db_file_index (foldl apply_mutation db0 (ms @ xs_mutations st))"
    using apply_mutations_index[OF ms(1)] by (simp add: checkpoint_fields)
  with ms(2) show "rows_landed ow xc pl w0 db0 (commit_checkpoint ow xc st)"
    unfolding rows_landed_def checkpoint_fields by (intro exI[of _ "ms @ xs_mutations st"]) simp
qed (auto simp: rows_landed_def)

interpretation approvals: pass_invariant ow xc pl w0 "approvals_landed ow xc pl w0 db0" for ow :: "'w outside" and xc pl w0 db0
proof
  fix st :: "'w exec_state" and a s res s'
  assume I: "approvals_landed ow xc pl w0 db0 st" and a: "a \<in> set pl" "reached ow w0 (rs_world s)" "execute_action ow xc a s = (Inr res, s')"
  then have "\<forall>c\<in>set (ar_consumed res). deletion_landed ow xc pl w0 c" by (auto simp: deletion_landed_def)
  with I show "approvals_landed ow xc pl w0 db0 (st\<lparr>xs_mutations := xs_mutations st @ ar_mutations res,
      xs_consumptions := xs_consumptions st @ ar_consumed res\<rparr>)"
    by (auto simp: approvals_landed_def)
next
  fix st :: "'w exec_state"
  assume "approvals_landed ow xc pl w0 db0 st"
  then obtain cs where cs: "db_delete_approvals (xs_db st) = db_delete_approvals (consume_approvals db0 cs)"
    "\<forall>c\<in>set cs \<union> set (xs_consumptions st). deletion_landed ow xc pl w0 c" by (auto simp: approvals_landed_def)
  have "db_delete_approvals (xs_db (commit_checkpoint ow xc st)) =
      db_delete_approvals (consume_approvals db0 (cs @ xs_consumptions st))"
    using consume_index[OF cs(1), of "xs_consumptions st"] by (simp add: checkpoint_fields consume_approvals_def)
  with cs(2) show "approvals_landed ow xc pl w0 db0 (commit_checkpoint ow xc st)"
    unfolding approvals_landed_def checkpoint_fields by (intro exI[of _ "cs @ xs_consumptions st"]) simp
qed (auto simp: approvals_landed_def)

text \<open>The loop leaves the cursor alone, and its counters only grow.\<close>

interpretation cursor: pass_invariant ow xc pl w0 "\<lambda>st. db_event_cursor (xs_db st) = c0" for ow :: "'w outside" and xc pl w0 c0
  by unfold_locales (simp_all add: checkpoint_fields)

interpretation counters: pass_invariant ow xc pl w0
    "\<lambda>st. n \<le> pf_count (xs_failures st) \<and> v \<le> xs_vanished st \<and> k \<le> xs_skipped st"
  for ow :: "'w outside" and xc pl w0 n v k
  by unfold_locales (auto simp: checkpoint_fields)

text \<open>What the failure counter knows.\<close>

definition counted :: "pass_failures \<Rightarrow> bool" where
  "counted pf \<longleftrightarrow> length (pf_items pf) = min (pf_count pf) failed_items_reported \<and>
    list_all (\<lambda>i. length (fi_error i) \<le> failed_item_error_limit) (pf_items pf) \<and>
    pf_consecutive pf \<le> pf_count pf \<and> (\<not> pf_any_success pf \<longrightarrow> pf_consecutive pf = pf_count pf)"

lemma truncate_bounded: "length (truncate_for_display s n) \<le> n"
  by (cases rule: truncated[of s n]) simp_all

interpretation failure_counts: pass_invariant ow xc pl w0 "\<lambda>st. counted (xs_failures st)" for ow :: "'w outside" and xc pl w0
proof
  fix st :: "'w exec_state" and a e
  assume "counted (xs_failures st)"
  then show "counted (xs_failures (st\<lparr>xs_failures := record_failure a e (xs_failures st)\<rparr>))"
    by (auto simp: counted_def record_failure_def truncate_error_def truncate_bounded min_def)
qed (auto simp: checkpoint_fields counted_def note_success_def)

section \<open>The commit that ends a pass\<close>

lemma store_cursor_fields:
  "db_file_index (xs_db (store_cursor_update ow cursor st)) = db_file_index (xs_db st)"
  "db_delete_approvals (xs_db (store_cursor_update ow cursor st)) = db_delete_approvals (xs_db st)"
  "xs_consumptions (store_cursor_update ow cursor st) = xs_consumptions st"
  "xs_failures (store_cursor_update ow cursor st) = xs_failures st"
  by (auto simp: store_cursor_update_def store_event_cursor_def case_prod_beta split: option.split)

lemma store_root_fields:
  "db_file_index (xs_db (store_root_node ow xc update st)) = db_file_index (xs_db st)"
  "db_delete_approvals (xs_db (store_root_node ow xc update st)) = db_delete_approvals (xs_db st)"
  "db_event_cursor (xs_db (store_root_node ow xc update st)) = db_event_cursor (xs_db st)"
  "xs_consumptions (store_root_node ow xc update st) = xs_consumptions st"
  "xs_failures (store_root_node ow xc update st) = xs_failures st"
  by (auto simp: store_root_node_def store_remote_root_uid_def clear_remote_root_uid_def case_prod_beta
      split: root_node_update.split option.split)

definition final_state ::
  "'w outside \<Rightarrow> exec_context \<Rightarrow> cursor_update option \<Rightarrow> root_node_update \<Rightarrow> 'w exec_state \<Rightarrow> 'w exec_state" where
  "final_state ow xc cursor rn st =
    store_root_node ow xc rn (store_cursor_update ow (held_cursor (xc_gate xc) st cursor) (commit_index_rows ow xc st))"

lemma finish_available:
  assumes "xs_look (ow_ensure_root_available ow) st = (Inr v, st1)" "finish_pass ow xc settled cursor rn st = (pe, st')"
  shows "pe = PassEnded (failures_outcome (xs_failures (final_state ow xc cursor rn st1)))"
    and "db_event_cursor (xs_db st') = db_event_cursor (xs_db (final_state ow xc cursor rn st1))"
    and "db_file_index (xs_db st') = db_file_index (xs_db (final_state ow xc cursor rn st1))"
    and "db_delete_approvals (xs_db st') = db_delete_approvals (consume_approvals (xs_db (final_state ow xc cursor rn st1))
      (xs_consumptions (final_state ow xc cursor rn st1)))"
  using assms
  by (auto simp: finish_pass_def Let_def final_state_def consume_fields store_forced_delete_approval_def)

lemma final_state_fields:
  "db_file_index (xs_db (final_state ow xc cursor rn st)) = db_file_index (foldl apply_mutation (xs_db st) (xs_mutations st))"
  "db_delete_approvals (xs_db (final_state ow xc cursor rn st)) = db_delete_approvals (xs_db st)"
  "xs_consumptions (final_state ow xc cursor rn st) = xs_consumptions st"
  "xs_failures (final_state ow xc cursor rn st) = xs_failures st"
  by (simp_all add: final_state_def store_root_fields store_cursor_fields commit_rows_fields)

lemma finish_rows:
  assumes "finish_pass ow xc settled cursor rn st = (pe, st')"
  shows "db_file_index (xs_db st') = db_file_index (foldl apply_mutation (xs_db st) (xs_mutations st))"
    and "db_delete_approvals (xs_db st') = db_delete_approvals (consume_approvals (xs_db st) (xs_consumptions st))"
proof -
  obtain u st1 where l: "xs_look (ow_ensure_root_available ow) st = (u, st1)" by fastforce
  note fields = xs_look_eq[OF l]
  have "db_file_index (xs_db st') = db_file_index (foldl apply_mutation (xs_db st) (xs_mutations st)) \<and>
      db_delete_approvals (xs_db st') = db_delete_approvals (consume_approvals (xs_db st) (xs_consumptions st))"
  proof (cases u)
    case (Inl e)
    with assms l fields show ?thesis by (auto simp: finish_pass_def checkpoint_fields)
  next
    case (Inr v)
    from finish_available(3,4)[OF l[unfolded Inr] assms]
      consume_index[OF final_state_fields(2)[of ow xc cursor rn st1], of "xs_consumptions st1"]
    show ?thesis by (simp add: final_state_fields fields)
  qed
  then show "db_file_index (xs_db st') = db_file_index (foldl apply_mutation (xs_db st) (xs_mutations st))"
    and "db_delete_approvals (xs_db st') = db_delete_approvals (consume_approvals (xs_db st) (xs_consumptions st))"
    by blast+
qed

lemma run_plan_loop:
  assumes "run_plan ow xc settled cursor rn pl st = (pe, st')"
  obtains stop where "execute_actions ow xc pl st = (Some stop, st')" "pe = PassStopped stop"
  | st1 where "execute_actions ow xc pl st = (None, st1)" "finish_pass ow xc settled cursor rn st1 = (pe, st')"
  using assms by (auto simp: run_plan_def split: prod.splits option.splits)

lemma finish_cursor:
  assumes "finish_pass ow xc settled cursor rn st = (pe, st')"
    and "db_event_cursor (xs_db st') \<noteq> db_event_cursor (xs_db st)"
  shows "pe = PassEnded PassClean \<and> pf_count (xs_failures st) = 0 \<and> xs_vanished st = 0 \<and> xs_skipped st = 0 \<and>
    dg_withheld_paths (xc_gate xc) = {} \<and> (\<exists>cu t. cursor = Some cu \<and>
      hm_get (db_event_cursor (xs_db st')) (cu_scope_id cu) = Some (cu_last_event_id cu, t))"
proof -
  obtain u st1 where l: "xs_look (ow_ensure_root_available ow) st = (u, st1)" by fastforce
  note fields = xs_look_eq[OF l]
  obtain v where u: "u = Inr v"
    using assms l by (cases u) (auto simp: finish_pass_def checkpoint_fields fields)
  note closed = finish_available[OF l[unfolded u] assms(1)]
  define held where "held = held_cursor (xc_gate xc) st1 cursor"
  have cur: "db_event_cursor (xs_db st') = db_event_cursor (xs_db (store_cursor_update ow held (commit_index_rows ow xc st1)))"
    unfolding closed(2) by (simp add: final_state_def held_def store_root_fields)
  obtain cu where cu: "held = Some cu"
    using assms(2) cur by (cases held) (simp_all add: store_cursor_update_def commit_rows_fields fields)
  then have conds: "\<not> (0 < xs_skipped st1 \<or> 0 < xs_vanished st1 \<or> 0 < pf_count (xs_failures st1))"
    "dg_withheld_paths (xc_gate xc) = {}" "cursor = Some cu"
    by (auto simp: held_def held_cursor_def cursor_after_gate_def split: if_splits)
  have "\<exists>t. hm_get (db_event_cursor (xs_db st')) (cu_scope_id cu) = Some (cu_last_event_id cu, t)"
    unfolding cur cu by (simp add: store_cursor_update_def store_event_cursor_def case_prod_beta hm.get_insert)
  moreover have "pe = PassEnded PassClean"
    using conds(1) closed(1) by (simp add: final_state_fields failures_outcome_def)
  ultimately show ?thesis using conds fields by auto
qed

section \<open>A clean pass did everything\<close>

interpretation worlds: pass_invariant ow xc pl w0 "\<lambda>_. True" for ow :: "'w outside" and xc pl w0
  by unfold_locales simp_all

lemma worlds_good: "worlds.good ow w0 st \<longleftrightarrow> reached ow w0 (rs_world (xs_run st))"
  by (simp add: worlds.good_def)

definition completed :: "'w outside \<Rightarrow> exec_context \<Rightarrow> 'w \<Rightarrow> planned_action \<Rightarrow> bool" where
  "completed ow xc w0 a \<longleftrightarrow> (\<exists>s res s'. reached ow w0 (rs_world s) \<and>
    execute_action ow xc a s = (Inr res, s') \<and> ar_vanished res = 0)"

lemma single_counts:
  assumes "execute_single ow xc a st = (None, st')" "pf_count (xs_failures st') = pf_count (xs_failures st)"
    "xs_vanished st' = xs_vanished st" "reached ow w0 (rs_world (xs_run st))"
  shows "completed ow xc w0 a"
proof -
  obtain res run where e: "execute_action ow xc a (xs_run st) = (res, run)" by fastforce
  show ?thesis
  proof (cases res)
    case (Inl f)
    with assms e show ?thesis
      by (auto simp: execute_single_def Let_def checkpoint_fields split: prod.splits bool.splits if_splits dest!: xs_look_eq(4))
  next
    case (Inr ar)
    with assms e have "ar_vanished ar = 0"
      by (auto simp: execute_single_def Let_def checkpoint_fields split: if_splits)
    with e Inr assms(4) show ?thesis unfolding completed_def by blast
  qed
qed

text \<open>One turn of a loop that was not stopped.\<close>

lemma loop_step:
  assumes "execute_actions ow xc (a # rest) st = (r, st')" "r = None"
  obtains (skip) st2 where "worlds.good ow w0 st \<Longrightarrow> worlds.good ow w0 st2" "xs_failures st2 = xs_failures st"
      "xs_vanished st2 = xs_vanished st" "xs_skipped st2 = xs_skipped st + 1" "execute_actions ow xc rest st2 = (r, st')"
  | (batch) st2 st3 n where "worlds.good ow w0 st \<Longrightarrow> worlds.good ow w0 st2" "xs_failures st2 = xs_failures st"
      "xs_vanished st2 = xs_vanished st" "xs_skipped st2 = xs_skipped st" "1 < n" "1 < pc_download_batch_size (xc_config xc)"
      "\<forall>b\<in>set (take n (a # rest)). pa_action b = Download"
      "execute_download_run ow xc (take n (a # rest)) st2 = (None, st3)"
      "execute_actions ow xc (drop n (a # rest)) st3 = (r, st')"
  | (one) st2 st3 where "worlds.good ow w0 st \<Longrightarrow> worlds.good ow w0 st2" "xs_failures st2 = xs_failures st"
      "xs_vanished st2 = xs_vanished st" "xs_skipped st2 = xs_skipped st" "execute_single ow xc a st2 = (None, st3)"
      "execute_actions ow xc rest st3 = (r, st')"
proof -
  obtain b st1 where c: "xs_look (ow_cancelled ow) st = (b, st1)" by fastforce
  obtain u st2 where l: "xs_look (ow_ensure_root_available ow) st1 = (u, st2)" by fastforce
  have good: "worlds.good ow w0 st \<Longrightarrow> worlds.good ow w0 st2"
    using worlds.looked[OF worlds.looked[OF _ reached_calls(1) c] reached_calls(2) l] .
  note fields = xs_look_eq[OF c] xs_look_eq[OF l]
  from assms c l have b: "b = False" and u: "u = Inr ()" by (auto split: bool.splits sum.splits)
  define run where "run = takeWhile (\<lambda>b. pa_action b = Download) (a # rest)"
  show thesis
  proof (cases "pc_skip_destructive (xc_config xc) \<and> is_destructive (pa_action a)")
    case True
    with assms(1) c l b u have "execute_actions ow xc rest (st2\<lparr>xs_skipped := xs_skipped st2 + 1\<rparr>) = (r, st')" by simp
    moreover have "worlds.good ow w0 st \<Longrightarrow> worlds.good ow w0 (st2\<lparr>xs_skipped := xs_skipped st2 + 1\<rparr>)"
      using good by (simp add: worlds_good)
    ultimately show thesis using fields by (intro skip) simp_all
  next
    case noskip: False
    show thesis
    proof (cases "1 < pc_download_batch_size (xc_config xc) \<and> pa_action a = Download \<and> 1 < length run")
      case True
      obtain r3 st3 where d: "execute_download_run ow xc run st2 = (r3, st3)" by fastforce
      have run: "run = take (length run) (a # rest)" "\<forall>b\<in>set run. pa_action b = Download"
        unfolding run_def by (rule takeWhile_eq_take) (blast dest: set_takeWhileD)
      from assms(1) c l b u noskip True d have "(case (r3, st3) of
          (None, st3) \<Rightarrow> execute_actions ow xc (drop (length run) (a # rest)) st3
        | (Some (StopFailed e), st3) \<Rightarrow>
            (Some (StopFailed e), if is_root_unavailable_error e then commit_checkpoint ow xc st3 else st3)
        | (Some stop, st3) \<Rightarrow> (Some stop, st3)) = (r, st')"
        by (simp only: execute_actions.simps prod.case bool.case sum.case Let_def run_def[symmetric] if_False if_True) simp
      with assms(2) have "r3 = None" "execute_actions ow xc (drop (length run) (a # rest)) st3 = (r, st')"
        by (auto split: option.splits pass_stop.splits)
      with True d fields good run show thesis by (intro batch[of st2 "length run" st3]) simp_all
    next
      case 2: False
      obtain r4 st4 where s: "execute_single ow xc a st2 = (r4, st4)" by fastforce
      from assms(1) c l b u noskip 2 s have "(case (r4, st4) of
          (None, st4) \<Rightarrow> execute_actions ow xc rest st4 | (Some stop, st4) \<Rightarrow> (Some stop, st4)) = (r, st')"
        by (simp only: execute_actions.simps prod.case bool.case sum.case Let_def run_def[symmetric] if_False if_True)
      with assms(2) have "r4 = None" "execute_actions ow xc rest st4 = (r, st')" by (auto split: option.splits)
      with s fields good show thesis by (intro one[of st2 st4]) simp_all
    qed
  qed
qed

lemma counts_grow:
  "execute_single ow xc a st = (r, st') \<Longrightarrow> pf_count (xs_failures st) \<le> pf_count (xs_failures st') \<and>
     xs_vanished st \<le> xs_vanished st' \<and> xs_skipped st \<le> xs_skipped st'"
  "\<forall>b\<in>set run. pa_action b = Download \<Longrightarrow> execute_download_run ow xc run st = (r, st') \<Longrightarrow>
     pf_count (xs_failures st) \<le> pf_count (xs_failures st') \<and>
     xs_vanished st \<le> xs_vanished st' \<and> xs_skipped st \<le> xs_skipped st'"
  "execute_actions ow xc as st = (r, st') \<Longrightarrow> pf_count (xs_failures st) \<le> pf_count (xs_failures st') \<and>
     xs_vanished st \<le> xs_vanished st' \<and> xs_skipped st \<le> xs_skipped st'"
proof -
  let ?C = "\<lambda>pl. counters.good ow (rs_world (xs_run st)) (pf_count (xs_failures st)) (xs_vanished st) (xs_skipped st)"
  have st: "?C pl st" for pl by (simp add: counters.good_def reached.start)
  show "execute_single ow xc a st = (r, st') \<Longrightarrow> pf_count (xs_failures st) \<le> pf_count (xs_failures st') \<and>
      xs_vanished st \<le> xs_vanished st' \<and> xs_skipped st \<le> xs_skipped st'"
    using counters.single[OF st, of a "[a]" xc r st'] by (simp add: counters.good_def)
  show "\<forall>b\<in>set run. pa_action b = Download \<Longrightarrow> execute_download_run ow xc run st = (r, st') \<Longrightarrow>
      pf_count (xs_failures st) \<le> pf_count (xs_failures st') \<and>
      xs_vanished st \<le> xs_vanished st' \<and> xs_skipped st \<le> xs_skipped st'"
    using counters.download_run[OF st, of run run xc r st'] by (auto simp: counters.good_def)
  show "execute_actions ow xc as st = (r, st') \<Longrightarrow> pf_count (xs_failures st) \<le> pf_count (xs_failures st') \<and>
      xs_vanished st \<le> xs_vanished st' \<and> xs_skipped st \<le> xs_skipped st'"
    using counters.loop[OF st, of as as xc r st'] by (simp add: counters.good_def)
qed

lemma loop_completed:
  assumes "execute_actions ow xc as st = (None, st')" "reached ow w0 (rs_world (xs_run st))"
    and "pf_count (xs_failures st') = pf_count (xs_failures st)" "xs_vanished st' = xs_vanished st"
    and "xs_skipped st' = xs_skipped st" "a \<in> set as"
    and "pa_action a \<noteq> Download \<or> pc_download_batch_size (xc_config xc) \<le> 1"
  shows "completed ow xc w0 a"
  using assms
proof (induction "length as" arbitrary: as st rule: less_induct)
  case less
  then obtain b rest where as: "as = b # rest" by (cases as) auto
  have start: "worlds.good ow w0 st" using less.prems(2) by (simp add: worlds_good)
  show ?case
  proof (cases rule: loop_step[OF less.prems(1)[unfolded as] refl, where ?w0.0 = w0, consumes 0, case_names skip batch one])
    case (skip st2)
    with counts_grow(3)[OF skip(5)] less.prems(5) show ?thesis by simp
  next
    case (batch st2 st3 n)
    note grow = counts_grow(2)[OF batch(7,8)] counts_grow(3)[OF batch(9)]
    have "a \<notin> set (take n (b # rest))" using batch(6,7) less.prems(7) by auto
    then have in_rest: "a \<in> set (drop n (b # rest))"
      using less.prems(6) as by (metis Un_iff append_take_drop_id set_append)
    have g: "worlds.good ow w0 st3"
      using worlds.download_run[OF batch(1)[OF start] _ batch(8), of "take n (b # rest)"] batch(7) by auto
    have "length (drop n (b # rest)) < length as" using batch(5) as by simp
    from less.hyps[OF this batch(9)] g grow batch(2-4) less.prems(3-5,7) in_rest show ?thesis by (simp add: worlds_good)
  next
    case (one st2 st3)
    note grow = counts_grow(1)[OF one(5)] counts_grow(3)[OF one(6)]
    have g: "worlds.good ow w0 st3"
      using worlds.single[OF one(1)[OF start] _ one(5), of "[b]"] by simp
    have eq: "pf_count (xs_failures st3) = pf_count (xs_failures st2)" "xs_vanished st3 = xs_vanished st2"
      "pf_count (xs_failures st') = pf_count (xs_failures st3)" "xs_vanished st' = xs_vanished st3"
      "xs_skipped st' = xs_skipped st3" using grow one(2-4) less.prems(3-5) by simp_all
    show ?thesis
    proof (cases "a = b")
      case True
      with single_counts[OF one(5) eq(1,2)] one(1)[OF start] show ?thesis by (simp add: worlds_good)
    next
      case False
      with less.prems(6) as have "a \<in> set rest" "length rest < length as" by auto
      from less.hyps[OF this(2) one(6)] this(1) g eq less.prems(7) show ?thesis by (simp add: worlds_good)
    qed
  qed
qed

section \<open>A pass that nothing outside ends\<close>

text \<open>No shutdown, and the folder stays available.\<close>

definition available_throughout :: "'w outside \<Rightarrow> exec_context \<Rightarrow> bool" where
  "available_throughout ow xc \<longleftrightarrow>
    (\<forall>w. \<not> fst (ow_cancelled ow w)) \<and> (\<forall>w. fst (ow_ensure_root_available ow w) = Inr ()) \<and>
    (\<forall>a s e s'. execute_action ow xc a s = (Inl e, s') \<longrightarrow> \<not> is_root_unavailable_error e) \<and>
    (\<forall>p w e w'. ow_ensure_parent_directory ow p w = (Inl e, w') \<longrightarrow> \<not> is_root_unavailable_error e)"

definition abandons :: "pass_stop option \<Rightarrow> 'w exec_state \<Rightarrow> bool" where
  "abandons r st \<longleftrightarrow> (case r of None \<Rightarrow> True
    | Some stop \<Rightarrow> (\<exists>auth. stop = StopAbandoned auth) \<and> breaker_tripped (xs_failures st))"

lemma abandons_simps [simp]: "abandons None st" "abandons (Some (StopAbandoned b)) st \<longleftrightarrow> breaker_tripped (xs_failures st)"
  "abandons (Some StopCancelled) st \<longleftrightarrow> False" "abandons (Some (StopFailed e)) st \<longleftrightarrow> False"
  by (simp_all add: abandons_def)

lemma abandons_stop: "abandons (Some stop) st \<Longrightarrow> \<exists>auth. stop = StopAbandoned auth"
  by (simp add: abandons_def)

lemma available_looks:
  assumes "available_throughout ow xc"
  shows "xs_look (ow_cancelled ow) st = (b, st') \<Longrightarrow> b = False"
    and "xs_look (ow_ensure_root_available ow) st = (u, st') \<Longrightarrow> u = Inr ()"
    and "xs_look (ow_ensure_parent_directory ow p) st = (Inl e, st') \<Longrightarrow> \<not> is_root_unavailable_error e"
  using assms by (auto simp: available_throughout_def xs_look_def split: prod.splits) (metis surj_pair fst_conv)+

lemma single_abandons:
  assumes "available_throughout ow xc" "execute_single ow xc a st = (r, st')"
  shows "abandons r st'"
proof -
  obtain res run where e: "execute_action ow xc a (xs_run st) = (res, run)" by fastforce
  obtain b st1 where c: "xs_look (ow_cancelled ow) (st\<lparr>xs_run := run\<rparr>) = (b, st1)" by fastforce
  have "\<not> is_root_unavailable_error f" if "res = Inl f" for f
    using assms(1) e that unfolding available_throughout_def by blast
  with assms(2) e c available_looks(1)[OF assms(1) c] show ?thesis
    by (cases res) (auto simp: execute_single_def Let_def split: if_splits)
qed

lemma chunk_abandons: "execute_download_chunk ow xc ms st = (r, st') \<Longrightarrow> abandons r st'"
  by (auto simp: execute_download_chunk_def Let_def case_prod_beta split: if_splits)

lemma chunks_abandon:
  assumes "available_throughout ow xc" "execute_chunks ow xc mss st = (r, st')"
  shows "abandons r st'"
  using assms(2)
proof (induction mss arbitrary: st)
  case (Cons ms mss)
  obtain b st1 where c: "xs_look (ow_cancelled ow) st = (b, st1)" by fastforce
  obtain u st2 where l: "xs_look (ow_ensure_root_available ow) st1 = (u, st2)" by fastforce
  obtain r3 st3 where d: "execute_download_chunk ow xc ms st2 = (r3, st3)" by fastforce
  have "execute_chunks ow xc (ms # mss) st = (case r3 of Some stop \<Rightarrow> (Some stop, st3) | None \<Rightarrow> execute_chunks ow xc mss st3)"
    using c l d available_looks(1)[OF assms(1) c] available_looks(2)[OF assms(1) l] by simp
  with Cons.IH[of st3] Cons.prems chunk_abandons[OF d] show ?case by (cases r3) auto
qed simp

lemma groups_abandon:
  assumes "available_throughout ow xc" "execute_groups ow xc gs st = (r, st')"
  shows "abandons r st'"
  using assms(2)
proof (induction gs arbitrary: st)
  case (Cons g gs)
  obtain parent ms where g: "g = (parent, ms)" by (cases g)
  obtain u st1 where u: "(case ms of [] \<Rightarrow> (Inr (), st)
      | first # _ \<Rightarrow> xs_look (ow_ensure_parent_directory ow (dr_destination (pr_request first))) st) = (u, st1)"
    by fastforce
  obtain r2 st2 where c: "execute_chunks ow xc (chunks (pc_download_batch_size (xc_config xc)) ms) st1 = (r2, st2)"
    by fastforce
  show ?case
  proof (cases u)
    case (Inl e)
    have "\<not> is_root_unavailable_error e"
      using u Inl available_looks(3)[OF assms(1)] by (cases ms) auto
    with Cons.prems have "execute_groups ow xc gs (foldl (\<lambda>st m. record_item_failure (pr_action m) e st) st1 ms) = (r, st')"
      unfolding g execute_groups.simps u Inl by simp
    then show ?thesis by (rule Cons.IH)
  next
    case (Inr v)
    have "execute_groups ow xc (g # gs) st = (case r2 of Some stop \<Rightarrow> (Some stop, st2) | None \<Rightarrow> execute_groups ow xc gs st2)"
      unfolding g execute_groups.simps u Inr by (simp add: c)
    with Cons.IH[of st2] Cons.prems chunks_abandon[OF assms(1) c] show ?thesis by (cases r2) auto
  qed
qed simp

lemma loop_abandons:
  assumes "available_throughout ow xc" "execute_actions ow xc as st = (r, st')"
  shows "abandons r st'"
  using assms(2)
proof (induction "length as" arbitrary: as st rule: less_induct)
  case less
  show ?case
  proof (cases as)
    case Nil
    with less.prems show ?thesis by simp
  next
    case (Cons a rest)
    obtain b st1 where c: "xs_look (ow_cancelled ow) st = (b, st1)" by fastforce
    obtain u st2 where l: "xs_look (ow_ensure_root_available ow) st1 = (u, st2)" by fastforce
    note open_pass = available_looks(1)[OF assms(1) c] available_looks(2)[OF assms(1) l]
    define run where "run = takeWhile (\<lambda>b. pa_action b = Download) (a # rest)"
    obtain r3 st3 where d: "execute_download_run ow xc run st2 = (r3, st3)" by fastforce
    obtain r4 st4 where s: "execute_single ow xc a st2 = (r4, st4)" by fastforce
    have IH: "abandons r st'" if "execute_actions ow xc ys sx = (r, st')" "length ys < length as" for ys sx
      using less.hyps[OF that(2,1)] .
    have d_abandons: "abandons r3 st3"
      using d groups_abandon[OF assms(1)] by (auto simp: execute_download_run_def split: prod.splits)
    have step: "(if pc_skip_destructive (xc_config xc) \<and> is_destructive (pa_action a)
        then execute_actions ow xc rest (st2\<lparr>xs_skipped := xs_skipped st2 + 1\<rparr>)
        else if 1 < pc_download_batch_size (xc_config xc) \<and> pa_action a = Download \<and> 1 < length run
        then (case (r3, st3) of
            (None, st3) \<Rightarrow> execute_actions ow xc (drop (length run) (a # rest)) st3
          | (Some (StopFailed e), st3) \<Rightarrow>
              (Some (StopFailed e), if is_root_unavailable_error e then commit_checkpoint ow xc st3 else st3)
          | (Some stop, st3) \<Rightarrow> (Some stop, st3))
        else (case (r4, st4) of
            (None, st4) \<Rightarrow> execute_actions ow xc rest st4 | (Some stop, st4) \<Rightarrow> (Some stop, st4))) = (r, st')"
      using less.prems unfolding Cons execute_actions.simps c l open_pass run_def[symmetric] Let_def prod.case bool.case sum.case d s .
    show ?thesis
    proof (cases "pc_skip_destructive (xc_config xc) \<and> is_destructive (pa_action a)")
      case True
      with step have "execute_actions ow xc rest (st2\<lparr>xs_skipped := xs_skipped st2 + 1\<rparr>) = (r, st')" by simp
      from IH[OF this] Cons show ?thesis by simp
    next
      case 1: False
      show ?thesis
      proof (cases "1 < pc_download_batch_size (xc_config xc) \<and> pa_action a = Download \<and> 1 < length run")
        case True
        note step' = step[unfolded if_not_P[OF 1] if_P[OF True] prod.case]
        show ?thesis
        proof (cases r3)
          case None
          with step' have "execute_actions ow xc (drop (length run) (a # rest)) st3 = (r, st')" by simp
          moreover have "length (drop (length run) (a # rest)) < length as" using True Cons by auto
          ultimately show ?thesis by (rule IH)
        next
          case (Some stop)
          with d_abandons obtain auth where "stop = StopAbandoned auth" using abandons_stop by blast
          with Some step' d_abandons show ?thesis by simp
        qed
      next
        case False
        note step' = step[unfolded if_not_P[OF 1] if_not_P[OF False] prod.case]
        show ?thesis
        proof (cases r4)
          case None
          with step' have "execute_actions ow xc rest st4 = (r, st')" by simp
          from IH[OF this] Cons show ?thesis by simp
        next
          case (Some stop)
          with step' single_abandons[OF assms(1) s] show ?thesis by simp
        qed
      qed
    qed
  qed
qed

section \<open>Calls that are never made\<close>

text \<open>The same outside with other ways to delete.\<close>

definition with_deletion ::
  "(path \<Rightarrow> ('w, unit) call) \<Rightarrow> (local_delete_mode \<Rightarrow> path \<Rightarrow> entity_kind \<Rightarrow> ('w, unit) call) \<Rightarrow> 'w outside \<Rightarrow> 'w outside" where
  "with_deletion del disp ow = ow\<lparr>ow_delete := del, ow_dispose := disp\<rparr>"

lemma with_deletion_simps [simp]:
  "ow_cancelled (with_deletion del disp ow) = ow_cancelled ow"
  "ow_ensure_root_available (with_deletion del disp ow) = ow_ensure_root_available ow"
  "ow_ensure_root_directory (with_deletion del disp ow) = ow_ensure_root_directory ow"
  "ow_ensure_directory (with_deletion del disp ow) = ow_ensure_directory ow"
  "ow_upload (with_deletion del disp ow) = ow_upload ow"
  "ow_download (with_deletion del disp ow) = ow_download ow"
  "ow_download_many (with_deletion del disp ow) = ow_download_many ow"
  "ow_rename_or_move (with_deletion del disp ow) = ow_rename_or_move ow"
  "ow_canonicalize (with_deletion del disp ow) = ow_canonicalize ow"
  "ow_ensure_parent_directory (with_deletion del disp ow) = ow_ensure_parent_directory ow"
  "ow_ensure_directory_below (with_deletion del disp ow) = ow_ensure_directory_below ow"
  "ow_file_state (with_deletion del disp ow) = ow_file_state ow"
  "ow_directory_state (with_deletion del disp ow) = ow_directory_state ow"
  "ow_rename (with_deletion del disp ow) = ow_rename ow"
  "ow_symlink_metadata (with_deletion del disp ow) = ow_symlink_metadata ow"
  "ow_copy_into_new_file (with_deletion del disp ow) = ow_copy_into_new_file ow"
  "ow_read_to_string (with_deletion del disp ow) = ow_read_to_string ow"
  "ow_epoch_secs (with_deletion del disp ow) = ow_epoch_secs ow"
  "ow_exists (with_deletion del disp ow) = ow_exists ow"
  by (simp_all add: with_deletion_def)

lemma safe_local_same: "safe_local_path (with_deletion del disp ow) = safe_local_path ow"
  by (intro ext) (unfold safe_local_path_def local_write_escapes_root_def with_deletion_simps, rule refl)

lemma collect_same: "collect_agreed_summaries cfg (with_deletion del disp ow) ms = collect_agreed_summaries cfg ow ms"
proof (induction ms)
  case (Cons m ms)
  show ?case
    by (rule ext) (unfold collect_agreed_summaries.simps with_deletion_simps safe_local_same Cons.IH, rule refl)
qed (rule ext, simp)

lemma store_summaries_same:
  "store_agreed_summaries (with_deletion del disp ow) rows db w = store_agreed_summaries ow rows db w"
  by (induction rows arbitrary: db w) (auto split: prod.split)

lemma checkpoint_same:
  "commit_index_rows (with_deletion del disp ow) xc st = commit_index_rows ow xc st"
  "commit_checkpoint (with_deletion del disp ow) xc st = commit_checkpoint ow xc st"
  unfolding commit_checkpoint_def commit_index_rows_def with_deletion_simps safe_local_same collect_same
    store_summaries_same by (rule refl)+

text \<open>Only the two deletion arms tell them apart, and a withheld deletion is not one of them.\<close>

lemma other_arms_same:
  "execute_upload (with_deletion del disp ow) xc a = execute_upload ow xc a"
  "execute_download (with_deletion del disp ow) xc a = execute_download ow xc a"
  "execute_create_remote_directory (with_deletion del disp ow) xc a = execute_create_remote_directory ow xc a"
  "execute_create_local_directory (with_deletion del disp ow) xc a = execute_create_local_directory ow xc a"
  "execute_move_local (with_deletion del disp ow) xc a = execute_move_local ow xc a"
  "execute_move_remote (with_deletion del disp ow) xc a = execute_move_remote ow xc a"
  "execute_conflict (with_deletion del disp ow) xc a = execute_conflict ow xc a"
  "execute_type_conflict (with_deletion del disp ow) xc a = execute_type_conflict ow xc a"
  unfolding arm_defs with_deletion_simps safe_local_same by (rule refl)+

lemma execute_action_same:
  assumes "action_delete_direction (pa_action a) \<noteq> None \<Longrightarrow> pa_path a \<in> dg_withheld_paths (xc_gate xc)"
  shows "execute_action (with_deletion del disp ow) xc a = execute_action ow xc a"
  using assms
  by (cases "pa_action a")
    (simp_all add: execute_action_def other_arms_same execute_remote_delete_def execute_local_delete_def)

lemma execute_single_same:
  assumes "action_delete_direction (pa_action a) \<noteq> None \<Longrightarrow> pa_path a \<in> dg_withheld_paths (xc_gate xc)"
  shows "execute_single (with_deletion del disp ow) xc a st = execute_single ow xc a st"
proof -
  have same: "execute_action (with_deletion del disp ow) xc a = execute_action ow xc a"
    using assms by (rule execute_action_same)
  show ?thesis unfolding execute_single_def same checkpoint_same with_deletion_simps by (rule refl)
qed

lemma download_run_same: "execute_download_run (with_deletion del disp ow) xc run st = execute_download_run ow xc run st"
proof -
  have prepare: "prepare_download (with_deletion del disp ow) xc = prepare_download ow xc"
    by (intro ext) (unfold prepare_download_def safe_local_same, rule refl)
  have one_file: "chunk_file (with_deletion del disp ow) = chunk_file ow"
    by (intro ext) (unfold chunk_file_def with_deletion_simps, rule refl)
  have chunk: "execute_download_chunk (with_deletion del disp ow) xc ms st = execute_download_chunk ow xc ms st" for ms st
    unfolding execute_download_chunk_def one_file checkpoint_same with_deletion_simps by (rule refl)
  have chunks: "execute_chunks (with_deletion del disp ow) xc mss = execute_chunks ow xc mss" for mss
  proof (induction mss)
    case (Cons ms mss)
    show ?case by (rule ext) (unfold execute_chunks.simps chunk with_deletion_simps Cons.IH, rule refl)
  qed (rule ext, simp)
  have "execute_groups (with_deletion del disp ow) xc gs = execute_groups ow xc gs" for gs
  proof (induction gs)
    case (Cons g gs)
    obtain q ms where "g = (q, ms)" by (cases g)
    then show ?case by (intro ext) (simp only: execute_groups.simps chunks with_deletion_simps Cons.IH)
  qed (rule ext, simp)
  with prepare show ?thesis by (simp add: execute_download_run_def)
qed

lemma loop_same:
  assumes "\<And>a. a \<in> set as \<Longrightarrow> action_delete_direction (pa_action a) \<noteq> None \<Longrightarrow>
      pa_path a \<in> dg_withheld_paths (xc_gate xc) \<or> pc_skip_destructive (xc_config xc)"
  shows "execute_actions (with_deletion del disp ow) xc as st = execute_actions ow xc as st"
  using assms
proof (induction "length as" arbitrary: as st rule: less_induct)
  case less
  show ?case
  proof (cases as)
    case (Cons a rest)
    have destructive: "is_destructive (pa_action a)" if "action_delete_direction (pa_action a) \<noteq> None"
      using that by (cases "pa_action a") simp_all
    have rest: "execute_actions (with_deletion del disp ow) xc rest st = execute_actions ow xc rest st" for st
      using less.prems Cons by (intro less.hyps) auto
    have dropped: "execute_actions (with_deletion del disp ow) xc (drop n (a # rest)) st =
        execute_actions ow xc (drop n (a # rest)) st" if "1 < n" for n st
      using that less.prems Cons by (intro less.hyps) (auto dest: in_set_dropD)
    have single: "execute_single (with_deletion del disp ow) xc a st = execute_single ow xc a st"
      if "\<not> (pc_skip_destructive (xc_config xc) \<and> is_destructive (pa_action a))" for st
      using that less.prems[of a] destructive Cons by (intro execute_single_same) auto
    show ?thesis
    proof (cases "pc_skip_destructive (xc_config xc) \<and> is_destructive (pa_action a)")
      case True
      show ?thesis
        unfolding Cons execute_actions.simps with_deletion_simps checkpoint_same rest if_P[OF True] by (rule refl)
    next
      case False
      define run where "run = takeWhile (\<lambda>b. pa_action b = Download) (a # rest)"
      show ?thesis
      proof (cases "1 < pc_download_batch_size (xc_config xc) \<and> pa_action a = Download \<and> 1 < length run")
        case True
        then have "1 < length run" by blast
        then show ?thesis
          unfolding Cons execute_actions.simps with_deletion_simps checkpoint_same rest if_not_P[OF False]
            run_def[symmetric] Let_def if_P[OF True] download_run_same dropped[OF \<open>1 < length run\<close>] by (intro refl)
      next
        case 2: False
        show ?thesis
          unfolding Cons execute_actions.simps with_deletion_simps checkpoint_same rest if_not_P[OF False]
            run_def[symmetric] Let_def if_not_P[OF 2] single[OF False] by (rule refl)
      qed
    qed
  qed simp
qed

end
