(* ===== verification/Pass_Props.thy ===== *)
theory Pass_Props
  imports Executor_Props
begin

text \<open>
  The properties of a pass (\<^verbatim>\<open>execute_plan_and_commit\<close> in \<^verbatim>\<open>src/daemon.rs\<close>), stated over everything the
  outside may answer, and their witnesses on one small world.
\<close>

section \<open>Lemmas\<close>

lemma run_plan_rows:
  assumes "run_plan ow xc settled cursor rn pl st = (pe, st')" "rows_landed ow xc pl w0 db0 st"
    and "reached ow w0 (rs_world (xs_run st))"
  shows "\<exists>ms. db_file_index (xs_db st') = db_file_index (foldl apply_mutation db0 ms) \<and>
    (\<forall>m\<in>set ms. landed ow xc pl w0 m)"
proof -
  have good: "rows.good ow w0 xc pl db0 st" using assms(2,3) by (simp add: rows.good_def)
  from assms(1) show ?thesis
  proof (cases rule: run_plan_loop)
    case (1 stop)
    from rows.good_parts(1)[OF rows.loop[OF good order_refl 1(1)]] show ?thesis by (auto simp: rows_landed_def)
  next
    case (2 st1)
    from rows.good_parts(1)[OF rows.loop[OF good order_refl 2(1)]] obtain ms where
      ms: "db_file_index (xs_db st1) = db_file_index (foldl apply_mutation db0 ms)"
      "\<forall>m\<in>set ms \<union> set (xs_mutations st1). landed ow xc pl w0 m" by (auto simp: rows_landed_def)
    have "db_file_index (xs_db st') = db_file_index (foldl apply_mutation db0 (ms @ xs_mutations st1))"
      using finish_rows(1)[OF 2(2)] apply_mutations_index[OF ms(1)] by simp
    with ms(2) show ?thesis by (intro exI[of _ "ms @ xs_mutations st1"]) simp
  qed
qed

lemma run_plan_approvals:
  assumes "run_plan ow xc settled cursor rn pl st = (pe, st')" "approvals_landed ow xc pl w0 db0 st"
    and "reached ow w0 (rs_world (xs_run st))"
  shows "\<exists>cs. db_delete_approvals (xs_db st') = db_delete_approvals (consume_approvals db0 cs) \<and>
    (\<forall>c\<in>set cs. deletion_landed ow xc pl w0 c)"
proof -
  have good: "approvals.good ow w0 xc pl db0 st" using assms(2,3) by (simp add: approvals.good_def)
  from assms(1) show ?thesis
  proof (cases rule: run_plan_loop)
    case (1 stop)
    from approvals.good_parts(1)[OF approvals.loop[OF good order_refl 1(1)]] show ?thesis by (auto simp: approvals_landed_def)
  next
    case (2 st1)
    from approvals.good_parts(1)[OF approvals.loop[OF good order_refl 2(1)]] obtain cs where
      cs: "db_delete_approvals (xs_db st1) = db_delete_approvals (consume_approvals db0 cs)"
      "\<forall>c\<in>set cs \<union> set (xs_consumptions st1). deletion_landed ow xc pl w0 c" by (auto simp: approvals_landed_def)
    have "db_delete_approvals (xs_db st') = db_delete_approvals (consume_approvals db0 (cs @ xs_consumptions st1))"
      using finish_rows(2)[OF 2(2)] consume_index[OF cs(1), of "xs_consumptions st1"] by (simp add: consume_approvals_def)
    with cs(2) show ?thesis by (intro exI[of _ "cs @ xs_consumptions st1"]) simp
  qed
qed

lemma matching_consumed:
  assumes "plain_path q" "\<forall>(p, d)\<in>set cs. plain_path p"
  shows "matching_delete_approval (consume_approvals db cs) q e g \<longleftrightarrow>
    (q, e) \<notin> set cs \<and> matching_delete_approval db q e g"
  using assms(2)
proof (induction cs arbitrary: db)
  case (Cons c cs)
  obtain p d where c: "c = (p, d)" by (cases c)
  from Cons.prems have "plain_path p" "\<forall>(p, d)\<in>set cs. plain_path p" by (auto simp: c)
  with Cons.IH[OF this(2), of "delete_delete_approval db p d"] matching_delete[OF this(1) assms(1), of db d e g]
  show ?case by (auto simp: c consume_approvals_def)
qed (simp add: consume_approvals_def)

text \<open>An approval is consumed only by an arm that deletes, and only with its own purge.\<close>

definition returns :: "('a \<Rightarrow> bool) \<Rightarrow> ('w, 'a) act \<Rightarrow> bool" where
  "returns Q m \<longleftrightarrow> (\<forall>s x s'. m s = (Inr x, s') \<longrightarrow> Q x)"

named_theorems returning \<open>what an action returns, if it returns\<close>

lemma returns_act [returning]:
  "Q x \<Longrightarrow> returns Q (act_return x)" "returns Q (act_fail e)" "(\<And>x. returns Q (f x)) \<Longrightarrow> returns Q (act_bind m f)"
  "(\<And>x. o1 = None \<Longrightarrow> returns Q a) \<Longrightarrow> (\<And>x. o1 = Some x \<Longrightarrow> returns Q (b x)) \<Longrightarrow>
    returns Q (case o1 of None \<Rightarrow> a | Some x \<Rightarrow> b x)"
  "(c \<Longrightarrow> returns Q m1) \<Longrightarrow> (\<not> c \<Longrightarrow> returns Q m2) \<Longrightarrow> returns Q (if c then m1 else m2)"
  by (auto simp: returns_def act_bind_Inr split: option.splits)

lemma returnsD: "returns Q m \<Longrightarrow> m s = (Inr x, s') \<Longrightarrow> Q x"
  unfolding returns_def by blast

lemma consumes_nothing:
  "ar_consumed (queued ms) = []" "ar_consumed vanished_node = []" "ar_consumed (conflict_record xc a) = []"
  by (simp_all add: queued_def vanished_node_def conflict_record_def split: option.split)

lemma other_arms_consume_nothing [returning]:
  "returns (\<lambda>r. ar_consumed r = []) (execute_upload ow xc a)" "returns (\<lambda>r. ar_consumed r = []) (execute_download ow xc a)"
  "returns (\<lambda>r. ar_consumed r = []) (execute_create_remote_directory ow xc a)"
  "returns (\<lambda>r. ar_consumed r = []) (execute_create_local_directory ow xc a)"
  "returns (\<lambda>r. ar_consumed r = []) (execute_move_local ow xc a)"
  "returns (\<lambda>r. ar_consumed r = []) (execute_move_remote ow xc a)"
  "returns (\<lambda>r. ar_consumed r = []) (execute_auto_link xc a)" "returns (\<lambda>r. ar_consumed r = []) (execute_conflict ow xc a)"
  "returns (\<lambda>r. ar_consumed r = []) (execute_type_conflict ow xc a)"
  unfolding arm_defs Let_def
  by (intro returning consumes_nothing
      | simp only: consumes_nothing split: if_split
      | simp only: split: option.split sum.split prod.split local_entity_state.split path_metadata.split entity_kind.split
      | intro conjI allI impI)+

lemma deletion_arms_return:
  "returns (\<lambda>r. r = queued [] \<or> r = deletion_result xc a DeleteRemote) (execute_remote_delete ow xc a)"
  "returns (\<lambda>r. r = queued [] \<or> r = deletion_result xc a DeleteLocal) (execute_local_delete ow xc a)"
  unfolding execute_remote_delete_def execute_local_delete_def
  by (intro returning | simp only: split: option.split | intro conjI allI impI | simp)+

lemma consumed_by_deletion:
  assumes "execute_action ow xc a s = (Inr res, s')" "(p, d) \<in> set (ar_consumed res)"
  shows "p = pa_path a \<and> action_delete_direction (pa_action a) = Some d \<and> PurgeRow p \<in> set (ar_mutations res) \<and>
    (p, d) \<in> set (dg_consumed (xc_gate xc))"
proof -
  have del: "p = pa_path a \<and> d = d' \<and> PurgeRow p \<in> set (ar_mutations (deletion_result xc a d')) \<and>
      (p, d) \<in> set (dg_consumed (xc_gate xc))" if "(p, d) \<in> set (ar_consumed (deletion_result xc a d'))" for d'
    using that by (auto simp: deletion_result_def record_approval_consumption_def list_ex_iff split: if_splits)
  show ?thesis
  proof (cases "pa_action a = RemoteDelete \<or> pa_action a = LocalDelete")
    case True
    then obtain d' where "action_delete_direction (pa_action a) = Some d'" "res = queued [] \<or> res = deletion_result xc a d'"
    proof
      assume r: "pa_action a = RemoteDelete"
      with assms(1) have "execute_remote_delete ow xc a s = (Inr res, s')" by (simp add: execute_action_def)
      from returnsD[OF deletion_arms_return(1) this] r show thesis by (intro that) simp_all
    next
      assume l: "pa_action a = LocalDelete"
      with assms(1) have "execute_local_delete ow xc a s = (Inr res, s')" by (simp add: execute_action_def)
      from returnsD[OF deletion_arms_return(2) this] l show thesis by (intro that) simp_all
    qed
    with assms(2) del[of d'] show ?thesis by (auto simp: consumes_nothing)
  next
    case False
    have "returns (\<lambda>r. ar_consumed r = []) (execute_action ow xc a)"
      using False by (cases "pa_action a") (simp_all add: execute_action_def returning consumes_nothing)
    from returnsD[OF this assms(1)] assms(2) show ?thesis by simp
  qed
qed

section \<open>Properties\<close>

text \<open>C3: an index write never precedes its side effect. However a pass ends, the baseline it leaves is the
  one it started from with mutations applied that each come from an action of the plan that returned, or
  from a file of a batch the client reported landed, in a world this pass reached.\<close>

theorem index_changes_are_landed_work:
  assumes "run_plan ow xc settled cursor rn pl st = (pe, st')" "xs_mutations st = []"
  shows "\<exists>ms. db_file_index (xs_db st') = db_file_index (foldl apply_mutation (xs_db st) ms) \<and>
    (\<forall>m\<in>set ms. landed ow xc pl (rs_world (xs_run st)) m)"
proof (rule run_plan_rows[OF assms(1) _ reached.start])
  show "rows_landed ow xc pl (rs_world (xs_run st)) (xs_db st) st"
    unfolding rows_landed_def using assms(2) by (intro exI[of _ "[]"]) simp
qed

text \<open>C7: an approval is spent only with the deletion it authorised. When a pass leaves a standing approval
  gone, it ran the deletion of that path in that direction, the gate had released it for that approval, and
  the purge of its record is queued with it.\<close>

theorem approvals_are_spent_with_their_deletion:
  assumes "run_plan ow xc settled cursor rn pl st = (pe, st')" "xs_consumptions st = []"
    and "list_all (\<lambda>a. plain_path (pa_path a)) pl" "plain_path p"
    and "matching_delete_approval (xs_db st) p d f" "\<not> matching_delete_approval (xs_db st') p d f"
  shows "(p, d) \<in> set (dg_consumed (xc_gate xc)) \<and>
    (\<exists>a s res s'. a \<in> set pl \<and> pa_path a = p \<and> action_delete_direction (pa_action a) = Some d \<and>
      reached ow (rs_world (xs_run st)) (rs_world s) \<and> execute_action ow xc a s = (Inr res, s') \<and>
      PurgeRow p \<in> set (ar_mutations res))"
proof -
  let ?w0 = "rs_world (xs_run st)"
  have "approvals_landed ow xc pl ?w0 (xs_db st) st"
    unfolding approvals_landed_def using assms(2) by (intro exI[of _ "[]"]) (simp add: consume_approvals_def)
  from run_plan_approvals[OF assms(1) this reached.start] obtain cs where
    cs: "db_delete_approvals (xs_db st') = db_delete_approvals (consume_approvals (xs_db st) cs)"
      "\<forall>c\<in>set cs. deletion_landed ow xc pl ?w0 c" by blast
  have "\<forall>(p, d)\<in>set cs. plain_path p"
    using cs(2) assms(3) consumed_by_deletion unfolding deletion_landed_def list_all_iff by (fast)
  from matching_consumed[OF assms(4) this] assms(5,6) matching_frame[OF cs(1)] have "(p, d) \<in> set cs" by blast
  with cs(2) obtain a s res s' where "a \<in> set pl" "reached ow ?w0 (rs_world s)" "execute_action ow xc a s = (Inr res, s')"
    "(p, d) \<in> set (ar_consumed res)" unfolding deletion_landed_def by blast
  with consumed_by_deletion[OF this(3,4)] show ?thesis by blast
qed


text \<open>C35: one bad item never ends a pass. While nothing outside ends it (no shutdown, the folder stays), a
  pass reaches its final commit and reports exactly the items that failed; it gives up early only when
  nothing has succeeded and at least twenty items have failed.\<close>

theorem only_a_systemic_failure_abandons_a_pass:
  assumes "available_throughout ow xc" "counted (xs_failures st)"
    and "run_plan ow xc settled cursor rn pl st = (pe, st')"
  shows "pe = PassEnded (failures_outcome (xs_failures st')) \<or>
    (\<exists>auth. pe = PassStopped (StopAbandoned auth) \<and> \<not> pf_any_success (xs_failures st') \<and>
      consecutive_failure_limit \<le> pf_count (xs_failures st'))"
  using assms(3)
proof (cases rule: run_plan_loop)
  case (1 stop)
  have "counted (xs_failures st')"
    using failure_counts.good_parts(1)[OF failure_counts.loop[of ow "rs_world (xs_run st)" st pl pl, OF _ order_refl 1(1)]] assms(2)
    by (simp add: failure_counts.good_def reached.start)
  with loop_abandons[OF assms(1) 1(1)] abandons_stop 1(2) show ?thesis
    by (fastforce simp: abandons_def breaker_tripped_def counted_def)
next
  case (2 st1)
  obtain u st2 where l: "xs_look (ow_ensure_root_available ow) st1 = (u, st2)" by fastforce
  with available_looks(2)[OF assms(1) l] have "xs_look (ow_ensure_root_available ow) st1 = (Inr (), st2)" by simp
  then have "pe = PassEnded (failures_outcome (xs_failures st')) "
    using 2(2) by (auto simp: finish_pass_def Let_def)
  then show ?thesis by blast
qed

text \<open>The failure report of a pass is bounded and its count exact: it names every failed item up to
  twenty, no message is longer than 500 bytes, and the count goes on past the names.\<close>

theorem failure_report_is_bounded:
  assumes "execute_actions ow xc pl (start_pass db standing w) = (r, st')"
  shows "length (pf_items (xs_failures st')) = min (pf_count (xs_failures st')) failed_items_reported \<and>
    list_all (\<lambda>i. length (fi_error i) \<le> failed_item_error_limit) (pf_items (xs_failures st'))"
proof -
  have "counted no_failures" by (simp add: counted_def no_failures_def)
  then have "failure_counts.good ow w (start_pass db standing w)"
    by (simp add: failure_counts.good_def start_pass_def reached.start)
  from failure_counts.good_parts(1)[OF failure_counts.loop[OF this order_refl assms]]
  show ?thesis by (simp add: counted_def)
qed

lemma held_by_the_gate:
  assumes "a \<in> set pl" "held_direction cfg db B a \<noteq> None"
  shows "pa_path a \<in> dg_withheld_paths (fst (decide_delete_gate cfg db now pl B))"
proof -
  obtain p where p: "held_item cfg db B now (previous_ages db) a = Some p"
    using assms(2) by (cases "held_item cfg db B now (previous_ages db) a") (simp_all add: held_item_None)
  then have "p \<in> set (List.map_filter (held_item cfg db B now (previous_ages db)) pl)"
    using assms(1) by (force simp: set_map_filter)
  with held_item_fields(1)[OF p] show ?thesis unfolding decided_pending by (metis imageI)
qed

lemma recorded_approvals:
  "db_delete_approvals (snd (record_unsyncable pl local full now (standing, db))) = db_delete_approvals db"
  by (simp add: record_unsyncable_def replace_unsyncable_items_def Let_def split: option.split)

text \<open>C6: a deletion nobody authorised never reaches the outside. When every deletion of the plan waits for an
  approval it does not have, or the apply was asked to leave deletions out, the whole pass is the one it
  would be with any other way to delete on Proton or to dispose of a local entity: those calls are not made.\<close>

theorem unauthorised_deletions_are_never_attempted:
  assumes "\<forall>a\<in>set (prepend_remote_root_creation_if_missing (plan_sync_entities (ls_entities scan) R B nm)
        (rs_remote_root_missing shape)).
      \<forall>d. action_delete_direction (pa_action a) = Some d \<longrightarrow>
        (\<exists>token. intent = IntentApply token True) \<or>
        ((guard_at gcfg a d \<or> gc_forced gcfg) \<and>
         \<not> matching_delete_approval db (pa_path a) d (delete_fingerprint a B))"
  shows "execute_plan_and_commit (ow\<lparr>ow_delete := other_delete, ow_dispose := other_dispose\<rparr>) sha256 nm gcfg cfg intent
      scan R B shape cursor root_node db standing w =
    execute_plan_and_commit ow sha256 nm gcfg cfg intent scan R B shape cursor root_node db standing w"
proof -
  define pl where "pl = prepend_remote_root_creation_if_missing (plan_sync_entities (ls_entities scan) R B nm)
    (rs_remote_root_missing shape)"
  define cfg' where "cfg' = cfg\<lparr>pc_skip_destructive := (case intent of IntentApply _ skip \<Rightarrow> skip | IntentSync \<Rightarrow> False)\<rparr>"
  define db1 where "db1 now = snd (record_unsyncable pl (ls_unsyncable scan) (proves_absence shape) now (standing, db))" for now
  let ?ow = "with_deletion other_delete other_dispose ow"
  let ?xc = "\<lambda>seen now. pass_context cfg' (ls_entities scan) R B (fst (decide_delete_gate gcfg (db1 seen) now pl B)) pl"
  have same_approvals: "matching_delete_approval (db1 seen) = matching_delete_approval db" for seen
    by (intro ext matching_frame) (simp add: db1_def recorded_approvals)
  have loop: "execute_actions ?ow (?xc seen now) pl st = execute_actions ow (?xc seen now) pl st" for seen now st
  proof (rule loop_same)
    fix a assume a: "a \<in> set pl" "action_delete_direction (pa_action a) \<noteq> None"
    then obtain d where d: "action_delete_direction (pa_action a) = Some d" by blast
    from assms[rule_format, folded pl_def, OF a(1) d]
    show "pa_path a \<in> dg_withheld_paths (xc_gate (?xc seen now)) \<or> pc_skip_destructive (xc_config (?xc seen now))"
    proof
      assume "\<exists>token. intent = IntentApply token True"
      then show ?thesis by (auto simp: pass_context_def cfg'_def)
    next
      assume "(guard_at gcfg a d \<or> gc_forced gcfg) \<and> \<not> matching_delete_approval db (pa_path a) d (delete_fingerprint a B)"
      then have "held_direction gcfg (db1 seen) B a \<noteq> None" using d by (simp add: held_direction_def opt_filter_def same_approvals)
      from held_by_the_gate[OF a(1) this] show ?thesis by (simp add: pass_context_def)
    qed
  qed
  have finish: "finish_pass ?ow xc settled cursor root_node st = finish_pass ow xc settled cursor root_node st" for xc settled st
    unfolding finish_pass_def with_deletion_simps checkpoint_same store_cursor_update_def store_root_node_def by (rule refl)
  have run: "run_plan ?ow (?xc seen now) settled cursor root_node pl st =
      run_plan ow (?xc seen now) settled cursor root_node pl st" for seen now settled st
    unfolding run_plan_def loop finish by (rule refl)
  have start: "xs_unsyncable (snd (xs_look f st)) = xs_unsyncable st" "xs_db (snd (xs_look f st)) = xs_db st" for f st
    by (simp_all add: xs_look_def case_prod_beta)
  show ?thesis
    unfolding with_deletion_def[symmetric] execute_plan_and_commit_def pl_def[symmetric] cfg'_def[symmetric] Let_def
      with_deletion_simps case_prod_beta start
    by (auto simp: run[unfolded db1_def] start start_pass_def split: sum.split)
qed

section \<open>Subtrees\<close>

lemma purges_look:
  assumes "index_sound db" "list_all plain_path ps" "plain_path q"
  shows "index_look (foldl apply_mutation db (map PurgeRow ps)) q = (if q \<in> set ps then None else index_look db q)"
proof -
  have "foldl apply_mutation db (map PurgeRow ps) = foldl purge_record db ps" for db
    by (induction ps arbitrary: db) simp_all
  with index.purge_all(2)[OF assms(1-3)] show ?thesis by simp
qed

text \<open>Adeleted directory leaves nothing behind in the index. When the deletion of a directory returned
  and its purges are applied to an index that loads as the baseline of the pass, no record is left at its
  path or beneath it, and every other record is as it was.\<close>

theorem deleted_directory_leaves_no_record:
  assumes "db_reachable db" "load_index db = Some (xc_base xc)" "plain_path (pa_path a)"
    and "action_delete_direction (pa_action a) = Some d" "pa_entity_kind a = Directory"
    and "pa_path a \<notin> dg_withheld_paths (xc_gate xc)"
    and "execute_action ow xc a s = (Inr res, s')" "ar_mutations res \<noteq> []" "plain_path q"
  shows "index_look (foldl apply_mutation db (ar_mutations res)) q =
    (if starts_with q (pa_path a) then None else index_look db q)"
proof -
  have s: "index_sound db" using assms(1) by (rule reachable_sound)
  have B: "hm_get (xc_base xc) p = (if plain_path p then index_look db p else None)" for p
    using load_index_sound[OF s] assms(2) by auto
  have "res = deletion_result xc a d"
  proof (cases "pa_action a = RemoteDelete")
    case True
    with assms(7) have "execute_remote_delete ow xc a s = (Inr res, s')" by (simp add: execute_action_def)
    from returnsD[OF deletion_arms_return(1) this] assms(4,8) True show ?thesis by (auto simp: queued_def)
  next
    case False
    with assms(4) have l: "pa_action a = LocalDelete" by (cases "pa_action a") simp_all
    with assms(7) have "execute_local_delete ow xc a s = (Inr res, s')" by (simp add: execute_action_def)
    from returnsD[OF deletion_arms_return(2) this] assms(4,8) l show ?thesis by (auto simp: queued_def)
  qed
  then have ms: "ar_mutations res = map PurgeRow (pa_path a # descendant_index_paths (pa_path a) (xc_base xc))"
    using assms(5) by (simp add: deletion_result_def)
  have desc: "set (descendant_index_paths (pa_path a) (xc_base xc)) =
      {p. plain_path p \<and> index_look db p \<noteq> None \<and> is_strict_descendant (pa_path a) p}"
    by (auto simp: descendant_index_paths_def hm_contains_iff[symmetric] hm_contains_def B)
  then have "list_all plain_path (pa_path a # descendant_index_paths (pa_path a) (xc_base xc))"
    using assms(3) by (auto simp: list_all_iff)
  from purges_look[OF s this assms(9)] show ?thesis
    unfolding ms using desc assms(9) by (auto simp: is_strict_descendant_def)
qed

lemma mutations_look_to:
  assumes "index_sound db" "list_all (\<lambda>m. plain_path (mutation_path m)) ms" "plain_path q"
    and "\<And>m. m \<in> set ms \<Longrightarrow> mutation_path m = q \<Longrightarrow> mutation_result m = x"
    and "(\<And>m. m \<in> set ms \<Longrightarrow> mutation_path m \<noteq> q) \<Longrightarrow> index_look db q = x"
  shows "index_look (foldl apply_mutation db ms) q = x"
proof (cases "find (\<lambda>m. mutation_path m = q) (rev ms)")
  case None
  then have "\<And>m. m \<in> set ms \<Longrightarrow> mutation_path m \<noteq> q" by (auto simp: find_None_iff)
  with None apply_mutations_look[OF assms(1-3)] assms(5) show ?thesis by simp
next
  case (Some m)
  then have "m \<in> set ms" "mutation_path m = q" by (auto simp: find_Some_iff) (metis nth_mem set_rev length_rev)
  with Some apply_mutations_look[OF assms(1-3)] assms(4)[of m] show ?thesis by auto
qed

lemma plain_path_append: "plain_path (p @ q) \<longleftrightarrow> plain_path p \<and> plain_path q"
proof
  show "plain_path (p @ q) \<Longrightarrow> plain_path p \<and> plain_path q"
    unfolding plain_path_def by (auto simp: append_eq_map_conv)
  show "plain_path p \<and> plain_path q \<Longrightarrow> plain_path (p @ q)"
    unfolding plain_path_def by (metis list_all_append map_append)
qed

lemma plain_path_normals: "plain_path p \<Longrightarrow> list_all is_normal p"
  by (auto simp: plain_path_def list_all_iff)

lemma rebased_mutations:
  assumes "\<And>p. hm_get B p \<noteq> None \<Longrightarrow> plain_path p"
  shows "m \<in> set (rebased_records B old new) \<longleftrightarrow> (\<exists>rel r. rel \<noteq> [] \<and> hm_get B (old @ rel) = Some r \<and>
    (m = PurgeRow (old @ rel) \<or> m = UpsertRow (r\<lparr>fr_file_path := new @ rel\<rparr>)))"
proof -
  have join: "join_path new rel = new @ rel" if "hm_get B (old @ rel) = Some r" for rel r
    using assms[of "old @ rel"] that by (intro join_path_normals plain_path_normals) (simp add: plain_path_append)
  have pairs: "(p, p') \<in> set (directory_move_descendant_path_pairs old new B) \<longleftrightarrow>
      (\<exists>rel r. rel \<noteq> [] \<and> hm_get B p = Some r \<and> p = old @ rel \<and> p' = new @ rel)" for p p'
    using join
    by (auto simp: directory_move_descendant_path_pairs_def set_map_filter is_strict_descendant_def
        hm_contains_iff[symmetric] hm_contains_def strip_prefix_Some prefix_def split: option.splits)
  have "m \<in> set (rebased_records B old new) \<longleftrightarrow>
      (\<exists>p p' r. (p, p') \<in> set (directory_move_descendant_path_pairs old new B) \<and> hm_get B p = Some r \<and>
        (m = PurgeRow p \<or> m = UpsertRow (r\<lparr>fr_file_path := p'\<rparr>)))"
  proof -
    have "m \<in> set (case pq of (p, p') \<Rightarrow> case hm_get B p of
          Some r \<Rightarrow> [PurgeRow p, UpsertRow (r\<lparr>fr_file_path := p'\<rparr>)] | None \<Rightarrow> []) \<longleftrightarrow>
        (\<exists>r. hm_get B (fst pq) = Some r \<and>
          (m = PurgeRow (fst pq) \<or> m = UpsertRow (r\<lparr>fr_file_path := snd pq\<rparr>)))" for pq
      by (cases "hm_get B (fst pq)") (auto simp: case_prod_beta)
    then show ?thesis by (simp add: rebased_records_def Bex_def)
  qed
  also have "\<dots> \<longleftrightarrow> (\<exists>rel r. rel \<noteq> [] \<and> hm_get B (old @ rel) = Some r \<and>
    (m = PurgeRow (old @ rel) \<or> m = UpsertRow (r\<lparr>fr_file_path := new @ rel\<rparr>)))"
    unfolding pairs by blast
  finally show ?thesis .
qed

text \<open>The record a path ends up with when a directory is re-keyed.\<close>

definition rekeyed :: "(path \<Rightarrow> file_record option) \<Rightarrow> path \<Rightarrow> file_record \<Rightarrow> path \<Rightarrow> file_record option" where
  "rekeyed look old row q =
    (if starts_with q old then None
     else if q = fr_file_path row then Some row
     else if starts_with q (fr_file_path row)
     then (case look (old @ drop (length (fr_file_path row)) q) of
         Some r \<Rightarrow> Some (r\<lparr>fr_file_path := q\<rparr>) | None \<Rightarrow> look q)
     else look q)"

lemma rekeyed_look:
  assumes "index_sound db" "list_all (\<lambda>m. plain_path (mutation_path m)) ms" "plain_path q" "plain_path old"
    and mem: "\<And>m. m \<in> set ms \<longleftrightarrow> m = PurgeRow old \<or> m = UpsertRow row \<or>
      (\<exists>rel r. rel \<noteq> [] \<and> plain_path (old @ rel) \<and> index_look db (old @ rel) = Some r \<and>
        (m = PurgeRow (old @ rel) \<or> m = UpsertRow (r\<lparr>fr_file_path := fr_file_path row @ rel\<rparr>)))"
    and apart: "\<not> starts_with (fr_file_path row) old" "\<not> starts_with old (fr_file_path row)"
  shows "index_look (foldl apply_mutation db ms) q = rekeyed (index_look db) old row q"
proof (rule mutations_look_to[OF assms(1-3)])
  let ?new = "fr_file_path row"
  have "old @ rel \<noteq> ?new @ rel'" for rel rel'
    using apart prefix_same_cases[of old "old @ rel" ?new] by (metis prefix_def)
  note distinct_rows = this this[of _ "[]", simplified]
  then have same: "\<not> (starts_with q old \<and> starts_with q ?new)" by (metis prefix_def)
  fix m assume m: "m \<in> set ms" "mutation_path m = q"
  show "mutation_result m = rekeyed (index_look db) old row q"
    using m(1) unfolding mem
  proof (elim disjE exE conjE)
    fix rel r assume "rel \<noteq> []" "index_look db (old @ rel) = Some r" "m = UpsertRow (r\<lparr>fr_file_path := ?new @ rel\<rparr>)"
    moreover from this m(2) same have "q = ?new @ rel" "\<not> starts_with q old" by auto
    ultimately show ?thesis by (simp add: rekeyed_def)
  qed (use m(2) apart distinct_rows in \<open>auto simp: rekeyed_def\<close>)
next
  let ?new = "fr_file_path row"
  assume none: "\<And>m. m \<in> set ms \<Longrightarrow> mutation_path m \<noteq> q"
  have "q \<noteq> old" "q \<noteq> ?new" using none[of "PurgeRow old"] none[of "UpsertRow row"] mem by auto
  moreover have "index_look db (old @ rel) = None" if "q = old @ rel" for rel
    using none[of "PurgeRow q"] mem[of "PurgeRow q"] that assms(3) \<open>q \<noteq> old\<close> by (metis append_Nil2 mutation_path.simps(2) not_None_eq)
  moreover have "index_look db (old @ rel) = None" if "q = ?new @ rel" for rel
  proof (rule ccontr)
    assume "index_look db (old @ rel) \<noteq> None"
    then obtain r where "index_look db (old @ rel) = Some r" by blast
    moreover have "plain_path (old @ rel)" using that assms(3,4) by (simp add: plain_path_append)
    moreover have "rel \<noteq> []" using that \<open>q \<noteq> ?new\<close> by auto
    ultimately have "UpsertRow (r\<lparr>fr_file_path := ?new @ rel\<rparr>) \<in> set ms" unfolding mem by blast
    from none[OF this] that show False by simp
  qed
  ultimately show "index_look db q = rekeyed (index_look db) old row q"
    by (auto simp: rekeyed_def prefix_def)
qed

lemma move_local_directory:
  assumes "execute_move_local ow xc a s = (Inr res, s')" "ar_mutations res \<noteq> []" "pa_entity_kind a = Directory"
    and "pa_destination_path a = Some destination"
  shows "\<exists>local. ar_mutations res =
    [PurgeRow (pa_path a), UpsertRow (record_from_local_directory destination local (pa_remote_id a) Synced)]
      @ rebased_records (xc_base xc) (pa_path a) destination"
proof -
  have "returns (\<lambda>r. ar_mutations r = [] \<or> (\<exists>local. ar_mutations r =
    [PurgeRow (pa_path a), UpsertRow (record_from_local_directory destination local (pa_remote_id a) Synced)]
      @ rebased_records (xc_base xc) (pa_path a) destination)) (execute_move_local ow xc a)"
    unfolding execute_move_local_def assms(4) option.case if_P[OF assms(3)]
    by (intro returning | simp only: split: option.split | intro conjI allI impI | simp add: queued_def | blast)+
  from returnsD[OF this assms(1)] assms(2) show ?thesis by simp
qed

text \<open>Arenamed directory keeps the baseline of its contents. When the local rename of a directory landed
  and its mutations are applied to an index that loads as the baseline of the pass, nothing is left at the
  old path or beneath it, the directory is recorded at its new path, each record that was beneath it is
  found at its new place unchanged but for its path, and every other record is as it was.\<close>

theorem moved_directory_carries_its_subtree:
  assumes "db_reachable db" "load_index db = Some (xc_base xc)"
    and "pa_action a = MoveLocal" "pa_entity_kind a = Directory" "pa_destination_path a = Some destination"
    and "plain_path (pa_path a)" "plain_path destination"
    and "\<not> starts_with destination (pa_path a)" "\<not> starts_with (pa_path a) destination"
    and "execute_action ow xc a s = (Inr res, s')" "ar_mutations res \<noteq> []"
  shows "\<exists>local. \<forall>q. plain_path q \<longrightarrow> index_look (foldl apply_mutation db (ar_mutations res)) q =
    rekeyed (index_look db) (pa_path a) (record_from_local_directory destination local (pa_remote_id a) Synced) q"
proof -
  have s: "index_sound db" using assms(1) by (rule reachable_sound)
  have B: "hm_get (xc_base xc) p = (if plain_path p then index_look db p else None)" for p
    using load_index_sound[OF s] assms(2) by auto
  from assms(3,10) have e: "execute_move_local ow xc a s = (Inr res, s')" by (simp add: execute_action_def)
  from move_local_directory[OF e assms(11,4,5)] obtain local where
    ms: "ar_mutations res = [PurgeRow (pa_path a),
      UpsertRow (record_from_local_directory destination local (pa_remote_id a) Synced)]
        @ rebased_records (xc_base xc) (pa_path a) destination" by blast
  let ?new = "record_from_local_directory destination local (pa_remote_id a) Synced"
  have new: "fr_file_path ?new = destination" by (simp add: record_from_local_directory_def)
  have mem: "m \<in> set (ar_mutations res) \<longleftrightarrow> m = PurgeRow (pa_path a) \<or> m = UpsertRow ?new \<or>
      (\<exists>rel r. rel \<noteq> [] \<and> plain_path (pa_path a @ rel) \<and> index_look db (pa_path a @ rel) = Some r \<and>
        (m = PurgeRow (pa_path a @ rel) \<or> m = UpsertRow (r\<lparr>fr_file_path := fr_file_path ?new @ rel\<rparr>)))" for m
  proof -
    have "m \<in> set (rebased_records (xc_base xc) (pa_path a) destination) \<longleftrightarrow>
        (\<exists>rel r. rel \<noteq> [] \<and> plain_path (pa_path a @ rel) \<and> index_look db (pa_path a @ rel) = Some r \<and>
          (m = PurgeRow (pa_path a @ rel) \<or> m = UpsertRow (r\<lparr>fr_file_path := destination @ rel\<rparr>)))"
      by (subst rebased_mutations) (auto simp: B split: if_splits)
    then show ?thesis unfolding ms new by simp
  qed
  have "list_all (\<lambda>m. plain_path (mutation_path m)) (ar_mutations res)"
    unfolding list_all_iff using assms(6,7) new mem by (auto simp: plain_path_append)
  from rekeyed_look[OF s this _ assms(6) mem] assms(8,9) show ?thesis unfolding new by blast
qed

section \<open>Witnesses\<close>

text \<open>A world in which every call succeeds and nothing moves: one folder whose only file was deleted on Proton.\<close>

definition wx_file :: local_file_state where
  "wx_file = \<lparr>lf_relative_path = [Normal ''docs'', Normal ''a''], lf_absolute_path = [RootDir, Normal ''docs'', Normal ''a''],
     lf_file_size = 5, lf_mtime = 3, lf_sha1_hash = ''h1''\<rparr>"

definition wx_directory :: local_directory_state where
  "wx_directory = \<lparr>ld_relative_path = [Normal ''docs''], ld_absolute_path = [RootDir, Normal ''docs''], ld_mtime = 3\<rparr>"

definition wx :: "unit outside" where
  "wx = \<lparr>ow_cancelled = \<lambda>w. (False, w), ow_ensure_root_available = \<lambda>w. (Inr (), w),
     ow_ensure_root_directory = \<lambda>w. (Inr (), w), ow_ensure_directory = \<lambda>_ w. (Inr (), w),
     ow_upload = \<lambda>_ _ w. (Inr (), w), ow_download = \<lambda>_ _ w. (Inr (), w),
     ow_download_many = \<lambda>rs w. (map (\<lambda>_. Inr ()) rs, w), ow_delete = \<lambda>_ w. (Inr (), w),
     ow_rename_or_move = \<lambda>_ _ w. (Inr (), w), ow_canonicalize = \<lambda>p w. (Some p, w),
     ow_ensure_parent_directory = \<lambda>_ w. (Inr (), w), ow_ensure_directory_below = \<lambda>_ w. (Inr (), w),
     ow_file_state = \<lambda>_ w. (Inr wx_file, w), ow_directory_state = \<lambda>_ w. (Inr wx_directory, w),
     ow_rename = \<lambda>_ _ w. (Inr (), w), ow_exists = \<lambda>_ w. (True, w), ow_dispose = \<lambda>_ _ _ w. (Inr (), w),
     ow_symlink_metadata = \<lambda>_ w. (Inr NothingThere, w), ow_copy_into_new_file = \<lambda>_ _ w. (Inr (), w),
     ow_read_to_string = \<lambda>_ w. (None, w), ow_epoch_secs = \<lambda>w. (9, w)\<rparr>"

definition wx_config :: pass_config where
  "wx_config = \<lparr>pc_local_root = [RootDir], pc_remote_root = [Normal ''Drive''], pc_remote_root_key = [Normal ''Drive''],
     pc_local_delete_mode = TrashMode, pc_download_batch_size = 4, pc_sha1_hex = id, pc_skip_destructive = False\<rparr>"

definition wx_local :: local_map where
  "wx_local = [([Normal ''docs'', Normal ''a''], LocalFile wx_file)]"

definition wx_scan :: local_scan where "wx_scan = \<lparr>ls_entities = wx_local, ls_unsyncable = []\<rparr>"

definition wx_shape :: remote_map_shape where
  "wx_shape = \<lparr>rs_remote_root_missing = False, rs_full_snapshot = True\<rparr>"

text \<open>The deletion of its last copy was approved before the pass.\<close>

definition wx_db :: database where
  "wx_db = upsert_delete_approval gx_db [Normal ''docs'', Normal ''a''] DeleteLocal ''h1'' 4"

definition wx_gate :: delete_gate where
  "wx_gate = fst (decide_delete_gate gx_config wx_db 9 [gx_action] gx_B)"

definition wx_context :: exec_context where
  "wx_context = pass_context wx_config wx_local [] gx_B wx_gate [gx_action]"

definition wx_pass :: "pass_end \<times> unit exec_state" where
  "wx_pass = run_plan wx wx_context False (Some \<lparr>cu_scope_id = ''s'', cu_last_event_id = ''e2''\<rparr>) RootKeep [gx_action]
     (start_pass wx_db [] ())"

lemma wx_run:
  "run_plan wx wx_context False (Some \<lparr>cu_scope_id = ''s'', cu_last_event_id = ''e2''\<rparr>) RootKeep [gx_action]
     (start_pass wx_db [] ()) = (fst wx_pass, snd wx_pass)"
  "xs_mutations (start_pass wx_db [] ()) = []" "xs_consumptions (start_pass wx_db [] ()) = []"
  "xs_db (start_pass wx_db [] ()) = wx_db" "rs_world (xs_run (start_pass wx_db [] ())) = ()"
  by (simp_all add: wx_pass_def start_pass_def)

lemma wx_left:
  "db_file_index (xs_db (snd wx_pass)) = []" "db_file_index wx_db \<noteq> []"
  "matching_delete_approval wx_db [Normal ''docs'', Normal ''a''] DeleteLocal ''h1''"
  "\<not> matching_delete_approval (xs_db (snd wx_pass)) [Normal ''docs'', Normal ''a''] DeleteLocal ''h1''"
  "pf_count (xs_failures (start_pass wx_db [] ())) = 0" "xs_vanished (start_pass wx_db [] ()) = 0"
  "xs_skipped (start_pass wx_db [] ()) = 0"
  "db_event_cursor (xs_db (snd wx_pass)) = [(''s'', ''e2'', 9)]" "db_event_cursor wx_db = []"
  "pa_action gx_action = LocalDelete" "list_all (\<lambda>a. pa_path a = [Normal ''docs'', Normal ''a'']) [gx_action]"
  by code_simp+

theorem index_changes_witness: "\<exists>m. landed wx wx_context [gx_action] () m"
proof -
  from index_changes_are_landed_work[OF wx_run(1,2)] obtain ms where
    ms: "db_file_index (xs_db (snd wx_pass)) = db_file_index (foldl apply_mutation wx_db ms)"
    "\<forall>m\<in>set ms. landed wx wx_context [gx_action] () m" by (auto simp: wx_run)
  have "ms \<noteq> []" using ms(1) wx_left(1,2) by auto
  then obtain m where "m \<in> set ms" by (cases ms) auto
  with ms(2) show ?thesis by blast
qed

theorem approvals_spent_witness:
  "([Normal ''docs'', Normal ''a''], DeleteLocal) \<in> set (dg_consumed (xc_gate wx_context))"
proof -
  have "list_all (\<lambda>a. plain_path (pa_path a)) [gx_action]" using wx_left(11) gx_plain by simp
  from approvals_are_spent_with_their_deletion[OF wx_run(1,3) this gx_plain, unfolded wx_run(4), OF wx_left(3,4)]
  show ?thesis by blast
qed


text \<open>How an action of this world can fail: only by its own checks.\<close>

definition fails :: "(failure \<Rightarrow> bool) \<Rightarrow> ('w, 'a) act \<Rightarrow> bool" where
  "fails Q m \<longleftrightarrow> (\<forall>s e s'. m s = (Inl e, s') \<longrightarrow> Q e)"

named_theorems failing \<open>how an action fails, if it fails\<close>

lemma fails_act [failing]:
  "fails Q (act_return x)" "Q e \<Longrightarrow> fails Q (act_fail e)" "fails Q (act_authored p)" "fails Q (act_rescan p)"
  "fails Q (act_look f)" "fails Q (act_try m)" "(\<And>w. \<exists>x w'. g w = (Inr x, w')) \<Longrightarrow> fails Q (act_call g)"
  "(\<And>x. o1 = None \<Longrightarrow> fails Q a) \<Longrightarrow> (\<And>x. o1 = Some x \<Longrightarrow> fails Q (b x)) \<Longrightarrow>
    fails Q (case o1 of None \<Rightarrow> a | Some x \<Rightarrow> b x)"
  "(c \<Longrightarrow> fails Q m1) \<Longrightarrow> (\<not> c \<Longrightarrow> fails Q m2) \<Longrightarrow> fails Q (if c then m1 else m2)"
  by (auto simp: fails_def act_bind_Inl act_return_def act_fail_def act_authored_def act_rescan_def act_look_def
      act_try_def act_call_def split: option.splits prod.splits) (metis Inl_Inr_False prod.inject)

lemma fails_bind [failing]:
  assumes "fails Q m" "\<And>x. fails Q (h x)"
  shows "fails Q (act_bind m h)"
  unfolding fails_def act_bind_Inl using assms unfolding fails_def by blast

lemma fails_skip [failing]:
  assumes "fails Q m"
  shows "fails Q (skip_if_node_vanished m)"
  unfolding fails_def
proof (intro allI impI)
  fix s e s' assume e: "skip_if_node_vanished m s = (Inl e, s')"
  obtain r s1 where m: "m s = (r, s1)" by fastforce
  with e have "r = Inl e"
    by (cases r) (auto simp: skip_if_node_vanished_def act_bind_def act_try_def act_return_def act_fail_def split: if_splits)
  with m assms show "Q e" by (auto simp: fails_def)
qed

lemma fails_cases [failing]:
  "(\<And>f. e = LocalFile f \<Longrightarrow> fails Q (b f)) \<Longrightarrow> (\<And>d. e = LocalDirectory d \<Longrightarrow> fails Q (c d)) \<Longrightarrow>
    fails Q (case e of LocalFile f \<Rightarrow> b f | LocalDirectory d \<Rightarrow> c d)"
  "(\<And>n. fails Q (b1 n)) \<Longrightarrow> fails Q b2 \<Longrightarrow> fails Q b3 \<Longrightarrow>
    fails Q (case md of RegularFile n \<Rightarrow> b1 n | OtherObject \<Rightarrow> b2 | NothingThere \<Rightarrow> b3)"
  "fails Q k1 \<Longrightarrow> fails Q k2 \<Longrightarrow> fails Q (case k of File \<Rightarrow> k1 | Directory \<Rightarrow> k2)"
  by (simp_all split: local_entity_state.split path_metadata.split entity_kind.split)

lemma wx_calls:
  "\<exists>x w'. ow_ensure_root_available wx w = (Inr x, w')" "\<exists>x w'. ow_ensure_root_directory wx w = (Inr x, w')"
  "\<exists>x w'. ow_ensure_directory wx p w = (Inr x, w')" "\<exists>x w'. ow_upload wx p q w = (Inr x, w')"
  "\<exists>x w'. ow_download wx p q w = (Inr x, w')" "\<exists>x w'. ow_delete wx p w = (Inr x, w')"
  "\<exists>x w'. ow_rename_or_move wx p q w = (Inr x, w')" "\<exists>x w'. ow_ensure_parent_directory wx p w = (Inr x, w')"
  "\<exists>x w'. ow_ensure_directory_below wx p w = (Inr x, w')" "\<exists>x w'. ow_file_state wx p w = (Inr x, w')"
  "\<exists>x w'. ow_directory_state wx p w = (Inr x, w')" "\<exists>x w'. ow_rename wx p q w = (Inr x, w')"
  "\<exists>x w'. ow_dispose wx mode p k w = (Inr x, w')" "\<exists>x w'. ow_symlink_metadata wx p w = (Inr x, w')"
  "\<exists>x w'. ow_copy_into_new_file wx p q w = (Inr x, w')"
  by (simp_all add: wx_def)

lemma wx_fails: "fails (\<lambda>e. \<not> is_root_unavailable_error e) (execute_action wx xc a)"
proof -
  have own: "\<not> is_root_unavailable_error (planned_failure what p problem)" for what p problem
    by (simp add: planned_failure_def is_root_unavailable_error_def)
  show ?thesis
    unfolding execute_action_def execute_upload_def execute_download_def execute_create_remote_directory_def
      execute_create_local_directory_def execute_move_local_def execute_move_remote_def execute_auto_link_def
      execute_conflict_def local_copy_sidecar_def remote_sidecar_def execute_type_conflict_def
      execute_remote_delete_def execute_local_delete_def ensure_remote_parent_def look_safe_local_def Let_def prod.case
    by (simp only: split: sync_action.split) (intro failing own wx_calls conjI impI allI)
qed

lemma wx_available: "available_throughout wx xc"
  using wx_fails unfolding available_throughout_def fails_def by (auto simp: wx_def)

theorem bad_items_witness: "fst wx_pass = PassEnded PassClean"
proof -
  have "counted (xs_failures (start_pass wx_db [] ()))" by (simp add: start_pass_def counted_def no_failures_def)
  from only_a_systemic_failure_abandons_a_pass[OF wx_available this wx_run(1)]
  have "fst wx_pass = PassEnded (failures_outcome (xs_failures (snd wx_pass))) \<or> \<not> pf_any_success (xs_failures (snd wx_pass))"
    by blast
  moreover have "failures_outcome (xs_failures (snd wx_pass)) = PassClean" "pf_any_success (xs_failures (snd wx_pass))"
    by code_simp+
  ultimately show ?thesis by simp
qed

theorem failure_report_witness:
  "length (pf_items (xs_failures (snd (execute_actions wx wx_context [gx_action] (start_pass wx_db [] ()))))) \<le> 20"
  using failure_report_is_bounded[OF prod.collapse[symmetric, of "execute_actions wx wx_context [gx_action] (start_pass wx_db [] ())"]]
  by (simp add: failed_items_reported_def)

theorem unauthorised_deletions_witness:
  "execute_plan_and_commit (wx\<lparr>ow_delete := \<lambda>_ w. (Inl (planned_failure [] [] []), w),
       ow_dispose := \<lambda>_ _ _ w. (Inl (planned_failure [] [] []), w)\<rparr>) id (naming_from_suffix ''c'') gx_config wx_config IntentSync
     wx_scan [] gx_B wx_shape None RootKeep gx_db [] () =
   execute_plan_and_commit wx id (naming_from_suffix ''c'') gx_config wx_config IntentSync
     wx_scan [] gx_B wx_shape None RootKeep gx_db [] ()"
proof -
  have "prepend_remote_root_creation_if_missing (plan_sync_entities (ls_entities wx_scan) [] gx_B (naming_from_suffix ''c''))
      (rs_remote_root_missing wx_shape) =
      [gx_action]" by code_simp
  then show ?thesis
    by (intro unauthorised_deletions_are_never_attempted) (simp add: gx_facts)
qed

text \<open>The same world with the folder itself in the index.\<close>

definition wx_tree :: database where "wx_tree = upsert_record gx_db ix_record"

definition wx_tree_context :: exec_context where
  "wx_tree_context = pass_context wx_config wx_local [] (the (load_index wx_tree)) empty_gate []"

definition wx_delete :: planned_action where
  "wx_delete = pa_new [Normal ''docs''] LocalDelete Directory (Some ''v~d'')"

definition wx_move :: planned_action where
  "wx_move = (pa_new [Normal ''docs''] MoveLocal Directory (Some ''v~d''))\<lparr>pa_destination_path := Some [Normal ''papers'']\<rparr>"

lemma wx_tree_facts:
  "load_index wx_tree = Some (xc_base wx_tree_context)"
  "plain_path [Normal ''docs'', Normal ''a'']" "plain_path [Normal ''papers'']" "plain_path [Normal ''papers'', Normal ''a'']"
  "index_look wx_tree [Normal ''docs'', Normal ''a''] = Some gx_record"
proof -
  show "plain_path [Normal ''papers'']"
    unfolding plain_path_def by (intro exI[of _ "[''papers'']"]) (simp add: plain_name_def)
  show "plain_path [Normal ''papers'', Normal ''a'']"
    unfolding plain_path_def by (intro exI[of _ "[''papers'', ''a'']"]) (simp add: plain_name_def)
qed (simp add: gx_plain | code_simp)+

lemma wx_tree_reachable: "db_reachable wx_tree"
proof -
  have "db_reachable (apply_mutation gx_db (UpsertRow ix_record))"
    by (intro db_reachable.statement[OF gx_reachable] db_step.mutation ix_mutation)
  then show ?thesis by (simp add: wx_tree_def)
qed

theorem deleted_directory_witness:
  "index_look (foldl apply_mutation wx_tree (ar_mutations (deletion_result wx_tree_context wx_delete DeleteLocal)))
     [Normal ''docs'', Normal ''a''] = None"
proof -
  define s :: "unit run_state" where "s = \<lparr>rs_world = (), rs_authored = {}, rs_rescan = {}\<rparr>"
  have e: "execute_action wx wx_tree_context wx_delete s = (Inr (deletion_result wx_tree_context wx_delete DeleteLocal), s)"
    unfolding s_def by code_simp
  have "pa_path wx_delete \<notin> dg_withheld_paths (xc_gate wx_tree_context)" "pa_path wx_delete = [Normal ''docs'']"
    "pa_entity_kind wx_delete = Directory" "action_delete_direction (pa_action wx_delete) = Some DeleteLocal"
    "ar_mutations (deletion_result wx_tree_context wx_delete DeleteLocal) \<noteq> []"
    "starts_with [Normal ''docs'', Normal ''a''] (pa_path wx_delete)"
    by (simp add: wx_tree_context_def pass_context_def empty_gate_def, code_simp+)
  then show ?thesis
    using deleted_directory_leaves_no_record[OF wx_tree_reachable wx_tree_facts(1) _ _ _ _ e _ wx_tree_facts(2)] ix_plain
    by simp
qed

theorem moved_directory_witness:
  "\<exists>res s'. execute_action wx wx_tree_context wx_move \<lparr>rs_world = (), rs_authored = {}, rs_rescan = {}\<rparr> = (Inr res, s') \<and>
     index_look (foldl apply_mutation wx_tree (ar_mutations res)) [Normal ''papers'', Normal ''a''] =
       Some (gx_record\<lparr>fr_file_path := [Normal ''papers'', Normal ''a'']\<rparr>)"
proof -
  define s :: "unit run_state" where "s = \<lparr>rs_world = (), rs_authored = {}, rs_rescan = {}\<rparr>"
  have "map_option (\<lambda>r. ar_mutations r \<noteq> []) (case fst (execute_action wx wx_tree_context wx_move s) of
      Inr r \<Rightarrow> Some r | Inl _ \<Rightarrow> None) = Some True"
    unfolding s_def by code_simp
  then obtain res s' where e: "execute_action wx wx_tree_context wx_move s = (Inr res, s')" "ar_mutations res \<noteq> []"
    by (cases "execute_action wx wx_tree_context wx_move s") (auto split: sum.splits)
  have "pa_action wx_move = MoveLocal" "pa_entity_kind wx_move = Directory" "pa_path wx_move = [Normal ''docs'']"
    "pa_destination_path wx_move = Some [Normal ''papers'']" by code_simp+
  with moved_directory_carries_its_subtree[OF wx_tree_reachable wx_tree_facts(1) _ _ _ _ wx_tree_facts(3) _ _ e]
  have "\<exists>local. \<forall>q. plain_path q \<longrightarrow> index_look (foldl apply_mutation wx_tree (ar_mutations res)) q =
      rekeyed (index_look wx_tree) [Normal ''docs'']
        (record_from_local_directory [Normal ''papers''] local (pa_remote_id wx_move) Synced) q"
    using ix_plain by simp
  then obtain local where row: "\<forall>q. plain_path q \<longrightarrow> index_look (foldl apply_mutation wx_tree (ar_mutations res)) q =
      rekeyed (index_look wx_tree) [Normal ''docs'']
        (record_from_local_directory [Normal ''papers''] local (pa_remote_id wx_move) Synced) q" by blast
  have "index_look (foldl apply_mutation wx_tree (ar_mutations res)) [Normal ''papers'', Normal ''a''] =
      Some (gx_record\<lparr>fr_file_path := [Normal ''papers'', Normal ''a'']\<rparr>)"
    using row[rule_format, OF wx_tree_facts(4)] wx_tree_facts(5)
    by (simp add: rekeyed_def record_from_local_directory_def)
  with e show ?thesis unfolding s_def by blast
qed

end
