(* ===== verification/Due_Queue.thy ===== *)
theory Due_Queue
  imports Prelude
begin

text \<open>
  Which folder pair runs next (\<^verbatim>\<open>src/due_queue.rs\<close>): explicit requests first, then the due pair with the
  earliest deadline. An instant is a count of nanoseconds, as is a duration; the range of the clock is the
  standard library's on this platform. A pair is an index of the configuration, so the arrays are read and
  written in range; a queue that would violate that, or have a cadence of zero, is not well formed.
\<close>

section \<open>The queue\<close>

type_synonym instant = nat
type_synonym duration = nat

datatype job_kind = JobSync | JobPlan

datatype cause = CauseExplicit | CauseTimer | CauseSweep

record job =
  job_pair :: nat
  job_kind :: job_kind
  job_cause :: cause

definition nanoseconds :: nat where "nanoseconds = 1000000000"

definition far_future :: duration where "far_future = 86400 * 365 * 30 * nanoseconds"

record due_queue =
  dq_next_due :: "instant list"
  dq_cadence :: "duration list"
  dq_sweep_at :: "instant option list"
  dq_explicit :: "(nat \<times> job_kind) list"
  dq_cursor :: nat

definition instant_limit :: instant where "instant_limit = 2 ^ 63 * nanoseconds"

definition checked_add :: "instant \<Rightarrow> duration \<Rightarrow> instant option" where
  "checked_add at0 by0 = (if at0 + by0 < instant_limit then Some (at0 + by0) else None)"

text \<open>The addition of the fallback panics where it leaves the range too, which no clock reaches.\<close>

definition later :: "instant \<Rightarrow> duration \<Rightarrow> instant" where
  "later at0 by0 = (case checked_add at0 by0 of Some t \<Rightarrow> t | None \<Rightarrow> at0 + far_future)"

text \<open>An assertion that fails is \<open>None\<close>.\<close>

definition due_queue_new :: "duration list \<Rightarrow> instant \<Rightarrow> due_queue option" where
  "due_queue_new cadences now =
    (if cadences = [] \<or> 0 \<in> set cadences then None
     else Some \<lparr>dq_next_due = replicate (length cadences) now, dq_cadence = cadences,
       dq_sweep_at = replicate (length cadences) None, dq_explicit = [], dq_cursor = 0\<rparr>)"

definition set_cadence :: "nat \<Rightarrow> duration \<Rightarrow> due_queue \<Rightarrow> due_queue option" where
  "set_cadence pair cadence q =
    (if cadence = 0 then None else Some (q\<lparr>dq_cadence := (dq_cadence q)[pair := cadence]\<rparr>))"

definition request :: "nat \<Rightarrow> job_kind \<Rightarrow> due_queue \<Rightarrow> due_queue" where
  "request pair kind q =
    (if (pair, kind) \<in> set (dq_explicit q) then q else q\<lparr>dq_explicit := dq_explicit q @ [(pair, kind)]\<rparr>)"

definition set_sweep :: "nat \<Rightarrow> instant option \<Rightarrow> due_queue \<Rightarrow> due_queue" where
  "set_sweep pair t q = q\<lparr>dq_sweep_at := (dq_sweep_at q)[pair := t]\<rparr>"

definition deadline :: "due_queue \<Rightarrow> nat \<Rightarrow> instant" where
  "deadline q pair =
    (case dq_sweep_at q ! pair of
       Some sweep \<Rightarrow> min sweep (dq_next_due q ! pair) | None \<Rightarrow> dq_next_due q ! pair)"

definition is_due :: "due_queue \<Rightarrow> nat \<Rightarrow> instant \<Rightarrow> bool" where
  "is_due q pair now \<longleftrightarrow> deadline q pair \<le> now"

definition take_overdue_sweep :: "nat \<Rightarrow> instant \<Rightarrow> due_queue \<Rightarrow> bool \<times> due_queue" where
  "take_overdue_sweep pair now q =
    (case dq_sweep_at q ! pair of
       Some t \<Rightarrow> if t \<le> now then (True, q\<lparr>dq_sweep_at := (dq_sweep_at q)[pair := None]\<rparr>) else (False, q)
     | None \<Rightarrow> (False, q))"

text \<open>One turn of the loop that looks for the earliest deadline, from the cursor on.\<close>

definition choose_step :: "due_queue \<Rightarrow> instant \<Rightarrow> (nat \<times> instant) option \<Rightarrow> nat \<Rightarrow> (nat \<times> instant) option" where
  "choose_step q now chosen offset =
    (let pair = (dq_cursor q + offset) mod length (dq_next_due q) in
     if \<not> is_due q pair now then chosen
     else (case chosen of
         None \<Rightarrow> Some (pair, deadline q pair)
       | Some (_, best) \<Rightarrow> if deadline q pair < best then Some (pair, deadline q pair) else chosen))"

definition pop :: "due_queue \<Rightarrow> instant \<Rightarrow> job option \<times> due_queue" where
  "pop q now =
    (case dq_explicit q of
       (pair, kind) # rest \<Rightarrow>
         (let q1 = q\<lparr>dq_explicit := rest\<rparr> in
          case (if kind = JobSync then take_overdue_sweep pair now q1 else (False, q1)) of (swept, q2) \<Rightarrow>
            (Some \<lparr>job_pair = pair, job_kind = kind, job_cause = if swept then CauseSweep else CauseExplicit\<rparr>, q2))
     | [] \<Rightarrow>
         (case foldl (choose_step q now) None [0..<length (dq_next_due q)] of
            None \<Rightarrow> (None, q)
          | Some (pair, _) \<Rightarrow>
              (case take_overdue_sweep pair now (q\<lparr>dq_cursor := (pair + 1) mod length (dq_next_due q)\<rparr>) of
                 (swept, q1) \<Rightarrow>
                   (Some \<lparr>job_pair = pair, job_kind = JobSync, job_cause = if swept then CauseSweep else CauseTimer\<rparr>,
                    q1\<lparr>dq_next_due := (dq_next_due q1)[pair := later now (dq_cadence q1 ! pair)]\<rparr>))))"

definition rearm :: "nat \<Rightarrow> instant \<Rightarrow> due_queue \<Rightarrow> due_queue" where
  "rearm pair from q = q\<lparr>dq_next_due := (dq_next_due q)[pair := later from (dq_cadence q ! pair)]\<rparr>"

definition tighten :: "nat \<Rightarrow> instant \<Rightarrow> due_queue \<Rightarrow> due_queue" where
  "tighten pair t q =
    (if t < dq_next_due q ! pair then q\<lparr>dq_next_due := (dq_next_due q)[pair := t]\<rparr> else q)"

definition next_wake :: "due_queue \<Rightarrow> instant" where
  "next_wake q = Min (set (map (deadline q) [0..<length (dq_next_due q)]))"

section \<open>Well-formed queues\<close>

definition queue_ok :: "due_queue \<Rightarrow> bool" where
  "queue_ok q \<longleftrightarrow> dq_next_due q \<noteq> [] \<and> length (dq_cadence q) = length (dq_next_due q) \<and>
    length (dq_sweep_at q) = length (dq_next_due q) \<and> 0 \<notin> set (dq_cadence q) \<and>
    dq_cursor q < length (dq_next_due q) \<and>
    (\<forall>(pair, kind)\<in>set (dq_explicit q). pair < length (dq_next_due q)) \<and> distinct (dq_explicit q)"

text \<open>Everything the daemon does with the queue, at any instant.\<close>

inductive queue_step :: "due_queue \<Rightarrow> due_queue \<Rightarrow> bool" where
  "set_cadence pair cadence q = Some q' \<Longrightarrow> queue_step q q'"
| "pair < length (dq_next_due q) \<Longrightarrow> queue_step q (request pair kind q)"
| "queue_step q (set_sweep pair t q)"
| "queue_step q (snd (pop q now))"
| "queue_step q (rearm pair from q)"
| "queue_step q (tighten pair t q)"

lemma later_after: "0 < by0 \<Longrightarrow> at0 < later at0 by0"
  by (simp add: later_def checked_add_def far_future_def nanoseconds_def)

lemma take_overdue_fields [simp]:
  "dq_next_due (snd (take_overdue_sweep pair now q)) = dq_next_due q"
  "dq_cadence (snd (take_overdue_sweep pair now q)) = dq_cadence q"
  "dq_explicit (snd (take_overdue_sweep pair now q)) = dq_explicit q"
  "dq_cursor (snd (take_overdue_sweep pair now q)) = dq_cursor q"
  "length (dq_sweep_at (snd (take_overdue_sweep pair now q))) = length (dq_sweep_at q)"
  "p \<noteq> pair \<Longrightarrow> dq_sweep_at (snd (take_overdue_sweep pair now q)) ! p = dq_sweep_at q ! p"
  by (simp_all add: take_overdue_sweep_def split: option.split)

lemma take_overdue_rest:
  assumes "pair < length (dq_sweep_at q)" "dq_sweep_at (snd (take_overdue_sweep pair now q)) ! pair = Some t"
  shows "now < t"
  using assms by (auto simp: take_overdue_sweep_def split: option.splits if_splits)

section \<open>The pair that is chosen\<close>

definition slot :: "due_queue \<Rightarrow> nat \<Rightarrow> nat" where
  "slot q offset = (dq_cursor q + offset) mod length (dq_next_due q)"

lemma slot_in_range: "dq_next_due q \<noteq> [] \<Longrightarrow> slot q k < length (dq_next_due q)"
  by (simp add: slot_def)

lemma slot_onto:
  assumes "p < length (dq_next_due q)" "dq_cursor q < length (dq_next_due q)"
  shows "\<exists>k<length (dq_next_due q). slot q k = p"
proof (cases "dq_cursor q \<le> p")
  case True
  with assms show ?thesis by (intro exI[of _ "p - dq_cursor q"]) (simp add: slot_def)
next
  case False
  with assms show ?thesis by (intro exI[of _ "length (dq_next_due q) - dq_cursor q + p"]) (simp add: slot_def)
qed

definition chosen_first :: "due_queue \<Rightarrow> instant \<Rightarrow> nat \<Rightarrow> (nat \<times> instant) option \<Rightarrow> bool" where
  "chosen_first q now n chosen \<longleftrightarrow>
    (case chosen of
       None \<Rightarrow> \<forall>k<n. \<not> is_due q (slot q k) now
     | Some (pair, best) \<Rightarrow> is_due q pair now \<and> best = deadline q pair \<and>
         (\<exists>k<n. pair = slot q k \<and> (\<forall>j<n. is_due q (slot q j) now \<longrightarrow>
           best \<le> deadline q (slot q j) \<and> (j < k \<longrightarrow> best < deadline q (slot q j)))))"

lemma choose_first: "chosen_first q now n (foldl (choose_step q now) None [0..<n])"
proof (induction n)
  case 0
  then show ?case by (simp add: chosen_first_def)
next
  case (Suc n)
  let ?c = "foldl (choose_step q now) None [0..<n]"
  have step: "foldl (choose_step q now) None [0..<Suc n] = choose_step q now ?c n" by simp
  show ?case
  proof (cases ?c)
    case None
    have now0: "choose_step q now None n =
      (if is_due q (slot q n) now then Some (slot q n, deadline q (slot q n)) else None)"
      by (simp add: choose_step_def slot_def Let_def)
    have "\<forall>k<n. \<not> is_due q (slot q k) now" using Suc None by (simp add: chosen_first_def)
    then show ?thesis
      unfolding step None now0 by (auto simp: chosen_first_def less_Suc_eq intro!: exI[of _ n])
  next
    case (Some c)
    obtain pair best where c: "c = (pair, best)" by (cases c)
    with Suc Some obtain k where k: "k < n" "pair = slot q k" "is_due q pair now" "best = deadline q pair"
      "\<forall>j<n. is_due q (slot q j) now \<longrightarrow> best \<le> deadline q (slot q j) \<and> (j < k \<longrightarrow> best < deadline q (slot q j))"
      by (auto simp: chosen_first_def)
    show ?thesis
    proof (cases "is_due q (slot q n) now \<and> deadline q (slot q n) < best")
      case True
      then have "foldl (choose_step q now) None [0..<Suc n] = Some (slot q n, deadline q (slot q n))"
        unfolding step by (simp add: Some c choose_step_def slot_def[symmetric] Let_def)
      moreover have "deadline q (slot q n) < deadline q (slot q j)" if "j < n" "is_due q (slot q j) now" for j
        using k(5) that True by (meson less_le_trans)
      ultimately show ?thesis
        using True by (auto simp: chosen_first_def less_Suc_eq intro!: exI[of _ n] less_imp_le)
    next
      case False
      then have "foldl (choose_step q now) None [0..<Suc n] = Some (pair, best)"
        unfolding step by (auto simp: Some c choose_step_def slot_def[symmetric] Let_def)
      then show ?thesis
        using k False by (auto simp: chosen_first_def less_Suc_eq intro!: exI[of _ k])
    qed
  qed
qed

lemma timer_pop:
  assumes "queue_ok q" "dq_explicit q = []"
  shows "fst (pop q now) = None \<and> snd (pop q now) = q \<and> (\<forall>p<length (dq_next_due q). \<not> is_due q p now) \<or>
    (\<exists>p k. p < length (dq_next_due q) \<and> is_due q p now \<and> k < length (dq_next_due q) \<and> p = slot q k \<and>
      (\<forall>j<length (dq_next_due q). is_due q (slot q j) now \<longrightarrow>
        deadline q p \<le> deadline q (slot q j) \<and> (j < k \<longrightarrow> deadline q p < deadline q (slot q j))) \<and>
      map_option job_pair (fst (pop q now)) = Some p \<and> map_option job_kind (fst (pop q now)) = Some JobSync \<and>
      dq_explicit (snd (pop q now)) = [] \<and> dq_cadence (snd (pop q now)) = dq_cadence q \<and>
      dq_next_due (snd (pop q now)) = (dq_next_due q)[p := later now (dq_cadence q ! p)] \<and>
      dq_sweep_at (snd (pop q now)) = dq_sweep_at (snd (take_overdue_sweep p now q)) \<and>
      dq_cursor (snd (pop q now)) = (p + 1) mod length (dq_next_due q))"
proof (cases "foldl (choose_step q now) None [0..<length (dq_next_due q)]")
  case None
  have "\<not> is_due q p now" if "p < length (dq_next_due q)" for p
    using choose_first[of q now "length (dq_next_due q)"] None slot_onto[OF that] assms(1)
    by (auto simp: chosen_first_def queue_ok_def)
  with None assms(2) show ?thesis by (simp add: pop_def)
next
  case (Some c)
  obtain p best where c: "c = (p, best)" by (cases c)
  from choose_first[of q now "length (dq_next_due q)"] Some c obtain k where
    k: "k < length (dq_next_due q)" "p = slot q k" "is_due q p now" "best = deadline q p"
    "\<forall>j<length (dq_next_due q). is_due q (slot q j) now \<longrightarrow>
      best \<le> deadline q (slot q j) \<and> (j < k \<longrightarrow> best < deadline q (slot q j))"
    by (auto simp: chosen_first_def)
  have swap: "fst (take_overdue_sweep p now (q\<lparr>dq_cursor := n\<rparr>)) = fst (take_overdue_sweep p now q)"
    "snd (take_overdue_sweep p now (q\<lparr>dq_cursor := n\<rparr>)) = (snd (take_overdue_sweep p now q))\<lparr>dq_cursor := n\<rparr>" for n
    by (simp_all add: take_overdue_sweep_def split: option.split)
  have range: "p < length (dq_next_due q)" using k(2) slot_in_range[of q k] assms(1) by (simp add: queue_ok_def)
  define r where "r = take_overdue_sweep p now q"
  have popped: "pop q now =
    (Some \<lparr>job_pair = p, job_kind = JobSync, job_cause = if fst r then CauseSweep else CauseTimer\<rparr>,
     (snd r)\<lparr>dq_cursor := (p + 1) mod length (dq_next_due q),
       dq_next_due := (dq_next_due q)[p := later now (dq_cadence q ! p)]\<rparr>)"
    using assms(2) Some c by (simp add: pop_def case_prod_beta swap r_def)
  show ?thesis
    unfolding popped
    by (rule disjI2, rule exI[of _ p], rule exI[of _ k]) (use k range assms(2) in \<open>simp add: r_def\<close>)
qed

section \<open>What holds of every queue the daemon builds\<close>

lemma queue_okD:
  assumes "queue_ok q"
  shows "dq_next_due q \<noteq> []" "length (dq_cadence q) = length (dq_next_due q)"
    "length (dq_sweep_at q) = length (dq_next_due q)" "0 \<notin> set (dq_cadence q)"
    "dq_cursor q < length (dq_next_due q)" "distinct (dq_explicit q)"
    "(pair, kind) \<in> set (dq_explicit q) \<Longrightarrow> pair < length (dq_next_due q)"
  using assms by (auto simp: queue_ok_def)

lemma take_overdue_ok: "queue_ok q \<Longrightarrow> queue_ok (snd (take_overdue_sweep pair now q))"
  by (simp add: queue_ok_def)

lemma pop_explicit:
  assumes "dq_explicit q = (pair, kind) # rest"
  shows "pop q now =
    (let r = if kind = JobSync then take_overdue_sweep pair now (q\<lparr>dq_explicit := rest\<rparr>)
             else (False, q\<lparr>dq_explicit := rest\<rparr>)
     in (Some \<lparr>job_pair = pair, job_kind = kind, job_cause = if fst r then CauseSweep else CauseExplicit\<rparr>, snd r))"
  using assms by (simp add: pop_def case_prod_beta Let_def)

lemma pop_ok:
  assumes "queue_ok q"
  shows "queue_ok (snd (pop q now))"
proof (cases "dq_explicit q")
  case Nil
  from timer_pop[OF assms Nil, of now] show ?thesis
  proof (elim disjE exE conjE)
    fix p
    assume "p < length (dq_next_due q)" "dq_explicit (snd (pop q now)) = []"
      "dq_cadence (snd (pop q now)) = dq_cadence q"
      "dq_next_due (snd (pop q now)) = (dq_next_due q)[p := later now (dq_cadence q ! p)]"
      "dq_sweep_at (snd (pop q now)) = dq_sweep_at (snd (take_overdue_sweep p now q))"
      "dq_cursor (snd (pop q now)) = (p + 1) mod length (dq_next_due q)"
    with assms show ?thesis by (simp add: queue_ok_def)
  qed (use assms in simp)
next
  case (Cons e rest)
  then have "queue_ok (q\<lparr>dq_explicit := rest\<rparr>)" using assms by (auto simp: queue_ok_def)
  with Cons show ?thesis
    by (cases e) (simp add: pop_explicit Let_def take_overdue_ok)
qed

lemma set_update_subset: "x \<notin> set xs \<Longrightarrow> x \<noteq> y \<Longrightarrow> x \<notin> set (xs[i := y])"
  using set_update_subset_insert[of xs i y] by auto

lemma rearm_ok: "queue_ok q \<Longrightarrow> queue_ok (rearm pair from q)"
  by (simp add: queue_ok_def rearm_def)

lemma set_sweep_ok: "queue_ok q \<Longrightarrow> queue_ok (set_sweep pair t q)"
  by (simp add: queue_ok_def set_sweep_def)

lemma tighten_ok: "queue_ok q \<Longrightarrow> queue_ok (tighten pair t q)"
  by (simp add: queue_ok_def tighten_def)

lemma set_cadence_ok: "queue_ok q \<Longrightarrow> set_cadence pair cadence q = Some q' \<Longrightarrow> queue_ok q'"
  by (auto simp: queue_ok_def set_cadence_def set_update_subset split: if_splits)

lemma request_ok: "queue_ok q \<Longrightarrow> pair < length (dq_next_due q) \<Longrightarrow> queue_ok (request pair kind q)"
  by (auto simp: queue_ok_def request_def)

lemma new_ok: "due_queue_new cadences now = Some q \<Longrightarrow> queue_ok q"
  by (auto simp: due_queue_new_def queue_ok_def split: if_splits)

lemma next_wake_le:
  assumes "queue_ok q" "p < length (dq_next_due q)"
  shows "next_wake q \<le> deadline q p"
  unfolding next_wake_def using assms(2) by (intro Min_le) auto

lemma next_wake_attained:
  assumes "queue_ok q"
  shows "\<exists>p<length (dq_next_due q). next_wake q = deadline q p"
proof -
  have "next_wake q \<in> set (map (deadline q) [0..<length (dq_next_due q)])"
    unfolding next_wake_def using queue_okD(1)[OF assms] by (intro Min_in) auto
  then show ?thesis by auto
qed

lemma pop_none_iff:
  assumes "queue_ok q"
  shows "fst (pop q now) = None \<longleftrightarrow> dq_explicit q = [] \<and> now < next_wake q"
proof (cases "dq_explicit q")
  case (Cons e rest)
  then show ?thesis by (cases e) (simp add: pop_explicit Let_def)
next
  case Nil
  from next_wake_attained[OF assms] obtain w where
    w: "w < length (dq_next_due q)" "next_wake q = deadline q w" by blast
  from timer_pop[OF assms Nil, of now] show ?thesis
  proof (elim disjE exE conjE)
    assume "fst (pop q now) = None" "\<forall>p<length (dq_next_due q). \<not> is_due q p now"
    with Nil w show ?thesis by (auto simp: is_due_def not_le)
  next
    fix p
    assume "p < length (dq_next_due q)" "is_due q p now" "map_option job_pair (fst (pop q now)) = Some p"
    with next_wake_le[OF assms, of p] show ?thesis by (auto simp: is_due_def)
  qed
qed

lemma queue_step_ok: "queue_step q q' \<Longrightarrow> queue_ok q \<Longrightarrow> queue_ok q'"
  by (induction rule: queue_step.induct) (auto intro: set_cadence_ok request_ok set_sweep_ok pop_ok rearm_ok tighten_ok)

text \<open>A queue built at boot and driven by any operations stays well formed, and whenever it answers that nothing
  is due, no request waits and the next deadline lies strictly ahead: the loop that sleeps until it cannot spin.\<close>

theorem nothing_due_means_sleep:
  assumes "due_queue_new cadences t0 = Some q0" "queue_step\<^sup>*\<^sup>* q0 q"
  shows "queue_ok q \<and> (fst (pop q now) = None \<longleftrightarrow> dq_explicit q = [] \<and> now < next_wake q)"
proof -
  from assms(2) have "queue_ok q"
  proof (induction rule: rtranclp_induct)
    case base
    then show ?case using new_ok[OF assms(1)] .
  next
    case (step y z)
    then show ?case by (blast intro: queue_step_ok)
  qed
  then show ?thesis using pop_none_iff by blast
qed

text \<open>The pair of a timer pop is due, no due pair has an earlier deadline, and of those with the same deadline it is
  the first from the cursor on, which then moves past it; the pair is due again only after the moment of the pop.\<close>

theorem earliest_deadline_first:
  assumes "queue_ok q" "dq_explicit q = []" "pop q now = (Some j, q')"
  shows "job_kind j = JobSync \<and> is_due q (job_pair j) now \<and> now < deadline q' (job_pair j) \<and>
    dq_cursor q' = (job_pair j + 1) mod length (dq_next_due q) \<and>
    (\<exists>k<length (dq_next_due q). job_pair j = (dq_cursor q + k) mod length (dq_next_due q) \<and>
      (\<forall>i<length (dq_next_due q). is_due q ((dq_cursor q + i) mod length (dq_next_due q)) now \<longrightarrow>
        deadline q (job_pair j) \<le> deadline q ((dq_cursor q + i) mod length (dq_next_due q)) \<and>
        (i < k \<longrightarrow> deadline q (job_pair j) < deadline q ((dq_cursor q + i) mod length (dq_next_due q)))))"
proof -
  from timer_pop[OF assms(1,2), of now] assms(3) obtain k where
    p: "job_pair j < length (dq_next_due q)" "is_due q (job_pair j) now" "k < length (dq_next_due q)"
      "job_pair j = slot q k"
      "\<forall>i<length (dq_next_due q). is_due q (slot q i) now \<longrightarrow>
        deadline q (job_pair j) \<le> deadline q (slot q i) \<and> (i < k \<longrightarrow> deadline q (job_pair j) < deadline q (slot q i))"
      "job_kind j = JobSync" "dq_next_due q' = (dq_next_due q)[job_pair j := later now (dq_cadence q ! job_pair j)]"
      "dq_sweep_at q' = dq_sweep_at (snd (take_overdue_sweep (job_pair j) now q))"
      "dq_cursor q' = (job_pair j + 1) mod length (dq_next_due q)"
    by auto
  have "0 < dq_cadence q ! job_pair j"
    using queue_okD(2,4)[OF assms(1)] p(1) by (metis gr0I nth_mem)
  from later_after[OF this, of now] have "now < deadline q' (job_pair j)"
    using take_overdue_rest[of "job_pair j" q now] p(1) queue_okD(3)[OF assms(1)]
    by (auto simp: deadline_def p(7,8) split: option.split)
  with p show ?thesis unfolding slot_def by blast
qed

section \<open>Instances\<close>

lemma nothing_due_means_sleep_witness:
  "\<exists>q0 q. due_queue_new [30, 300] 5 = Some q0 \<and> q = snd (pop (snd (pop q0 5)) 5) \<and> queue_ok q \<and>
    fst (pop q 5) = None \<and> dq_explicit q = [] \<and> (5::nat) < next_wake q"
proof -
  define q0 where "q0 = \<lparr>dq_next_due = [5, 5], dq_cadence = [30, 300], dq_sweep_at = [None, None],
    dq_explicit = [], dq_cursor = 0\<rparr>"
  define q where "q = snd (pop (snd (pop q0 5)) 5)"
  have new: "due_queue_new [30, 300] 5 = Some q0" by (simp add: due_queue_new_def q0_def)
  have "queue_step\<^sup>*\<^sup>* q0 q"
    unfolding q_def by (rule rtranclp.rtrancl_into_rtrancl[OF r_into_rtranclp]) (rule queue_step.intros)+
  note sleep = nothing_due_means_sleep[OF new this, of 5]
  have "fst (pop q 5) = None"
    by (simp add: q_def q0_def pop_def choose_step_def is_due_def deadline_def take_overdue_sweep_def later_def
        checked_add_def instant_limit_def nanoseconds_def upt_rec)
  with sleep new q_def show ?thesis by blast
qed

lemma earliest_deadline_first_witness:
  "\<exists>j q'. pop \<lparr>dq_next_due = [9, 7, 7], dq_cadence = [30, 30, 30], dq_sweep_at = [None, None, None],
      dq_explicit = [], dq_cursor = 2\<rparr> 10 = (Some j, q') \<and> job_kind j = JobSync \<and> job_pair j = 2 \<and> 10 < deadline q' 2"
proof -
  define q where "q = \<lparr>dq_next_due = [9, 7, 7], dq_cadence = [30, 30, 30], dq_sweep_at = [None, None, None],
    dq_explicit = [], dq_cursor = 2\<rparr>"
  obtain j q' where pop: "pop q 10 = (Some j, q')" "job_pair j = 2"
    by (simp add: q_def pop_def choose_step_def is_due_def deadline_def take_overdue_sweep_def later_def
        checked_add_def instant_limit_def nanoseconds_def upt_rec)
  from earliest_deadline_first[of q 10 j q'] pop have "job_kind j = JobSync \<and> 10 < deadline q' 2"
    by (simp add: q_def queue_ok_def)
  with pop show ?thesis unfolding q_def by blast
qed

end
