(* ===== verification/Run_Loop.thy ===== *)
theory Run_Loop
  imports Due_Queue
begin

text \<open>
  The daemon's run loop over the queue (\<^verbatim>\<open>src/daemon.rs\<close>, \<^verbatim>\<open>Daemon::step_blocking\<close> and what it calls on
  \<^verbatim>\<open>self.schedule\<close>): draining the control channel, popping one job, re-arming its pair from the moment the job
  ended, and retuning every pair after the event session came back. What a job does is the pass of the other
  theories; here a turn only records what the loop reads from outside while it runs: the commands waiting, the
  cancel flag, the clock readings, the sweep's delay and whether the session changed.
\<close>

section \<open>The loop\<close>

datatype loop_command = SyncNow nat | PlanNow nat | LoopShutdown

datatype step = StepIdle | StepStop

record pair_timing =
  pt_events_driven :: bool
  pt_scan_interval :: duration

definition pair_cadence :: "pair_timing \<Rightarrow> bool \<Rightarrow> duration \<Rightarrow> duration" where
  "pair_cadence config session_live events_poll_interval =
    (if pt_events_driven config \<and> session_live then min events_poll_interval (pt_scan_interval config)
     else pt_scan_interval config)"

record turn =
  tn_commands :: "loop_command list"
  tn_cancelled :: bool
  tn_pop_at :: instant
  tn_ended :: instant
  tn_session_live :: bool
  tn_sweep_delay :: "duration option"
  tn_session_changed :: bool
  tn_retuned_at :: instant

text \<open>The first component is whether the loop goes on.\<close>

definition enqueue :: "nat \<Rightarrow> loop_command \<Rightarrow> due_queue \<Rightarrow> bool \<times> due_queue" where
  "enqueue pairs command q =
    (case command of
       LoopShutdown \<Rightarrow> (False, q)
     | SyncNow pair \<Rightarrow> (True, if pairs \<le> pair then q else request pair JobSync q)
     | PlanNow pair \<Rightarrow> (True, if pairs \<le> pair then q else request pair JobPlan q))"

fun drain_control :: "nat \<Rightarrow> loop_command list \<Rightarrow> due_queue \<Rightarrow> bool \<times> due_queue" where
  "drain_control pairs [] q = (True, q)"
| "drain_control pairs (command # rest) q =
    (case enqueue pairs command q of
       (False, q') \<Rightarrow> (False, q')
     | (True, q') \<Rightarrow> drain_control pairs rest q')"

definition arm_sweep :: "nat \<Rightarrow> instant \<Rightarrow> duration option \<Rightarrow> due_queue \<Rightarrow> due_queue" where
  "arm_sweep pair now delay q = set_sweep pair (map_option (\<lambda>d. now + d) delay) q"

fun arm_sweeps :: "nat \<Rightarrow> instant \<Rightarrow> duration option list \<Rightarrow> due_queue \<Rightarrow> due_queue" where
  "arm_sweeps pair now [] q = q"
| "arm_sweeps pair now (delay # rest) q = arm_sweeps (pair + 1) now rest (arm_sweep pair now delay q)"

definition seed_schedule ::
  "pair_timing list \<Rightarrow> bool \<Rightarrow> duration \<Rightarrow> duration option list \<Rightarrow> instant \<Rightarrow> due_queue option" where
  "seed_schedule configs session_live poll delays now =
    map_option (arm_sweeps 0 now delays)
      (due_queue_new (map (\<lambda>c. pair_cadence c session_live poll) configs) now)"

fun retune :: "nat \<Rightarrow> pair_timing list \<Rightarrow> bool \<Rightarrow> duration \<Rightarrow> instant \<Rightarrow> due_queue \<Rightarrow> due_queue option" where
  "retune pair [] session_live poll now q = Some q"
| "retune pair (config # rest) session_live poll now q =
    (let cadence = pair_cadence config session_live poll in
     case set_cadence pair cadence q of
       None \<Rightarrow> None
     | Some q1 \<Rightarrow>
         retune (pair + 1) rest session_live poll now
           (if pt_events_driven config then tighten pair (now + cadence) q1 else q1))"

text \<open>What follows the pass in \<^verbatim>\<open>run_job\<close>; \<open>None\<close> is the assertion of \<^verbatim>\<open>set_cadence\<close> failing.\<close>

definition finish_job :: "pair_timing list \<Rightarrow> duration \<Rightarrow> turn \<Rightarrow> job \<Rightarrow> due_queue \<Rightarrow> due_queue option" where
  "finish_job configs poll t j q =
    (case
       (if job_kind j = JobSync then
          (case set_cadence (job_pair j) (pair_cadence (configs ! job_pair j) (tn_session_live t) poll) q of
             None \<Rightarrow> None
           | Some q1 \<Rightarrow>
               (let q2 = rearm (job_pair j) (tn_ended t) q1 in
                Some (if job_cause j = CauseSweep then arm_sweep (job_pair j) (tn_ended t) (tn_sweep_delay t) q2
                      else q2)))
        else Some q) of
       None \<Rightarrow> None
     | Some q3 \<Rightarrow>
         if tn_session_changed t then retune 0 configs (tn_session_live t) poll (tn_retuned_at t) q3 else Some q3)"

text \<open>One turn: the step it ends the loop with, or the job that ran; and the queue.\<close>

definition loop_turn ::
  "pair_timing list \<Rightarrow> duration \<Rightarrow> turn \<Rightarrow> due_queue \<Rightarrow> ((step + job) \<times> due_queue) option" where
  "loop_turn configs poll t q =
    (case drain_control (length configs) (tn_commands t) q of
       (False, q1) \<Rightarrow> Some (Inl StepStop, q1)
     | (True, q1) \<Rightarrow>
         if tn_cancelled t then Some (Inl StepStop, q1)
         else
           (case pop q1 (tn_pop_at t) of
              (None, q2) \<Rightarrow> Some (Inl StepIdle, q2)
            | (Some j, q2) \<Rightarrow> map_option (\<lambda>q3. (Inr j, q3)) (finish_job configs poll t j q2)))"

text \<open>The loop itself, over the turns to come. It may run for ever: what it answers is \<open>None\<close> then.\<close>

partial_function (option) step_blocking ::
  "pair_timing list \<Rightarrow> duration \<Rightarrow> (nat \<Rightarrow> turn) \<Rightarrow> nat \<Rightarrow> due_queue \<Rightarrow> (step \<times> job list \<times> due_queue) option" where
  "step_blocking configs poll turns i q =
    (case loop_turn configs poll (turns i) q of
       None \<Rightarrow> None
     | Some (Inl s, q1) \<Rightarrow> Some (s, [], q1)
     | Some (Inr j, q1) \<Rightarrow>
         Option.bind (step_blocking configs poll turns (i + 1) q1) (\<lambda>(s, jobs, q2). Some (s, j # jobs, q2)))"

section \<open>Well-formed configurations\<close>

definition timing_ok :: "pair_timing list \<Rightarrow> duration \<Rightarrow> bool" where
  "timing_ok configs poll \<longleftrightarrow> 0 < poll \<and> list_all (\<lambda>c. 0 < pt_scan_interval c) configs"

lemma pair_cadence_pos:
  assumes "timing_ok configs poll" "c \<in> set configs"
  shows "0 < pair_cadence c live poll"
  using assms by (auto simp: timing_ok_def pair_cadence_def list_all_iff)

definition shaped :: "pair_timing list \<Rightarrow> due_queue \<Rightarrow> bool" where
  "shaped configs q \<longleftrightarrow> queue_ok q \<and> length (dq_next_due q) = length configs"

lemma shapedD: "shaped configs q \<Longrightarrow> queue_ok q" "shaped configs q \<Longrightarrow> length (dq_next_due q) = length configs"
  by (simp_all add: shaped_def)

lemma pop_length:
  assumes "queue_ok q" shows "length (dq_next_due (snd (pop q now))) = length (dq_next_due q)"
proof (cases "dq_explicit q")
  case Nil
  from timer_pop[OF assms Nil, of now] show ?thesis by auto
next
  case (Cons e rest)
  then show ?thesis by (cases e) (simp add: pop_explicit Let_def)
qed

lemma pop_shaped: "shaped configs q \<Longrightarrow> shaped configs (snd (pop q now))"
  by (simp add: shaped_def pop_ok pop_length)

lemma rearm_shaped: "shaped configs q \<Longrightarrow> shaped configs (rearm pair from q)"
  using rearm_ok[of q] by (simp add: shaped_def rearm_def)

lemma arm_sweep_shaped: "shaped configs q \<Longrightarrow> shaped configs (arm_sweep pair now delay q)"
  using set_sweep_ok[of q] by (simp add: shaped_def arm_sweep_def set_sweep_def)

lemma set_cadence_shaped: "shaped configs q \<Longrightarrow> set_cadence pair cadence q = Some q' \<Longrightarrow> shaped configs q'"
  using set_cadence_ok[of q pair cadence q'] by (auto simp: shaped_def set_cadence_def split: if_splits)

lemma tighten_shaped: "shaped configs q \<Longrightarrow> shaped configs (tighten pair t q)"
  using tighten_ok[of q pair t] by (auto simp: shaped_def tighten_def)

lemma enqueue_shaped: "shaped configs q \<Longrightarrow> shaped configs (snd (enqueue (length configs) command q))"
  using request_ok by (auto simp: shaped_def enqueue_def request_def split: loop_command.splits)

lemma drain_shaped: "shaped configs q \<Longrightarrow> shaped configs (snd (drain_control (length configs) cs q))"
proof (induction cs arbitrary: q)
  case (Cons c cs)
  then show ?case using enqueue_shaped[of configs q c]
    by (auto split: prod.splits bool.splits)
qed simp

lemma retune_defined:
  assumes "shaped all q" "list_all (\<lambda>c. 0 < pair_cadence c live poll) rest"
  shows "\<exists>q'. retune pair rest live poll now q = Some q' \<and> shaped all q'"
  using assms
proof (induction rest arbitrary: pair q)
  case (Cons c rest)
  obtain q1 where q1: "set_cadence pair (pair_cadence c live poll) q = Some q1"
    using Cons.prems(2) by (simp add: set_cadence_def)
  then have "shaped all (if pt_events_driven c then tighten pair (now + pair_cadence c live poll) q1 else q1)"
    using set_cadence_shaped[OF Cons.prems(1)] tighten_shaped by auto
  from Cons.IH[OF this] Cons.prems(2) q1 show ?case by (auto simp: Let_def)
qed simp
section \<open>What one turn changes\<close>

lemma less_deadline_iff:
  "d < deadline q r \<longleftrightarrow> d < dq_next_due q ! r \<and> (\<forall>s. dq_sweep_at q ! r = Some s \<longrightarrow> d < s)"
  by (auto simp: deadline_def split: option.split)

lemma deadline_le_iff:
  "deadline q r \<le> d \<longleftrightarrow> dq_next_due q ! r \<le> d \<or> (\<exists>s. dq_sweep_at q ! r = Some s \<and> s \<le> d)"
  by (auto simp: deadline_def split: option.split)

lemma retune_effect:
  assumes "retune pair rest live poll now q = Some q'"
  shows "dq_explicit q' = dq_explicit q \<and> dq_sweep_at q' = dq_sweep_at q \<and>
    length (dq_next_due q') = length (dq_next_due q) \<and>
    (\<forall>r. dq_next_due q' ! r \<le> dq_next_due q ! r \<and>
      (\<forall>l. l \<le> dq_next_due q ! r \<and> (\<forall>c\<in>set rest. l \<le> now + pair_cadence c live poll) \<longrightarrow>
        l \<le> dq_next_due q' ! r))"
  using assms
proof (induction rest arbitrary: pair q)
  case (Cons c rest)
  let ?cad = "pair_cadence c live poll"
  obtain q1 where q1: "set_cadence pair ?cad q = Some q1"
    using Cons.prems by (auto simp: Let_def split: option.splits)
  define q2 where "q2 = (if pt_events_driven c then tighten pair (now + ?cad) q1 else q1)"
  have rest: "retune (pair + 1) rest live poll now q2 = Some q'"
    using Cons.prems q1 by (simp add: Let_def q2_def)
  have "dq_explicit q2 = dq_explicit q" "dq_sweep_at q2 = dq_sweep_at q"
    "length (dq_next_due q2) = length (dq_next_due q)"
    using q1 by (auto simp: q2_def tighten_def set_cadence_def split: if_splits)
  moreover have up: "dq_next_due q2 ! r = dq_next_due q ! r \<or>
      dq_next_due q2 ! r = now + ?cad \<and> now + ?cad < dq_next_due q ! r" for r
    using q1 by (cases "pair = r"; cases "pair < length (dq_next_due q)")
      (auto simp: q2_def tighten_def set_cadence_def list_update_beyond not_less split: if_splits)
  moreover have "dq_next_due q' ! r \<le> dq_next_due q ! r" for r
    using Cons.IH[OF rest] up[of r] by (metis order.trans order_less_imp_le order_refl)
  moreover have "l \<le> dq_next_due q' ! r"
    if "l \<le> dq_next_due q ! r" "\<forall>d\<in>set (c # rest). l \<le> now + pair_cadence d live poll" for l r
  proof -
    have "l \<le> dq_next_due q2 ! r" using that up[of r] by auto
    then show ?thesis using Cons.IH[OF rest] that(2) by auto
  qed
  ultimately show ?case
    using Cons.IH[OF rest] by simp
qed simp

lemma finish_defined:
  assumes "shaped configs q" "timing_ok configs poll" "job_pair j < length configs"
  shows "\<exists>q'. finish_job configs poll t j q = Some q' \<and> shaped configs q'"
proof -
  have pos: "0 < pair_cadence c live poll" if "c \<in> set configs" for c live
    using pair_cadence_pos[OF assms(2) that] .
  obtain q3 where q3: "(if job_kind j = JobSync then
          (case set_cadence (job_pair j) (pair_cadence (configs ! job_pair j) (tn_session_live t) poll) q of
             None \<Rightarrow> None
           | Some q1 \<Rightarrow>
               (let q2 = rearm (job_pair j) (tn_ended t) q1 in
                Some (if job_cause j = CauseSweep then arm_sweep (job_pair j) (tn_ended t) (tn_sweep_delay t) q2
                      else q2)))
        else Some q) = Some q3" "shaped configs q3"
  proof (cases "job_kind j = JobSync")
    case True
    from pos[of "configs ! job_pair j"] assms(3) obtain q1 where
      q1: "set_cadence (job_pair j) (pair_cadence (configs ! job_pair j) (tn_session_live t) poll) q = Some q1"
      by (auto simp: set_cadence_def)
    then have "shaped configs (rearm (job_pair j) (tn_ended t) q1)"
      by (intro rearm_shaped set_cadence_shaped[OF assms(1)])
    then show thesis using that True q1 by (auto simp: Let_def arm_sweep_shaped)
  qed (use that assms(1) in simp)
  have "list_all (\<lambda>c. 0 < pair_cadence c (tn_session_live t) poll) configs"
    using pos by (simp add: list_all_iff)
  from retune_defined[OF q3(2) this] show ?thesis
    unfolding finish_job_def q3(1) using q3(2) by simp
qed

lemma finish_effect:
  assumes fin: "finish_job configs poll t j q = Some q'" and len: "job_pair j < length (dq_next_due q)"
    "length (dq_cadence q) = length (dq_next_due q)" "length (dq_sweep_at q) = length (dq_next_due q)"
  shows "dq_explicit q' = dq_explicit q"
    "r \<noteq> job_pair j \<or> job_kind j = JobPlan \<or> job_cause j \<noteq> CauseSweep \<Longrightarrow> dq_sweep_at q' ! r = dq_sweep_at q ! r"
    "job_kind j = JobSync \<Longrightarrow> job_cause j = CauseSweep \<Longrightarrow>
      dq_sweep_at q' ! job_pair j = map_option (\<lambda>d. tn_ended t + d) (tn_sweep_delay t)"
    "r \<noteq> job_pair j \<or> job_kind j = JobPlan \<Longrightarrow> dq_next_due q' ! r \<le> dq_next_due q ! r"
    "l \<le> (if r = job_pair j \<and> job_kind j = JobSync
          then later (tn_ended t) (pair_cadence (configs ! job_pair j) (tn_session_live t) poll)
          else dq_next_due q ! r) \<Longrightarrow>
      list_all (\<lambda>c. tn_session_changed t \<longrightarrow> l \<le> tn_retuned_at t + pair_cadence c (tn_session_live t) poll) configs \<Longrightarrow>
      l \<le> dq_next_due q' ! r"
proof -
  let ?cad = "pair_cadence (configs ! job_pair j) (tn_session_live t) poll"
  define q3 where "q3 = (if job_kind j = JobSync then
      (let q2 = q\<lparr>dq_cadence := (dq_cadence q)[job_pair j := ?cad],
         dq_next_due := (dq_next_due q)[job_pair j := later (tn_ended t) ?cad]\<rparr>
       in if job_cause j = CauseSweep then arm_sweep (job_pair j) (tn_ended t) (tn_sweep_delay t) q2 else q2)
     else q)"
  have q3: "dq_explicit q3 = dq_explicit q"
    "r \<noteq> job_pair j \<or> job_kind j = JobPlan \<or> job_cause j \<noteq> CauseSweep \<Longrightarrow> dq_sweep_at q3 ! r = dq_sweep_at q ! r"
    "job_kind j = JobSync \<Longrightarrow> job_cause j = CauseSweep \<Longrightarrow>
      dq_sweep_at q3 ! job_pair j = map_option (\<lambda>d. tn_ended t + d) (tn_sweep_delay t)"
    "dq_next_due q3 ! r = (if r = job_pair j \<and> job_kind j = JobSync then later (tn_ended t) ?cad else dq_next_due q ! r)"
    for r
    using len by (auto simp: q3_def arm_sweep_def set_sweep_def Let_def)
  have step: "(if tn_session_changed t then retune 0 configs (tn_session_live t) poll (tn_retuned_at t) q3 else Some q3)
      = Some q'"
    using fin len by (auto simp: finish_job_def q3_def rearm_def set_cadence_def Let_def split: if_splits)
  have eff: "dq_explicit q' = dq_explicit q3 \<and> dq_sweep_at q' = dq_sweep_at q3 \<and>
      (\<forall>r. dq_next_due q' ! r \<le> dq_next_due q3 ! r \<and>
        (\<forall>l. l \<le> dq_next_due q3 ! r \<and>
          list_all (\<lambda>c. tn_session_changed t \<longrightarrow> l \<le> tn_retuned_at t + pair_cadence c (tn_session_live t) poll) configs
          \<longrightarrow> l \<le> dq_next_due q' ! r))"
  proof (cases "tn_session_changed t")
    case True
    with step retune_effect[of 0 configs "tn_session_live t" poll "tn_retuned_at t" q3 q'] show ?thesis
      by (simp add: list_all_iff)
  qed (use step in simp)
  show "dq_explicit q' = dq_explicit q" using eff q3(1) by simp
  show "dq_sweep_at q' ! r = dq_sweep_at q ! r"
    if "r \<noteq> job_pair j \<or> job_kind j = JobPlan \<or> job_cause j \<noteq> CauseSweep" using eff q3(2)[OF that] by simp
  show "dq_sweep_at q' ! job_pair j = map_option (\<lambda>d. tn_ended t + d) (tn_sweep_delay t)"
    if "job_kind j = JobSync" "job_cause j = CauseSweep" using eff q3(3)[OF that] by simp
  show "dq_next_due q' ! r \<le> dq_next_due q ! r" if "r \<noteq> job_pair j \<or> job_kind j = JobPlan"
    using eff q3(4)[of r] that by (metis job_kind.distinct(1))
  show "l \<le> dq_next_due q' ! r"
    if "l \<le> (if r = job_pair j \<and> job_kind j = JobSync then later (tn_ended t) ?cad else dq_next_due q ! r)"
      "list_all (\<lambda>c. tn_session_changed t \<longrightarrow> l \<le> tn_retuned_at t + pair_cadence c (tn_session_live t) poll) configs"
    using eff q3(4)[of r] that by auto
qed

lemma pop_effect_all:
  assumes "queue_ok q" "pop q now = (Some j, q2)"
  shows "job_pair j < length (dq_next_due q) \<and> dq_explicit q2 = tl (dq_explicit q) \<and>
    (dq_explicit q = [] \<longrightarrow> job_kind j = JobSync \<and> is_due q (job_pair j) now \<and>
      (\<forall>r<length (dq_next_due q). is_due q r now \<longrightarrow> deadline q (job_pair j) \<le> deadline q r)) \<and>
    (r \<noteq> job_pair j \<or> dq_explicit q \<noteq> [] \<longrightarrow> dq_next_due q2 ! r = dq_next_due q ! r) \<and>
    (r \<noteq> job_pair j \<or> job_kind j = JobPlan \<longrightarrow> dq_sweep_at q2 ! r = dq_sweep_at q ! r) \<and>
    (job_kind j = JobSync \<longrightarrow> dq_sweep_at q2 ! job_pair j = Some s \<longrightarrow> now < s \<and> dq_sweep_at q ! job_pair j = Some s)"
proof (cases "dq_explicit q")
  case Nil
  from timer_pop[OF assms(1) Nil, of now] assms(2) obtain k where
    p: "job_pair j < length (dq_next_due q)" "is_due q (job_pair j) now"
      "\<forall>i<length (dq_next_due q). is_due q (slot q i) now \<longrightarrow> deadline q (job_pair j) \<le> deadline q (slot q i)"
      "job_kind j = JobSync" "dq_next_due q2 = (dq_next_due q)[job_pair j := later now (dq_cadence q ! job_pair j)]"
      "dq_sweep_at q2 = dq_sweep_at (snd (take_overdue_sweep (job_pair j) now q))" "dq_explicit q2 = []"
    by auto
  have "is_due q r now \<longrightarrow> deadline q (job_pair j) \<le> deadline q r" if "r < length (dq_next_due q)" for r
    using slot_onto[OF that queue_okD(5)[OF assms(1)]] p(3) by auto
  moreover have "now < s \<and> dq_sweep_at q ! job_pair j = Some s" if "dq_sweep_at q2 ! job_pair j = Some s" for s
    using that p(1) queue_okD(3)[OF assms(1)] unfolding p(6)
    by (auto simp: take_overdue_sweep_def split: option.splits if_splits)
  ultimately show ?thesis
    using p Nil by auto
next
  case (Cons e rest)
  obtain pair kind where e: "e = (pair, kind)" by (cases e)
  have range: "pair < length (dq_next_due q)" using queue_okD(7)[OF assms(1), of pair kind] Cons e by simp
  define r0 where "r0 = (if kind = JobSync then take_overdue_sweep pair now (q\<lparr>dq_explicit := rest\<rparr>)
    else (False, q\<lparr>dq_explicit := rest\<rparr>))"
  have j: "job_pair j = pair" "job_kind j = kind" "q2 = snd r0"
    using assms(2) Cons e by (auto simp: pop_explicit r0_def Let_def)
  have "dq_explicit (snd r0) = rest" "dq_next_due (snd r0) = dq_next_due q"
    "a \<noteq> pair \<or> kind = JobPlan \<Longrightarrow> dq_sweep_at (snd r0) ! a = dq_sweep_at q ! a" for a
    by (auto simp: r0_def)
  moreover have "now < s \<and> dq_sweep_at q ! pair = Some s" if "kind = JobSync" "dq_sweep_at (snd r0) ! pair = Some s"
    using that range queue_okD(3)[OF assms(1)]
    by (auto simp: r0_def take_overdue_sweep_def split: option.splits if_splits)
  ultimately show ?thesis
    using j Cons range by auto
qed

lemma pop_effect:
  assumes "queue_ok q" "pop q now = (Some j, q2)"
  shows "job_pair j < length (dq_next_due q)"
    "dq_explicit q2 = tl (dq_explicit q)"
    "dq_explicit q = [] \<Longrightarrow> job_kind j = JobSync \<and> is_due q (job_pair j) now \<and>
      (\<forall>r<length (dq_next_due q). is_due q r now \<longrightarrow> deadline q (job_pair j) \<le> deadline q r)"
    "r \<noteq> job_pair j \<or> dq_explicit q \<noteq> [] \<Longrightarrow> dq_next_due q2 ! r = dq_next_due q ! r"
    "r \<noteq> job_pair j \<or> job_kind j = JobPlan \<Longrightarrow> dq_sweep_at q2 ! r = dq_sweep_at q ! r"
    "job_kind j = JobSync \<Longrightarrow> dq_sweep_at q2 ! job_pair j = Some s \<Longrightarrow> now < s \<and> dq_sweep_at q ! job_pair j = Some s"
  using pop_effect_all[OF assms] by auto

lemma turn_cases:
  assumes "shaped configs q" "timing_ok configs poll" "tn_commands t = []" "\<not> tn_cancelled t"
  obtains (idle) "fst (pop q (tn_pop_at t)) = None" "loop_turn configs poll t q = Some (Inl StepIdle, snd (pop q (tn_pop_at t)))"
  | (job) j q2 q' where "pop q (tn_pop_at t) = (Some j, q2)" "finish_job configs poll t j q2 = Some q'"
      "loop_turn configs poll t q = Some (Inr j, q')" "shaped configs q'" "shaped configs q2"
proof (cases "pop q (tn_pop_at t)")
  case (Pair r q2)
  have turn: "loop_turn configs poll t q =
    (case (r, q2) of
       (None, q2) \<Rightarrow> Some (Inl StepIdle, q2)
     | (Some j, q2) \<Rightarrow> map_option (\<lambda>q3. (Inr j, q3)) (finish_job configs poll t j q2))"
    using assms(3,4) Pair by (simp add: loop_turn_def)
  show thesis
  proof (cases r)
    case None
    then show thesis using idle Pair turn by simp
  next
    case (Some j)
    have q2: "shaped configs q2" using pop_shaped[OF assms(1), of "tn_pop_at t"] Pair by simp
    have "job_pair j < length configs"
      using pop_effect(1)[of q "tn_pop_at t" j q2] Pair Some shapedD[OF assms(1)] by simp
    from finish_defined[OF q2 assms(2) this] obtain q' where
      "finish_job configs poll t j q2 = Some q'" "shaped configs q'" by blast
    then show thesis using job Pair turn Some q2 by simp
  qed
qed

lemma turn_effect:
  assumes "shaped configs q" "pop q (tn_pop_at t) = (Some j, q2)" "finish_job configs poll t j q2 = Some q'"
    "shaped configs q2"
  shows "dq_explicit q' = tl (dq_explicit q)"
    "r \<noteq> job_pair j \<or> job_kind j = JobPlan \<Longrightarrow> dq_sweep_at q' ! r = dq_sweep_at q ! r"
    "r \<noteq> job_pair j \<or> job_kind j = JobPlan \<Longrightarrow> dq_next_due q' ! r \<le> dq_next_due q ! r"
    "job_kind j = JobSync \<Longrightarrow> dq_sweep_at q' ! job_pair j = Some s \<Longrightarrow>
      tn_pop_at t < s \<and> dq_sweep_at q ! job_pair j = Some s \<or>
      (\<exists>d. tn_sweep_delay t = Some d \<and> s = tn_ended t + d)"
    "l \<le> (if r = job_pair j \<and> job_kind j = JobSync
          then later (tn_ended t) (pair_cadence (configs ! job_pair j) (tn_session_live t) poll)
          else dq_next_due q ! r) \<Longrightarrow>
      list_all (\<lambda>c. tn_session_changed t \<longrightarrow> l \<le> tn_retuned_at t + pair_cadence c (tn_session_live t) poll) configs \<Longrightarrow>
      l \<le> dq_next_due q' ! r"
proof -
  note ok = shapedD[OF assms(1)]
  note pe = pop_effect[OF ok(1) assms(2)]
  have len: "job_pair j < length (dq_next_due q2)" "length (dq_cadence q2) = length (dq_next_due q2)"
    "length (dq_sweep_at q2) = length (dq_next_due q2)"
    using pe(1) ok(2) shapedD[OF assms(4)] queue_okD(2,3) by auto
  note fe = finish_effect[OF assms(3) len]
  have plan: "dq_explicit q \<noteq> []" if "job_kind j = JobPlan" using pe(3) that by force
  show "dq_explicit q' = tl (dq_explicit q)" using pe(2) fe(1) by simp
  show "dq_sweep_at q' ! r = dq_sweep_at q ! r" if "r \<noteq> job_pair j \<or> job_kind j = JobPlan"
    using fe(2)[of r] pe(5)[OF that] that by auto
  show "dq_next_due q' ! r \<le> dq_next_due q ! r" if "r \<noteq> job_pair j \<or> job_kind j = JobPlan"
    using fe(4)[OF that] pe(4)[of r] that plan by auto
  show "tn_pop_at t < s \<and> dq_sweep_at q ! job_pair j = Some s \<or>
      (\<exists>d. tn_sweep_delay t = Some d \<and> s = tn_ended t + d)"
    if "job_kind j = JobSync" "dq_sweep_at q' ! job_pair j = Some s"
  proof (cases "job_cause j = CauseSweep")
    case True
    then show ?thesis using fe(3)[OF that(1) True] that(2) by (cases "tn_sweep_delay t") auto
  next
    case False
    then have "dq_sweep_at q2 ! job_pair j = Some s" using fe(2)[of "job_pair j"] that(2) by simp
    from pe(6)[OF that(1) this] show ?thesis by simp
  qed
  show "l \<le> dq_next_due q' ! r"
    if "l \<le> (if r = job_pair j \<and> job_kind j = JobSync
          then later (tn_ended t) (pair_cadence (configs ! job_pair j) (tn_session_live t) poll)
          else dq_next_due q ! r)"
      "list_all (\<lambda>c. tn_session_changed t \<longrightarrow> l \<le> tn_retuned_at t + pair_cadence c (tn_session_live t) poll) configs"
    using fe(5)[of l r, OF _ that(2)] that(1) pe(4)[of r] plan
    by (cases "r = job_pair j"; cases "job_kind j") auto
qed

section \<open>The loop goes idle\<close>

text \<open>A turn of a busy stretch that ends before the instant \<open>limit\<close>: nothing more is asked for, the clock has not
  reached the limit, and what is re-armed is due at the limit or after it, as it is whenever the stretch is
  shorter than every cadence.\<close>

definition short_turn :: "pair_timing list \<Rightarrow> duration \<Rightarrow> instant \<Rightarrow> turn \<Rightarrow> bool" where
  "short_turn configs poll limit t \<longleftrightarrow>
    tn_commands t = [] \<and> \<not> tn_cancelled t \<and> tn_pop_at t < limit \<and>
    list_all (\<lambda>c. limit \<le> later (tn_ended t) (pair_cadence c (tn_session_live t) poll) \<and>
      (tn_session_changed t \<longrightarrow> limit \<le> tn_retuned_at t + pair_cadence c (tn_session_live t) poll)) configs \<and>
    (case tn_sweep_delay t of None \<Rightarrow> True | Some d \<Rightarrow> limit \<le> tn_ended t + d)"

definition timers_before :: "instant \<Rightarrow> due_queue \<Rightarrow> nat set" where
  "timers_before l q = {r. r < length (dq_next_due q) \<and> dq_next_due q ! r < l}"

definition sweeps_before :: "instant \<Rightarrow> due_queue \<Rightarrow> nat set" where
  "sweeps_before l q = {r. r < length (dq_next_due q) \<and> (\<exists>s. dq_sweep_at q ! r = Some s \<and> s < l)}"

definition backlog :: "instant \<Rightarrow> due_queue \<Rightarrow> nat" where
  "backlog l q = length (dq_explicit q) + card (timers_before l q) + card (sweeps_before l q)"

lemma finite_before [simp]: "finite (timers_before l q)" "finite (sweeps_before l q)"
  by (simp_all add: timers_before_def sweeps_before_def)

lemma backlog_bound: "backlog l q \<le> length (dq_explicit q) + 2 * length (dq_next_due q)"
proof -
  have "card (timers_before l q) \<le> card {..<length (dq_next_due q)}"
    "card (sweeps_before l q) \<le> card {..<length (dq_next_due q)}"
    by (intro card_mono; auto simp: timers_before_def sweeps_before_def)+
  then show ?thesis by (simp add: backlog_def)
qed

lemma turn_shrinks_backlog:
  assumes ok: "shaped configs q" "shaped configs q2" "shaped configs q'" and short: "short_turn configs poll l t"
    and pop: "pop q (tn_pop_at t) = (Some j, q2)" and fin: "finish_job configs poll t j q2 = Some q'"
  shows "backlog l q' < backlog l q"
proof -
  let ?p = "job_pair j"
  note te = turn_effect[OF ok(1) pop fin ok(2)]
  note pe = pop_effect[OF shapedD(1)[OF ok(1)] pop]
  have len: "length (dq_next_due q') = length (dq_next_due q)" "?p < length configs"
    using shapedD(2) ok pe(1) by metis+
  have cad: "list_all (\<lambda>c. tn_session_changed t \<longrightarrow> l \<le> tn_retuned_at t + pair_cadence c (tn_session_live t) poll) configs"
    "l \<le> later (tn_ended t) (pair_cadence (configs ! ?p) (tn_session_live t) poll)"
    using short len(2) by (auto simp: short_turn_def list_all_iff)
  have lower: "l \<le> dq_next_due q' ! r" if "r = ?p \<and> job_kind j = JobSync \<or> l \<le> dq_next_due q ! r" for r
    using te(5)[of l r, OF _ cad(1)] that cad(2) by (cases "r = ?p \<and> job_kind j = JobSync") auto
  have timers: "timers_before l q' \<subseteq> timers_before l q - (if job_kind j = JobSync then {?p} else {})"
    using lower by (auto simp: timers_before_def len(1) not_le[symmetric])
  have sweep: "tn_pop_at t < s \<and> dq_sweep_at q ! ?p = Some s"
    if "job_kind j = JobSync" "dq_sweep_at q' ! ?p = Some s" "s < l" for s
    using te(4)[OF that(1,2)] that(3) short by (auto simp: short_turn_def)
  have sweeps: "sweeps_before l q' \<subseteq> sweeps_before l q"
  proof
    fix r assume r: "r \<in> sweeps_before l q'"
    then obtain s where s: "dq_sweep_at q' ! r = Some s" "s < l" by (auto simp: sweeps_before_def)
    have "dq_sweep_at q ! r = Some s"
      using te(2)[of r] sweep[of s] s by (cases "r = ?p"; cases "job_kind j") auto
    with r s(2) show "r \<in> sweeps_before l q" by (auto simp: sweeps_before_def len(1))
  qed
  have mono: "card (timers_before l q') \<le> card (timers_before l q)" "card (sweeps_before l q') \<le> card (sweeps_before l q)"
    using timers sweeps by (auto intro!: card_mono split: if_splits)
  show ?thesis
  proof (cases "dq_explicit q")
    case (Cons e rest)
    then show ?thesis using te(1) mono by (simp add: backlog_def)
  next
    case Nil
    from pe(3)[OF Nil] have due: "job_kind j = JobSync" "deadline q ?p \<le> tn_pop_at t" by (auto simp: is_due_def)
    from short have before: "tn_pop_at t < l" by (simp add: short_turn_def)
    have "?p \<in> timers_before l q \<or> ?p \<in> sweeps_before l q \<and> ?p \<notin> sweeps_before l q'"
    proof (cases "dq_next_due q ! ?p \<le> tn_pop_at t")
      case True
      then show ?thesis using before pe(1) by (simp add: timers_before_def)
    next
      case False
      then obtain s where "dq_sweep_at q ! ?p = Some s" "s \<le> tn_pop_at t"
        using due(2) by (auto simp: deadline_le_iff)
      then show ?thesis using before pe(1) sweep[OF due(1)] by (fastforce simp: sweeps_before_def)
    qed
    then have "card (timers_before l q') < card (timers_before l q) \<or> card (sweeps_before l q') < card (sweeps_before l q)"
    proof
      assume "?p \<in> timers_before l q"
      with timers due(1) have "timers_before l q' \<subset> timers_before l q" by auto
      then show ?thesis by (simp add: psubset_card_mono)
    next
      assume "?p \<in> sweeps_before l q \<and> ?p \<notin> sweeps_before l q'"
      with sweeps have "sweeps_before l q' \<subset> sweeps_before l q" by auto
      then show ?thesis by (simp add: psubset_card_mono)
    qed
    then show ?thesis using mono te(1) Nil by (auto simp: backlog_def)
  qed
qed


section \<open>No due pair starves\<close>

text \<open>The jobs of a run of turns.\<close>

fun run_turns :: "pair_timing list \<Rightarrow> duration \<Rightarrow> turn list \<Rightarrow> due_queue \<Rightarrow> job list" where
  "run_turns configs poll [] q = []"
| "run_turns configs poll (t # ts) q =
    (case loop_turn configs poll t q of
       Some (Inr j, q') \<Rightarrow> j # run_turns configs poll ts q'
     | _ \<Rightarrow> [])"

text \<open>A turn after the instant \<open>d\<close> that only the timers decide: no command arrives, and the clock is past \<open>d\<close>.\<close>

definition timer_turn :: "instant \<Rightarrow> turn \<Rightarrow> bool" where
  "timer_turn d t \<longleftrightarrow> tn_commands t = [] \<and> \<not> tn_cancelled t \<and> d \<le> tn_pop_at t \<and> d \<le> tn_ended t \<and>
    d \<le> tn_retuned_at t \<and> tn_sweep_delay t \<noteq> Some 0"

definition rivals :: "nat \<Rightarrow> instant \<Rightarrow> due_queue \<Rightarrow> nat set" where
  "rivals p d q = {r. r < length (dq_next_due q) \<and> r \<noteq> p \<and> deadline q r \<le> d}"

lemma turn_drops_a_rival:
  assumes ok: "shaped configs q" "shaped configs q2" "shaped configs q'" and timing: "timing_ok configs poll"
    and t: "timer_turn d t" and pop: "pop q (tn_pop_at t) = (Some j, q2)"
    and fin: "finish_job configs poll t j q2 = Some q'" and p: "p < length configs" "deadline q p \<le> d"
    and other: "job_pair j \<noteq> p \<or> job_kind j = JobPlan"
  shows "deadline q' p \<le> d"
    "length (dq_explicit q') + card (rivals p d q') < length (dq_explicit q) + card (rivals p d q)"
proof -
  let ?p = "job_pair j"
  note te = turn_effect[OF ok(1) pop fin ok(2)]
  note pe = pop_effect[OF shapedD(1)[OF ok(1)] pop]
  have len: "length (dq_next_due q') = length (dq_next_due q)" "length (dq_next_due q) = length configs"
    "?p < length configs"
    using shapedD(2) ok pe(1) by metis+
  have "deadline q' p \<le> deadline q p"
    using te(2,3)[of p] other by (auto simp: deadline_def split: option.split)
  then show "deadline q' p \<le> d" using p(2) by simp
  have pos: "0 < pair_cadence c (tn_session_live t) poll" if "c \<in> set configs" for c
    using pair_cadence_pos[OF timing that] .
  have cad: "list_all (\<lambda>c. tn_session_changed t \<longrightarrow>
      Suc d \<le> tn_retuned_at t + pair_cadence c (tn_session_live t) poll) configs"
    using t pos by (fastforce simp: list_all_iff timer_turn_def)
  have "0 < pair_cadence (configs ! ?p) (tn_session_live t) poll" using pos len(3) by simp
  from later_after[OF this, of "tn_ended t"] t
  have armed: "Suc d \<le> later (tn_ended t) (pair_cadence (configs ! ?p) (tn_session_live t) poll)"
    by (simp add: timer_turn_def)
  have sweep: "d < s" if "job_kind j = JobSync" "dq_sweep_at q' ! ?p = Some s" for s
  proof -
    have "tn_pop_at t < s \<or> (\<exists>e. tn_sweep_delay t = Some e \<and> s = tn_ended t + e)"
      using te(4)[OF that] by blast
    then show ?thesis
    proof (elim disjE exE conjE)
      fix e assume "tn_sweep_delay t = Some e" "s = tn_ended t + e"
      with t show ?thesis by (cases e) (auto simp: timer_turn_def)
    qed (use t in \<open>simp add: timer_turn_def\<close>)
  qed
  have ran: "d < deadline q' ?p" if "job_kind j = JobSync"
    using te(5)[of "Suc d" ?p, OF _ cad] armed that sweep by (simp add: less_deadline_iff Suc_le_eq)
  have keep: "d < deadline q' r" if "d < deadline q r" "r \<noteq> ?p \<or> job_kind j = JobPlan" for r
    using that te(2)[of r] te(5)[of "Suc d" r, OF _ cad] by (auto simp: less_deadline_iff Suc_le_eq)
  have sub: "rivals p d q' \<subseteq> rivals p d q - (if job_kind j = JobSync then {?p} else {})"
  proof
    fix r assume r: "r \<in> rivals p d q'"
    then have r': "\<not> d < deadline q' r" "r < length (dq_next_due q)" "r \<noteq> p" by (auto simp: rivals_def len)
    have "\<not> (r = ?p \<and> job_kind j = JobSync)" using ran r'(1) by blast
    moreover from this have "\<not> d < deadline q r" using keep r'(1) by (metis job_kind.exhaust)
    ultimately show "r \<in> rivals p d q - (if job_kind j = JobSync then {?p} else {})"
      using r' by (auto simp: rivals_def)
  qed
  have fin: "finite (rivals p d q)" by (simp add: rivals_def)
  show "length (dq_explicit q') + card (rivals p d q') < length (dq_explicit q) + card (rivals p d q)"
  proof (cases "dq_explicit q")
    case (Cons e rest)
    have "card (rivals p d q') \<le> card (rivals p d q)" using sub fin by (intro card_mono) (auto split: if_splits)
    then show ?thesis using te(1) Cons by simp
  next
    case Nil
    from pe(3)[OF Nil] have j: "job_kind j = JobSync"
      "\<forall>r<length (dq_next_due q). is_due q r (tn_pop_at t) \<longrightarrow> deadline q ?p \<le> deadline q r" by auto
    have "is_due q p (tn_pop_at t)" using p(2) t by (simp add: is_due_def timer_turn_def)
    then have "deadline q ?p \<le> deadline q p" using j(2) p(1) len(2) by simp
    then have "?p \<in> rivals p d q" using p(2) other j(1) len by (simp add: rivals_def)
    then have "rivals p d q' \<subset> rivals p d q" using sub j(1) by auto
    then show ?thesis using te(1) Nil fin by (simp add: psubset_card_mono)
  qed
qed


text \<open>What boot builds is the shape every turn keeps.\<close>

lemma arm_sweeps_shaped: "shaped configs q \<Longrightarrow> shaped configs (arm_sweeps pair now delays q)"
  by (induction delays arbitrary: pair q) (simp_all add: arm_sweep_shaped)

lemma seed_shaped:
  assumes "seed_schedule configs live poll delays now = Some q"
  shows "shaped configs q"
proof -
  from assms obtain q0 where q0: "due_queue_new (map (\<lambda>c. pair_cadence c live poll) configs) now = Some q0"
    "q = arm_sweeps 0 now delays q0" by (auto simp: seed_schedule_def)
  have "length (dq_next_due q0) = length configs" using q0(1) by (auto simp: due_queue_new_def split: if_splits)
  then have "shaped configs q0" using new_ok[OF q0(1)] by (simp add: shaped_def)
  with q0(2) show ?thesis by (simp add: arm_sweeps_shaped)
qed

section \<open>Instances\<close>

definition calm_turn :: "instant \<Rightarrow> turn" where
  "calm_turn now = \<lparr>tn_commands = [], tn_cancelled = False, tn_pop_at = now, tn_ended = now,
    tn_session_live = True, tn_sweep_delay = Some 600, tn_session_changed = True, tn_retuned_at = now\<rparr>"

definition two_pairs :: "pair_timing list" where
  "two_pairs = [\<lparr>pt_events_driven = True, pt_scan_interval = 300\<rparr>, \<lparr>pt_events_driven = False, pt_scan_interval = 60\<rparr>]"

lemma two_pairs_seeded:
  "\<exists>q. seed_schedule two_pairs False 30 [None, Some 0] 5 = Some q \<and> shaped two_pairs q \<and> dq_explicit q = [] \<and>
    deadline q 1 = 5"
proof -
  have "\<exists>q. seed_schedule two_pairs False 30 [None, Some 0] 5 = Some q \<and> dq_explicit q = [] \<and> deadline q 1 = 5"
    by (simp add: seed_schedule_def due_queue_new_def two_pairs_def pair_cadence_def arm_sweep_def set_sweep_def
        deadline_def numeral_2_eq_2)
  then show ?thesis using seed_shaped by blast
qed



end
