(* ===== verification/Events.thy ===== *)
theory Events
  imports Reconstruct Decimal
begin

text \<open>
  The volume event stream as the engine reads it (\<^verbatim>\<open>src/events.rs\<close>): the authenticated request with its one
  refresh, which failures are worth another try, and the normalisation of a page. The HTTP transport and the
  session are calls on a state of any type; the JSON parser (crate \<^verbatim>\<open>serde_json\<close>) is a parameter that answers
  the raw record of the wire or nothing.
\<close>

section \<open>Requests\<close>

record http_response =
  hr_status :: nat
  hr_body :: bytes

text \<open>No answer that may come on another try, with its cause; or an answer that is an error.\<close>

datatype fetch_error = TransientFetchError bytes | FetchRefused bytes | TooManyPages

definition is_transient_fetch_error :: "fetch_error \<Rightarrow> bool" where
  "is_transient_fetch_error e \<longleftrightarrow> (case e of TransientFetchError _ \<Rightarrow> True | _ \<Rightarrow> False)"

definition transient_fetch_cause :: "fetch_error \<Rightarrow> bytes option" where
  "transient_fetch_cause e = (case e of TransientFetchError cause \<Rightarrow> Some cause | _ \<Rightarrow> None)"

type_synonym headers = "(bytes \<times> bytes) list"

record 'w events_client =
  cl_get :: "bytes \<Rightarrow> headers \<Rightarrow> 'w \<Rightarrow> (fetch_error + http_response) \<times> 'w"
  cl_auth_headers :: "'w \<Rightarrow> (fetch_error + headers) \<times> 'w"
  cl_refresh :: "'w \<Rightarrow> (fetch_error + unit) \<times> 'w"
  cl_api_base :: bytes
  cl_app_version :: bytes

definition is_transient_status :: "nat \<Rightarrow> bool" where
  "is_transient_status status \<longleftrightarrow> status = 429 \<or> 500 \<le> status \<and> status < 600"

definition send :: "'w events_client \<Rightarrow> bytes \<Rightarrow> 'w \<Rightarrow> (fetch_error + http_response) \<times> 'w" where
  "send cl url w =
    (case cl_auth_headers cl w of
       (Inl e, w1) \<Rightarrow> (Inl e, w1)
     | (Inr headers, w1) \<Rightarrow>
         cl_get cl url (headers @ [(''x-pm-appversion'', cl_app_version cl), (''Accept'', ''application/json'')]) w1)"

text \<open>The wording of a status is its label; the detail a log line carries is left out.\<close>

definition status_label :: "nat \<Rightarrow> bytes" where
  "status_label status = ''HTTP '' @ decimal status"

definition authorized_get :: "'w events_client \<Rightarrow> bytes \<Rightarrow> 'w \<Rightarrow> (fetch_error + bytes) \<times> 'w" where
  "authorized_get cl url w =
    (case send cl url w of
       (Inl e, w1) \<Rightarrow> (Inl e, w1)
     | (Inr first, w1) \<Rightarrow>
         (case (if hr_status first = 401
                then (case cl_refresh cl w1 of (Inl e, w2) \<Rightarrow> (Inl e, w2) | (Inr _, w2) \<Rightarrow> send cl url w2)
                else (Inr first, w1)) of
            (Inl e, w2) \<Rightarrow> (Inl e, w2)
          | (Inr response, w2) \<Rightarrow>
              if hr_status response = 401
              then (Inl (FetchRefused ''unauthorized even after refreshing the session''), w2)
              else if hr_status response \<noteq> 200
              then (Inl (if is_transient_status (hr_status response)
                         then TransientFetchError (status_label (hr_status response))
                         else FetchRefused (status_label (hr_status response))), w2)
              else (Inr (hr_body response), w2)))"

section \<open>Pages\<close>

record raw_link =
  rl_link_id :: "bytes option"
  rl_parent_link_id :: "bytes option"
  rl_is_shared :: bool
  rl_is_trashed :: bool

record raw_event =
  re_event_id :: bytes
  re_event_type :: "nat option"
  re_link :: "raw_link option"

record raw_events_response =
  rr_code :: int
  rr_event_id :: bytes
  rr_more :: bool
  rr_refresh :: bool
  rr_events :: "raw_event list"

record raw_latest =
  rt_event_id :: bytes
  rt_code :: int

record volume_event_page =
  vp_latest_event_id :: bytes
  vp_more :: bool
  vp_refresh :: bool
  vp_changes :: "remote_change list"

definition proton_api_success_code :: int where "proton_api_success_code = 1000"

definition change_kind :: "nat \<Rightarrow> remote_change_kind option" where
  "change_kind event_type =
    (if event_type = 0 then Some Deleted
     else if event_type = 1 then Some Created
     else if event_type = 2 \<or> event_type = 3 then Some Updated
     else None)"

definition ensure_success :: "int \<Rightarrow> fetch_error + unit" where
  "ensure_success code = (if code = proton_api_success_code then Inr () else Inl (FetchRefused ''non-success code''))"

text \<open>One turn of the loop over the events of a page: nothing to do, a change, or a page that cannot be read.\<close>

definition normalize_event :: "raw_event \<Rightarrow> fetch_error + remote_change option" where
  "normalize_event event =
    (case Option.bind (re_event_type event) change_kind of
       None \<Rightarrow> Inr None
     | Some kind \<Rightarrow>
         (case re_link event of
            None \<Rightarrow> Inl (FetchRefused (''no usable Link/LinkID in '' @ re_event_id event))
          | Some link \<Rightarrow>
              (case rl_link_id link of
                 None \<Rightarrow> Inl (FetchRefused (''no usable Link/LinkID in '' @ re_event_id event))
               | Some node_id \<Rightarrow>
                   Inr (Some \<lparr>rc_kind = kind, rc_node_id = node_id, rc_parent_id = rl_parent_link_id link,
                     rc_trashed = rl_is_trashed link, rc_shared = rl_is_shared link, rc_event_id = re_event_id event\<rparr>))))"

fun normalize_events :: "raw_event list \<Rightarrow> fetch_error + remote_change list" where
  "normalize_events [] = Inr []"
| "normalize_events (event # rest) =
    (case normalize_event event of
       Inl e \<Rightarrow> Inl e
     | Inr change \<Rightarrow>
         (case normalize_events rest of
            Inl e \<Rightarrow> Inl e
          | Inr changes \<Rightarrow> Inr (case change of None \<Rightarrow> changes | Some c \<Rightarrow> c # changes)))"

definition parse_volume_events ::
  "(bytes \<Rightarrow> raw_events_response option) \<Rightarrow> bytes \<Rightarrow> fetch_error + volume_event_page" where
  "parse_volume_events from_json json =
    (case from_json json of
       None \<Rightarrow> Inl (FetchRefused ''unparseable'')
     | Some raw \<Rightarrow>
         (case ensure_success (rr_code raw) of
            Inl e \<Rightarrow> Inl e
          | Inr _ \<Rightarrow>
              (case normalize_events (rr_events raw) of
                 Inl e \<Rightarrow> Inl e
               | Inr changes \<Rightarrow>
                   Inr \<lparr>vp_latest_event_id = rr_event_id raw, vp_more = rr_more raw, vp_refresh = rr_refresh raw,
                     vp_changes = changes\<rparr>)))"

definition parse_latest_event_id :: "(bytes \<Rightarrow> raw_latest option) \<Rightarrow> bytes \<Rightarrow> fetch_error + bytes" where
  "parse_latest_event_id from_json json =
    (case from_json json of
       None \<Rightarrow> Inl (FetchRefused ''unparseable'')
     | Some raw \<Rightarrow> (case ensure_success (rt_code raw) of Inl e \<Rightarrow> Inl e | Inr _ \<Rightarrow> Inr (rt_event_id raw)))"

definition events_since ::
  "(bytes \<Rightarrow> raw_events_response option) \<Rightarrow> 'w events_client \<Rightarrow> bytes \<Rightarrow> bytes \<Rightarrow> 'w \<Rightarrow>
   (fetch_error + volume_event_page) \<times> 'w" where
  "events_since from_json cl volume_id cursor w =
    (case authorized_get cl (cl_api_base cl @ ''/drive/v2/volumes/'' @ volume_id @ ''/events/'' @ cursor) w of
       (Inl e, w1) \<Rightarrow> (Inl e, w1)
     | (Inr body, w1) \<Rightarrow> (parse_volume_events from_json body, w1))"

definition latest_cursor ::
  "(bytes \<Rightarrow> raw_latest option) \<Rightarrow> 'w events_client \<Rightarrow> bytes \<Rightarrow> 'w \<Rightarrow> (fetch_error + bytes) \<times> 'w" where
  "latest_cursor from_json cl volume_id w =
    (case authorized_get cl (cl_api_base cl @ ''/drive/volumes/'' @ volume_id @ ''/events/latest'') w of
       (Inl e, w1) \<Rightarrow> (Inl e, w1)
     | (Inr body, w1) \<Rightarrow> (parse_latest_event_id from_json body, w1))"

definition volume_id_from_proton_id :: "bytes \<Rightarrow> bytes option" where
  "volume_id_from_proton_id uid = (if CHR ''~'' \<in> set uid then Some (takeWhile (\<lambda>c. c \<noteq> CHR ''~'') uid) else None)"

lemma volume_id_of_composed:
  assumes "CHR ''~'' \<notin> set volume"
  shows "volume_id_from_proton_id (node_uid volume node) = Some volume"
  using assms by (simp add: volume_id_from_proton_id_def node_uid_def takeWhile_append takeWhile_eq_all_conv)

section \<open>What a page holds\<close>

definition known_event :: "raw_event \<Rightarrow> bool" where
  "known_event event \<longleftrightarrow> Option.bind (re_event_type event) change_kind \<noteq> None"

text \<open>A change is the event: its kind, the node its link names, and the link's facts.\<close>

definition change_of_event :: "raw_event \<Rightarrow> remote_change \<Rightarrow> bool" where
  "change_of_event event c \<longleftrightarrow>
    Option.bind (re_event_type event) change_kind = Some (rc_kind c) \<and> rc_event_id c = re_event_id event \<and>
    (\<exists>link. re_link event = Some link \<and> rl_link_id link = Some (rc_node_id c) \<and>
      rc_parent_id c = rl_parent_link_id link \<and> rc_trashed c = rl_is_trashed link \<and> rc_shared c = rl_is_shared link)"

lemma normalize_event_unknown: "\<not> known_event event \<Longrightarrow> normalize_event event = Inr None"
  by (simp add: known_event_def normalize_event_def)

lemma normalize_event_known:
  "known_event event \<Longrightarrow> normalize_event event = Inr c \<Longrightarrow> \<exists>d. c = Some d \<and> change_of_event event d"
  by (auto simp: known_event_def normalize_event_def change_of_event_def split: option.splits)

lemma normalize_events_all:
  "normalize_events events = Inr changes \<Longrightarrow> list_all2 change_of_event (filter known_event events) changes"
proof (induction events arbitrary: changes)
  case (Cons event rest)
  obtain c cs where c: "normalize_event event = Inr c" "normalize_events rest = Inr cs"
    "changes = (case c of None \<Rightarrow> cs | Some d \<Rightarrow> d # cs)"
    using Cons.prems by (auto split: sum.splits)
  from Cons.IH[OF c(2)] c show ?case
    using normalize_event_known[of event c] normalize_event_unknown[of event] by (cases "known_event event") auto
qed simp

text \<open>A page that reads holds one change per event of a known kind, in order; an event of a known kind that names
  no node makes the page unreadable, and only unknown kinds are left out.\<close>

theorem page_misses_no_change:
  assumes "parse_volume_events from_json json = Inr page"
  shows "\<exists>raw. from_json json = Some raw \<and> rr_code raw = 1000 \<and>
    list_all2 change_of_event (filter known_event (rr_events raw)) (vp_changes page) \<and>
    vp_latest_event_id page = rr_event_id raw \<and> vp_refresh page = rr_refresh raw \<and> vp_more page = rr_more raw"
  using assms normalize_events_all
  by (auto simp: parse_volume_events_def ensure_success_def proton_api_success_code_def
      split: option.splits sum.splits if_splits)

definition sample_events :: raw_events_response where
  "sample_events = \<lparr>rr_code = 1000, rr_event_id = ''e2'', rr_more = False, rr_refresh = False, rr_events =
    [\<lparr>re_event_id = ''e1'', re_event_type = Some 9, re_link = None\<rparr>,
     \<lparr>re_event_id = ''e2'', re_event_type = Some 3,
      re_link = Some \<lparr>rl_link_id = Some ''n'', rl_parent_link_id = None, rl_is_shared = False, rl_is_trashed = True\<rparr>\<rparr>]\<rparr>"

lemma page_misses_no_change_witness:
  "\<exists>page. parse_volume_events (\<lambda>_. Some sample_events) ''{}'' = Inr page \<and> length (vp_changes page) = 1"
proof -
  obtain page where page: "parse_volume_events (\<lambda>_. Some sample_events) ''{}'' = Inr page"
    by (simp add: parse_volume_events_def ensure_success_def proton_api_success_code_def sample_events_def
        normalize_event_def change_kind_def)
  from page_misses_no_change[OF this]
  have "list_all2 change_of_event (filter known_event (rr_events sample_events)) (vp_changes page)" by simp
  then have "length (vp_changes page) = length (filter known_event (rr_events sample_events))"
    by (simp add: list_all2_lengthD)
  also have "\<dots> = 1" by (simp add: sample_events_def known_event_def change_kind_def)
  finally show ?thesis using page by blast
qed

text \<open>A request is sent at most twice, the second time only after a \<^verbatim>\<open>401\<close> and a refresh that succeeded.\<close>

lemma authorized_get_sends:
  assumes "authorized_get cl url w = (Inr body, w')"
  shows "\<exists>r w1. send cl url w = (Inr r, w1) \<and>
    (hr_status r = 200 \<and> body = hr_body r \<and> w' = w1 \<or>
     hr_status r = 401 \<and> (\<exists>w2 r'. cl_refresh cl w1 = (Inr (), w2) \<and> send cl url w2 = (Inr r', w') \<and>
       hr_status r' = 200 \<and> body = hr_body r'))"
  using assms by (auto simp: authorized_get_def split: prod.splits sum.splits if_splits)

end
