(* ===== verification/Event_Feed.thy ===== *)
theory Event_Feed
  imports Events Index_Store Due_Queue
begin

text \<open>
  What a pass asks of the volume event stream (\<^verbatim>\<open>src/daemon.rs\<close>, \<^verbatim>\<open>src/events.rs\<close>): the delta since a
  cursor, fetched page by page; the volume a pair's cursor belongs to; how fresh a stored cursor is; and the
  wait on a stream that does not answer. The source of pages is a parameter, which \<^theory_text>\<open>Events\<close> provides.
\<close>

section \<open>Fetching a delta\<close>

record event_delta =
  ed_changes :: "remote_change list"
  ed_latest_event_id :: bytes
  ed_refresh :: bool

type_synonym 'w page_source = "bytes \<Rightarrow> bytes \<Rightarrow> 'w \<Rightarrow> (fetch_error + volume_event_page) \<times> 'w"

definition max_pages :: nat where "max_pages = 10000"

fun fetch_pages ::
  "'w page_source \<Rightarrow> bytes \<Rightarrow> nat \<Rightarrow> remote_change list \<Rightarrow> bytes \<Rightarrow> 'w \<Rightarrow> (fetch_error + event_delta) \<times> 'w" where
  "fetch_pages source volume 0 changes cursor w = (Inl TooManyPages, w)"
| "fetch_pages source volume (Suc n) changes cursor w =
    (case source volume cursor w of
       (Inl e, w') \<Rightarrow> (Inl e, w')
     | (Inr page, w') \<Rightarrow>
         if vp_refresh page
         then (Inr \<lparr>ed_changes = changes, ed_latest_event_id = vp_latest_event_id page, ed_refresh = True\<rparr>, w')
         else if \<not> vp_more page
         then (Inr \<lparr>ed_changes = changes @ vp_changes page, ed_latest_event_id = vp_latest_event_id page,
                    ed_refresh = False\<rparr>, w')
         else fetch_pages source volume n (changes @ vp_changes page) (vp_latest_event_id page) w')"

definition fetch_event_delta ::
  "'w page_source \<Rightarrow> bytes \<Rightarrow> bytes \<Rightarrow> 'w \<Rightarrow> (fetch_error + event_delta) \<times> 'w" where
  "fetch_event_delta source volume from_cursor w = fetch_pages source volume max_pages [] from_cursor w"

section \<open>The volume of a pair\<close>

fun find_map :: "('a \<Rightarrow> 'b option) \<Rightarrow> 'a list \<Rightarrow> 'b option" where
  "find_map f [] = None"
| "find_map f (x # xs) = (case f x of Some y \<Rightarrow> Some y | None \<Rightarrow> find_map f xs)"

definition derive_volume_id :: "base_map \<Rightarrow> bytes option" where
  "derive_volume_id B =
    find_map (\<lambda>(_, r). Option.bind (fr_proton_id r) volume_id_from_proton_id) B"

definition derive_volume_id_from_entities :: "remote_map \<Rightarrow> bytes option" where
  "derive_volume_id_from_entities R =
    find_map (\<lambda>(_, e). Option.bind (case e of RemoteFile f \<Rightarrow> Some (rf_id f) | RemoteDirectory d \<Rightarrow> rd_id d)
      volume_id_from_proton_id) R"

datatype volume_scope_error = Unnameable | Unreadable bytes

text \<open>\<open>stored\<close> is what reading the one stored cursor answers.\<close>

definition volume_id_for_scope ::
  "base_map \<Rightarrow> bytes + event_cursor option \<Rightarrow> volume_scope_error + bytes" where
  "volume_id_for_scope B stored =
    (case derive_volume_id B of
       Some volume \<Rightarrow> Inr volume
     | None \<Rightarrow>
         (case stored of
            Inl e \<Rightarrow> Inl (Unreadable e)
          | Inr None \<Rightarrow> Inl Unnameable
          | Inr (Some cursor) \<Rightarrow> Inr (ec_scope_id cursor)))"

section \<open>Floors and freshness\<close>

definition effective_full_scan_every :: "u64 \<Rightarrow> u64" where
  "effective_full_scan_every configured = (if configured = 0 then - 1 else configured)"

definition saturating_succ :: "u64 \<Rightarrow> u64" where
  "saturating_succ n = (if n = - 1 then - 1 else n + 1)"

text \<open>A difference of two seconds counts, inside the range of \<^verbatim>\<open>i64\<close>.\<close>

definition cursor_is_fresh :: "u64 \<Rightarrow> u64 \<Rightarrow> event_cursor \<Rightarrow> bool" where
  "cursor_is_fresh max_age now cursor \<longleftrightarrow>
    max_age = 0 \<or> (let age = sint now - ec_updated_at cursor in 0 \<le> age \<and> age \<le> uint max_age)"

section \<open>Waiting for a stream that does not answer\<close>

record feed_outage =
  fo_since :: instant
  fo_last_failure :: instant
  fo_reported :: "bytes option"
  fo_degraded :: "duration option"

text \<open>The bound the code uses by default; \<open>fo_degraded\<close> keeps the wait that \<^verbatim>\<open>last_error\<close> speaks of.\<close>

definition feed_outage_bound :: duration where "feed_outage_bound = 10 * 60 * nanoseconds"

definition wait_for_the_feed :: "duration \<Rightarrow> instant \<Rightarrow> bytes \<Rightarrow> feed_outage option \<Rightarrow> bool \<times> feed_outage" where
  "wait_for_the_feed bound now cause outage0 =
    (let outage = (case outage0 of
            Some outage \<Rightarrow> outage
          | None \<Rightarrow> \<lparr>fo_since = now, fo_last_failure = now, fo_reported = None, fo_degraded = None\<rparr>);
         outage1 = (if bound < now - fo_last_failure outage then outage\<lparr>fo_since := now\<rparr> else outage);
         outage2 = outage1\<lparr>fo_last_failure := now\<rparr>;
         waited = now - fo_since outage2
     in if bound \<le> waited then (True, outage2\<lparr>fo_since := now, fo_degraded := Some waited\<rparr>)
        else (False, if fo_reported outage2 \<noteq> Some cause then outage2\<lparr>fo_reported := Some cause\<rparr> else outage2))"
section \<open>The delta is the rest of the log\<close>

text \<open>
  What the service promises: a volume has a log of changes, a cursor names a position \<open>at\<close> in it, and a page from
  a cursor is the next stretch of the log with the cursor behind it, and says whether anything is left.
\<close>

definition serves :: "'w page_source \<Rightarrow> bytes \<Rightarrow> remote_change list \<Rightarrow> (bytes \<Rightarrow> nat option) \<Rightarrow> bool" where
  "serves source volume log at0 \<longleftrightarrow>
    (\<forall>c k w. at0 c = Some k \<and> k \<le> length log \<longrightarrow>
      (\<exists>page n w'. source volume c w = (Inr page, w') \<and> \<not> vp_refresh page \<and> vp_changes page = take n (drop k log) \<and>
        at0 (vp_latest_event_id page) = Some (k + n) \<and> k + n \<le> length log \<and>
        (vp_more page \<longleftrightarrow> k + n < length log) \<and> (vp_more page \<longrightarrow> 0 < n)))"

lemma fetch_pages_serves:
  assumes "serves source volume log at0"
  shows "at0 c = Some k \<Longrightarrow> k \<le> length log \<Longrightarrow> length log - k < fuel \<Longrightarrow>
    \<exists>d w'. fetch_pages source volume fuel done0 c w = (Inr d, w') \<and> ed_changes d = done0 @ drop k log \<and>
      at0 (ed_latest_event_id d) = Some (length log) \<and> \<not> ed_refresh d"
proof (induction fuel arbitrary: done0 c k w)
  case (Suc fuel)
  obtain page n w1 where p: "source volume c w = (Inr page, w1)" "\<not> vp_refresh page"
    "vp_changes page = take n (drop k log)" "at0 (vp_latest_event_id page) = Some (k + n)" "k + n \<le> length log"
    "vp_more page \<longleftrightarrow> k + n < length log" "vp_more page \<longrightarrow> 0 < n"
    using assms Suc.prems(1,2) unfolding serves_def by blast
  show ?case
  proof (cases "vp_more page")
    case False
    with p(5,6) have "k + n = length log" by simp
    moreover from this have "take n (drop k log) = drop k log" by simp
    ultimately show ?thesis using p False by simp
  next
    case True
    with p(6,7) Suc.prems(3) have "length log - (k + n) < fuel" by auto
    from Suc.IH[OF p(4,5) this, of "done0 @ vp_changes page" w1] obtain d w' where
      d: "fetch_pages source volume fuel (done0 @ vp_changes page) (vp_latest_event_id page) w1 = (Inr d, w')"
      "ed_changes d = (done0 @ vp_changes page) @ drop (k + n) log"
      "at0 (ed_latest_event_id d) = Some (length log)" "\<not> ed_refresh d" by blast
    have "take n (drop k log) @ drop (k + n) log = drop k log"
      by (metis add.commute append_take_drop_id drop_drop)
    with d p True show ?thesis by simp
  qed
qed simp

text \<open>C30: however the service cuts its log into pages, the delta from a stored cursor is everything behind it, in
  order, and the cursor it returns is the end of the log.\<close>

theorem delta_is_the_rest_of_the_log:
  assumes "serves source volume log at0" "at0 c = Some k" "k \<le> length log" "length log - k < max_pages"
  shows "\<exists>d w'. fetch_event_delta source volume c w = (Inr d, w') \<and> ed_changes d = drop k log \<and>
    at0 (ed_latest_event_id d) = Some (length log) \<and> \<not> ed_refresh d"
  using fetch_pages_serves[OF assms(1-4), of "[]" w] by (simp add: fetch_event_delta_def)

definition sample_change :: "bytes \<Rightarrow> remote_change" where
  "sample_change n = \<lparr>rc_kind = Created, rc_node_id = n, rc_parent_id = None, rc_trashed = False, rc_shared = False,
    rc_event_id = n\<rparr>"

text \<open>A service that answers one change per page, and names a position by that many letters.\<close>

definition sample_source :: "remote_change list \<Rightarrow> unit page_source" where
  "sample_source log volume c w =
    (let k = length c; n = min 1 (length log - k) in
     (Inr \<lparr>vp_latest_event_id = replicate (k + n) CHR ''e'', vp_more = k + n < length log, vp_refresh = False,
           vp_changes = take n (drop k log)\<rparr>, w))"

lemma sample_source_serves: "serves (sample_source log) volume log (\<lambda>c. Some (length c))"
  unfolding serves_def
proof (intro allI impI)
  fix c :: bytes and k w
  assume "Some (length c) = Some k \<and> k \<le> length log"
  then show "\<exists>page n w'. sample_source log volume c w = (Inr page, w') \<and> \<not> vp_refresh page \<and>
      vp_changes page = take n (drop k log) \<and> Some (length (vp_latest_event_id page)) = Some (k + n) \<and>
      k + n \<le> length log \<and> (vp_more page \<longleftrightarrow> k + n < length log) \<and> (vp_more page \<longrightarrow> 0 < n)"
    by (auto simp: sample_source_def Let_def intro!: exI[of _ "min 1 (length log - k)"])
qed

lemma delta_is_the_rest_of_the_log_witness:
  "\<exists>d w'. fetch_event_delta (sample_source [sample_change ''a'', sample_change ''b'', sample_change ''c'']) ''v'' ''e'' () =
      (Inr d, w') \<and> ed_changes d = [sample_change ''b'', sample_change ''c'']"
  using delta_is_the_rest_of_the_log[OF sample_source_serves, of "''e''" 1
      "[sample_change ''a'', sample_change ''b'', sample_change ''c'']" "''v''" "()"]
  by (auto simp: max_pages_def)

section \<open>A silent stream\<close>

text \<open>The walks of a run of failures, and failures that follow each other within the bound.\<close>

fun wait_run :: "duration \<Rightarrow> (instant \<times> bytes) list \<Rightarrow> feed_outage option \<Rightarrow> bool list" where
  "wait_run bound [] outage = []"
| "wait_run bound ((t, cause) # rest) outage =
    (case wait_for_the_feed bound t cause outage of (walk, outage') \<Rightarrow> walk # wait_run bound rest (Some outage'))"

fun gaps_within :: "duration \<Rightarrow> instant \<Rightarrow> instant list \<Rightarrow> bool" where
  "gaps_within bound l [] \<longleftrightarrow> True"
| "gaps_within bound l (t # ts) \<longleftrightarrow> l \<le> t \<and> t - l \<le> bound \<and> gaps_within bound t ts"

lemma wait_step:
  assumes "t - fo_last_failure q \<le> bound"
  shows "fst (wait_for_the_feed bound t cause (Some q)) \<longleftrightarrow> bound \<le> t - fo_since q"
    "fo_last_failure (snd (wait_for_the_feed bound t cause (Some q))) = t"
    "fo_since (snd (wait_for_the_feed bound t cause (Some q))) =
      (if bound \<le> t - fo_since q then t else fo_since q)"
  using assms by (auto simp: wait_for_the_feed_def Let_def)

lemma wait_run_length [simp]: "length (wait_run bound ts q) = length ts"
  by (induction bound ts q rule: wait_run.induct) (auto split: prod.split)

lemma wait_run_walks:
  "gaps_within bound (fo_last_failure q) (map fst ts) \<Longrightarrow> ts \<noteq> [] \<Longrightarrow> bound \<le> fst (last ts) - fo_since q \<Longrightarrow>
    True \<in> set (wait_run bound ts (Some q))"
proof (induction ts arbitrary: q)
  case (Cons tc ts)
  obtain t cause where tc: "tc = (t, cause)" by (cases tc)
  obtain walk q' where w: "wait_for_the_feed bound t cause (Some q) = (walk, q')" by fastforce
  have step: "walk \<longleftrightarrow> bound \<le> t - fo_since q" "fo_last_failure q' = t"
    "fo_since q' = (if bound \<le> t - fo_since q then t else fo_since q)"
    using wait_step[of t q bound cause] Cons.prems(1) by (simp_all add: tc w)
  show ?case
  proof (cases walk)
    case False
    then have "fo_since q' = fo_since q" "ts \<noteq> []" using step Cons.prems(3) by (auto simp: tc)
    then have "True \<in> set (wait_run bound ts (Some q'))"
      using Cons.IH[of q'] Cons.prems step(2) by (simp add: tc)
    then show ?thesis by (simp add: tc w)
  qed (simp add: tc w)
qed simp

lemma gaps_within_le: "gaps_within bound l ts \<Longrightarrow> t \<in> set ts \<Longrightarrow> l \<le> t"
  by (induction bound l ts rule: gaps_within.induct) force+

lemma wait_run_spaced:
  "gaps_within bound (fo_last_failure q) (map fst ts) \<Longrightarrow> fo_since q \<le> fo_last_failure q \<Longrightarrow> j < length ts \<Longrightarrow>
    wait_run bound ts (Some q) ! j \<Longrightarrow>
    bound \<le> fst (ts ! j) - fo_since q \<and> (\<forall>i<j. wait_run bound ts (Some q) ! i \<longrightarrow> bound \<le> fst (ts ! j) - fst (ts ! i))"
proof (induction ts arbitrary: q j)
  case (Cons tc ts)
  obtain t cause where tc: "tc = (t, cause)" by (cases tc)
  obtain walk q' where w: "wait_for_the_feed bound t cause (Some q) = (walk, q')" by fastforce
  have step: "walk \<longleftrightarrow> bound \<le> t - fo_since q" "fo_last_failure q' = t"
    "fo_since q' = (if bound \<le> t - fo_since q then t else fo_since q)"
    using wait_step[of t q bound cause] Cons.prems(1) by (simp_all add: tc w)
  have le: "fo_since q \<le> fo_since q'" "fo_since q' \<le> t" using step(3) Cons.prems(1,2) by (auto simp: tc)
  show ?case
  proof (cases j)
    case 0
    then show ?thesis using Cons.prems(4) step(1) by (simp add: tc w)
  next
    case (Suc j')
    have ih: "bound \<le> fst (ts ! j') - fo_since q' \<and>
        (\<forall>i<j'. wait_run bound ts (Some q') ! i \<longrightarrow> bound \<le> fst (ts ! j') - fst (ts ! i))"
      using Cons.IH[of q' j'] Cons.prems Suc step(2) le(2) by (simp add: tc w)
    have "bound \<le> fst (ts ! j') - t" if walk using ih step that by auto
    then show ?thesis
      using ih le(1) Suc by (auto simp: tc w less_Suc_eq_0_disj)
  qed
qed simp

text \<open>Astream that stays silent for the bound makes the pair walk, so waiting always ends; and two walks are a
  whole bound apart, the first one as far from the first failure, so one lost answer never costs a walk.\<close>

theorem silent_feed_walks_once_per_bound:
  assumes "gaps_within bound t0 (map fst ts)" "0 < bound"
  shows "(ts \<noteq> [] \<and> bound \<le> fst (last ts) - t0 \<longrightarrow> True \<in> set (wait_run bound ((t0, cause) # ts) None)) \<and>
    (\<forall>j. j \<le> length ts \<and> wait_run bound ((t0, cause) # ts) None ! j \<longrightarrow>
      bound \<le> fst (((t0, cause) # ts) ! j) - t0 \<and>
      (\<forall>i<j. wait_run bound ((t0, cause) # ts) None ! i \<longrightarrow>
        bound \<le> fst (((t0, cause) # ts) ! j) - fst (((t0, cause) # ts) ! i)))"
proof -
  define q where "q = snd (wait_for_the_feed bound t0 cause None)"
  have q: "wait_for_the_feed bound t0 cause None = (False, q)" "fo_since q = t0" "fo_last_failure q = t0"
    using assms(2) by (auto simp: q_def wait_for_the_feed_def Let_def)
  have run: "wait_run bound ((t0, cause) # ts) None = False # wait_run bound ts (Some q)" by (simp add: q(1))
  show ?thesis
  proof (intro conjI allI impI)
    assume "ts \<noteq> [] \<and> bound \<le> fst (last ts) - t0"
    then show "True \<in> set (wait_run bound ((t0, cause) # ts) None)"
      using wait_run_walks[of bound q ts] assms(1) q run by simp
  next
    fix j
    assume j: "j \<le> length ts \<and> wait_run bound ((t0, cause) # ts) None ! j"
    then obtain j' where j': "j = Suc j'" by (cases j) (auto simp: run simp del: wait_run.simps)
    note spaced = wait_run_spaced[of bound q ts j']
    show "bound \<le> fst (((t0, cause) # ts) ! j) - t0"
      using spaced j assms(1) q run j' by simp
    fix i
    assume "i < j" "wait_run bound ((t0, cause) # ts) None ! i"
    then obtain i' where "i = Suc i'" "i' < j'" "wait_run bound ts (Some q) ! i'"
      using j' by (cases i) (auto simp: run simp del: wait_run.simps)
    then show "bound \<le> fst (((t0, cause) # ts) ! j) - fst (((t0, cause) # ts) ! i)"
      using spaced j assms(1) q run j' by simp
  qed
qed

lemma silent_feed_walks_once_per_bound_witness:
  "True \<in> set (wait_run 10 [(5, ''a''), (9, ''b''), (16, ''a'')] None)"
  using silent_feed_walks_once_per_bound[of 10 5 "[(9, ''b''), (16, ''a'')]" "''a''"] by simp

end
