(* ===== verification/Reconcile.thy ===== *)
theory Reconcile
  imports Executor Event_Feed
begin

text \<open>
  A whole pass of a pair (\<^verbatim>\<open>src/daemon.rs\<close>, \<^verbatim>\<open>PairPass::reconcile_blocking\<close> and what it calls): the requests it
  consumes, the choice between replaying the event stream and walking the tree, the fall-backs from one to the
  other, the cursor a walk may anchor, and what the pass leaves in the pair's state. It composes the walk, the
  reconstruction, the planner and the executor of the other theories. Log lines, progress and the history rows
  are left out; so is what is only displayed (\<^verbatim>\<open>last_error\<close>, \<^verbatim>\<open>last_sync\<close> and the summaries).
\<close>

section \<open>The outside\<close>

text \<open>
  The executor's calls, the event source, the two listings of the client, the local tree and the clock.
  \<open>eo_resolve\<close> answers every single-directory listing of one reconstruction: the code keeps the listings of a pass
  in a memo, so one folder has one answer. \<open>eo_sql_error\<close> is what a statement the pass tolerates may fail with: a read of the cursor tables, or the truncation of a reset.
\<close>

record 'w engine_outside =
  eo_ow :: "'w outside"
  eo_open_cache :: "('w, unit) call"
  eo_open_session :: "'w \<Rightarrow> bool \<times> 'w"
  eo_events_since :: "'w page_source"
  eo_latest_cursor :: "bytes \<Rightarrow> 'w \<Rightarrow> (fetch_error + bytes) \<times> 'w"
  eo_remote_root_uid :: "path \<Rightarrow> ('w, bytes option) call"
  eo_list_directory :: "path \<Rightarrow> path \<Rightarrow> ('w, remote_map) call"
  eo_list_entities :: "path \<Rightarrow> ('w, remote_map option) call"
  eo_resolve :: "'w \<Rightarrow> (path \<Rightarrow> bytes + remote_map) \<times> 'w"
  eo_tree :: "'w \<Rightarrow> fs_listing \<times> 'w"
  eo_instant :: "'w \<Rightarrow> instant \<times> 'w"
  eo_sql_error :: "'w \<Rightarrow> bytes option \<times> 'w"

record pair_settings =
  se_local_root :: path
  se_remote_root :: path
  se_naming :: conflict_naming
  se_scan_options :: scan_options
  se_gate :: gate_config
  se_pass :: pass_config
  se_sha256 :: "bytes \<Rightarrow> bytes"
  se_events_driven :: bool
  se_events_full_scan_every :: u64
  se_warm_enabled :: bool
  se_warm_full_walk_every :: u64
  se_warm_max_cursor_age :: u64
  se_force_full_walk :: bool
  se_feed_outage_bound :: duration

section \<open>The state of a pair\<close>

record apply_request =
  aq_seq :: nat
  aq_token :: bytes
  aq_skip_destructive :: bool

text \<open>The verdict on an apply; the counts are what was skipped and what failed.\<close>

datatype apply_verdict = VerdictApplied nat nat | VerdictDiverged | VerdictFailed

record pair_runtime =
  pr_db :: database
  pr_unsyncable :: "unsyncable_item list"
  pr_pending_changes :: "path set"
  pr_authored_writes :: "path set"
  pr_force_local_rescan :: bool
  pr_is_first_reconcile :: bool
  pr_incremental_passes :: u64
  pr_warm_starts :: u64
  pr_remote_root_uid_asked :: bool
  pr_feed_outage :: "feed_outage option"
  pr_listing_behind :: "bytes list option"
  pr_seen_generation :: nat
  pr_pending_deletions :: "pending_deletion list"
  pr_failed_items :: "failed_item list"
  pr_failed_item_count :: nat
  pr_force_delete_approval :: bool
  pr_pass_intent :: "apply_request option"
  pr_apply_report :: "apply_verdict option"

text \<open>What the control socket shares with the pair: the requests it latched and the answers it waits for.\<close>

record pair_shared =
  sh_force_full_walk :: bool
  sh_reset_index :: bool
  sh_queued_apply :: "apply_request option"
  sh_sealed_apply :: "(nat \<times> apply_verdict) option"
  sh_reconcile_seq :: nat

text \<open>The phases a pass published, in order, are kept for the statements: they say what it looked at.\<close>

datatype phase = ScanningLocal | FetchingEvents | ListingRemote

record 'w engine =
  en_world :: 'w
  en_pair :: pair_runtime
  en_shared :: pair_shared
  en_source_live :: bool
  en_generation :: nat
  en_phases :: "phase list"

datatype pass_error =
  PassFailure failure | FeedUnanswered bytes | ApplyRefused | PassCancelled | PassAbandoned bool | PassError bytes

type_synonym ('w, 'a) pass = "'w engine \<Rightarrow> (pass_error + 'a) \<times> 'w engine"

fun is_root_unavailable :: "pass_error \<Rightarrow> bool" where
  "is_root_unavailable (PassFailure e) = is_root_unavailable_error e"
| "is_root_unavailable _ = False"

fun is_feed_unanswered :: "pass_error \<Rightarrow> bool" where
  "is_feed_unanswered (FeedUnanswered _) = True"
| "is_feed_unanswered _ = False"

definition en_look :: "('w \<Rightarrow> 'a \<times> 'w) \<Rightarrow> 'w engine \<Rightarrow> 'a \<times> 'w engine" where
  "en_look f en = (case f (en_world en) of (a, w) \<Rightarrow> (a, en\<lparr>en_world := w\<rparr>))"

definition en_call :: "('w, 'a) call \<Rightarrow> ('w, 'a) pass" where
  "en_call f en = (case en_look f en of (Inl e, en') \<Rightarrow> (Inl (PassFailure e), en') | (Inr a, en') \<Rightarrow> (Inr a, en'))"

definition on_pair :: "(pair_runtime \<Rightarrow> pair_runtime) \<Rightarrow> 'w engine \<Rightarrow> 'w engine" where
  "on_pair f en = en\<lparr>en_pair := f (en_pair en)\<rparr>"

definition on_shared :: "(pair_shared \<Rightarrow> pair_shared) \<Rightarrow> 'w engine \<Rightarrow> 'w engine" where
  "on_shared f en = en\<lparr>en_shared := f (en_shared en)\<rparr>"

definition begin_activity :: "phase \<Rightarrow> 'w engine \<Rightarrow> 'w engine" where
  "begin_activity p en = en\<lparr>en_phases := en_phases en @ [p]\<rparr>"

definition ensure_root_available :: "'w engine_outside \<Rightarrow> ('w, unit) pass" where
  "ensure_root_available eo = en_call (ow_ensure_root_available (eo_ow eo))"

section \<open>The event scope\<close>

definition read_cursor_table :: "'w engine_outside \<Rightarrow> (database \<Rightarrow> 'a) \<Rightarrow> 'w engine \<Rightarrow> (bytes + 'a) \<times> 'w engine" where
  "read_cursor_table eo f en =
    (case en_look (eo_sql_error eo) en of
       (Some e, en') \<Rightarrow> (Inl e, en')
     | (None, en') \<Rightarrow> (Inr (f (pr_db (en_pair en'))), en'))"

definition scope_volume ::
  "'w engine_outside \<Rightarrow> base_map \<Rightarrow> 'w engine \<Rightarrow> (volume_scope_error + bytes) \<times> 'w engine" where
  "scope_volume eo B en =
    (case derive_volume_id B of
       Some volume \<Rightarrow> (Inr volume, en)
     | None \<Rightarrow>
         (case read_cursor_table eo load_sole_event_cursor en of (r, en') \<Rightarrow> (volume_id_for_scope B r, en')))"

definition resolve_event_scope ::
  "'w engine_outside \<Rightarrow> base_map \<Rightarrow> 'w engine \<Rightarrow> (bytes \<times> event_cursor) option \<times> 'w engine" where
  "resolve_event_scope eo B en =
    (case scope_volume eo B en of
       (Inl _, en1) \<Rightarrow> (None, en1)
     | (Inr volume, en1) \<Rightarrow>
         (case read_cursor_table eo (\<lambda>db. load_event_cursor db volume) en1 of
            (Inr (Some cursor), en2) \<Rightarrow> (Some (volume, cursor), en2)
          | (_, en2) \<Rightarrow> (None, en2)))"

definition should_try_incremental ::
  "'w engine_outside \<Rightarrow> pair_settings \<Rightarrow> base_map \<Rightarrow> 'w engine \<Rightarrow> bool \<times> 'w engine" where
  "should_try_incremental eo se B en =
    (if \<not> se_events_driven se \<or> \<not> en_source_live en then (False, en)
     else if effective_full_scan_every (se_events_full_scan_every se) \<le> pr_incremental_passes (en_pair en)
     then (False, en)
     else (case resolve_event_scope eo B en of (scope, en') \<Rightarrow> (scope \<noteq> None, en')))"

definition warm_start_eligible ::
  "'w engine_outside \<Rightarrow> pair_settings \<Rightarrow> base_map \<Rightarrow> 'w engine \<Rightarrow> bool \<times> 'w engine" where
  "warm_start_eligible eo se B en =
    (if \<not> se_warm_enabled se \<or> \<not> se_events_driven se \<or> \<not> en_source_live en then (False, en)
     else if effective_full_scan_every (se_warm_full_walk_every se) \<le> pr_warm_starts (en_pair en) then (False, en)
     else (case resolve_event_scope eo B en of
             (None, en1) \<Rightarrow> (False, en1)
           | (Some (_, cursor), en1) \<Rightarrow>
               if se_warm_max_cursor_age se = 0 then (True, en1)
               else (case en_look (ow_epoch_secs (eo_ow eo)) en1 of (now, en2) \<Rightarrow>
                 (cursor_is_fresh (se_warm_max_cursor_age se) now cursor, en2))))"

definition record_successful_warm_start :: "pair_settings \<Rightarrow> 'w engine \<Rightarrow> 'w engine" where
  "record_successful_warm_start se =
    on_pair (\<lambda>pr. let n = min (saturating_succ (pr_warm_starts pr)) (effective_full_scan_every (se_warm_full_walk_every se))
      in pr\<lparr>pr_warm_starts := n, pr_db := store_warm_start_count (pr_db pr) n\<rparr>)"

section \<open>The session\<close>

definition catch_up_with_event_source_generation :: "pair_settings \<Rightarrow> 'w engine \<Rightarrow> 'w engine" where
  "catch_up_with_event_source_generation se en =
    (if pr_seen_generation (en_pair en) = en_generation en then en
     else on_pair (\<lambda>pr. let pr1 = pr\<lparr>pr_seen_generation := en_generation en\<rparr> in
        if pr_is_first_reconcile pr1 then pr1
        else pr1\<lparr>pr_incremental_passes := effective_full_scan_every (se_events_full_scan_every se)\<rparr>) en)"

definition reacquire_event_source_if_needed :: "'w engine_outside \<Rightarrow> pair_settings \<Rightarrow> 'w engine \<Rightarrow> 'w engine" where
  "reacquire_event_source_if_needed eo se en =
    (if \<not> se_events_driven se \<or> en_source_live en then en
     else (case en_look (eo_open_session eo) en of
             (False, en1) \<Rightarrow> en1
           | (True, en1) \<Rightarrow>
               catch_up_with_event_source_generation se
                 (en1\<lparr>en_source_live := True, en_generation := en_generation en1 + 1\<rparr>)))"

section \<open>The node of the remote root\<close>

definition learn_remote_root_uid :: "'w engine_outside \<Rightarrow> pair_settings \<Rightarrow> 'w engine \<Rightarrow> bytes option \<times> 'w engine" where
  "learn_remote_root_uid eo se en =
    (case en_look (eo_remote_root_uid eo (se_remote_root se)) en of
       (Inr (Some uid), en') \<Rightarrow> (if CHR ''~'' \<in> set uid then Some uid else None, en')
     | (_, en') \<Rightarrow> (None, en'))"

definition remote_root_node_for_incremental ::
  "'w engine_outside \<Rightarrow> pair_settings \<Rightarrow> remote_change list \<Rightarrow> 'w engine \<Rightarrow>
   (bytes option \<times> root_node_update) \<times> 'w engine" where
  "remote_root_node_for_incremental eo se changes en =
    (if so_has_include_patterns (se_scan_options se) then ((None, RootKeep), en)
     else (case read_cursor_table eo (\<lambda>db. load_remote_root_uid db (pc_remote_root_key (se_pass se))) en of
             (Inr (Some uid), en1) \<Rightarrow> ((Some uid, RootKeep), en1)
           | (Inl _, en1) \<Rightarrow> ((None, RootKeep), en1)
           | (Inr None, en1) \<Rightarrow>
               if changes = [] \<or> pr_remote_root_uid_asked (en_pair en1) then ((None, RootKeep), en1)
               else (case learn_remote_root_uid eo se (on_pair (\<lambda>pr. pr\<lparr>pr_remote_root_uid_asked := True\<rparr>) en1) of
                       (Some uid, en2) \<Rightarrow> ((Some uid, RootSet uid), en2)
                     | (None, en2) \<Rightarrow> ((None, RootKeep), en2))))"

definition remote_root_node_after_a_walk ::
  "'w engine_outside \<Rightarrow> pair_settings \<Rightarrow> bool \<Rightarrow> bool \<Rightarrow> 'w engine \<Rightarrow> root_node_update \<times> 'w engine" where
  "remote_root_node_after_a_walk eo se remote_root_missing leaves_a_cursor en =
    (if remote_root_missing \<or> so_has_include_patterns (se_scan_options se)
     then (RootClear, on_pair (\<lambda>pr. pr\<lparr>pr_remote_root_uid_asked := False\<rparr>) en)
     else if \<not> leaves_a_cursor then (RootKeep, en)
     else (case learn_remote_root_uid eo se (on_pair (\<lambda>pr. pr\<lparr>pr_remote_root_uid_asked := True\<rparr>) en) of
             (Some uid, en1) \<Rightarrow> (RootSet uid, en1)
           | (None, en1) \<Rightarrow> (RootClear, en1)))"

section \<open>Committing a plan\<close>

definition end_error :: "pass_stop \<Rightarrow> pass_error" where
  "end_error stop = (case stop of
     StopCancelled \<Rightarrow> PassCancelled | StopFailed e \<Rightarrow> PassFailure e | StopAbandoned auth \<Rightarrow> PassAbandoned auth)"

definition intent_of :: "apply_request option \<Rightarrow> pass_intent" where
  "intent_of q = (case q of None \<Rightarrow> IntentSync | Some a \<Rightarrow> IntentApply (aq_token a) (aq_skip_destructive a))"

text \<open>What the executor leaves in the pair, whatever the end; and what a pass that completed adds.\<close>

definition after_execution :: "'w exec_state \<Rightarrow> pair_runtime \<Rightarrow> pair_runtime" where
  "after_execution xs pr =
    pr\<lparr>pr_db := xs_db xs, pr_unsyncable := xs_unsyncable xs,
       pr_authored_writes := pr_authored_writes pr \<union> rs_authored (xs_run xs),
       pr_pending_deletions := (case xs_gate xs of None \<Rightarrow> pr_pending_deletions pr | Some g \<Rightarrow> dg_pending g)\<rparr>"

definition after_completion :: "gate_config \<Rightarrow> 'w exec_state \<Rightarrow> pair_runtime \<Rightarrow> pair_runtime" where
  "after_completion gcfg xs pr =
    pr\<lparr>pr_pending_changes := rs_rescan (xs_run xs), pr_failed_items := pf_items (xs_failures xs),
       pr_failed_item_count := pf_count (xs_failures xs),
       pr_force_delete_approval :=
         pr_force_delete_approval pr \<and> \<not> (case xs_gate xs of None \<Rightarrow> False | Some g \<Rightarrow> replacement_settled gcfg g),
       pr_apply_report :=
         (if pr_pass_intent pr \<noteq> None then Some (VerdictApplied (xs_skipped xs) (pf_count (xs_failures xs)))
          else pr_apply_report pr)\<rparr>"

definition plan_and_commit ::
  "'w engine_outside \<Rightarrow> pair_settings \<Rightarrow> local_scan \<Rightarrow> remote_map \<Rightarrow> base_map \<Rightarrow> remote_map_shape \<Rightarrow>
   cursor_update option \<Rightarrow> root_node_update \<Rightarrow> ('w, pass_outcome) pass" where
  "plan_and_commit eo se scan R B shape cursor root_node en =
    (let pr = en_pair en;
         gcfg = (se_gate se)\<lparr>gc_forced := pr_force_delete_approval pr\<rparr>
     in case execute_plan_and_commit (eo_ow eo) (se_sha256 se) (se_naming se) gcfg (se_pass se)
          (intent_of (pr_pass_intent pr)) scan R B shape cursor root_node (pr_db pr) (pr_unsyncable pr) (en_world en) of
        (ended, xs) \<Rightarrow>
          (let en1 = on_pair (after_execution xs) (en\<lparr>en_world := rs_world (xs_run xs)\<rparr>) in
           case ended of
             PassEnded outcome \<Rightarrow> (Inr outcome, on_pair (after_completion gcfg xs) en1)
           | PassStopped stop \<Rightarrow> (Inl (end_error stop), en1)
           | PassDiverged \<Rightarrow> (Inl ApplyRefused, on_pair (\<lambda>pr. pr\<lparr>pr_apply_report := Some VerdictDiverged\<rparr>) en1)))"

definition scan_local_entities :: "'w engine_outside \<Rightarrow> pair_settings \<Rightarrow> base_map \<Rightarrow> ('w, local_scan) pass" where
  "scan_local_entities eo se B en =
    (case en_look (eo_tree eo) (begin_activity ScanningLocal en) of
       (listing, en1) \<Rightarrow>
         (case scan_local_tree (se_local_root se) (se_scan_options se) B listing of
            Inl _ \<Rightarrow> (Inl (PassError ''local scan''), en1)
          | Inr scan \<Rightarrow> (Inr scan, en1)))"
section \<open>An incremental pass\<close>

datatype incremental_outcome = IncCommitted pass_outcome | IncIdle | IncFallback

definition wait_for_the_feed_or_walk ::
  "'w engine_outside \<Rightarrow> pair_settings \<Rightarrow> fetch_error \<Rightarrow> ('w, incremental_outcome) pass" where
  "wait_for_the_feed_or_walk eo se e en =
    (let cause = (case transient_fetch_cause e of Some c \<Rightarrow> c | None \<Rightarrow> ''no answer'') in
     case en_look (eo_instant eo) en of
       (now, en1) \<Rightarrow>
         (case wait_for_the_feed (se_feed_outage_bound se) now cause (pr_feed_outage (en_pair en1)) of
            (walk, outage) \<Rightarrow>
              (let en2 = on_pair (\<lambda>pr. pr\<lparr>pr_feed_outage := Some outage\<rparr>) en1 in
               if walk then (Inr IncFallback, en2) else (Inl (FeedUnanswered cause), en2))))"

definition note_feed_answered :: "'w engine \<Rightarrow> 'w engine" where
  "note_feed_answered = on_pair (\<lambda>pr. pr\<lparr>pr_feed_outage := None\<rparr>)"

definition note_listing_behind :: "bytes \<Rightarrow> listing_behind list \<Rightarrow> 'w engine \<Rightarrow> 'w engine" where
  "note_listing_behind volume behind =
    on_pair (\<lambda>pr. pr\<lparr>pr_listing_behind :=
      (if behind = [] then None else Some (map (\<lambda>node. node_uid volume (lb_node_id node)) behind))\<rparr>)"

definition count_incremental_pass :: "'w engine \<Rightarrow> 'w engine" where
  "count_incremental_pass = on_pair (\<lambda>pr. pr\<lparr>pr_incremental_passes := saturating_succ (pr_incremental_passes pr)\<rparr>)"

definition finish_idle_pass ::
  "'w engine_outside \<Rightarrow> pair_settings \<Rightarrow> bytes \<Rightarrow> bytes \<Rightarrow> bytes \<Rightarrow> root_node_update \<Rightarrow> 'w engine \<Rightarrow> 'w engine" where
  "finish_idle_pass eo se volume previous_cursor latest root_node en =
    (let en1 = (if latest = previous_cursor then en
           else (case en_look (ow_epoch_secs (eo_ow eo)) en of (now, en') \<Rightarrow>
             on_pair (\<lambda>pr. pr\<lparr>pr_db := store_event_cursor (pr_db pr) volume latest (sint now)\<rparr>) en'));
         en2 = (case root_node of
             RootSet uid \<Rightarrow>
               (case en_look (ow_epoch_secs (eo_ow eo)) en1 of (now, en') \<Rightarrow>
                 on_pair (\<lambda>pr. pr\<lparr>pr_db :=
                   fst (store_remote_root_uid (pr_db pr) (pc_remote_root_key (se_pass se)) uid (sint now))\<rparr>) en')
           | _ \<Rightarrow> en1)
     in count_incremental_pass en2)"

definition nothing_asks_for_a_scan :: "bool \<Rightarrow> pair_runtime \<Rightarrow> bool" where
  "nothing_asks_for_a_scan force_local_scan pr \<longleftrightarrow>
    \<not> force_local_scan \<and> pr_pending_changes pr = {} \<and> pr_pending_deletions pr = []"

text \<open>The answers the reconstruction resolves by: the index of this pair and the listings of this pass.\<close>

definition targeted_resolver :: "database \<Rightarrow> (path \<Rightarrow> bytes + remote_map) \<Rightarrow> resolver" where
  "targeted_resolver db listings =
    \<lparr>rv_indexed_path = (\<lambda>uid. Inr (path_for_proton_id db uid)), rv_list = listings\<rparr>"

definition commit_incremental ::
  "'w engine_outside \<Rightarrow> pair_settings \<Rightarrow> base_map \<Rightarrow> base_map \<Rightarrow> remote_map \<Rightarrow> cursor_update \<Rightarrow> root_node_update \<Rightarrow>
   ('w, incremental_outcome) pass" where
  "commit_incremental eo se base_records base_index remote cursor root_node en =
    (case scan_local_entities eo se base_records en of
       (Inl e, en1) \<Rightarrow> (Inl e, en1)
     | (Inr scan, en1) \<Rightarrow>
         (case ensure_root_available eo en1 of
            (Inl e, en2) \<Rightarrow> (Inl e, en2)
          | (Inr _, en2) \<Rightarrow>
              (case plan_and_commit eo se scan remote base_index
                      \<lparr>rs_remote_root_missing = False, rs_full_snapshot = False\<rparr> (Some cursor) root_node en2 of
                 (Inl e, en3) \<Rightarrow> (Inl e, en3)
               | (Inr outcome, en3) \<Rightarrow> (Inr (IncCommitted outcome), count_incremental_pass en3))))"

definition place_delta ::
  "'w engine_outside \<Rightarrow> pair_settings \<Rightarrow> base_map \<Rightarrow> bool \<Rightarrow> bytes \<Rightarrow> bytes \<Rightarrow> event_delta \<Rightarrow>
   ('w, incremental_outcome) pass" where
  "place_delta eo se base_records force_local_scan volume stored delta en =
    (let quiet = nothing_asks_for_a_scan force_local_scan (en_pair en) in
     if quiet \<and> ed_changes delta = []
     then (Inr IncIdle, finish_idle_pass eo se volume stored (ed_latest_event_id delta) RootKeep en)
     else (case ensure_root_available eo en of
       (Inl e, en1) \<Rightarrow> (Inl e, en1)
     | (Inr _, en1) \<Rightarrow>
         (let base_index = filter_base_index base_records (se_scan_options se) in
          case remote_root_node_for_incremental eo se (ed_changes delta) en1 of
            ((root_uid, root_node), en2) \<Rightarrow>
              (case en_look (eo_resolve eo) en2 of
                 (listings, en3) \<Rightarrow>
                   (case reconstruct_remote base_index (ed_changes delta) volume root_uid (se_scan_options se)
                           (targeted_resolver (pr_db (en_pair en3)) listings) of
                      FallbackToSnapshot _ \<Rightarrow> (Inr IncFallback, en3)
                    | Complete remote outside behind \<Rightarrow>
                        (let en4 = note_listing_behind volume behind en3;
                             cursor_after = (if behind = [] then ed_latest_event_id delta else stored)
                         in if quiet \<and> outside + length behind = length (ed_changes delta)
                            then (Inr IncIdle, finish_idle_pass eo se volume stored cursor_after root_node en4)
                            else commit_incremental eo se base_records base_index remote
                                   \<lparr>cu_scope_id = volume, cu_last_event_id = cursor_after\<rparr> root_node en4))))))"

definition try_incremental_reconcile ::
  "'w engine_outside \<Rightarrow> pair_settings \<Rightarrow> base_map \<Rightarrow> bool \<Rightarrow> ('w, incremental_outcome) pass" where
  "try_incremental_reconcile eo se base_records force_local_scan en =
    (case resolve_event_scope eo base_records en of
       (None, en1) \<Rightarrow> (Inr IncFallback, en1)
     | (Some (volume, cursor), en1) \<Rightarrow>
         (case en_look (fetch_event_delta (eo_events_since eo) volume (ec_last_event_id cursor))
                 (begin_activity FetchingEvents en1) of
            (Inl e, en2) \<Rightarrow>
              if is_transient_fetch_error e then wait_for_the_feed_or_walk eo se e en2
              else (Inr IncFallback, note_feed_answered en2)
          | (Inr delta, en2) \<Rightarrow>
              (let en3 = note_feed_answered en2 in
               if ed_refresh delta then (Inr IncFallback, en3)
               else place_delta eo se base_records force_local_scan volume (ec_last_event_id cursor) delta en3)))"

section \<open>A full walk\<close>

datatype pre_snapshot_cursor = Captured cursor_update | VolumeUnknown | Unavailable

definition volume_id_from_remote_root :: "'w engine_outside \<Rightarrow> pair_settings \<Rightarrow> 'w engine \<Rightarrow> bytes option \<times> 'w engine" where
  "volume_id_from_remote_root eo se en =
    (case en_look (eo_list_directory eo (se_remote_root se) []) en of
       (Inr entities, en') \<Rightarrow> (derive_volume_id_from_entities entities, en')
     | (Inl _, en') \<Rightarrow> (None, en'))"

definition read_latest_cursor :: "'w engine_outside \<Rightarrow> bytes \<Rightarrow> 'w engine \<Rightarrow> cursor_update option \<times> 'w engine" where
  "read_latest_cursor eo volume en =
    (case en_look (eo_latest_cursor eo volume) en of
       (Inr last_id, en') \<Rightarrow> (Some \<lparr>cu_scope_id = volume, cu_last_event_id = last_id\<rparr>, en')
     | (Inl _, en') \<Rightarrow> (None, en'))"

definition capture_pre_snapshot_cursor ::
  "'w engine_outside \<Rightarrow> pair_settings \<Rightarrow> base_map \<Rightarrow> 'w engine \<Rightarrow> pre_snapshot_cursor \<times> 'w engine" where
  "capture_pre_snapshot_cursor eo se B en =
    (if \<not> se_events_driven se \<or> \<not> en_source_live en then (Unavailable, en)
     else (case (case scope_volume eo B en of
            (Inr volume, en1) \<Rightarrow> (Inr volume, en1)
          | (Inl Unnameable, en1) \<Rightarrow>
              (case volume_id_from_remote_root eo se en1 of
                 (Some volume, en2) \<Rightarrow> (Inr volume, en2)
               | (None, en2) \<Rightarrow> (Inl VolumeUnknown, en2))
          | (Inl (Unreadable _), en1) \<Rightarrow> (Inl Unavailable, en1)) of
        (Inl r, en1) \<Rightarrow> (r, en1)
      | (Inr volume, en1) \<Rightarrow>
          (case read_latest_cursor eo volume en1 of
             (Some cursor, en2) \<Rightarrow> (Captured cursor, en2)
           | (None, en2) \<Rightarrow> (Unavailable, en2))))"

definition resolve_bootstrap_cursor_update ::
  "'w engine_outside \<Rightarrow> pair_settings \<Rightarrow> pre_snapshot_cursor \<Rightarrow> remote_map \<Rightarrow> bool \<Rightarrow> 'w engine \<Rightarrow>
   cursor_update option \<times> 'w engine" where
  "resolve_bootstrap_cursor_update eo se pre R remote_root_missing en =
    (if \<not> se_events_driven se \<or> remote_root_missing then (None, en)
     else (case pre of
       Captured cursor \<Rightarrow> (Some cursor, en)
     | Unavailable \<Rightarrow> (None, en)
     | VolumeUnknown \<Rightarrow>
         if \<not> en_source_live en then (None, en)
         else (case derive_volume_id_from_entities R of
                 None \<Rightarrow> (None, en)
               | Some volume \<Rightarrow> read_latest_cursor eo volume en)))"

definition walk_lists_what_the_stream_reported :: "remote_map \<Rightarrow> 'w engine \<Rightarrow> bool \<times> 'w engine" where
  "walk_lists_what_the_stream_reported R en =
    (case pr_listing_behind (en_pair en) of
       None \<Rightarrow> (True, en)
     | Some uids \<Rightarrow>
         (let listed = List.map_filter (\<lambda>(_, e). remote_entity_id e) R in
          if list_all (\<lambda>uid. uid \<in> set listed) uids
          then (True, on_pair (\<lambda>pr. pr\<lparr>pr_listing_behind := None\<rparr>) en)
          else (False, en)))"

definition load_remote_entities :: "'w engine_outside \<Rightarrow> pair_settings \<Rightarrow> ('w, remote_map \<times> bool) pass" where
  "load_remote_entities eo se en =
    (case en_call (eo_list_entities eo (se_remote_root se)) en of
       (Inl e, en') \<Rightarrow> (Inl e, en')
     | (Inr (Some entities), en') \<Rightarrow> (Inr (filter_remote_entities entities (se_scan_options se), False), en')
     | (Inr None, en') \<Rightarrow> (Inr ([], True), en'))"

definition anchored_cursor ::
  "'w engine_outside \<Rightarrow> pair_settings \<Rightarrow> pre_snapshot_cursor \<Rightarrow> remote_map \<Rightarrow> bool \<Rightarrow> 'w engine \<Rightarrow>
   cursor_update option \<times> 'w engine" where
  "anchored_cursor eo se pre R remote_root_missing en =
    (case resolve_bootstrap_cursor_update eo se pre R remote_root_missing en of
       (None, en1) \<Rightarrow> (None, en1)
     | (Some cursor, en1) \<Rightarrow>
         (case walk_lists_what_the_stream_reported R en1 of
            (listed, en2) \<Rightarrow> (if listed then Some cursor else None, en2)))"

definition after_full_walk :: "pair_runtime \<Rightarrow> pair_runtime" where
  "after_full_walk pr =
    (let pr1 = pr\<lparr>pr_incremental_passes := 0\<rparr> in
     if pr_warm_starts pr1 = 0 then pr1
     else pr1\<lparr>pr_warm_starts := 0, pr_db := store_warm_start_count (pr_db pr1) 0\<rparr>)"

definition bootstrap_reconcile :: "'w engine_outside \<Rightarrow> pair_settings \<Rightarrow> base_map \<Rightarrow> ('w, pass_outcome) pass" where
  "bootstrap_reconcile eo se base_records en =
    (case capture_pre_snapshot_cursor eo se base_records en of
       (pre, en1) \<Rightarrow>
         (case scan_local_entities eo se base_records en1 of
            (Inl e, en2) \<Rightarrow> (Inl e, en2)
          | (Inr scan, en2) \<Rightarrow>
              (case ensure_root_available eo en2 of
                 (Inl e, en3) \<Rightarrow> (Inl e, en3)
               | (Inr _, en3) \<Rightarrow>
                   (case load_remote_entities eo se (begin_activity ListingRemote en3) of
                      (Inl e, en4) \<Rightarrow> (Inl e, en4)
                    | (Inr (remote, missing), en4) \<Rightarrow>
                        (let base_index = (if missing then [] else filter_base_index base_records (se_scan_options se)) in
                         case anchored_cursor eo se pre remote missing en4 of
                           (cursor, en5) \<Rightarrow>
                             (case remote_root_node_after_a_walk eo se missing (cursor \<noteq> None) en5 of
                                (root_node, en6) \<Rightarrow>
                                  (case plan_and_commit eo se scan remote base_index
                                          \<lparr>rs_remote_root_missing = missing, rs_full_snapshot = True\<rparr>
                                          cursor root_node en6 of
                                     (Inl e, en7) \<Rightarrow> (Inl e, en7)
                                   | (Inr outcome, en7) \<Rightarrow> (Inr outcome, on_pair after_full_walk en7))))))))"

section \<open>The pass\<close>

definition first_reconcile ::
  "'w engine_outside \<Rightarrow> pair_settings \<Rightarrow> base_map \<Rightarrow> bool \<Rightarrow> ('w, pass_outcome) pass" where
  "first_reconcile eo se base_records force_bootstrap en =
    (case (if force_bootstrap then (False, en) else warm_start_eligible eo se base_records en) of
       (False, en1) \<Rightarrow> bootstrap_reconcile eo se base_records en1
     | (True, en1) \<Rightarrow>
         (case try_incremental_reconcile eo se base_records True en1 of
            (Inl e, en2) \<Rightarrow> (Inl e, en2)
          | (Inr (IncCommitted outcome), en2) \<Rightarrow> (Inr outcome, record_successful_warm_start se en2)
          | (Inr IncIdle, en2) \<Rightarrow> (Inr PassClean, record_successful_warm_start se en2)
          | (Inr IncFallback, en2) \<Rightarrow> bootstrap_reconcile eo se base_records en2))"

text \<open>The request is latched again when the truncation fails.\<close>

definition apply_reset :: "'w engine_outside \<Rightarrow> ('w, unit) pass" where
  "apply_reset eo en =
    (if \<not> sh_reset_index (en_shared en) then (Inr (), en)
     else (case en_look (eo_sql_error eo) (on_shared (\<lambda>sh. sh\<lparr>sh_reset_index := False\<rparr>) en) of
             (Some e, en1) \<Rightarrow> (Inl (PassError e), on_shared (\<lambda>sh. sh\<lparr>sh_reset_index := True\<rparr>) en1)
           | (None, en1) \<Rightarrow>
               (Inr (), on_pair (\<lambda>pr. pr\<lparr>pr_db := reset_index_state (pr_db pr), pr_is_first_reconcile := True,
                  pr_force_local_rescan := True, pr_incremental_passes := 0, pr_listing_behind := None\<rparr>) en1)))"

text \<open>A clean pass discharges a pending rescan, and ends the first pass of the process.\<close>

definition discharge :: "(pass_error + pass_outcome) \<times> 'w engine \<Rightarrow> (pass_error + pass_outcome) \<times> 'w engine" where
  "discharge r = (case r of
     (Inr PassClean, en) \<Rightarrow> (Inr PassClean, on_pair (\<lambda>pr. pr\<lparr>pr_force_local_rescan := False\<rparr>) en)
   | _ \<Rightarrow> r)"

definition discharge_first :: "(pass_error + pass_outcome) \<times> 'w engine \<Rightarrow> (pass_error + pass_outcome) \<times> 'w engine" where
  "discharge_first r = (case r of
     (Inr PassClean, en) \<Rightarrow>
       (Inr PassClean, on_pair (\<lambda>pr. pr\<lparr>pr_is_first_reconcile := False, pr_force_local_rescan := False\<rparr>) en)
   | _ \<Rightarrow> r)"

definition steady_reconcile ::
  "'w engine_outside \<Rightarrow> pair_settings \<Rightarrow> base_map \<Rightarrow> bool \<Rightarrow> ('w, pass_outcome) pass" where
  "steady_reconcile eo se base_records full_walk en =
    (case (if full_walk then (False, en) else should_try_incremental eo se base_records en) of
       (False, en1) \<Rightarrow> bootstrap_reconcile eo se base_records en1
     | (True, en1) \<Rightarrow>
         (case try_incremental_reconcile eo se base_records (pr_force_local_rescan (en_pair en1)) en1 of
            (Inl e, en2) \<Rightarrow> (Inl e, en2)
          | (Inr (IncCommitted outcome), en2) \<Rightarrow> (Inr outcome, en2)
          | (Inr IncIdle, en2) \<Rightarrow> (Inr PassClean, en2)
          | (Inr IncFallback, en2) \<Rightarrow> bootstrap_reconcile eo se base_records en2))"

definition reconcile_with_latches ::
  "'w engine_outside \<Rightarrow> pair_settings \<Rightarrow> bool \<Rightarrow> ('w, pass_outcome) pass" where
  "reconcile_with_latches eo se resync_requested en =
    (case apply_reset eo en of
       (Inl e, en1) \<Rightarrow> (Inl e, en1)
     | (Inr _, en1) \<Rightarrow>
         (let full_walk = (resync_requested \<or> pr_pass_intent (en_pair en1) \<noteq> None)
          in case load_index (pr_db (en_pair en1)) of
               None \<Rightarrow> (Inl (PassError ''unreadable index''), en1)
             | Some base_records \<Rightarrow>
                 if pr_is_first_reconcile (en_pair en1)
                 then discharge_first (first_reconcile eo se base_records (full_walk \<or> se_force_full_walk se) en1)
                 else discharge (steady_reconcile eo se base_records full_walk en1)))"

definition reconcile_blocking_inner :: "'w engine_outside \<Rightarrow> pair_settings \<Rightarrow> ('w, pass_outcome) pass" where
  "reconcile_blocking_inner eo se en =
    (let en1 = on_shared (\<lambda>sh. sh\<lparr>sh_queued_apply := None\<rparr>)
           (on_pair (\<lambda>pr. pr\<lparr>pr_pass_intent := sh_queued_apply (en_shared en), pr_apply_report := None\<rparr>) en)
     in case ensure_root_available eo en1 of
          (Inl e, en2) \<Rightarrow> (Inl e, en2)
        | (Inr _, en2) \<Rightarrow>
            (let en3 = catch_up_with_event_source_generation se (reacquire_event_source_if_needed eo se en2);
                 previous = (pr_failed_items (en_pair en3), pr_failed_item_count (en_pair en3));
                 resync_requested = sh_force_full_walk (en_shared en3);
                 en4 = on_shared (\<lambda>sh. sh\<lparr>sh_force_full_walk := False\<rparr>)
                   (on_pair (\<lambda>pr. pr\<lparr>pr_authored_writes := {}, pr_failed_items := [], pr_failed_item_count := 0\<rparr>) en3)
             in case reconcile_with_latches eo se resync_requested en4 of
                  (Inr outcome, en5) \<Rightarrow> (Inr outcome, en5)
                | (Inl e, en5) \<Rightarrow>
                    (let en6 = (if resync_requested \<and> is_root_unavailable e
                           then on_shared (\<lambda>sh. sh\<lparr>sh_force_full_walk := True\<rparr>) en5 else en5)
                     in (Inl e, if is_feed_unanswered e
                          then on_pair (\<lambda>pr. pr\<lparr>pr_failed_items := fst previous, pr_failed_item_count := snd previous\<rparr>) en6
                          else en6))))"

definition seal_apply_outcome :: "'w engine \<Rightarrow> 'w engine" where
  "seal_apply_outcome en =
    (case pr_pass_intent (en_pair en) of
       None \<Rightarrow> en
     | Some a \<Rightarrow>
         (let verdict = (case pr_apply_report (en_pair en) of Some v \<Rightarrow> v | None \<Rightarrow> VerdictFailed)
          in on_shared (\<lambda>sh. sh\<lparr>sh_sealed_apply := Some (aq_seq a, verdict)\<rparr>)
               (on_pair (\<lambda>pr. pr\<lparr>pr_pass_intent := None, pr_apply_report := None\<rparr>) en)))"

definition reconcile_blocking :: "'w engine_outside \<Rightarrow> pair_settings \<Rightarrow> ('w, pass_outcome) pass" where
  "reconcile_blocking eo se en =
    (case (case en_call (eo_open_cache eo) (en\<lparr>en_phases := []\<rparr>) of
             (Inl e, en1) \<Rightarrow> (Inl e, en1)
           | (Inr _, en1) \<Rightarrow> reconcile_blocking_inner eo se en1) of
       (result, en2) \<Rightarrow>
         (let en3 = seal_apply_outcome en2 in
          if (case result of Inl e \<Rightarrow> is_feed_unanswered e | Inr _ \<Rightarrow> False) then (result, en3)
          else (result, on_shared (\<lambda>sh. sh\<lparr>sh_reconcile_seq := sh_reconcile_seq sh + 1\<rparr>) en3)))"

end
