(* ===== verification/Reconcile_Props.thy ===== *)
theory Reconcile_Props
  imports Reconcile Pass_Props
begin

text \<open>
  What a whole pass guarantees: which requests it consumes and when, that every apply is answered, that a pass
  held for the event stream changes nothing, that no reported edit is stranded by the pass that skips the walk,
  that the tree is walked again after a bounded number of replays, and where a stored cursor comes from.
\<close>

section \<open>What the steps of a pass leave alone\<close>

text \<open>The requests and floors only the pass itself moves; and everything a pass that is held must leave alone.\<close>

definition requests :: "'w engine \<Rightarrow> pair_shared \<times> bool \<times> nat \<times> bool \<times> bool \<times> nat \<times> apply_request option" where
  "requests en = (en_shared en, en_source_live en, en_generation en, pr_is_first_reconcile (en_pair en),
    pr_force_local_rescan (en_pair en), pr_seen_generation (en_pair en),
    pr_pass_intent (en_pair en))"

definition kept :: "'w engine \<Rightarrow> pair_runtime" where
  "kept en = (en_pair en)\<lparr>pr_feed_outage := None, pr_listing_behind := None, pr_remote_root_uid_asked := False\<rparr>"

definition held :: "'w engine \<Rightarrow> pair_runtime \<times> pair_shared \<times> bool \<times> nat" where
  "held en = (kept en, en_shared en, en_source_live en, en_generation en)"

lemma held_fields:
  assumes "held en' = held en"
  shows "pr_db (en_pair en') = pr_db (en_pair en)" "pr_warm_starts (en_pair en') = pr_warm_starts (en_pair en)"
    "pr_unsyncable (en_pair en') = pr_unsyncable (en_pair en)"
    "pr_pending_changes (en_pair en') = pr_pending_changes (en_pair en)"
    "pr_authored_writes (en_pair en') = pr_authored_writes (en_pair en)"
    "pr_incremental_passes (en_pair en') = pr_incremental_passes (en_pair en)"
    "pr_pending_deletions (en_pair en') = pr_pending_deletions (en_pair en)"
    "pr_failed_items (en_pair en') = pr_failed_items (en_pair en)"
    "pr_failed_item_count (en_pair en') = pr_failed_item_count (en_pair en)"
    "pr_force_delete_approval (en_pair en') = pr_force_delete_approval (en_pair en)"
    "pr_apply_report (en_pair en') = pr_apply_report (en_pair en)" "requests en' = requests en"
proof -
  have k: "kept en' = kept en" "en_shared en' = en_shared en" "en_source_live en' = en_source_live en"
    "en_generation en' = en_generation en" using assms by (simp_all add: held_def)
  note f = arg_cong[OF k(1)]
  show "pr_db (en_pair en') = pr_db (en_pair en)" using f[of pr_db] by (simp add: kept_def)
  show "pr_warm_starts (en_pair en') = pr_warm_starts (en_pair en)" using f[of pr_warm_starts] by (simp add: kept_def)
  show "pr_unsyncable (en_pair en') = pr_unsyncable (en_pair en)" using f[of pr_unsyncable] by (simp add: kept_def)
  show "pr_pending_changes (en_pair en') = pr_pending_changes (en_pair en)"
    using f[of pr_pending_changes] by (simp add: kept_def)
  show "pr_authored_writes (en_pair en') = pr_authored_writes (en_pair en)"
    using f[of pr_authored_writes] by (simp add: kept_def)
  show "pr_incremental_passes (en_pair en') = pr_incremental_passes (en_pair en)"
    using f[of pr_incremental_passes] by (simp add: kept_def)
  show "pr_pending_deletions (en_pair en') = pr_pending_deletions (en_pair en)"
    using f[of pr_pending_deletions] by (simp add: kept_def)
  show "pr_failed_items (en_pair en') = pr_failed_items (en_pair en)" using f[of pr_failed_items] by (simp add: kept_def)
  show "pr_failed_item_count (en_pair en') = pr_failed_item_count (en_pair en)"
    using f[of pr_failed_item_count] by (simp add: kept_def)
  show "pr_force_delete_approval (en_pair en') = pr_force_delete_approval (en_pair en)"
    using f[of pr_force_delete_approval] by (simp add: kept_def)
  show "pr_apply_report (en_pair en') = pr_apply_report (en_pair en)" using f[of pr_apply_report] by (simp add: kept_def)
  show "requests en' = requests en"
    using k(2-4) f[of pr_is_first_reconcile] f[of pr_force_local_rescan] f[of pr_seen_generation]
      f[of pr_pass_intent]
    by (simp add: requests_def kept_def)
qed

named_theorems steps \<open>what a step of a pass leaves alone\<close>

lemma look_steps [steps]:
  "held (snd (en_look f en)) = held en" "en_pair (snd (en_look f en)) = en_pair en"
  "en_shared (snd (en_look f en)) = en_shared en"
  "en_phases (snd (en_look f en)) = en_phases en" "en_source_live (snd (en_look f en)) = en_source_live en"
  by (simp_all add: en_look_def held_def kept_def split: prod.split)

lemma call_steps [steps]:
  "held (snd (en_call g en)) = held en" "en_pair (snd (en_call g en)) = en_pair en"
  "en_phases (snd (en_call g en)) = en_phases en" "en_source_live (snd (en_call g en)) = en_source_live en"
  by (simp_all add: en_call_def case_prod_beta steps split: sum.split)

lemma pair_steps [steps]:
  "held (on_pair (\<lambda>pr. pr\<lparr>pr_remote_root_uid_asked := b\<rparr>) en) = held en"
  "held (on_pair (\<lambda>pr. pr\<lparr>pr_feed_outage := fo\<rparr>) en) = held en"
  "held (on_pair (\<lambda>pr. pr\<lparr>pr_listing_behind := lb\<rparr>) en) = held en"
  "held (begin_activity p en) = held en" "en_pair (begin_activity p en) = en_pair en"
  "en_phases (begin_activity p en) = en_phases en @ [p]" "en_phases (on_pair h en) = en_phases en"
  "en_source_live (begin_activity p en) = en_source_live en" "en_source_live (on_pair h en) = en_source_live en"
  "en_pair (on_pair h en) = h (en_pair en)" "en_shared (on_pair h en) = en_shared en"
  "en_pair (on_shared k en) = en_pair en" "en_shared (on_shared k en) = k (en_shared en)"
  "en_phases (on_shared k en) = en_phases en"
  by (simp_all add: on_pair_def held_def kept_def begin_activity_def on_shared_def)

lemma root_steps [steps]:
  "held (snd (ensure_root_available eo en)) = held en" "en_phases (snd (ensure_root_available eo en)) = en_phases en"
  "en_pair (snd (ensure_root_available eo en)) = en_pair en"
  by (simp_all add: ensure_root_available_def steps)

lemma scope_steps [steps]:
  "held (snd (read_cursor_table eo g en)) = held en" "en_phases (snd (read_cursor_table eo g en)) = en_phases en"
  "en_pair (snd (read_cursor_table eo g en)) = en_pair en"
  "en_source_live (snd (read_cursor_table eo g en)) = en_source_live en"
  by (simp_all add: read_cursor_table_def case_prod_beta steps split: option.split)

lemma volume_steps [steps]:
  "held (snd (scope_volume eo B en)) = held en" "en_phases (snd (scope_volume eo B en)) = en_phases en"
  "en_pair (snd (scope_volume eo B en)) = en_pair en"
  "en_source_live (snd (scope_volume eo B en)) = en_source_live en"
  by (simp_all add: scope_volume_def case_prod_beta steps split: option.split)

lemma event_scope_steps [steps]:
  "held (snd (resolve_event_scope eo B en)) = held en" "en_phases (snd (resolve_event_scope eo B en)) = en_phases en"
  "en_pair (snd (resolve_event_scope eo B en)) = en_pair en"
  by (simp_all add: resolve_event_scope_def case_prod_beta steps split: option.split sum.split)

lemma choice_steps [steps]:
  "held (snd (should_try_incremental eo se B en)) = held en"
  "en_phases (snd (should_try_incremental eo se B en)) = en_phases en"
  "en_pair (snd (should_try_incremental eo se B en)) = en_pair en"
  "held (snd (warm_start_eligible eo se B en)) = held en"
  "en_phases (snd (warm_start_eligible eo se B en)) = en_phases en"
  "en_pair (snd (warm_start_eligible eo se B en)) = en_pair en"
  by (simp_all add: should_try_incremental_def warm_start_eligible_def case_prod_beta steps split: option.split)

lemma uid_steps [steps]:
  "held (snd (learn_remote_root_uid eo se en)) = held en"
  "en_phases (snd (learn_remote_root_uid eo se en)) = en_phases en"
  by (simp_all add: learn_remote_root_uid_def case_prod_beta steps split: option.split sum.split)

lemma node_steps [steps]:
  "held (snd (remote_root_node_for_incremental eo se cs en)) = held en"
  "en_phases (snd (remote_root_node_for_incremental eo se cs en)) = en_phases en"
  "held (snd (remote_root_node_after_a_walk eo se missing leaves en)) = held en"
  "en_phases (snd (remote_root_node_after_a_walk eo se missing leaves en)) = en_phases en"
  by (simp_all add: remote_root_node_for_incremental_def remote_root_node_after_a_walk_def case_prod_beta steps
      split: option.split sum.split)

lemma scan_steps [steps]:
  "held (snd (scan_local_entities eo se B en)) = held en"
  "en_phases (snd (scan_local_entities eo se B en)) = en_phases en @ [ScanningLocal]"
  by (simp_all add: scan_local_entities_def case_prod_beta steps split: sum.split)

lemma note_steps [steps]:
  "held (note_feed_answered en) = held en" "en_phases (note_feed_answered en) = en_phases en"
  "held (note_listing_behind v behind en) = held en" "en_phases (note_listing_behind v behind en) = en_phases en"
  "pr_listing_behind (en_pair (note_feed_answered en)) = pr_listing_behind (en_pair en)"
  by (simp_all add: note_feed_answered_def note_listing_behind_def steps)

lemma wait_steps [steps]:
  "held (snd (wait_for_the_feed_or_walk eo se e en)) = held en"
  "en_phases (snd (wait_for_the_feed_or_walk eo se e en)) = en_phases en"
  "pr_listing_behind (en_pair (snd (wait_for_the_feed_or_walk eo se e en))) = pr_listing_behind (en_pair en)"
  "pr_remote_root_uid_asked (en_pair (snd (wait_for_the_feed_or_walk eo se e en))) = pr_remote_root_uid_asked (en_pair en)"
  by (simp_all add: wait_for_the_feed_or_walk_def case_prod_beta Let_def steps)

lemma capture_steps [steps]:
  "held (snd (volume_id_from_remote_root eo se en)) = held en"
  "en_phases (snd (volume_id_from_remote_root eo se en)) = en_phases en"
  "held (snd (read_latest_cursor eo v en)) = held en" "en_phases (snd (read_latest_cursor eo v en)) = en_phases en"
  by (simp_all add: volume_id_from_remote_root_def read_latest_cursor_def case_prod_beta steps split: sum.split)

lemma walk_steps [steps]:
  "held (snd (capture_pre_snapshot_cursor eo se B en)) = held en"
  "en_phases (snd (capture_pre_snapshot_cursor eo se B en)) = en_phases en"
  "held (snd (resolve_bootstrap_cursor_update eo se pre R missing en)) = held en"
  "en_phases (snd (resolve_bootstrap_cursor_update eo se pre R missing en)) = en_phases en"
  "held (snd (walk_lists_what_the_stream_reported R en)) = held en"
  "en_phases (snd (walk_lists_what_the_stream_reported R en)) = en_phases en"
  by (simp_all add: capture_pre_snapshot_cursor_def resolve_bootstrap_cursor_update_def
      walk_lists_what_the_stream_reported_def case_prod_beta steps Let_def
      split: option.split sum.split volume_scope_error.split pre_snapshot_cursor.split)

lemma anchor_steps [steps]:
  "held (snd (anchored_cursor eo se pre R missing en)) = held en"
  "en_phases (snd (anchored_cursor eo se pre R missing en)) = en_phases en"
  "held (snd (load_remote_entities eo se en)) = held en"
  "en_phases (snd (load_remote_entities eo se en)) = en_phases en"
  by (simp_all add: anchored_cursor_def load_remote_entities_def case_prod_beta steps split: option.split sum.split)

lemma pass_pair:
  "en_pair (snd (capture_pre_snapshot_cursor eo se B en)) = en_pair en"
  "en_pair (snd (scan_local_entities eo se B en)) = en_pair en"
  "en_pair (snd (load_remote_entities eo se en)) = en_pair en"
  by (simp_all add: capture_pre_snapshot_cursor_def scan_local_entities_def load_remote_entities_def
      volume_id_from_remote_root_def read_latest_cursor_def case_prod_beta steps
      split: option.split sum.split volume_scope_error.split)

section \<open>What a commit leaves\<close>

lemma run_plan_diverges: "fst (run_plan ow xc settled cursor rn pl st) \<noteq> PassDiverged"
  by (auto simp: run_plan_def finish_pass_def Let_def split: prod.split option.split sum.split)

lemma end_error_cases [simp]:
  "end_error stop \<noteq> FeedUnanswered c" "end_error stop \<noteq> ApplyRefused"
  by (cases stop; simp add: end_error_def)+

lemma commit_steps [steps]:
  "requests (snd (plan_and_commit eo se scan R B shape cursor rn en)) = requests en"
  "en_phases (snd (plan_and_commit eo se scan R B shape cursor rn en)) = en_phases en"
  "pr_incremental_passes (en_pair (snd (plan_and_commit eo se scan R B shape cursor rn en))) =
    pr_incremental_passes (en_pair en)"
  "pr_warm_starts (en_pair (snd (plan_and_commit eo se scan R B shape cursor rn en))) = pr_warm_starts (en_pair en)"
  by (simp_all add: plan_and_commit_def requests_def on_pair_def after_execution_def after_completion_def Let_def
      split: prod.split pass_end.split)

text \<open>What the executor says about an apply: it ran, it was refused, or the pass failed before deciding.\<close>

definition reported :: "'w engine \<Rightarrow> (pass_error + pass_outcome) \<times> 'w engine \<Rightarrow> bool" where
  "reported en r \<longleftrightarrow> pr_pass_intent (en_pair (snd r)) = pr_pass_intent (en_pair en) \<and>
    (case fst r of
       Inr _ \<Rightarrow> pr_pass_intent (en_pair en) \<noteq> None \<longrightarrow>
         (\<exists>s f. pr_apply_report (en_pair (snd r)) = Some (VerdictApplied s f))
     | Inl e \<Rightarrow> pr_apply_report (en_pair (snd r)) =
         (if e = ApplyRefused then Some VerdictDiverged else pr_apply_report (en_pair en)))"

lemma commit_reported: "reported en (plan_and_commit eo se scan R B shape cursor rn en)"
  by (simp add: reported_def plan_and_commit_def on_pair_def after_execution_def after_completion_def Let_def
      split: prod.split pass_end.split)

lemma commit_not_held: "fst (plan_and_commit eo se scan R B shape cursor rn en) \<noteq> Inl (FeedUnanswered c)"
  by (simp add: plan_and_commit_def Let_def split: prod.split pass_end.split)

lemma requests_fields:
  assumes "requests en' = requests en"
  shows "en_shared en' = en_shared en" "en_source_live en' = en_source_live en"
    "pr_is_first_reconcile (en_pair en') = pr_is_first_reconcile (en_pair en)"
    "pr_force_local_rescan (en_pair en') = pr_force_local_rescan (en_pair en)"
    "pr_seen_generation (en_pair en') = pr_seen_generation (en_pair en)"
    "en_generation en' = en_generation en"
    "pr_pass_intent (en_pair en') = pr_pass_intent (en_pair en)"
  using assms by (simp_all add: requests_def)

lemmas held_requests = held_fields(12)

lemma call_errors: "en_call f en = (Inl e, en') \<Longrightarrow> \<exists>x. e = PassFailure x"
  by (auto simp: en_call_def split: prod.splits sum.splits)

lemma step_errors:
  "ensure_root_available eo en = (Inl e, en') \<Longrightarrow> e \<noteq> ApplyRefused \<and> e \<noteq> FeedUnanswered c"
  "scan_local_entities eo se B en = (Inl e, en') \<Longrightarrow> e \<noteq> ApplyRefused \<and> e \<noteq> FeedUnanswered c"
  "load_remote_entities eo se en = (Inl e, en') \<Longrightarrow> e \<noteq> ApplyRefused \<and> e \<noteq> FeedUnanswered c"
  by (auto simp: ensure_root_available_def scan_local_entities_def load_remote_entities_def
      dest: call_errors split: prod.splits sum.splits option.splits)

section \<open>What a walk leaves\<close>

text \<open>Where the cursor of a walk comes from: what was captured before the listing, and the listing itself.\<close>

definition anchored ::
  "'w engine_outside \<Rightarrow> pair_settings \<Rightarrow> base_map \<Rightarrow> 'w engine \<Rightarrow> remote_map \<Rightarrow> cursor_update option \<Rightarrow> bool" where
  "anchored eo se B en R cursor \<longleftrightarrow> (\<exists>missing en3 en4. load_remote_entities eo se en3 = (Inr (R, missing), en4) \<and>
    en_pair en4 = en_pair en \<and>
    fst (anchored_cursor eo se (fst (capture_pre_snapshot_cursor eo se B en)) R missing en4) = cursor)"

text \<open>The stages of a walk: it ends at one of them, or commits; the state until then is held.\<close>

lemma walk_stages:
  obtains (ended) e where "fst (bootstrap_reconcile eo se B en) = Inl e" "e \<noteq> ApplyRefused" "\<forall>c. e \<noteq> FeedUnanswered c"
      "held (snd (bootstrap_reconcile eo se B en)) = held en"
  | (refused) e en6 scan R B' shape cursor rn where "held en6 = held en"
      "bootstrap_reconcile eo se B en = (Inl e, snd (plan_and_commit eo se scan R B' shape cursor rn en6))"
      "fst (plan_and_commit eo se scan R B' shape cursor rn en6) = Inl e" "anchored eo se B en R cursor"
  | (committed) outcome en6 scan R B' shape cursor rn where "held en6 = held en"
      "en_phases en6 = en_phases en @ [ScanningLocal, ListingRemote]"
      "bootstrap_reconcile eo se B en =
        (Inr outcome, on_pair after_full_walk (snd (plan_and_commit eo se scan R B' shape cursor rn en6)))"
      "fst (plan_and_commit eo se scan R B' shape cursor rn en6) = Inr outcome" "anchored eo se B en R cursor"
proof -
  obtain pre en1 where 1: "capture_pre_snapshot_cursor eo se B en = (pre, en1)" by fastforce
  obtain r2 en2 where 2: "scan_local_entities eo se B en1 = (r2, en2)" by fastforce
  obtain r3 en3 where 3: "ensure_root_available eo en2 = (r3, en3)" by fastforce
  obtain r4 en4 where 4: "load_remote_entities eo se (begin_activity ListingRemote en3) = (r4, en4)" by fastforce
  have h: "held en1 = held en" "held en2 = held en" "held en3 = held en" "held en4 = held en"
    and ph: "en_phases en4 = en_phases en @ [ScanningLocal, ListingRemote]"
    using walk_steps(1,2)[of eo se B en] scan_steps[of eo se B en1] root_steps(1,2)[of eo en2]
      anchor_steps(3,4)[of eo se "begin_activity ListingRemote en3"] pair_steps(4,6)[of ListingRemote en3]
    by (simp_all add: 1 2 3 4)
  show thesis
  proof (cases r2)
    case (Inl e)
    then show thesis using ended[of e] step_errors(2)[OF 2[unfolded Inl]] h by (simp add: bootstrap_reconcile_def 1 2)
  next
    case r2: (Inr scan)
    show thesis
    proof (cases r3)
      case (Inl e)
      then show thesis
        using ended[of e] step_errors(1)[OF 3[unfolded Inl]] h by (simp add: bootstrap_reconcile_def 1 2 3 r2)
    next
      case r3: (Inr u)
      show thesis
      proof (cases r4)
        case (Inl e)
        then show thesis
          using ended[of e] step_errors(3)[OF 4[unfolded Inl]] h by (simp add: bootstrap_reconcile_def 1 2 3 4 r2 r3)
      next
        case r4: (Inr rm)
        obtain R missing where rm: "rm = (R, missing)" by fastforce
        obtain cursor en5 where 5: "anchored_cursor eo se pre R missing en4 = (cursor, en5)" by fastforce
        obtain rn en6 where 6: "remote_root_node_after_a_walk eo se missing (cursor \<noteq> None) en5 = (rn, en6)" by fastforce
        have h6: "held en6 = held en" "en_phases en6 = en_phases en4"
          using anchor_steps(1,2)[of eo se pre R missing en4, unfolded 5 snd_conv] h
            node_steps(3,4)[of eo se missing "cursor \<noteq> None" en5, unfolded 6 snd_conv]
          by simp_all
        have "en_pair en4 = en_pair en"
          using pass_pair(1)[of eo se B en] pass_pair(2)[of eo se B en1] root_steps(3)[of eo en2]
            pass_pair(3)[of eo se "begin_activity ListingRemote en3"] pair_steps(5)[of ListingRemote en3]
          by (simp add: 1 2 3 4)
        then have anch: "anchored eo se B en R cursor"
          unfolding anchored_def using 4[unfolded r4 rm] 1 5 by (metis fst_conv)
        define c where "c = plan_and_commit eo se scan R (if missing then [] else filter_base_index B (se_scan_options se))
          \<lparr>rs_remote_root_missing = missing, rs_full_snapshot = True\<rparr> cursor rn en6"
        have boot: "bootstrap_reconcile eo se B en =
            (case c of (Inl e, en7) \<Rightarrow> (Inl e, en7) | (Inr outcome, en7) \<Rightarrow> (Inr outcome, on_pair after_full_walk en7))"
          by (simp only: bootstrap_reconcile_def 1 2 3 4 5 6 r2 r3 r4 rm Let_def c_def prod.case sum.case)
        show thesis
        proof (cases "fst c")
          case (Inl e)
          with boot have "bootstrap_reconcile eo se B en = (Inl e, snd c)" by (simp add: case_prod_beta)
          from refused[OF h6(1) this[unfolded c_def] Inl[unfolded c_def] anch] show thesis .
        next
          case (Inr outcome)
          with boot have b: "bootstrap_reconcile eo se B en = (Inr outcome, on_pair after_full_walk (snd c))"
            by (simp add: case_prod_beta)
          from committed[OF h6(1) h6(2)[unfolded ph] b[unfolded c_def] Inr[unfolded c_def] anch] show thesis .
        qed
      qed
    qed
  qed
qed

lemma bootstrap_all:
  "requests (snd (bootstrap_reconcile eo se B en)) = requests en \<and>
    fst (bootstrap_reconcile eo se B en) \<noteq> Inl (FeedUnanswered c) \<and> reported en (bootstrap_reconcile eo se B en) \<and>
    (fst (bootstrap_reconcile eo se B en) = Inr outcome \<longrightarrow>
      en_phases (snd (bootstrap_reconcile eo se B en)) = en_phases en @ [ScanningLocal, ListingRemote] \<and>
      pr_incremental_passes (en_pair (snd (bootstrap_reconcile eo se B en))) = 0)"
proof (cases rule: walk_stages[of eo se B en])
  case (ended e)
  note r = held_requests[OF ended(4)]
  show ?thesis
    using ended r requests_fields(7)[OF r] held_fields(11)[OF ended(4)] by (auto simp: reported_def)
next
  case (refused e en6 scan R B' shape cursor rn)
  note r = held_requests[OF refused(1)]
  show ?thesis
    using refused commit_reported[of en6 eo se scan R B' shape cursor rn] r requests_fields(7)[OF r]
      held_fields(11)[OF refused(1)] commit_not_held[of eo se scan R B' shape cursor rn en6]
    by (simp add: reported_def commit_steps)
next
  case (committed outcome' en6 scan R B' shape cursor rn)
  note r = held_requests[OF committed(1)]
  have walk: "requests (on_pair after_full_walk x) = requests x" "pr_incremental_passes (after_full_walk pr) = 0"
    "pr_pass_intent (after_full_walk pr) = pr_pass_intent pr" "pr_apply_report (after_full_walk pr) = pr_apply_report pr"
    for x :: "'a engine" and pr
    by (simp_all add: requests_def on_pair_def after_full_walk_def Let_def)
  show ?thesis
    using committed commit_reported[of en6 eo se scan R B' shape cursor rn] r requests_fields(7)[OF r]
    by (simp add: reported_def commit_steps walk steps)
qed

lemma bootstrap_leaves:
  "requests (snd (bootstrap_reconcile eo se B en)) = requests en"
  "fst (bootstrap_reconcile eo se B en) \<noteq> Inl (FeedUnanswered c)"
  "reported en (bootstrap_reconcile eo se B en)"
  "fst (bootstrap_reconcile eo se B en) = Inr outcome \<Longrightarrow>
    en_phases (snd (bootstrap_reconcile eo se B en)) = en_phases en @ [ScanningLocal, ListingRemote] \<and>
    pr_incremental_passes (en_pair (snd (bootstrap_reconcile eo se B en))) = 0"
  using bootstrap_all[of eo se B en] by auto

section \<open>What a replay leaves\<close>

lemma count_fields:
  "requests (count_incremental_pass en) = requests en" "en_phases (count_incremental_pass en) = en_phases en"
  "pr_incremental_passes (en_pair (count_incremental_pass en)) = saturating_succ (pr_incremental_passes (en_pair en))"
  "pr_apply_report (en_pair (count_incremental_pass en)) = pr_apply_report (en_pair en)"
  "pr_db (en_pair (count_incremental_pass en)) = pr_db (en_pair en)"
  by (simp_all add: count_incremental_pass_def on_pair_def requests_def)

lemma db_fields:
  "requests (on_pair (\<lambda>pr. pr\<lparr>pr_db := f pr\<rparr>) en) = requests en"
  "requests (snd (en_look g en)) = requests en"
  "pr_incremental_passes (en_pair (on_pair (\<lambda>pr. pr\<lparr>pr_db := f pr\<rparr>) en)) = pr_incremental_passes (en_pair en)"
  by (simp_all add: requests_def on_pair_def en_look_def split: prod.split)

lemma idle_fields:
  "requests (finish_idle_pass eo se v prev latest rn en) = requests en"
  "en_phases (finish_idle_pass eo se v prev latest rn en) = en_phases en"
  "pr_incremental_passes (en_pair (finish_idle_pass eo se v prev latest rn en)) =
    saturating_succ (pr_incremental_passes (en_pair en))"
  unfolding finish_idle_pass_def Let_def count_fields
  by (cases "latest = prev"; cases rn; simp add: case_prod_beta db_fields look_steps pair_steps)+

lemma nothing_asks_held: "held en' = held en \<Longrightarrow> nothing_asks_for_a_scan f (en_pair en') = nothing_asks_for_a_scan f (en_pair en)"
  using held_fields(4,7)[of en' en] by (simp add: nothing_asks_for_a_scan_def)

text \<open>What a replay may end as, with what it has looked at and left behind.\<close>

definition replay_ends :: "'w engine \<Rightarrow> bool \<Rightarrow> (pass_error + incremental_outcome) \<times> 'w engine \<Rightarrow> bool" where
  "replay_ends en force r \<longleftrightarrow> requests (snd r) = requests en \<and>
    (case fst r of
       Inl e \<Rightarrow> (\<forall>c. e = FeedUnanswered c \<longrightarrow> held (snd r) = held en \<and> en_phases (snd r) = en_phases en @ [FetchingEvents] \<and>
         pr_listing_behind (en_pair (snd r)) = pr_listing_behind (en_pair en) \<and>
         pr_remote_root_uid_asked (en_pair (snd r)) = pr_remote_root_uid_asked (en_pair en))
     | Inr IncIdle \<Rightarrow> nothing_asks_for_a_scan force (en_pair en) \<and> en_phases (snd r) = en_phases en @ [FetchingEvents] \<and>
         pr_incremental_passes (en_pair (snd r)) = saturating_succ (pr_incremental_passes (en_pair en))
     | Inr IncFallback \<Rightarrow> held (snd r) = held en \<and> prefix (en_phases en) (en_phases (snd r))
     | Inr (IncCommitted _) \<Rightarrow> en_phases (snd r) = en_phases en @ [FetchingEvents, ScanningLocal] \<and>
         pr_incremental_passes (en_pair (snd r)) = saturating_succ (pr_incremental_passes (en_pair en)))"

lemma commit_incremental_ends:
  assumes "held en1 = held en" "en_phases en1 = en_phases en @ [FetchingEvents]"
  shows "replay_ends en force (commit_incremental eo se B B' R cursor rn en1)"
proof -
  obtain r2 en2 where 2: "scan_local_entities eo se B en1 = (r2, en2)" by fastforce
  obtain r3 en3 where 3: "ensure_root_available eo en2 = (r3, en3)" by fastforce
  have h: "held en2 = held en" "held en3 = held en" and ph: "en_phases en3 = en_phases en @ [FetchingEvents, ScanningLocal]"
    using assms scan_steps[of eo se B en1] root_steps(1,2)[of eo en2] by (simp_all add: 2 3)
  note req = held_requests[OF h(1)] held_requests[OF h(2)]
  note inc = held_fields(6)[OF h(2)]
  show ?thesis
    using req step_errors(2)[of eo se B en1 _ en2] step_errors(1)[of eo en2 _ en3]
    by (auto simp: commit_incremental_def 2 3 replay_ends_def case_prod_beta commit_steps commit_not_held count_fields ph inc
        split: sum.split)
qed

lemma place_delta_ends:
  assumes "held en1 = held en" "en_phases en1 = en_phases en @ [FetchingEvents]"
  shows "replay_ends en force (place_delta eo se B force v stored delta en1)"
proof -
  let ?quiet = "nothing_asks_for_a_scan force (en_pair en)"
  have quiet: "nothing_asks_for_a_scan force (en_pair en1) = ?quiet" using nothing_asks_held[OF assms(1)] .
  obtain r2 en2 where 2: "ensure_root_available eo en1 = (r2, en2)" by fastforce
  obtain node en3 where 3: "remote_root_node_for_incremental eo se (ed_changes delta) en2 = (node, en3)" by fastforce
  obtain listings en4 where 4: "en_look (eo_resolve eo) en3 = (listings, en4)" by fastforce
  have h: "held en2 = held en" "held en3 = held en" "held en4 = held en"
    and ph: "en_phases en2 = en_phases en @ [FetchingEvents]" "en_phases en4 = en_phases en @ [FetchingEvents]"
    using assms root_steps(1,2)[of eo en1] node_steps(1,2)[of eo se "ed_changes delta" en2]
      look_steps(1,4)[of "eo_resolve eo" en3] by (simp_all add: 2 3 4)
  have h5: "held (note_listing_behind v behind en4) = held en"
    "en_phases (note_listing_behind v behind en4) = en_phases en @ [FetchingEvents]" for behind
    using h(3) ph(2) by (simp_all add: note_steps)
  note req = held_requests[OF assms(1)] held_requests[OF h(1)] held_requests[OF h5(1)]
  note inc = held_fields(6)[OF assms(1)] held_fields(6)[OF h5(1)]
  note commits = commit_incremental_ends[OF h5]
  have idle: "replay_ends en force (Inr IncIdle, finish_idle_pass eo se v stored latest rn e)"
    if "held e = held en" "en_phases e = en_phases en @ [FetchingEvents]" "?quiet" for latest rn e
    using that held_requests[OF that(1)] held_fields(6)[OF that(1)] by (simp add: replay_ends_def idle_fields)
  have fell: "replay_ends en force (Inr IncFallback, en4)"
    using h(3) ph(2) held_requests[OF h(3)] by (simp add: replay_ends_def)
  have err: "replay_ends en force (Inl e, en2)" if "r2 = Inl e" for e
    using step_errors(1)[OF 2[unfolded that]] req(2) by (simp add: replay_ends_def)
  show ?thesis
    using idle[OF assms] idle[OF h5] commits fell err
    by (auto simp: place_delta_def quiet 2 3 4 Let_def split: sum.split prod.split reconstruction.split)
qed

lemma replay_end: "replay_ends en force (try_incremental_reconcile eo se B force en)"
proof -
  obtain scope en1 where 1: "resolve_event_scope eo B en = (scope, en1)" by fastforce
  have h1: "held en1 = held en" "en_phases en1 = en_phases en" "en_pair en1 = en_pair en"
    using event_scope_steps[of eo B en] by (simp_all add: 1)
  show ?thesis
  proof (cases scope)
    case None
    then show ?thesis using h1 held_requests[OF h1(1)] by (simp add: try_incremental_reconcile_def 1 replay_ends_def)
  next
    case (Some vc)
    obtain v c where vc: "vc = (v, c)" by fastforce
    obtain r2 en2 where 2: "en_look (fetch_event_delta (eo_events_since eo) v (ec_last_event_id c))
        (begin_activity FetchingEvents en1) = (r2, en2)" by fastforce
    have h2: "held en2 = held en" "en_phases en2 = en_phases en @ [FetchingEvents]" "en_pair en2 = en_pair en"
      using look_steps(1,2,4)[of "fetch_event_delta (eo_events_since eo) v (ec_last_event_id c)" "begin_activity FetchingEvents en1"]
        h1 by (simp_all add: 2 pair_steps)
    have h3: "held (note_feed_answered en2) = held en"
      "en_phases (note_feed_answered en2) = en_phases en @ [FetchingEvents]"
      using h2 by (simp_all add: note_steps)
    have wait: "replay_ends en force (wait_for_the_feed_or_walk eo se e en2)" for e
    proof -
      have w: "held (snd (wait_for_the_feed_or_walk eo se e en2)) = held en"
        using h2(1) by (simp add: wait_steps)
      have "fst (wait_for_the_feed_or_walk eo se e en2) = Inr IncFallback \<or>
          (\<exists>c. fst (wait_for_the_feed_or_walk eo se e en2) = Inl (FeedUnanswered c))"
        by (simp add: wait_for_the_feed_or_walk_def Let_def case_prod_beta)
      then show ?thesis
        using w held_requests[OF w] h2 by (auto simp: replay_ends_def wait_steps)
    qed
    have fell: "replay_ends en force (Inr IncFallback, note_feed_answered en2)"
      using h3 held_requests[OF h3(1)] by (simp add: replay_ends_def)
    show ?thesis
      using wait fell place_delta_ends[OF h3]
      by (simp add: try_incremental_reconcile_def 1 2 Some vc Let_def split: sum.split)
  qed
qed

section \<open>What a pass leaves\<close>

definition held_back :: "'w engine \<Rightarrow> 'w engine \<Rightarrow> bool" where
  "held_back en en' \<longleftrightarrow> held en' = held en \<and> en_phases en' = en_phases en @ [FetchingEvents] \<and>
    pr_listing_behind (en_pair en') = pr_listing_behind (en_pair en) \<and>
    pr_remote_root_uid_asked (en_pair en') = pr_remote_root_uid_asked (en_pair en)"

lemma held_back_pair: "held_back en en' \<Longrightarrow> en_pair en' = (en_pair en)\<lparr>pr_feed_outage := pr_feed_outage (en_pair en')\<rparr>"
  by (cases "en_pair en"; cases "en_pair en'") (simp add: held_back_def held_def kept_def)

lemma warm_start_fields:
  "requests (record_successful_warm_start se en) = requests en"
  "en_phases (record_successful_warm_start se en) = en_phases en"
  "pr_incremental_passes (en_pair (record_successful_warm_start se en)) = pr_incremental_passes (en_pair en)"
  by (simp_all add: record_successful_warm_start_def requests_def on_pair_def Let_def)

lemma replay_cases:
  assumes "try_incremental_reconcile eo se B force en1 = (r, en2)" "held en1 = held en" "en_phases en1 = en_phases en"
    "en_pair en1 = en_pair en"
  shows "requests en2 = requests en"
    "r = Inl (FeedUnanswered c) \<Longrightarrow> held_back en en2"
    "r = Inr IncIdle \<Longrightarrow> nothing_asks_for_a_scan force (en_pair en) \<and> en_phases en2 = en_phases en @ [FetchingEvents] \<and>
      pr_incremental_passes (en_pair en2) = saturating_succ (pr_incremental_passes (en_pair en))"
    "r = Inr IncFallback \<Longrightarrow> held en2 = held en \<and> prefix (en_phases en) (en_phases en2)"
    "r = Inr (IncCommitted outcome) \<Longrightarrow> en_phases en2 = en_phases en @ [FetchingEvents, ScanningLocal] \<and>
      pr_incremental_passes (en_pair en2) = saturating_succ (pr_incremental_passes (en_pair en))"
  using replay_end[of en1 force eo se B] assms held_requests[OF assms(2)]
  by (simp_all add: replay_ends_def held_back_def)

lemma first_ends_all:
  assumes "first_reconcile eo se B force en = (r, en')"
  shows "requests en' = requests en \<and> (r = Inr outcome \<longrightarrow> ScanningLocal \<in> set (en_phases en')) \<and>
    (r = Inl (FeedUnanswered c) \<longrightarrow> \<not> force \<and> fst (warm_start_eligible eo se B en) \<and> held_back en en') \<and>
    (force \<longrightarrow> reported en (r, en'))"
proof (cases "force \<or> \<not> fst (warm_start_eligible eo se B en)")
  case True
  define en1 where "en1 = (if force then en else snd (warm_start_eligible eo se B en))"
  have h: "held en1 = held en" "en_pair en1 = en_pair en" by (simp_all add: en1_def steps)
  have same: "reported en1 x = reported en x" for x by (simp only: reported_def h(2))
  have run: "bootstrap_reconcile eo se B en1 = (r, en')"
    using assms True by (auto simp: first_reconcile_def en1_def case_prod_beta split: if_splits bool.splits)
  note b = bootstrap_leaves[where eo=eo and se=se and B=B and en=en1, unfolded run fst_conv snd_conv]
  show ?thesis
    using b held_requests[OF h(1)] same by (auto simp: en1_def)
next
  case False
  define en1 where "en1 = snd (warm_start_eligible eo se B en)"
  have h: "held en1 = held en" "en_phases en1 = en_phases en" "en_pair en1 = en_pair en" by (simp_all add: en1_def steps)
  obtain r2 en2 where run: "try_incremental_reconcile eo se B True en1 = (r2, en2)" by fastforce
  note rc = replay_cases[OF run h]
  have res: "(r, en') = (case r2 of Inl e \<Rightarrow> (Inl e, en2)
      | Inr (IncCommitted outcome) \<Rightarrow> (Inr outcome, record_successful_warm_start se en2)
      | Inr IncIdle \<Rightarrow> (Inr PassClean, record_successful_warm_start se en2)
      | Inr IncFallback \<Rightarrow> bootstrap_reconcile eo se B en2)"
    using assms False run
    by (auto simp: first_reconcile_def en1_def case_prod_beta split: sum.split incremental_outcome.split)
  show ?thesis
  proof (cases r2)
    case (Inl e)
    then show ?thesis using res rc(1,2) False by simp
  next
    case (Inr i)
    show ?thesis
    proof (cases i)
      case (IncCommitted o2)
      then show ?thesis using res rc(1,5) Inr False by (simp add: warm_start_fields)
    next
      case IncIdle
      then show ?thesis using rc(3) Inr by (simp add: nothing_asks_for_a_scan_def)
    next
      case IncFallback
      then have "bootstrap_reconcile eo se B en2 = (r, en')" using res Inr by simp
      note b = bootstrap_leaves[where eo=eo and se=se and B=B and en=en2, unfolded this fst_conv snd_conv]
      show ?thesis using b rc(1) False by auto
    qed
  qed
qed

lemma first_ends:
  assumes "first_reconcile eo se B force en = (r, en')"
  shows "requests en' = requests en"
    "r = Inr outcome \<Longrightarrow> ScanningLocal \<in> set (en_phases en')"
    "r = Inl (FeedUnanswered c) \<Longrightarrow> \<not> force \<and> fst (warm_start_eligible eo se B en) \<and> held_back en en'"
    "force \<Longrightarrow> reported en (r, en')"
  using first_ends_all[OF assms] by auto

lemma steady_ends_all:
  assumes "steady_reconcile eo se B full en = (r, en')"
  shows "requests en' = requests en \<and> (r = Inr outcome \<longrightarrow> ScanningLocal \<in> set (en_phases en') \<or>
      \<not> full \<and> nothing_asks_for_a_scan (pr_force_local_rescan (en_pair en)) (en_pair en)) \<and>
    (r = Inl (FeedUnanswered c) \<longrightarrow> \<not> full \<and> fst (should_try_incremental eo se B en) \<and> held_back en en') \<and>
    (full \<longrightarrow> reported en (r, en')) \<and>
    (r = Inr outcome \<longrightarrow> ListingRemote \<in> set (en_phases en') \<and> pr_incremental_passes (en_pair en') = 0 \<or>
      \<not> full \<and> pr_incremental_passes (en_pair en) < effective_full_scan_every (se_events_full_scan_every se) \<and>
      pr_incremental_passes (en_pair en') = saturating_succ (pr_incremental_passes (en_pair en)))"
proof (cases "full \<or> \<not> fst (should_try_incremental eo se B en)")
  case True
  define en1 where "en1 = (if full then en else snd (should_try_incremental eo se B en))"
  have h: "held en1 = held en" "en_pair en1 = en_pair en" by (simp_all add: en1_def steps)
  have same: "reported en1 x = reported en x" for x by (simp only: reported_def h(2))
  have run: "bootstrap_reconcile eo se B en1 = (r, en')"
    using assms True by (auto simp: steady_reconcile_def en1_def case_prod_beta split: if_splits bool.splits)
  note b = bootstrap_leaves[where eo=eo and se=se and B=B and en=en1, unfolded run fst_conv snd_conv]
  show ?thesis
    using b held_requests[OF h(1)] same by (auto simp: en1_def)
next
  case False
  define en1 where "en1 = snd (should_try_incremental eo se B en)"
  have h: "held en1 = held en" "en_phases en1 = en_phases en" "en_pair en1 = en_pair en" by (simp_all add: en1_def steps)
  have below: "pr_incremental_passes (en_pair en) < effective_full_scan_every (se_events_full_scan_every se)"
    using False by (auto simp: should_try_incremental_def split: if_splits)
  obtain r2 en2 where run: "try_incremental_reconcile eo se B (pr_force_local_rescan (en_pair en)) en1 = (r2, en2)"
    by fastforce
  note rc = replay_cases[OF run h]
  have res: "(r, en') = (case r2 of Inl e \<Rightarrow> (Inl e, en2)
      | Inr (IncCommitted outcome) \<Rightarrow> (Inr outcome, en2)
      | Inr IncIdle \<Rightarrow> (Inr PassClean, en2)
      | Inr IncFallback \<Rightarrow> bootstrap_reconcile eo se B en2)"
    using assms False run h(3)
    by (auto simp: steady_reconcile_def en1_def case_prod_beta split: sum.split incremental_outcome.split)
  show ?thesis
  proof (cases r2)
    case (Inl e)
    then show ?thesis using res rc(1,2) False by simp
  next
    case (Inr i)
    show ?thesis
    proof (cases i)
      case (IncCommitted o2)
      then show ?thesis using res rc(1,5) Inr False below by simp
    next
      case IncIdle
      then show ?thesis using res rc(1,3) Inr False below by simp
    next
      case IncFallback
      then have "bootstrap_reconcile eo se B en2 = (r, en')" using res Inr by simp
      note b = bootstrap_leaves[where eo=eo and se=se and B=B and en=en2, unfolded this fst_conv snd_conv]
      show ?thesis using b rc(1) False by auto
    qed
  qed
qed

lemma steady_ends:
  assumes "steady_reconcile eo se B full en = (r, en')"
  shows "requests en' = requests en"
    "r = Inr outcome \<Longrightarrow> ScanningLocal \<in> set (en_phases en') \<or>
      \<not> full \<and> nothing_asks_for_a_scan (pr_force_local_rescan (en_pair en)) (en_pair en)"
    "r = Inl (FeedUnanswered c) \<Longrightarrow> \<not> full \<and> fst (should_try_incremental eo se B en) \<and> held_back en en'"
    "full \<Longrightarrow> reported en (r, en')"
    "r = Inr outcome \<Longrightarrow> ListingRemote \<in> set (en_phases en') \<and> pr_incremental_passes (en_pair en') = 0 \<or>
      \<not> full \<and> pr_incremental_passes (en_pair en) < effective_full_scan_every (se_events_full_scan_every se) \<and>
      pr_incremental_passes (en_pair en') = saturating_succ (pr_incremental_passes (en_pair en))"
  using steady_ends_all[OF assms] by auto

lemma reset_cases:
  obtains (none) "\<not> sh_reset_index (en_shared en)" "apply_reset eo en = (Inr (), en)"
  | (failed) e en1 where "sh_reset_index (en_shared en)" "apply_reset eo en = (Inl (PassError e), en1)" "en_pair en1 = en_pair en"
      "en_shared en1 = en_shared en" "en_phases en1 = en_phases en"
  | (reset) en1 where "sh_reset_index (en_shared en)" "apply_reset eo en = (Inr (), en1)"
      "en_pair en1 = (en_pair en)\<lparr>pr_db := reset_index_state (pr_db (en_pair en)), pr_is_first_reconcile := True,
         pr_force_local_rescan := True, pr_incremental_passes := 0, pr_listing_behind := None\<rparr>"
      "en_shared en1 = (en_shared en)\<lparr>sh_reset_index := False\<rparr>" "en_phases en1 = en_phases en"
proof (cases "sh_reset_index (en_shared en)")
  case True
  let ?l = "en_look (eo_sql_error eo) (on_shared (\<lambda>sh. sh\<lparr>sh_reset_index := False\<rparr>) en)"
  obtain x en1 where l: "?l = (x, en1)" by fastforce
  have f: "en_pair en1 = en_pair en" "en_shared en1 = (en_shared en)\<lparr>sh_reset_index := False\<rparr>" "en_phases en1 = en_phases en"
    using look_steps(2-4)[of "eo_sql_error eo" "on_shared (\<lambda>sh. sh\<lparr>sh_reset_index := False\<rparr>) en"]
    by (simp_all add: l pair_steps)
  show thesis
  proof (cases x)
    case (Some e)
    then show thesis using failed[of e] True l f by (simp add: apply_reset_def pair_steps)
  next
    case None
    then show thesis using reset True l f by (simp add: apply_reset_def pair_steps)
  qed
qed (use none in \<open>simp add: apply_reset_def\<close>)

lemma discharge_fields:
  "fst (discharge x) = fst x" "en_shared (snd (discharge x)) = en_shared (snd x)"
  "en_phases (snd (discharge x)) = en_phases (snd x)"
  "pr_incremental_passes (en_pair (snd (discharge x))) = pr_incremental_passes (en_pair (snd x))"
  "pr_is_first_reconcile (en_pair (snd (discharge x))) = pr_is_first_reconcile (en_pair (snd x))"
  "reported en (discharge x) = reported en x"
  "fst x \<noteq> Inr PassClean \<Longrightarrow> discharge x = x"
  "fst (discharge_first x) = fst x" "en_shared (snd (discharge_first x)) = en_shared (snd x)"
  "en_phases (snd (discharge_first x)) = en_phases (snd x)"
  "reported en (discharge_first x) = reported en x"
  "fst x \<noteq> Inr PassClean \<Longrightarrow> discharge_first x = x"
  by (cases x; auto simp: discharge_def discharge_first_def on_pair_def reported_def
      split: sum.split pass_outcome.split)+

text \<open>A pair with an empty baseline and no cursor has nothing to replay from.\<close>

lemma empty_scope:
  assumes "load_sole_event_cursor (pr_db (en_pair en)) = None"
  shows "fst (resolve_event_scope eo [] en) = None"
proof -
  have "fst (scope_volume eo [] en) \<noteq> Inr v" for v
    using assms steps by (auto simp: scope_volume_def derive_volume_id_def read_cursor_table_def volume_id_for_scope_def
        case_prod_beta look_steps split: option.split)
  then show ?thesis by (simp add: resolve_event_scope_def case_prod_beta split: sum.split)
qed

lemma reset_empties: "load_index (reset_index_state db) = Some []" "load_sole_event_cursor (reset_index_state db) = None"
  by (simp_all add: load_index_def reset_index_state_def load_sole_event_cursor_def)

lemma latches_end:
  assumes "reconcile_with_latches eo se resync en = (r, en')"
  shows "\<exists>b. en_shared en' = (en_shared en)\<lparr>sh_reset_index := b\<rparr> \<and> (b \<longrightarrow> sh_reset_index (en_shared en))" (is ?shared)
    "r = Inr outcome \<Longrightarrow> ScanningLocal \<in> set (en_phases en') \<or>
      \<not> sh_reset_index (en_shared en) \<and> \<not> resync \<and> pr_pass_intent (en_pair en) = None \<and>
      \<not> pr_is_first_reconcile (en_pair en) \<and>
      nothing_asks_for_a_scan (pr_force_local_rescan (en_pair en)) (en_pair en)" (is "_ \<Longrightarrow> ?scan")
    "r = Inl (FeedUnanswered c) \<Longrightarrow> held_back en en' \<and> \<not> sh_reset_index (en_shared en) \<and> \<not> resync \<and>
      pr_pass_intent (en_pair en) = None \<and>
      (pr_is_first_reconcile (en_pair en) \<or>
       pr_incremental_passes (en_pair en) < effective_full_scan_every (se_events_full_scan_every se))" (is "_ \<Longrightarrow> ?held")
    "pr_pass_intent (en_pair en) \<noteq> None \<Longrightarrow> reported en (r, en')"
    "r \<noteq> Inr PassClean \<Longrightarrow> (pr_is_first_reconcile (en_pair en) \<longrightarrow> pr_is_first_reconcile (en_pair en')) \<and>
      (pr_force_local_rescan (en_pair en) \<longrightarrow> pr_force_local_rescan (en_pair en')) \<and>
      (sh_reset_index (en_shared en) \<longrightarrow> sh_reset_index (en_shared en') \<or> pr_is_first_reconcile (en_pair en'))" (is "_ \<Longrightarrow> ?sticky")
    "r = Inr outcome \<Longrightarrow> \<not> pr_is_first_reconcile (en_pair en) \<Longrightarrow> \<not> sh_reset_index (en_shared en) \<Longrightarrow>
      ListingRemote \<in> set (en_phases en') \<and> pr_incremental_passes (en_pair en') = 0 \<or>
      pr_incremental_passes (en_pair en) < effective_full_scan_every (se_events_full_scan_every se) \<and>
      pr_incremental_passes (en_pair en') = saturating_succ (pr_incremental_passes (en_pair en))" (is "_ \<Longrightarrow> _ \<Longrightarrow> _ \<Longrightarrow> ?floor")
proof -
  have "?shared \<and> (r = Inr outcome \<longrightarrow> ?scan) \<and> (r = Inl (FeedUnanswered c) \<longrightarrow> ?held) \<and>
    (pr_pass_intent (en_pair en) \<noteq> None \<longrightarrow> reported en (r, en')) \<and> (r \<noteq> Inr PassClean \<longrightarrow> ?sticky) \<and>
    (r = Inr outcome \<and> \<not> pr_is_first_reconcile (en_pair en) \<and> \<not> sh_reset_index (en_shared en) \<longrightarrow> ?floor)"
  proof (cases rule: reset_cases[of en eo])
    case (failed e en1)
    then have "r = Inl (PassError e)" "en' = en1" using assms by (auto simp: reconcile_with_latches_def)
    with failed show ?thesis by (auto simp: reported_def intro!: exI[of _ True])
  next
    case none
    let ?full = "resync \<or> pr_pass_intent (en_pair en) \<noteq> None"
    show ?thesis
    proof (cases "load_index (pr_db (en_pair en))")
      case None
      then have "r = Inl (PassError ''unreadable index'')" "en' = en"
        using assms none by (auto simp: reconcile_with_latches_def Let_def)
      with none show ?thesis by (auto simp: reported_def intro!: exI[of _ False])
    next
      case (Some B)
      show ?thesis
      proof (cases "pr_is_first_reconcile (en_pair en)")
        case True
        obtain r1 en1 where run: "first_reconcile eo se B (?full \<or> se_force_full_walk se) en = (r1, en1)" by fastforce
        have d: "discharge_first (r1, en1) = (r, en')"
          using assms none Some True run by (simp add: reconcile_with_latches_def Let_def)
        note df = discharge_fields(8-12)[where x="(r1, en1)", unfolded d fst_conv snd_conv]
        note fe = first_ends[OF run]
        note rf = requests_fields[OF fe(1)]
        show ?thesis
          using df fe rf none True by (auto intro!: exI[of _ False])
      next
        case False
        obtain r1 en1 where run: "steady_reconcile eo se B ?full en = (r1, en1)" by fastforce
        have d: "discharge (r1, en1) = (r, en')"
          using assms none Some False run by (simp add: reconcile_with_latches_def Let_def)
        note df = discharge_fields(1-7)[where x="(r1, en1)", unfolded d fst_conv snd_conv]
        note se = steady_ends[OF run]
        note rf = requests_fields[OF se(1)]
        have below: "pr_incremental_passes (en_pair en) < effective_full_scan_every (se_events_full_scan_every se)"
          if "fst (should_try_incremental eo se B en)" using that by (auto simp: should_try_incremental_def split: if_splits)
        show ?thesis
          using df se rf none False below by (auto intro!: exI[of _ False])
      qed
    qed
  next
    case (reset en1)
    let ?full = "resync \<or> pr_pass_intent (en_pair en) \<noteq> None"
    obtain r1 en2 where run: "first_reconcile eo se [] (?full \<or> se_force_full_walk se) en1 = (r1, en2)" by fastforce
    have d: "discharge_first (r1, en2) = (r, en')"
      using assms reset run by (simp add: reconcile_with_latches_def Let_def reset_empties)
    note df = discharge_fields(8-12)[where x="(r1, en2)", unfolded d fst_conv snd_conv]
    note fe = first_ends[OF run]
    note rf = requests_fields[OF fe(1)]
    have "fst (resolve_event_scope eo [] en1) = None" by (rule empty_scope) (simp add: reset(3) reset_empties)
    then have "\<not> fst (warm_start_eligible eo se [] en1)" by (simp add: warm_start_eligible_def case_prod_beta)
    then have "r1 \<noteq> Inl (FeedUnanswered c)" using fe(3) by blast
    moreover have same: "pr_pass_intent (en_pair en1) = pr_pass_intent (en_pair en)"
      "pr_apply_report (en_pair en1) = pr_apply_report (en_pair en)" by (simp_all add: reset(3))
    moreover have "reported en x = reported en1 x" for x by (simp only: reported_def same)
    ultimately show ?thesis
      using df fe rf reset by (auto intro!: exI[of _ False])
  qed
  then show ?shared "r = Inr outcome \<Longrightarrow> ?scan" "r = Inl (FeedUnanswered c) \<Longrightarrow> ?held"
    "pr_pass_intent (en_pair en) \<noteq> None \<Longrightarrow> reported en (r, en')" "r \<noteq> Inr PassClean \<Longrightarrow> ?sticky"
    "r = Inr outcome \<Longrightarrow> \<not> pr_is_first_reconcile (en_pair en) \<Longrightarrow> \<not> sh_reset_index (en_shared en) \<Longrightarrow> ?floor"
    by blast+
qed

section \<open>The pass from end to end\<close>

lemma catch_up_fields:
  "\<exists>x. en_pair (catch_up_with_event_source_generation se en) =
      (en_pair en)\<lparr>pr_seen_generation := en_generation en, pr_incremental_passes := x\<rparr> \<and>
    (x = pr_incremental_passes (en_pair en) \<or>
      \<not> pr_is_first_reconcile (en_pair en) \<and> x = effective_full_scan_every (se_events_full_scan_every se)) \<and>
    en_shared (catch_up_with_event_source_generation se en) = en_shared en \<and>
    en_phases (catch_up_with_event_source_generation se en) = en_phases en \<and>
    en_generation (catch_up_with_event_source_generation se en) = en_generation en"
proof -
  have "en_pair en = (en_pair en)\<lparr>pr_seen_generation := pr_seen_generation (en_pair en),
      pr_incremental_passes := pr_incremental_passes (en_pair en)\<rparr>" by simp
  then show ?thesis
    by (intro exI[of _ "if pr_seen_generation (en_pair en) = en_generation en \<or> pr_is_first_reconcile (en_pair en)
        then pr_incremental_passes (en_pair en) else effective_full_scan_every (se_events_full_scan_every se)"])
      (auto simp: catch_up_with_event_source_generation_def on_pair_def Let_def)
qed

definition caught_up :: "pair_settings \<Rightarrow> 'w engine \<Rightarrow> 'w engine \<Rightarrow> bool" where
  "caught_up se en en' \<longleftrightarrow>
    (\<exists>x. en_pair en' = (en_pair en)\<lparr>pr_seen_generation := en_generation en', pr_incremental_passes := x\<rparr> \<and>
      (x = pr_incremental_passes (en_pair en) \<or>
        \<not> pr_is_first_reconcile (en_pair en) \<and> x = effective_full_scan_every (se_events_full_scan_every se))) \<and>
    en_shared en' = en_shared en \<and> en_phases en' = en_phases en"

lemma catch_up_same:
  assumes "en_pair en1 = en_pair en" "en_shared en1 = en_shared en" "en_phases en1 = en_phases en"
  shows "caught_up se en (catch_up_with_event_source_generation se en1)"
  using catch_up_fields[of se en1] assms unfolding caught_up_def by metis

lemma session_fields:
  "caught_up se en (catch_up_with_event_source_generation se (reacquire_event_source_if_needed eo se en))"
proof (cases "\<not> se_events_driven se \<or> en_source_live en \<or> \<not> fst (en_look (eo_open_session eo) en)")
  case True
  then have "reacquire_event_source_if_needed eo se en = en \<or>
      reacquire_event_source_if_needed eo se en = snd (en_look (eo_open_session eo) en)"
    by (auto simp: reacquire_event_source_if_needed_def case_prod_beta split: bool.split)
  then show ?thesis
  proof
    assume "reacquire_event_source_if_needed eo se en = en"
    then show ?thesis using catch_up_same[of en en se] by simp
  next
    assume r: "reacquire_event_source_if_needed eo se en = snd (en_look (eo_open_session eo) en)"
    show ?thesis unfolding r by (rule catch_up_same) (simp_all add: look_steps)
  qed
next
  case False
  define en1 where "en1 = (snd (en_look (eo_open_session eo) en))\<lparr>en_source_live := True,
    en_generation := en_generation (snd (en_look (eo_open_session eo) en)) + 1\<rparr>"
  have r: "reacquire_event_source_if_needed eo se en = catch_up_with_event_source_generation se en1"
    using False by (auto simp: reacquire_event_source_if_needed_def en1_def case_prod_beta split: bool.split)
  have "pr_seen_generation (en_pair (catch_up_with_event_source_generation se en1)) =
      en_generation (catch_up_with_event_source_generation se en1)"
    using catch_up_fields[of se en1] by auto
  then have "catch_up_with_event_source_generation se (catch_up_with_event_source_generation se en1) =
      catch_up_with_event_source_generation se en1"
    by (subst catch_up_with_event_source_generation_def) simp
  then show ?thesis unfolding r by (auto intro!: catch_up_same simp: en1_def look_steps)
qed

text \<open>The state a pass enters its work with, once it has taken its requests and found its folder.\<close>

definition entered :: "pair_settings \<Rightarrow> 'w engine \<Rightarrow> 'w engine \<Rightarrow> bool" where
  "entered se en en4 \<longleftrightarrow>
    (\<exists>x g. en_pair en4 = (en_pair en)\<lparr>pr_pass_intent := sh_queued_apply (en_shared en), pr_apply_report := None,
        pr_seen_generation := g, pr_incremental_passes := x, pr_authored_writes := {},
        pr_failed_items := [], pr_failed_item_count := 0\<rparr> \<and>
      (x = pr_incremental_passes (en_pair en) \<or>
        \<not> pr_is_first_reconcile (en_pair en) \<and> x = effective_full_scan_every (se_events_full_scan_every se))) \<and>
    en_shared en4 = (en_shared en)\<lparr>sh_queued_apply := None, sh_force_full_walk := False\<rparr> \<and> en_phases en4 = []"

definition bumped :: "'w engine \<Rightarrow> 'w engine" where
  "bumped = on_shared (\<lambda>sh. sh\<lparr>sh_reconcile_seq := sh_reconcile_seq sh + 1\<rparr>)"

lemma pass_stages:
  assumes "reconcile_blocking eo se en = (r, en')"
  obtains (closed) e en1 where "r = Inl (PassFailure e)" "en_pair en1 = en_pair en" "en_shared en1 = en_shared en"
      "en_phases en1 = []" "en' = bumped (seal_apply_outcome en1)"
  | (gone) e en1 where "r = Inl (PassFailure e)" "en_phases en1 = []"
      "en_pair en1 = (en_pair en)\<lparr>pr_pass_intent := sh_queued_apply (en_shared en), pr_apply_report := None\<rparr>"
      "en_shared en1 = (en_shared en)\<lparr>sh_queued_apply := None\<rparr>" "en' = bumped (seal_apply_outcome en1)"
  | (ran) en4 en5 where "entered se en en4"
      "reconcile_with_latches eo se (sh_force_full_walk (en_shared en)) en4 = (r, en5)"
      "\<forall>c. r \<noteq> Inl (FeedUnanswered c)"
      "en' = bumped (seal_apply_outcome (if sh_force_full_walk (en_shared en) \<and> (case r of Inl e \<Rightarrow> is_root_unavailable e | Inr _ \<Rightarrow> False)
        then on_shared (\<lambda>sh. sh\<lparr>sh_force_full_walk := True\<rparr>) en5 else en5))"
  | (held) c en4 en5 where "entered se en en4"
      "reconcile_with_latches eo se (sh_force_full_walk (en_shared en)) en4 = (r, en5)" "r = Inl (FeedUnanswered c)"
      "en' = seal_apply_outcome (on_pair (\<lambda>pr. pr\<lparr>pr_failed_items := pr_failed_items (en_pair en),
        pr_failed_item_count := pr_failed_item_count (en_pair en)\<rparr>) en5)"
proof -
  obtain r0 en0 where 0: "en_call (eo_open_cache eo) (en\<lparr>en_phases := []\<rparr>) = (r0, en0)" by fastforce
  have f0: "en_pair en0 = en_pair en" "en_phases en0 = []" "en_shared en0 = en_shared en"
    using call_steps(2,3)[of "eo_open_cache eo" "en\<lparr>en_phases := []\<rparr>"] look_steps(3)[of "eo_open_cache eo" "en\<lparr>en_phases := []\<rparr>"]
      0 by (auto simp: en_call_def case_prod_beta split: sum.splits)
  show thesis
  proof (cases r0)
    case (Inl e)
    with 0 obtain x where x: "e = PassFailure x" using call_errors by blast
    with assms 0 Inl have "r = Inl (PassFailure x)" "en' = bumped (seal_apply_outcome en0)"
      by (simp_all add: reconcile_blocking_def bumped_def Let_def)
    then show thesis using closed f0 by blast
  next
    case (Inr u)
    define en1 where "en1 = on_shared (\<lambda>sh. sh\<lparr>sh_queued_apply := None\<rparr>)
      (on_pair (\<lambda>pr. pr\<lparr>pr_pass_intent := sh_queued_apply (en_shared en0), pr_apply_report := None\<rparr>) en0)"
    obtain r2 en2 where 2: "ensure_root_available eo en1 = (r2, en2)" by fastforce
    have f2: "en_pair en2 = (en_pair en)\<lparr>pr_pass_intent := sh_queued_apply (en_shared en), pr_apply_report := None\<rparr>"
      "en_shared en2 = (en_shared en)\<lparr>sh_queued_apply := None\<rparr>" "en_phases en2 = []"
      using root_steps(2,3)[of eo en1, unfolded 2 snd_conv] held_requests[OF root_steps(1)[of eo en1, unfolded 2 snd_conv]] f0
      by (auto simp: en1_def pair_steps requests_def)
    show thesis
    proof (cases r2)
      case (Inl e)
      with 2 obtain x where x: "e = PassFailure x" using call_errors unfolding ensure_root_available_def by blast
      with assms 0 Inr 2 Inl have "r = Inl (PassFailure x)" "en' = bumped (seal_apply_outcome en2)"
        by (simp_all add: reconcile_blocking_def reconcile_blocking_inner_def en1_def[symmetric] bumped_def Let_def)
      then show thesis using gone f2 by blast
    next
      case r2: (Inr u2)
      define en3 where "en3 = catch_up_with_event_source_generation se (reacquire_event_source_if_needed eo se en2)"
      define en4 where "en4 = on_shared (\<lambda>sh. sh\<lparr>sh_force_full_walk := False\<rparr>)
        (on_pair (\<lambda>pr. pr\<lparr>pr_authored_writes := {}, pr_failed_items := [], pr_failed_item_count := 0\<rparr>) en3)"
      obtain x where x: "en_pair en3 = (en_pair en2)\<lparr>pr_seen_generation := en_generation en3, pr_incremental_passes := x\<rparr>"
        "x = pr_incremental_passes (en_pair en2) \<or>
          \<not> pr_is_first_reconcile (en_pair en2) \<and> x = effective_full_scan_every (se_events_full_scan_every se)"
        "en_shared en3 = en_shared en2" "en_phases en3 = en_phases en2"
        using session_fields[of se en2 eo] unfolding en3_def caught_up_def by blast
      have ent: "entered se en en4"
        unfolding entered_def using x f2 by (auto simp: en4_def pair_steps intro!: exI[of _ x] exI[of _ "en_generation en3"])
      have resync: "sh_force_full_walk (en_shared en3) = sh_force_full_walk (en_shared en)" using x(3) f2 by simp
      have failed: "pr_failed_items (en_pair en3) = pr_failed_items (en_pair en)"
        "pr_failed_item_count (en_pair en3) = pr_failed_item_count (en_pair en)" using x(1) f2 by simp_all
      obtain r5 en5 where 5: "reconcile_with_latches eo se (sh_force_full_walk (en_shared en)) en4 = (r5, en5)" by fastforce
      have inner: "reconcile_blocking_inner eo se en0 =
          (case r5 of Inr outcome \<Rightarrow> (Inr outcome, en5)
           | Inl e \<Rightarrow> (let en6 = (if sh_force_full_walk (en_shared en) \<and> is_root_unavailable e
               then on_shared (\<lambda>sh. sh\<lparr>sh_force_full_walk := True\<rparr>) en5 else en5)
             in (Inl e, if is_feed_unanswered e then on_pair (\<lambda>pr. pr\<lparr>pr_failed_items := pr_failed_items (en_pair en),
                  pr_failed_item_count := pr_failed_item_count (en_pair en)\<rparr>) en6 else en6)))"
        using 5 by (simp add: reconcile_blocking_inner_def en1_def[symmetric] 2 r2 en3_def[symmetric] en4_def[symmetric]
            resync failed Let_def split: sum.split)
      show thesis
      proof (cases "\<exists>c. r5 = Inl (FeedUnanswered c)")
        case True
        then obtain c where c: "r5 = Inl (FeedUnanswered c)" by blast
        then show thesis
          using held[OF ent, of en5 c] assms 0 Inr inner 5 by (simp add: reconcile_blocking_def Let_def)
      next
        case False
        define en6 where "en6 = (if sh_force_full_walk (en_shared en) \<and>
            (case r5 of Inl e \<Rightarrow> is_root_unavailable e | Inr _ \<Rightarrow> False)
          then on_shared (\<lambda>sh. sh\<lparr>sh_force_full_walk := True\<rparr>) en5 else en5)"
        have "reconcile_blocking_inner eo se en0 = (r5, en6) \<and> \<not> (case r5 of Inl e \<Rightarrow> is_feed_unanswered e | Inr _ \<Rightarrow> False)"
        proof (cases r5)
          case r5: (Inl e)
          then have "\<not> is_feed_unanswered e" using False by (cases e) auto
          then show ?thesis unfolding inner en6_def r5 by (simp add: Let_def)
        next
          case r5: (Inr outcome)
          show ?thesis unfolding inner en6_def r5 by simp
        qed
        then have "r = r5" "en' = bumped (seal_apply_outcome en6)"
          using assms 0 Inr by (auto simp: reconcile_blocking_def bumped_def Let_def)
        with ran[OF ent, of en5] 5 False show thesis unfolding en6_def by simp
      qed
    qed
  qed
qed

lemma seal_fields:
  "en_phases (seal_apply_outcome en) = en_phases en"
  "pr_is_first_reconcile (en_pair (seal_apply_outcome en)) = pr_is_first_reconcile (en_pair en)"
  "pr_force_local_rescan (en_pair (seal_apply_outcome en)) = pr_force_local_rescan (en_pair en)"
  "pr_incremental_passes (en_pair (seal_apply_outcome en)) = pr_incremental_passes (en_pair en)"
  "pr_db (en_pair (seal_apply_outcome en)) = pr_db (en_pair en)"
  "sh_reset_index (en_shared (seal_apply_outcome en)) = sh_reset_index (en_shared en)"
  "sh_force_full_walk (en_shared (seal_apply_outcome en)) = sh_force_full_walk (en_shared en)"
  "sh_queued_apply (en_shared (seal_apply_outcome en)) = sh_queued_apply (en_shared en)"
  "pr_pass_intent (en_pair en) = None \<Longrightarrow> seal_apply_outcome en = en"
  "pr_pass_intent (en_pair en) = Some a \<Longrightarrow> sh_sealed_apply (en_shared (seal_apply_outcome en)) =
    Some (aq_seq a, case pr_apply_report (en_pair en) of Some v \<Rightarrow> v | None \<Rightarrow> VerdictFailed)"
  "pr_pass_intent (en_pair (seal_apply_outcome en)) = None"
  by (auto simp: seal_apply_outcome_def pair_steps Let_def split: option.split)

lemma bumped_fields:
  "en_phases (bumped en) = en_phases en" "en_pair (bumped en) = en_pair en"
  "sh_reset_index (en_shared (bumped en)) = sh_reset_index (en_shared en)"
  "sh_force_full_walk (en_shared (bumped en)) = sh_force_full_walk (en_shared en)"
  "sh_queued_apply (en_shared (bumped en)) = sh_queued_apply (en_shared en)"
  "sh_sealed_apply (en_shared (bumped en)) = sh_sealed_apply (en_shared en)"
  by (simp_all add: bumped_def pair_steps)

lemma relatch_fields:
  "en_phases (if b then on_shared (\<lambda>sh. sh\<lparr>sh_force_full_walk := True\<rparr>) en else en) = en_phases en"
  "en_pair (if b then on_shared (\<lambda>sh. sh\<lparr>sh_force_full_walk := True\<rparr>) en else en) = en_pair en"
  "sh_reset_index (en_shared (if b then on_shared (\<lambda>sh. sh\<lparr>sh_force_full_walk := True\<rparr>) en else en)) =
    sh_reset_index (en_shared en)"
  "sh_queued_apply (en_shared (if b then on_shared (\<lambda>sh. sh\<lparr>sh_force_full_walk := True\<rparr>) en else en)) =
    sh_queued_apply (en_shared en)"
  "sh_force_full_walk (en_shared (if b then on_shared (\<lambda>sh. sh\<lparr>sh_force_full_walk := True\<rparr>) en else en)) \<longleftrightarrow>
    b \<or> sh_force_full_walk (en_shared en)"
  by (simp_all add: pair_steps)

lemma entered_fields:
  assumes "entered se en en4"
  shows "pr_is_first_reconcile (en_pair en4) = pr_is_first_reconcile (en_pair en)"
    "pr_force_local_rescan (en_pair en4) = pr_force_local_rescan (en_pair en)"
    "pr_pending_changes (en_pair en4) = pr_pending_changes (en_pair en)"
    "pr_pending_deletions (en_pair en4) = pr_pending_deletions (en_pair en)"
    "pr_pass_intent (en_pair en4) = sh_queued_apply (en_shared en)" "pr_apply_report (en_pair en4) = None"
    "en_shared en4 = (en_shared en)\<lparr>sh_queued_apply := None, sh_force_full_walk := False\<rparr>" "en_phases en4 = []"
    "pr_db (en_pair en4) = pr_db (en_pair en)"
    "pr_incremental_passes (en_pair en4) = pr_incremental_passes (en_pair en) \<or>
      \<not> pr_is_first_reconcile (en_pair en) \<and>
      pr_incremental_passes (en_pair en4) = effective_full_scan_every (se_events_full_scan_every se)"
  using assms unfolding entered_def by auto

lemma entered_nothing_asks:
  "entered se en en4 \<Longrightarrow> nothing_asks_for_a_scan f (en_pair en4) = nothing_asks_for_a_scan f (en_pair en)"
  using entered_fields(3,4)[of se en en4] by (simp add: nothing_asks_for_a_scan_def)

section \<open>The properties\<close>


text \<open>C13: a pass that is held because the event stream did not answer scans nothing, lists nothing and leaves the pair
  as it was: its index, its cursor, every request and every latch. Only the wait itself is noted.\<close>

theorem held_pass_changes_nothing:
  assumes "reconcile_blocking eo se en = (Inl (FeedUnanswered c), en')" "pr_pass_intent (en_pair en) = None"
    "pr_apply_report (en_pair en) = None"
  shows "en_shared en' = en_shared en \<and> en_phases en' = [FetchingEvents] \<and>
    en_pair en' = (en_pair en)\<lparr>pr_feed_outage := pr_feed_outage (en_pair en'), pr_authored_writes := {},
      pr_seen_generation := pr_seen_generation (en_pair en')\<rparr>"
  using assms(1)
proof (cases rule: pass_stages)
  case (held c' en4 en5)
  note le = latches_end(3)[OF held(2), of c']
  have hb: "held_back en4 en5" "\<not> sh_force_full_walk (en_shared en)" "\<not> sh_reset_index (en_shared en4)"
    "pr_pass_intent (en_pair en4) = None" using le held(3) by simp_all
  note ent = entered_fields[OF held(1)]
  have queue: "sh_queued_apply (en_shared en) = None" using ent(5) hb(4) by simp
  have incr: "pr_incremental_passes (en_pair en4) = pr_incremental_passes (en_pair en)"
    using le held(3) ent(1,10) by auto
  have p5: "en_pair en5 = (en_pair en4)\<lparr>pr_feed_outage := pr_feed_outage (en_pair en5)\<rparr>"
    using held_back_pair[OF hb(1)] .
  have s5: "en_shared en5 = (en_shared en)\<lparr>sh_queued_apply := None, sh_force_full_walk := False\<rparr>"
    "en_phases en5 = [FetchingEvents]"
    using hb(1) ent(7,8) by (simp_all add: held_back_def held_def)
  obtain x g where x: "en_pair en4 = (en_pair en)\<lparr>pr_pass_intent := None, pr_apply_report := None,
      pr_seen_generation := g, pr_incremental_passes := x, pr_authored_writes := {},
      pr_failed_items := [], pr_failed_item_count := 0\<rparr>"
    using held(1) queue unfolding entered_def by auto
  have "x = pr_incremental_passes (en_pair en)" using arg_cong[OF x, of pr_incremental_passes] incr by simp
  have noop: "pr_pass_intent (en_pair (on_pair (\<lambda>pr. pr\<lparr>pr_failed_items := pr_failed_items (en_pair en),
        pr_failed_item_count := pr_failed_item_count (en_pair en)\<rparr>) en5)) = None"
    using arg_cong[OF p5, of pr_pass_intent] hb(4) by (simp add: pair_steps)
  have en': "en' = on_pair (\<lambda>pr. pr\<lparr>pr_failed_items := pr_failed_items (en_pair en),
        pr_failed_item_count := pr_failed_item_count (en_pair en)\<rparr>) en5"
    using held(4) seal_fields(9)[OF noop] by simp
  have pair: "en_pair en' = (en_pair en)\<lparr>pr_feed_outage := pr_feed_outage (en_pair en5), pr_authored_writes := {},
      pr_seen_generation := g\<rparr>"
    unfolding en' pair_steps
    by (subst p5, subst x) (use assms(2,3) \<open>x = _\<close> in \<open>cases "en_pair en"; simp\<close>)
  have "en_shared en' = en_shared en" using s5(1) queue hb(2) by (simp add: en' pair_steps)
  moreover have "en_phases en' = [FetchingEvents]" using s5(2) by (simp add: en' pair_steps)
  ultimately show ?thesis using pair by simp
qed simp_all

lemma asked_pass_scans:
  assumes "reconcile_blocking eo se en = (Inr outcome, en')"
  shows "ScanningLocal \<in> set (en_phases en') \<or>
    \<not> pr_is_first_reconcile (en_pair en) \<and> \<not> pr_force_local_rescan (en_pair en) \<and> pr_pending_changes (en_pair en) = {} \<and>
    pr_pending_deletions (en_pair en) = [] \<and> \<not> sh_force_full_walk (en_shared en) \<and>
    \<not> sh_reset_index (en_shared en) \<and> sh_queued_apply (en_shared en) = None"
  using assms
proof (cases rule: pass_stages)
  case (ran en4 en5)
  note ent = entered_fields[OF ran(1)]
  have "en_phases en' = en_phases en5" using ran(4) by (simp add: bumped_fields seal_fields)
  with latches_end(2)[OF ran(2) refl] ent entered_nothing_asks[OF ran(1)] show ?thesis
    by (auto simp: nothing_asks_for_a_scan_def)
qed simp_all

text \<open>C10: a pass that reports success has walked the local tree, unless nothing asked for it: no event of the watcher,
  no pending deletion, no lost event, no first pass and no request. So an edit made while the engine was down or
  not looking is never taken for nothing to do.\<close>

theorem no_edit_is_stranded:
  assumes "reconcile_blocking eo se en = (Inr outcome, en')"
  shows "ScanningLocal \<in> set (en_phases en') \<or>
    \<not> pr_is_first_reconcile (en_pair en) \<and> \<not> pr_force_local_rescan (en_pair en) \<and> pr_pending_changes (en_pair en) = {} \<and>
    pr_pending_deletions (en_pair en) = [] \<and> \<not> sh_force_full_walk (en_shared en) \<and>
    \<not> sh_reset_index (en_shared en) \<and> sh_queued_apply (en_shared en) = None"
  using assms by (rule asked_pass_scans)


text \<open>Passes of a steady pair that replayed the stream one after another, with anything in between that does not
  touch the pass's own counter.\<close>

inductive replays :: "'w engine_outside \<Rightarrow> pair_settings \<Rightarrow> nat \<Rightarrow> 'w engine \<Rightarrow> 'w engine \<Rightarrow> bool" for eo se where
  none: "replays eo se 0 en en"
| one_more: "replays eo se n en en1 \<Longrightarrow> pr_incremental_passes (en_pair en2) = pr_incremental_passes (en_pair en1) \<Longrightarrow>
    \<not> pr_is_first_reconcile (en_pair en2) \<Longrightarrow> \<not> sh_reset_index (en_shared en2) \<Longrightarrow>
    reconcile_blocking eo se en2 = (Inr outcome, en3) \<Longrightarrow> ListingRemote \<notin> set (en_phases en3) \<Longrightarrow>
    replays eo se (Suc n) en en3"

lemma replay_counts:
  assumes "reconcile_blocking eo se en = (Inr outcome, en')" "\<not> pr_is_first_reconcile (en_pair en)"
    "\<not> sh_reset_index (en_shared en)"
  shows "ListingRemote \<in> set (en_phases en') \<and> pr_incremental_passes (en_pair en') = 0 \<or>
    pr_incremental_passes (en_pair en) < effective_full_scan_every (se_events_full_scan_every se) \<and>
    pr_incremental_passes (en_pair en') = saturating_succ (pr_incremental_passes (en_pair en))"
  using assms(1)
proof (cases rule: pass_stages)
  case (ran en4 en5)
  note ent = entered_fields[OF ran(1)]
  from latches_end(6)[OF ran(2) refl] ent assms(2,3) show ?thesis
    by (auto simp: ran(4) bumped_fields seal_fields)
qed simp_all

lemma saturating_succ_below:
  assumes "n < m"
  shows "unat (saturating_succ n) = Suc (unat n)"
proof -
  have "unat n + unat (1::u64) < 2 ^ LENGTH(64)"
    using assms unsigned_less[of m, where 'a=nat] by (simp add: word_less_nat_alt)
  then have "unat (n + 1) = unat n + 1" unfolding unat_add_lem by simp
  moreover have "n \<noteq> - 1" using assms word_order.extremum_strict by (metis word_order.not_eq_extremum)
  ultimately show ?thesis by (simp add: saturating_succ_def)
qed

text \<open>C31: where a periodic resync is configured, the remote tree is walked again after at most that many replays in a
  row, whatever happens between them.\<close>

theorem walks_again_within_the_floor:
  assumes "replays eo se n en en'" "se_events_full_scan_every se \<noteq> 0"
  shows "n \<le> unat (se_events_full_scan_every se)"
proof -
  let ?floor = "se_events_full_scan_every se"
  have "unat (pr_incremental_passes (en_pair en')) = unat (pr_incremental_passes (en_pair en)) + n \<and>
      (n = 0 \<or> unat (pr_incremental_passes (en_pair en')) \<le> unat ?floor)"
    using assms(1)
  proof (induction rule: replays.induct)
    case (one_more n en en1 en2 outcome en3)
    from replay_counts[OF one_more(5,3,4)] one_more(6)
    have "pr_incremental_passes (en_pair en2) < ?floor"
      "pr_incremental_passes (en_pair en3) = saturating_succ (pr_incremental_passes (en_pair en2))"
      using assms(2) by (auto simp: effective_full_scan_every_def)
    then have "unat (pr_incremental_passes (en_pair en3)) = Suc (unat (pr_incremental_passes (en_pair en2)))"
      "unat (pr_incremental_passes (en_pair en2)) < unat ?floor"
      using saturating_succ_below by (auto simp: word_less_nat_alt)
    with one_more show ?case by auto
  qed simp
  then show ?thesis by auto
qed

section \<open>Witnesses\<close>

text \<open>An empty pair under the world of \<open>wx\<close>, its stream at \<^verbatim>\<open>e1\<close>: what the stream and the folder answer is
  left to the example.\<close>

definition rx_outside :: "(fetch_error + volume_event_page) \<Rightarrow> (failure + unit) \<Rightarrow> unit engine_outside" where
  "rx_outside fetched root = \<lparr>eo_ow = wx\<lparr>ow_ensure_root_available := \<lambda>w. (root, w)\<rparr>,
     eo_open_cache = \<lambda>w. (Inr (), w), eo_open_session = \<lambda>w. (True, w), eo_events_since = \<lambda>_ _ w. (fetched, w),
     eo_latest_cursor = \<lambda>_ w. (Inr ''e3'', w), eo_remote_root_uid = \<lambda>_ w. (Inr None, w),
     eo_list_directory = \<lambda>_ _ w. (Inr [], w), eo_list_entities = \<lambda>_ w. (Inr (Some []), w),
     eo_resolve = \<lambda>w. (\<lambda>_. Inr [], w), eo_tree = \<lambda>w. (Entries [], w), eo_instant = \<lambda>w. (7, w),
     eo_sql_error = \<lambda>w. (None, w)\<rparr>"

definition rx_settings :: pair_settings where
  "rx_settings = \<lparr>se_local_root = [RootDir], se_remote_root = [Normal ''Drive''], se_naming = naming_from_suffix default_conflict_suffix,
     se_scan_options = \<lparr>so_ignored_relative_paths = [], so_include_patterns = \<lambda>_. True, so_include_pattern_strings = [],
       so_has_include_patterns = False, so_exclude_patterns = \<lambda>_. False, so_conflict_naming = naming_from_suffix default_conflict_suffix\<rparr>,
     se_gate = gx_config, se_pass = wx_config, se_sha256 = \<lambda>_. [], se_events_driven = True,
     se_events_full_scan_every = 3, se_warm_enabled = True, se_warm_full_walk_every = 2, se_warm_max_cursor_age = 0,
     se_force_full_walk = False, se_feed_outage_bound = 60\<rparr>"


definition rx_pair :: pair_runtime where
  "rx_pair = \<lparr>pr_db = fresh_database\<lparr>db_event_cursor := [(''vol'', ''e1'', 4)]\<rparr>, pr_unsyncable = [],
     pr_pending_changes = {}, pr_authored_writes = {}, pr_force_local_rescan = False, pr_is_first_reconcile = False,
     pr_incremental_passes = 2, pr_warm_starts = 0, pr_remote_root_uid_asked = False, pr_feed_outage = None,
     pr_listing_behind = None, pr_seen_generation = 1, pr_pending_deletions = [], pr_failed_items = [],
     pr_failed_item_count = 0, pr_force_delete_approval = False, pr_pass_intent = None, pr_apply_report = None\<rparr>"

definition rx_engine :: "apply_request option \<Rightarrow> pair_runtime \<Rightarrow> unit engine" where
  "rx_engine q pr = \<lparr>en_world = (), en_pair = pr,
     en_shared = \<lparr>sh_force_full_walk = False, sh_reset_index = False, sh_queued_apply = q, sh_sealed_apply = None,
       sh_reconcile_seq = 5\<rparr>,
     en_source_live = True, en_generation = 1, en_phases = []\<rparr>"

definition rx_page :: volume_event_page where
  "rx_page = \<lparr>vp_latest_event_id = ''e1'', vp_more = False, vp_refresh = False, vp_changes = []\<rparr>"

definition rx_apply :: apply_request where
  "rx_apply = \<lparr>aq_seq = 4, aq_token = ''1:'', aq_skip_destructive = False\<rparr>"

definition rx_applying :: "(pass_error + pass_outcome) \<times> unit engine" where
  "rx_applying = reconcile_blocking (rx_outside (Inr rx_page) (Inr ())) rx_settings (rx_engine (Some rx_apply) rx_pair)"

definition rx_waiting :: "(pass_error + pass_outcome) \<times> unit engine" where
  "rx_waiting = reconcile_blocking (rx_outside (Inl (TransientFetchError ''503'')) (Inr ())) rx_settings
     (rx_engine None rx_pair)"

definition rx_unmounted :: "(pass_error + pass_outcome) \<times> unit engine" where
  "rx_unmounted = reconcile_blocking
     (rx_outside (Inr rx_page) (Inl \<lparr>fl_kind = RootUnavailableFailure, fl_text = ''gone''\<rparr>)) rx_settings
     (rx_engine None (rx_pair\<lparr>pr_is_first_reconcile := True\<rparr>))"

definition rx_replayed :: "(pass_error + pass_outcome) \<times> unit engine" where
  "rx_replayed = reconcile_blocking (rx_outside (Inr rx_page) (Inr ())) rx_settings (rx_engine None rx_pair)"

definition rx_edited :: "(pass_error + pass_outcome) \<times> unit engine" where
  "rx_edited = reconcile_blocking (rx_outside (Inr rx_page) (Inr ())) rx_settings
     (rx_engine None (rx_pair\<lparr>pr_pending_changes := {[Normal ''a'']}\<rparr>))"

lemma rx_ends: "fst rx_applying = Inr PassClean" "fst rx_waiting = Inl (FeedUnanswered ''503'')"
  "fst rx_replayed = Inr PassClean" "en_phases (snd rx_replayed) = [FetchingEvents]"
  "fst rx_edited = Inr PassClean"
  by code_simp+

lemma rx_engine_fields:
  "sh_queued_apply (en_shared (rx_engine q pr)) = q" "en_pair (rx_engine q pr) = pr"
  "\<not> sh_force_full_walk (en_shared (rx_engine q pr))" "\<not> sh_reset_index (en_shared (rx_engine q pr))"
  "pr_pass_intent rx_pair = None" "pr_apply_report rx_pair = None" "pr_incremental_passes rx_pair = 2"
  "\<not> pr_is_first_reconcile rx_pair"
  by (simp_all add: rx_engine_def rx_pair_def)


theorem held_pass_changes_nothing_witness:
  "en_shared (snd rx_waiting) = en_shared (rx_engine None rx_pair) \<and> en_phases (snd rx_waiting) = [FetchingEvents]"
proof -
  have "rx_waiting = (Inl (FeedUnanswered ''503''), snd rx_waiting)" using rx_ends(2) by (metis surjective_pairing)
  from held_pass_changes_nothing[OF this[unfolded rx_waiting_def], folded rx_waiting_def] show ?thesis
    by (simp add: rx_engine_fields)
qed

theorem no_edit_is_stranded_witness: "ScanningLocal \<in> set (en_phases (snd rx_edited))"
proof -
  have "rx_edited = (Inr PassClean, snd rx_edited)" using rx_ends(5) by (metis surjective_pairing)
  from no_edit_is_stranded[OF this[unfolded rx_edited_def], folded rx_edited_def] show ?thesis
    by (simp add: rx_engine_fields)
qed


theorem walks_again_within_the_floor_witness:
  "replays (rx_outside (Inr rx_page) (Inr ())) rx_settings 1 (rx_engine None rx_pair) (snd rx_replayed) \<and>
   (1::nat) \<le> unat (3::u64)"
proof -
  have "rx_replayed = (Inr PassClean, snd rx_replayed)" using rx_ends(3) by (metis surjective_pairing)
  then have "replays (rx_outside (Inr rx_page) (Inr ())) rx_settings (Suc 0) (rx_engine None rx_pair) (snd rx_replayed)"
    using rx_ends(4) unfolding rx_replayed_def
    by (intro replays.one_more[OF replays.none refl]) (simp_all add: rx_engine_fields)
  from this walks_again_within_the_floor[OF this] show ?thesis by (simp add: rx_settings_def)
qed

end
