(* ===== verification/Cursor_Props.thy ===== *)
theory Cursor_Props
  imports Reconcile_Props
begin

text \<open>
  Where the event cursor of a pair may move (\<^verbatim>\<open>src/daemon.rs\<close>): a walk anchors it at what the stream said before
  the tree was listed, a replay moves it past the events it has placed. A cursor past an event the engine has not
  applied loses that event for good, so these are the properties the incremental mode rests on.
\<close>

section \<open>The rows a step writes\<close>

definition cursors :: "'w engine \<Rightarrow> (bytes, bytes \<times> int) hmap" where
  "cursors en = db_event_cursor (pr_db (en_pair en))"

definition row_written :: "cursor_update \<Rightarrow> (bytes, bytes \<times> int) hmap \<Rightarrow> (bytes, bytes \<times> int) hmap \<Rightarrow> bool" where
  "row_written cu t t' \<longleftrightarrow> (\<exists>at_secs. t' = hm_insert (cu_scope_id cu) (cu_last_event_id cu, at_secs) t)"

lemma finish_row:
  assumes "finish_pass ow xc settled cursor rn st = (pe, st')"
  shows "db_event_cursor (xs_db st') = db_event_cursor (xs_db st) \<or>
    pe = PassEnded PassClean \<and> (\<exists>cu. cursor = Some cu \<and> row_written cu (db_event_cursor (xs_db st)) (db_event_cursor (xs_db st')))"
proof -
  obtain u st1 where l: "xs_look (ow_ensure_root_available ow) st = (u, st1)" by fastforce
  note fields = xs_look_eq[OF l]
  show ?thesis
  proof (cases u)
    case (Inl e)
    with assms l fields show ?thesis by (auto simp: finish_pass_def checkpoint_fields)
  next
    case (Inr v)
    note closed = finish_available[OF l[unfolded Inr] assms]
    define held where "held = held_cursor (xc_gate xc) st1 cursor"
    have cur: "db_event_cursor (xs_db st') = db_event_cursor (xs_db (store_cursor_update ow held (commit_index_rows ow xc st1)))"
      unfolding closed(2) by (simp add: final_state_def held_def store_root_fields)
    show ?thesis
    proof (cases held)
      case None
      then show ?thesis using cur by (simp add: store_cursor_update_def commit_rows_fields fields)
    next
      case (Some cu)
      then have conds: "\<not> (0 < xs_skipped st1 \<or> 0 < xs_vanished st1 \<or> 0 < pf_count (xs_failures st1))" "cursor = Some cu"
        by (auto simp: held_def held_cursor_def cursor_after_gate_def split: if_splits)
      have "row_written cu (db_event_cursor (xs_db st)) (db_event_cursor (xs_db st'))"
        unfolding cur Some row_written_def
        by (auto simp: store_cursor_update_def store_event_cursor_def case_prod_beta commit_rows_fields fields)
      moreover have "pe = PassEnded PassClean"
        using conds(1) closed(1) by (simp add: final_state_fields failures_outcome_def)
      ultimately show ?thesis using conds(2) by blast
    qed
  qed
qed

lemma run_plan_row:
  assumes "run_plan ow xc settled cursor rn pl st = (pe, st')"
  shows "db_event_cursor (xs_db st') = db_event_cursor (xs_db st) \<or>
    pe = PassEnded PassClean \<and> (\<exists>cu. cursor = Some cu \<and> row_written cu (db_event_cursor (xs_db st)) (db_event_cursor (xs_db st')))"
proof -
  have kept: "db_event_cursor (xs_db st1) = db_event_cursor (xs_db st)" if "execute_actions ow xc pl st = (r, st1)" for r st1
    using cursor.good_parts(1)[OF cursor.loop[of ow "rs_world (xs_run st)" _ st pl pl xc r st1, OF _ order_refl that]]
    by (simp add: cursor.good_def reached.start)
  from assms show ?thesis
  proof (cases rule: run_plan_loop)
    case (1 stop)
    with kept[OF 1(1)] show ?thesis by simp
  next
    case (2 st1)
    from finish_row[OF 2(2)] kept[OF 2(1)] show ?thesis by simp
  qed
qed

lemma preparation_row:
  "record_unsyncable pl l full now (standing, db) = (items, db') \<Longrightarrow> db_event_cursor db' = db_event_cursor db"
  "decide_delete_gate cfg db now pl B = (gate, db') \<Longrightarrow> db_event_cursor db' = db_event_cursor db"
  by (auto simp: record_unsyncable_def replace_unsyncable_items_def decide_delete_gate_def replace_withheld_deletions_def
      Let_def split: if_splits)

lemma commit_row:
  assumes "plan_and_commit eo se scan R B shape cursor rn en = (r, en')"
  shows "cursors en' = cursors en \<or>
    r = Inr PassClean \<and> (\<exists>cu. cursor = Some cu \<and> row_written cu (cursors en) (cursors en'))"
proof -
  define gcfg where "gcfg = (se_gate se)\<lparr>gc_forced := pr_force_delete_approval (en_pair en)\<rparr>"
  obtain ended xs where x: "execute_plan_and_commit (eo_ow eo) (se_sha256 se) (se_naming se) gcfg (se_pass se)
      (intent_of (pr_pass_intent (en_pair en))) scan R B shape cursor rn (pr_db (en_pair en)) (pr_unsyncable (en_pair en))
      (en_world en) = (ended, xs)" by fastforce
  have row: "db_event_cursor (xs_db xs) = cursors en \<or>
      ended = PassEnded PassClean \<and> (\<exists>cu. cursor = Some cu \<and> row_written cu (cursors en) (db_event_cursor (xs_db xs)))"
  proof -
    from x show ?thesis
      unfolding execute_plan_and_commit_def Let_def
      by (auto simp: start_pass_def xs_look_def cursors_def
          split: if_splits prod.splits sum.splits dest!: run_plan_row preparation_row)
  qed
  then show ?thesis
    using assms unfolding plan_and_commit_def Let_def gcfg_def[symmetric] x
    by (auto simp: cursors_def on_pair_def after_execution_def after_completion_def split: pass_end.splits)
qed

section \<open>A walk\<close>

lemma captured_first:
  assumes "derive_volume_id B = Some v" "capture_pre_snapshot_cursor eo se B en = (pre, en1)"
  shows "pre = Unavailable \<or>
    (\<exists>id. fst (eo_latest_cursor eo v (en_world en)) = Inr id \<and> pre = Captured \<lparr>cu_scope_id = v, cu_last_event_id = id\<rparr>)"
  using assms
  by (auto simp: capture_pre_snapshot_cursor_def scope_volume_def read_latest_cursor_def en_look_def
      split: if_splits prod.splits sum.splits)

lemma anchored_once_listed:
  assumes "anchored_cursor eo se pre R missing en = (Some cu, en')" "pre = Unavailable \<or> pre = Captured c"
  shows "pre = Captured cu \<and> \<not> missing \<and>
    (\<forall>uids. pr_listing_behind (en_pair en) = Some uids \<longrightarrow>
      set uids \<subseteq> set (List.map_filter (\<lambda>(_, e). remote_entity_id e) R))"
  using assms
  by (auto simp: anchored_cursor_def resolve_bootstrap_cursor_update_def walk_lists_what_the_stream_reported_def
      list_all_iff Let_def split: if_splits prod.splits option.splits)


section \<open>A replay\<close>

lemma idle_row:
  "cursors (finish_idle_pass eo se v stored latest rn en) = cursors en \<or>
    row_written \<lparr>cu_scope_id = v, cu_last_event_id = latest\<rparr> (cursors en) (cursors (finish_idle_pass eo se v stored latest rn en))"
  unfolding finish_idle_pass_def Let_def
  by (cases rn; auto simp: case_prod_beta cursors_def row_written_def count_fields pair_steps look_steps
      store_event_cursor_def store_remote_root_uid_def split: option.splits)

lemma commit_incremental_row:
  assumes "commit_incremental eo se B B' R cursor rn en = (r, en')"
  shows "cursors en' = cursors en \<or> r = Inr (IncCommitted PassClean) \<and> row_written cursor (cursors en) (cursors en')"
proof -
  obtain r2 en2 where 2: "scan_local_entities eo se B en = (r2, en2)" by fastforce
  obtain r3 en3 where 3: "ensure_root_available eo en2 = (r3, en3)" by fastforce
  have same: "cursors en2 = cursors en" "cursors en3 = cursors en"
    using pass_pair(2)[of eo se B en] root_steps(3)[of eo en2] by (simp_all add: 2 3 cursors_def)
  have count: "cursors (count_incremental_pass e) = cursors e" for e :: "'a engine" by (simp add: cursors_def count_fields)
  show ?thesis
    using assms same
    by (auto simp: commit_incremental_def 2 3 count split: sum.splits prod.splits dest!: commit_row)
qed

text \<open>Every event of a delta was placed: in the map the pass goes by, or outside what the pair syncs.\<close>

definition all_placed :: "pair_settings \<Rightarrow> base_map \<Rightarrow> bytes \<Rightarrow> event_delta \<Rightarrow> database \<Rightarrow> bool" where
  "all_placed se B v delta db \<longleftrightarrow> ed_changes delta = [] \<or>
    (\<exists>root_uid listings remote outside.
      reconstruct_remote (filter_base_index B (se_scan_options se)) (ed_changes delta) v root_uid (se_scan_options se)
        (targeted_resolver db listings) = Complete remote outside [])"

definition moved_over ::
  "pair_settings \<Rightarrow> base_map \<Rightarrow> bytes \<Rightarrow> bytes \<Rightarrow> event_delta \<Rightarrow> 'w engine \<Rightarrow>
   (pass_error + incremental_outcome) \<times> 'w engine \<Rightarrow> bool" where
  "moved_over se B v stored delta en r \<longleftrightarrow> (cursors (snd r) \<noteq> cursors en \<longrightarrow>
    (fst r = Inr IncIdle \<or> fst r = Inr (IncCommitted PassClean)) \<and>
    (\<exists>id at_secs. cursors (snd r) = hm_insert v (id, at_secs) (cursors en) \<and>
      (id = stored \<or> id = ed_latest_event_id delta \<and> all_placed se B v delta (pr_db (en_pair en)))))"

lemma moved_same:
  "cursors e = cursors en \<Longrightarrow> moved_over se B v stored delta en (Inl x, e)"
  "cursors e = cursors en \<Longrightarrow> moved_over se B v stored delta en (Inr IncFallback, e)"
  by (simp_all add: moved_over_def)

lemma moved_idle:
  assumes "cursors e = cursors en" "i = stored \<or> i = ed_latest_event_id delta \<and> all_placed se B v delta (pr_db (en_pair en))"
  shows "moved_over se B v stored delta en (Inr IncIdle, finish_idle_pass eo se v stored i rn e)"
  using idle_row[of eo se v stored i rn e] assms by (auto simp: moved_over_def row_written_def)

lemma moved_commit:
  assumes "cursors e = cursors en" "i = stored \<or> i = ed_latest_event_id delta \<and> all_placed se B v delta (pr_db (en_pair en))"
  shows "moved_over se B v stored delta en (commit_incremental eo se B B' R \<lparr>cu_scope_id = v, cu_last_event_id = i\<rparr> rn e)"
proof -
  obtain r en' where c: "commit_incremental eo se B B' R \<lparr>cu_scope_id = v, cu_last_event_id = i\<rparr> rn e = (r, en')" by fastforce
  show ?thesis using commit_incremental_row[OF c] assms by (auto simp: c moved_over_def row_written_def)
qed

lemma place_delta_row: "moved_over se B v stored delta en (place_delta eo se B force v stored delta en)"
proof -
  obtain r2 en2 where 2: "ensure_root_available eo en = (r2, en2)" by fastforce
  obtain uid rn en3 where 3: "remote_root_node_for_incremental eo se (ed_changes delta) en2 = ((uid, rn), en3)"
    by (metis prod.collapse)
  obtain listings en4 where 4: "en_look (eo_resolve eo) en3 = (listings, en4)" by fastforce
  define rec where "rec = reconstruct_remote (filter_base_index B (se_scan_options se)) (ed_changes delta) v uid
    (se_scan_options se) (targeted_resolver (pr_db (en_pair en4)) listings)"
  have h: "held en4 = held en2"
    using node_steps(1)[of eo se "ed_changes delta" en2] look_steps(1)[of "eo_resolve eo" en3] by (simp add: 3 4)
  have db: "pr_db (en_pair en4) = pr_db (en_pair en)" "pr_db (en_pair en2) = pr_db (en_pair en)"
    using held_fields(1)[OF h] root_steps(3)[of eo en] by (simp_all add: 2)
  have same: "cursors en2 = cursors en" "cursors en4 = cursors en" "\<And>behind. cursors (note_listing_behind v behind en4) = cursors en"
    using db by (simp_all add: cursors_def note_listing_behind_def on_pair_def)
  have quiet: "all_placed se B v delta (pr_db (en_pair en))" if "ed_changes delta = []"
    using that by (simp add: all_placed_def)
  have placed: "all_placed se B v delta (pr_db (en_pair en))" if "rec = Complete remote outside []" for remote outside
    using that unfolding all_placed_def rec_def db(1) by blast
  show ?thesis
    unfolding place_delta_def Let_def 2 3 4 prod.case rec_def[symmetric]
    using placed quiet
    by (auto split: sum.split reconstruction.split intro!: moved_same moved_idle moved_commit same)
qed


section \<open>Witnesses\<close>

definition rx_index :: base_map where
  "rx_index = [([Normal ''docs'', Normal ''a''], gx_record\<lparr>fr_proton_id := Some ''vol~n''\<rparr>)]"

definition rx_walk :: "(pass_error + pass_outcome) \<times> unit engine" where
  "rx_walk = bootstrap_reconcile (rx_outside (Inr rx_page) (Inr ())) rx_settings rx_index (rx_engine None rx_pair)"

definition rx_replay :: "(pass_error + incremental_outcome) \<times> unit engine" where
  "rx_replay = try_incremental_reconcile (rx_outside (Inr (rx_page\<lparr>vp_latest_event_id := ''e2''\<rparr>)) (Inr ())) rx_settings
     [] False (rx_engine None rx_pair)"

lemma rx_moves: "cursors (rx_engine None rx_pair) = [(''vol'', ''e1'', 4)]" "cursors (snd rx_walk) = [(''vol'', ''e3'', 9)]"
  "cursors (snd rx_replay) = [(''vol'', ''e2'', 9)]" "derive_volume_id rx_index = Some ''vol''"
  by code_simp+



end
