(* ===== verification/Pair_Slot.thy ===== *)
theory Pair_Slot
  imports Reconcile
begin

text \<open>
  The life of a configured pair between its passes (\<^verbatim>\<open>src/daemon.rs\<close>): which directory it runs on, what a look at
  the folder and at its state finds, when a pair is held, demoted and prepared again, and the watch on its root.
  Every look the code takes at the disk is one field of a record of answers, in the order the code asks: two looks
  at one path may disagree, as they may on a disk that changes between them. The reasons a pair publishes and
  what it goes on showing are left out.
\<close>

section \<open>Looks\<close>

record root_identity =
  ri_device :: u64
  ri_inode :: u64
  ri_born :: "int option"

definition is_same_directory :: "root_identity \<Rightarrow> root_identity \<Rightarrow> bool" where
  "is_same_directory a b \<longleftrightarrow> ri_device a = ri_device b \<and> ri_inode a = ri_inode b \<and>
    (case (ri_born a, ri_born b) of (Some ours, Some theirs) \<Rightarrow> ours = theirs | _ \<Rightarrow> True)"

datatype 'a look = LookPresent 'a | LookGone | LookUnreadable bytes

text \<open>What \<^verbatim>\<open>fs::metadata\<close> says of the root.\<close>

datatype root_stat = StatDirectory root_identity | StatOther | StatNotFound | StatError bytes

fun look_at_root :: "root_stat \<Rightarrow> root_identity look" where
  "look_at_root (StatDirectory i) = LookPresent i"
| "look_at_root StatOther = LookGone"
| "look_at_root StatNotFound = LookGone"
| "look_at_root (StatError e) = LookUnreadable e"

datatype root_record = Unrecorded | Recorded root_identity | PresenceOnly

fun expected :: "root_record \<Rightarrow> root_identity option" where
  "expected (Recorded i) = Some i"
| "expected _ = None"

fun from_two_looks :: "root_identity look \<Rightarrow> root_identity look \<Rightarrow> root_record" where
  "from_two_looks (LookPresent a) (LookPresent b) = (if is_same_directory a b then Recorded a else PresenceOnly)"
| "from_two_looks _ _ = Unrecorded"

datatype root_unavailable = AnotherFolder | NotADirectory | RootMissing | RootError bytes | Unjudged bytes

fun root_availability :: "root_stat \<Rightarrow> root_identity option \<Rightarrow> root_unavailable + unit" where
  "root_availability (StatDirectory i) (Some e) = (if \<not> is_same_directory e i then Inl AnotherFolder else Inr ())"
| "root_availability (StatDirectory i) None = Inr ()"
| "root_availability StatOther _ = Inl NotADirectory"
| "root_availability StatNotFound _ = Inl RootMissing"
| "root_availability (StatError e) _ = Inl (RootError e)"

section \<open>The state a pair holds open\<close>

record file_identity =
  fd_device :: u64
  fd_inode :: u64

datatype state_status = StateIntact | StateRemoved | StateUnreadable bytes

definition index_status :: "file_identity option \<Rightarrow> file_identity look \<Rightarrow> state_status" where
  "index_status opened seen = (case seen of
     LookGone \<Rightarrow> StateRemoved
   | LookPresent current \<Rightarrow> (case opened of Some o' \<Rightarrow> if o' \<noteq> current then StateRemoved else StateIntact | None \<Rightarrow> StateIntact)
   | LookUnreadable e \<Rightarrow> StateUnreadable e)"

text \<open>Whether a path still names the file the lock is held on; \<open>handle\<close> is what the open file says of itself.\<close>

definition comparable :: "(bytes + file_identity) \<Rightarrow> file_identity look \<Rightarrow> bool" where
  "comparable handle named = (case (handle, named) of (Inr held, LookPresent n) \<Rightarrow> held = n | _ \<Rightarrow> False)"

definition is_the_file_at :: "bool \<Rightarrow> (bytes + file_identity) \<Rightarrow> file_identity look \<Rightarrow> unit look" where
  "is_the_file_at cmp handle seen = (case seen of
     LookGone \<Rightarrow> LookGone
   | LookUnreadable e \<Rightarrow> LookUnreadable e
   | LookPresent named \<Rightarrow>
       if \<not> cmp then LookPresent ()
       else (case handle of Inr held \<Rightarrow> if held = named then LookPresent () else LookGone | Inl _ \<Rightarrow> LookGone))"

fun lock_status :: "unit look \<Rightarrow> state_status" where
  "lock_status (LookPresent _) = StateIntact"
| "lock_status LookGone = StateRemoved"
| "lock_status (LookUnreadable e) = StateUnreadable e"

definition both_statuses :: "state_status \<Rightarrow> state_status \<Rightarrow> state_status" where
  "both_statuses index lock =
    (if index = StateRemoved \<or> lock = StateRemoved then StateRemoved
     else if index = StateIntact then lock else index)"

section \<open>What a demotion carries\<close>

datatype carried_count = CarriedAbsent | CarriedItems nat | CarriedUnreadable

text \<open>The name of the pair, which only words the reason, is left out of a cause.\<close>

datatype standing_cause = ReplacedByEmptyFolder nat | ReplacedByEmptyFolderUncounted | RemoteRootChanged path path

datatype promotion = Plain | Lifted | PromotedReset

fun at_risk :: "carried_count \<Rightarrow> standing_cause option" where
  "at_risk CarriedAbsent = None"
| "at_risk (CarriedItems n) = (if n = 0 then None else Some (ReplacedByEmptyFolder n))"
| "at_risk CarriedUnreadable = Some ReplacedByEmptyFolderUncounted"

fun promotion_when_cleared :: "standing_cause \<Rightarrow> promotion" where
  "promotion_when_cleared (ReplacedByEmptyFolder n) = Lifted"
| "promotion_when_cleared ReplacedByEmptyFolderUncounted = Lifted"
| "promotion_when_cleared (RemoteRootChanged recorded configured) = Plain"

datatype root_watch = Unregistered | Watching root_identity | Incomplete

record ready_pair =
  rd_pair :: pair_runtime
  rd_db_identity :: "file_identity option"
  rd_comparable :: bool
  rd_known_root :: root_record
  rd_carried :: carried_count
  rd_items_known :: nat
  rd_unjudged :: "bytes option"
  rd_watch :: root_watch

record unavailable_pair =
  un_standing :: "standing_cause option"
  un_known_root :: root_record
  un_force_delete_approval :: bool
  un_recorded :: carried_count

datatype pair_slot = SlotReady ready_pair | SlotUnavailable unavailable_pair

definition root_verdict :: "ready_pair \<Rightarrow> root_stat \<Rightarrow> root_unavailable + unit" where
  "root_verdict rd stat = (case rd_unjudged rd of
     Some cause \<Rightarrow> Inl (Unjudged cause)
   | None \<Rightarrow> root_availability stat (expected (rd_known_root rd)))"

text \<open>Counting the baseline as the planner sees it fails when a statement does, or a row does not read.\<close>

definition recorded_item_count :: "scan_options \<Rightarrow> database \<Rightarrow> bytes option \<Rightarrow> bytes + nat" where
  "recorded_item_count so db sql_error = (case sql_error of
     Some e \<Rightarrow> Inl e
   | None \<Rightarrow> (case load_index db of None \<Rightarrow> Inl ''unreadable index'' | Some B \<Rightarrow> Inr (length (filter_base_index B so))))"

definition recorded_items_to_carry :: "scan_options \<Rightarrow> bytes option \<Rightarrow> ready_pair \<Rightarrow> carried_count" where
  "recorded_items_to_carry so sql_error rd =
    (let own = (case recorded_item_count so (pr_db (rd_pair rd)) sql_error of
           Inl _ \<Rightarrow> None | Inr reported \<Rightarrow> Some (max reported (rd_items_known rd)))
     in case (own, rd_carried rd) of
       (Some n, CarriedAbsent) \<Rightarrow> CarriedItems n
     | (Some n, CarriedItems carried) \<Rightarrow> CarriedItems (max n carried)
     | (Some n, CarriedUnreadable) \<Rightarrow> if 0 < n then CarriedItems n else CarriedUnreadable
     | (None, CarriedItems carried) \<Rightarrow> if 0 < carried then CarriedItems carried else CarriedUnreadable
     | (None, _) \<Rightarrow> CarriedUnreadable)"

definition demoted :: "scan_options \<Rightarrow> bytes option \<Rightarrow> standing_cause option \<Rightarrow> ready_pair \<Rightarrow> unavailable_pair" where
  "demoted so sql_error standing rd =
    \<lparr>un_standing = standing, un_known_root = rd_known_root rd,
     un_force_delete_approval = pr_force_delete_approval (rd_pair rd),
     un_recorded = recorded_items_to_carry so sql_error rd\<rparr>"


section \<open>The examination before a pass\<close>

datatype recorded = RecordsNothing | RecordsItems nat | RecordsUncounted | CannotTell bytes

definition recorded_under_an_empty_folder ::
  "scan_options \<Rightarrow> fs_listing \<Rightarrow> bytes option \<Rightarrow> ready_pair \<Rightarrow> recorded" where
  "recorded_under_an_empty_folder so tree sql_error rd =
    (case local_tree_holds_syncable_entry so tree of
       Inl _ \<Rightarrow> CannotTell ''the folder could not be searched''
     | Inr True \<Rightarrow> RecordsNothing
     | Inr False \<Rightarrow>
         (case recorded_item_count so (pr_db (rd_pair rd)) sql_error of
            Inl e \<Rightarrow> CannotTell e
          | Inr n \<Rightarrow>
              (case (case rd_carried rd of
                   CarriedAbsent \<Rightarrow> Some n
                 | CarriedItems carried \<Rightarrow> Some (max n carried)
                 | CarriedUnreadable \<Rightarrow> if n = 0 then None else Some n) of
                 None \<Rightarrow> RecordsUncounted
               | Some 0 \<Rightarrow> RecordsNothing
               | Some m \<Rightarrow> RecordsItems m)))"

datatype examination =
  ExIntact | ExFolderGone | ExReplaced root_identity | ExUnrecorded root_identity | ExStateRemoved
| ExEmptyReplacement standing_cause | ExUnreadable bytes | ExCannotJudge bytes

text \<open>The answers to the looks of one examination, and to the writes it may make.\<close>

record pair_looks =
  pk_root :: root_stat
  pk_index :: "file_identity look"
  pk_lock_path :: "file_identity look"
  pk_lock_handle :: "bytes + file_identity"
  pk_tree :: fs_listing
  pk_count_error :: "bytes option"
  pk_carry_error :: "bytes option"
  pk_force_stored :: bool

definition state_status_of :: "pair_looks \<Rightarrow> ready_pair \<Rightarrow> state_status" where
  "state_status_of k rd = both_statuses (index_status (rd_db_identity rd) (pk_index k))
     (lock_status (is_the_file_at (rd_comparable rd) (pk_lock_handle k) (pk_lock_path k)))"

definition is_replaced :: "ready_pair \<Rightarrow> root_identity \<Rightarrow> bool" where
  "is_replaced rd current \<longleftrightarrow>
    (case rd_known_root rd of Recorded known \<Rightarrow> \<not> is_same_directory known current | _ \<Rightarrow> False)"

definition examine :: "scan_options \<Rightarrow> pair_looks \<Rightarrow> ready_pair \<Rightarrow> examination" where
  "examine so k rd =
    (case look_at_root (pk_root k) of
       LookGone \<Rightarrow> ExFolderGone
     | LookUnreadable e \<Rightarrow> ExUnreadable e
     | LookPresent current \<Rightarrow>
         (let state = state_status_of k rd;
              replaced = is_replaced rd current;
              settled = (case state of
                  StateRemoved \<Rightarrow> ExStateRemoved
                | StateUnreadable e \<Rightarrow> ExUnreadable e
                | StateIntact \<Rightarrow>
                    if replaced then ExReplaced current
                    else if rd_known_root rd = Unrecorded then ExUnrecorded current else ExIntact)
          in if replaced \<or> state = StateRemoved
             then (case recorded_under_an_empty_folder so (pk_tree k) (pk_count_error k) rd of
                 RecordsItems n \<Rightarrow> ExEmptyReplacement (ReplacedByEmptyFolder n)
               | RecordsUncounted \<Rightarrow> ExEmptyReplacement ReplacedByEmptyFolderUncounted
               | CannotTell e \<Rightarrow> ExCannotJudge e
               | RecordsNothing \<Rightarrow> settled)
             else settled))"

definition on_rd_pair :: "(pair_runtime \<Rightarrow> pair_runtime) \<Rightarrow> ready_pair \<Rightarrow> ready_pair" where
  "on_rd_pair f rd = rd\<lparr>rd_pair := f (rd_pair rd)\<rparr>"

definition force_delete_approval_until_settled :: "bool \<Rightarrow> ready_pair \<Rightarrow> ready_pair" where
  "force_delete_approval_until_settled stored =
    on_rd_pair (\<lambda>pr. pr\<lparr>pr_force_delete_approval := True,
      pr_db := (if stored then store_forced_delete_approval (pr_db pr) True else pr_db pr)\<rparr>)"

text \<open>A ready pair that overlaps no other one, looked at before its pass.\<close>

definition examine_slot :: "scan_options \<Rightarrow> pair_looks \<Rightarrow> ready_pair \<Rightarrow> pair_slot" where
  "examine_slot so k rd =
    (let found = examine so k rd;
         rd1 = rd\<lparr>rd_unjudged := (case found of ExCannotJudge cause \<Rightarrow> Some cause | _ \<Rightarrow> None)\<rparr>
     in case found of
       ExUnrecorded current \<Rightarrow> SlotReady (rd1\<lparr>rd_known_root := Recorded current\<rparr>)
     | ExReplaced current \<Rightarrow>
         SlotReady (force_delete_approval_until_settled (pk_force_stored k) (rd1\<lparr>rd_known_root := Recorded current\<rparr>))
     | ExStateRemoved \<Rightarrow> SlotUnavailable (demoted so (pk_carry_error k) None rd1)
     | ExEmptyReplacement standing \<Rightarrow> SlotUnavailable (demoted so (pk_carry_error k) (Some standing) rd1)
     | _ \<Rightarrow> SlotReady rd1)"

section \<open>Preparing a pair again\<close>

datatype root_mode = RootCreate | RootMustExist

datatype lock_answer = LockTaken "bytes + file_identity" "file_identity look" | LockHeldElsewhere | LockFailed

datatype prepare_failure = PrepareLockHeld | PrepareFolder | PrepareUnavailable

record preparing =
  pg_created :: bool
  pg_root :: root_stat
  pg_index_directory :: bool
  pg_lock_directory :: bool
  pg_lock :: lock_answer

text \<open>The lock is last, so a failure before it holds nothing; what a lock that was taken can be compared by.\<close>

definition prepare_pair_state :: "root_mode \<Rightarrow> preparing \<Rightarrow> prepare_failure + bool" where
  "prepare_pair_state mode g =
    (case (case mode of
         RootCreate \<Rightarrow> if pg_created g then Inr () else Inl PrepareFolder
       | RootMustExist \<Rightarrow> (case pg_root g of
             StatDirectory _ \<Rightarrow> Inr () | StatOther \<Rightarrow> Inl PrepareUnavailable | _ \<Rightarrow> Inl PrepareFolder)) of
       Inl e \<Rightarrow> Inl e
     | Inr _ \<Rightarrow>
         if \<not> pg_index_directory g then Inl PrepareUnavailable
         else if \<not> pg_lock_directory g then Inl PrepareUnavailable
         else (case pg_lock g of
             LockTaken handle named \<Rightarrow> Inr (comparable handle named)
           | LockHeldElsewhere \<Rightarrow> Inl PrepareLockHeld
           | LockFailed \<Rightarrow> Inl PrepareUnavailable))"

record open_answers =
  og_database :: "bytes + database"
  og_index1 :: "file_identity look"
  og_index2 :: "file_identity look"
  og_root1 :: root_stat
  og_root2 :: root_stat
  og_options :: bool
  og_warm_error :: bool
  og_unsyncable_error :: bool
  og_forced_error :: bool
  og_start_over_error :: bool
  og_settle_error :: bool

definition fresh_runtime :: "open_answers \<Rightarrow> database \<Rightarrow> pair_runtime" where
  "fresh_runtime g db =
    \<lparr>pr_db = db,
     pr_unsyncable = (if og_unsyncable_error g then [] else case load_unsyncable_items db of None \<Rightarrow> [] | Some items \<Rightarrow> items),
     pr_pending_changes = {}, pr_authored_writes = {}, pr_force_local_rescan = False, pr_is_first_reconcile = True,
     pr_incremental_passes = 0, pr_warm_starts = (if og_warm_error g then 0 else load_warm_start_count db),
     pr_remote_root_uid_asked = False, pr_feed_outage = None, pr_listing_behind = None, pr_seen_generation = 0,
     pr_pending_deletions = [], pr_failed_items = [], pr_failed_item_count = 0,
     pr_force_delete_approval = (og_forced_error g \<or> load_forced_delete_approval db),
     pr_pass_intent = None, pr_apply_report = None\<rparr>"

definition open_runtime :: "bool \<Rightarrow> open_answers \<Rightarrow> bytes + ready_pair" where
  "open_runtime cmp g =
    (case og_database g of
       Inl e \<Rightarrow> Inl e
     | Inr db \<Rightarrow>
         (case (case (og_index1 g, og_index2 g) of
              (LookPresent a, LookPresent b) \<Rightarrow> Inr (if a = b then Some a else None)
            | _ \<Rightarrow> Inl ''the index cannot be examined'') of
            Inl e \<Rightarrow> Inl e
          | Inr identity \<Rightarrow>
              if \<not> og_options g then Inl ''its rules could not be built''
              else Inr \<lparr>rd_pair = fresh_runtime g db, rd_db_identity = identity, rd_comparable = cmp,
                rd_known_root = from_two_looks (look_at_root (og_root1 g)) (look_at_root (og_root2 g)),
                rd_carried = CarriedAbsent, rd_items_known = 0, rd_unjudged = None, rd_watch = Unregistered\<rparr>))"

definition changed_remote_root :: "path option \<Rightarrow> path \<Rightarrow> standing_cause option" where
  "changed_remote_root recorded key = (case recorded of
     None \<Rightarrow> None | Some r \<Rightarrow> if r \<noteq> key then Some (RemoteRootChanged r key) else None)"

definition settle_remote_root_identity :: "database \<Rightarrow> path \<Rightarrow> standing_cause option \<times> database" where
  "settle_remote_root_identity db key =
    (case load_recorded_remote_root db of
       Some r \<Rightarrow> (changed_remote_root (Some r) key, db)
     | None \<Rightarrow> (None, fst (record_remote_root_of_baseline db key)))"

definition start_over_if_the_record_outlived_its_baseline :: "database \<Rightarrow> path \<Rightarrow> database \<times> bool" where
  "start_over_if_the_record_outlived_its_baseline db key =
    (if \<not> remote_root_outlived_its_baseline db key then (db, False) else (reset_index_state db, True))"

datatype open_refusal = OpenHeld standing_cause | OpenFailed bytes

definition open_checked :: "path \<Rightarrow> bool \<Rightarrow> bool \<Rightarrow> open_answers \<Rightarrow> open_refusal + ready_pair" where
  "open_checked key cmp check_remote_root g =
    (case open_runtime cmp g of
       Inl e \<Rightarrow> Inl (OpenFailed e)
     | Inr rd \<Rightarrow>
         if \<not> check_remote_root then Inr rd
         else if og_start_over_error g then Inl (OpenFailed ''remote root'')
         else (case start_over_if_the_record_outlived_its_baseline (pr_db (rd_pair rd)) key of
             (db1, started_over) \<Rightarrow>
               (let rd1 = on_rd_pair (\<lambda>pr. if started_over
                      then pr\<lparr>pr_db := db1, pr_warm_starts := 0, pr_force_delete_approval := False, pr_unsyncable := []\<rparr>
                      else pr) rd
                in if og_settle_error g then Inl (OpenFailed ''remote root'')
                   else (case settle_remote_root_identity (pr_db (rd_pair rd1)) key of
                       (Some cause, _) \<Rightarrow> Inl (OpenHeld cause)
                     | (None, db2) \<Rightarrow> Inr (on_rd_pair (\<lambda>pr. pr\<lparr>pr_db := db2\<rparr>) rd1)))))"


section \<open>A retry of an unavailable pair\<close>

datatype standing_status = StandingHolds | StandingCleared | StandingReset | StandingFolderGone | StandingUnreadable bytes

text \<open>The answers a retry gets: of the recheck of a standing cause, of the judgement of what the demotion carried,
  of the preparation, of the open, and whether the force and the first metrics write landed.\<close>

record retry_looks =
  rl_standing_root :: root_stat
  rl_standing_options :: bool
  rl_standing_tree :: fs_listing
  rl_recorded_root :: "bytes + path option"
  rl_judged_root :: root_stat
  rl_judged_options :: bool
  rl_judged_tree :: fs_listing
  rl_preparing :: preparing
  rl_opening :: open_answers
  rl_force_stored :: bool
  rl_metrics_written :: bool
  rl_carry_error :: "bytes option"

definition standing_cause_status ::
  "scan_options \<Rightarrow> path \<Rightarrow> retry_looks \<Rightarrow> standing_cause \<Rightarrow> standing_status" where
  "standing_cause_status so key k standing =
    (case standing of
       RemoteRootChanged _ _ \<Rightarrow>
         (case rl_recorded_root k of
            Inr recorded \<Rightarrow> if changed_remote_root recorded key \<noteq> None then StandingHolds else StandingCleared
          | Inl e \<Rightarrow> StandingUnreadable e)
     | _ \<Rightarrow>
         (case look_at_root (rl_standing_root k) of
            LookGone \<Rightarrow> StandingFolderGone
          | LookUnreadable e \<Rightarrow> StandingUnreadable e
          | LookPresent _ \<Rightarrow>
              if \<not> rl_standing_options k then StandingHolds
              else (case local_tree_holds_syncable_entry so (rl_standing_tree k) of
                  Inr True \<Rightarrow> StandingCleared | _ \<Rightarrow> StandingHolds)))"

datatype carried_judgement = JudgedProceed | JudgedHold | JudgedCannotTell bytes

definition judge_carried_replacement :: "scan_options \<Rightarrow> retry_looks \<Rightarrow> carried_judgement" where
  "judge_carried_replacement so k =
    (case look_at_root (rl_judged_root k) of
       LookGone \<Rightarrow> JudgedProceed
     | LookUnreadable e \<Rightarrow> JudgedCannotTell e
     | LookPresent _ \<Rightarrow>
         if \<not> rl_judged_options k then JudgedCannotTell ''its rules could not be built''
         else (case local_tree_holds_syncable_entry so (rl_judged_tree k) of
             Inr True \<Rightarrow> JudgedProceed
           | Inr False \<Rightarrow> JudgedHold
           | Inl _ \<Rightarrow> JudgedCannotTell ''the folder could not be searched''))"

text \<open>The first half of a retry: whether anything may be prepared, and as what kind of promotion.\<close>

definition settle_standing ::
  "scan_options \<Rightarrow> path \<Rightarrow> bool \<Rightarrow> retry_looks \<Rightarrow> unavailable_pair \<Rightarrow> unavailable_pair \<times> promotion option" where
  "settle_standing so key reset k un =
    (case un_standing un of
       None \<Rightarrow> (un, Some Plain)
     | Some standing \<Rightarrow>
         (case (if reset then StandingReset else standing_cause_status so key k standing) of
            StandingHolds \<Rightarrow> (un, None)
          | StandingUnreadable _ \<Rightarrow> (un, None)
          | StandingCleared \<Rightarrow> (un\<lparr>un_standing := None\<rparr>, Some (promotion_when_cleared standing))
          | StandingReset \<Rightarrow> (un\<lparr>un_standing := None\<rparr>, Some PromotedReset)
          | StandingFolderGone \<Rightarrow> (un, Some Plain)))"

definition may_prepare ::
  "scan_options \<Rightarrow> path \<Rightarrow> bool \<Rightarrow> retry_looks \<Rightarrow> unavailable_pair \<Rightarrow> unavailable_pair \<times> promotion option" where
  "may_prepare so key reset k un =
    (case settle_standing so key reset k un of
       (un1, None) \<Rightarrow> (un1, None)
     | (un1, Some p) \<Rightarrow>
         if p = Plain then
           (case at_risk (un_recorded un) of
              None \<Rightarrow> (un1, Some p)
            | Some standing \<Rightarrow>
                (case judge_carried_replacement so k of
                   JudgedProceed \<Rightarrow> (un1, Some p)
                 | JudgedHold \<Rightarrow> (un1\<lparr>un_standing := Some standing\<rparr>, None)
                 | JudgedCannotTell _ \<Rightarrow> (un1, None)))
         else (un1, Some p))"

text \<open>What the new runtime is handed of what the demotion carried.\<close>

definition carry_over :: "promotion \<Rightarrow> bool \<Rightarrow> unavailable_pair \<Rightarrow> ready_pair \<Rightarrow> ready_pair" where
  "carry_over p force_stored un rd =
    (let rd1 = (if un_force_delete_approval un \<or> p = Lifted then force_delete_approval_until_settled force_stored rd else rd);
         rd2 = (if p = Plain \<and> expected (un_known_root un) \<noteq> None \<and> rd_known_root rd1 \<noteq> PresenceOnly
                then rd1\<lparr>rd_known_root := un_known_root un\<rparr> else rd1)
     in if p \<noteq> PromotedReset then rd2\<lparr>rd_carried := un_recorded un\<rparr> else rd2)"

definition promote ::
  "scan_options \<Rightarrow> path \<Rightarrow> bool \<Rightarrow> retry_looks \<Rightarrow> unavailable_pair \<Rightarrow> unavailable_pair + ready_pair \<times> promotion" where
  "promote so key reset k un =
    (case may_prepare so key reset k un of
       (un1, None) \<Rightarrow> Inl un1
     | (un1, Some p) \<Rightarrow>
         (case prepare_pair_state RootMustExist (rl_preparing k) of
            Inl _ \<Rightarrow> Inl un1
          | Inr cmp \<Rightarrow>
              (case open_checked key cmp (p \<noteq> PromotedReset) (rl_opening k) of
                 Inl (OpenHeld cause) \<Rightarrow> Inl (un1\<lparr>un_standing := Some cause\<rparr>)
               | Inl (OpenFailed _) \<Rightarrow> Inl un1
               | Inr rd \<Rightarrow>
                   (let rd1 = carry_over p (rl_force_stored k) un rd in
                    if rl_metrics_written k then Inr (rd1, p) else Inl (demoted so (rl_carry_error k) None rd1)))))"

section \<open>The job\<close>

text \<open>The answers of one job: of the examination of a ready pair, of a retry, and of the examination that
  follows a plain promotion. A job of a pair that overlaps no other one.\<close>

record job_looks =
  jl_examined :: pair_looks
  jl_retried :: retry_looks
  jl_promoted :: pair_looks

definition retry_unavailable ::
  "scan_options \<Rightarrow> path \<Rightarrow> bool \<Rightarrow> job_looks \<Rightarrow> unavailable_pair \<Rightarrow> pair_slot" where
  "retry_unavailable so key reset j un =
    (case promote so key reset (jl_retried j) un of
       Inl un1 \<Rightarrow> SlotUnavailable un1
     | Inr (rd, p) \<Rightarrow> if p = Plain then examine_slot so (jl_promoted j) rd else SlotReady rd)"

definition prepare_for_pass :: "scan_options \<Rightarrow> path \<Rightarrow> bool \<Rightarrow> job_looks \<Rightarrow> pair_slot \<Rightarrow> pair_slot" where
  "prepare_for_pass so key reset j ps =
    (case (case ps of SlotReady rd \<Rightarrow> examine_slot so (jl_examined j) rd | _ \<Rightarrow> ps) of
       SlotUnavailable un \<Rightarrow> retry_unavailable so key reset j un
     | ready \<Rightarrow> ready)"

text \<open>The watch on the root, right before the pass: \<open>registered\<close> is what registering it answers.\<close>

definition maintain_root_watch :: "root_stat \<Rightarrow> bool \<Rightarrow> ready_pair \<Rightarrow> ready_pair" where
  "maintain_root_watch stat registered rd =
    (case look_at_root stat of
       LookGone \<Rightarrow> (case rd_watch rd of Watching _ \<Rightarrow> rd\<lparr>rd_watch := Incomplete\<rparr> | _ \<Rightarrow> rd)
     | LookUnreadable _ \<Rightarrow> rd
     | LookPresent current \<Rightarrow>
         if (case rd_watch rd of Watching w \<Rightarrow> is_same_directory w current | _ \<Rightarrow> False) then rd
         else (let rd1 = (if rd_watch rd \<noteq> Unregistered \<or> \<not> registered
                   then on_rd_pair (\<lambda>pr. pr\<lparr>pr_force_local_rescan := True\<rparr>) rd else rd)
               in rd1\<lparr>rd_watch := (if registered then Watching current else Incomplete)\<rparr>))"

section \<open>Pairs that overlap\<close>

record pair_state_paths =
  sp_local_root :: path
  sp_db_path :: path
  sp_lockfile_path :: path

datatype overlap = SameFolder | InsideIt | ContainsIt | StateFileInside | StateFileInsideThis | SameStateFile

text \<open>\<open>canon\<close> resolves a path as far as it exists.\<close>

definition real_state_file :: "(path \<Rightarrow> path) \<Rightarrow> path \<Rightarrow> path" where
  "real_state_file canon written =
    (case (path_parent written, path_file_name written) of
       (Some dir, Some name) \<Rightarrow> if dir \<noteq> [] then join_path (canon dir) [Normal name] else canon written
     | _ \<Rightarrow> canon written)"

definition real_pair_paths :: "(path \<Rightarrow> path) \<Rightarrow> pair_state_paths \<Rightarrow> pair_state_paths" where
  "real_pair_paths canon p =
    \<lparr>sp_local_root = canon (sp_local_root p), sp_db_path = real_state_file canon (sp_db_path p),
     sp_lockfile_path = real_state_file canon (sp_lockfile_path p)\<rparr>"

definition state_files :: "pair_state_paths \<Rightarrow> path list" where
  "state_files p = [sp_db_path p, sp_lockfile_path p]"

definition real_path_overlap :: "(path \<Rightarrow> path) \<Rightarrow> pair_state_paths \<Rightarrow> pair_state_paths \<Rightarrow> overlap option" where
  "real_path_overlap canon candidate other =
    (let this = real_pair_paths canon candidate; that = real_pair_paths canon other in
     if sp_local_root this = sp_local_root that then Some SameFolder
     else if starts_with (sp_local_root this) (sp_local_root that) then Some InsideIt
     else if starts_with (sp_local_root that) (sp_local_root this) then Some ContainsIt
     else if list_ex (\<lambda>f. starts_with f (sp_local_root that)) (state_files this) then Some StateFileInside
     else if list_ex (\<lambda>f. starts_with f (sp_local_root this)) (state_files that) then Some StateFileInsideThis
     else if list_ex (\<lambda>f. f \<in> set (state_files that)) (state_files this) then Some SameStateFile
     else None)"

text \<open>What the daemon knows of a configured pair.\<close>

record pair_place =
  pl_paths :: pair_state_paths
  pl_options :: scan_options
  pl_remote_root_key :: path

definition neighbours_with_a_folder :: "(path \<Rightarrow> bool) \<Rightarrow> pair_place list \<Rightarrow> nat \<Rightarrow> nat list" where
  "neighbours_with_a_folder is_dir places pair =
    filter (\<lambda>other. other \<noteq> pair \<and> is_dir (sp_local_root (pl_paths (places ! other)))) [0..<length places]"

definition overlapping_neighbours :: "(path \<Rightarrow> path) \<Rightarrow> (path \<Rightarrow> bool) \<Rightarrow> pair_place list \<Rightarrow> nat \<Rightarrow> nat list" where
  "overlapping_neighbours canon is_dir places pair =
    filter (\<lambda>other. real_path_overlap canon (pl_paths (places ! pair)) (pl_paths (places ! other)) \<noteq> None)
      (neighbours_with_a_folder is_dir places pair)"

definition demote_pair :: "pair_place list \<Rightarrow> (nat \<Rightarrow> bytes option) \<Rightarrow> nat \<Rightarrow> pair_slot list \<Rightarrow> pair_slot list" where
  "demote_pair places sql_error pair slots =
    (case slots ! pair of
       SlotReady rd \<Rightarrow> slots[pair := SlotUnavailable (demoted (pl_options (places ! pair)) (sql_error pair) None rd)]
     | SlotUnavailable _ \<Rightarrow> slots)"

definition is_ready :: "pair_slot \<Rightarrow> bool" where
  "is_ready ps = (case ps of SlotReady _ \<Rightarrow> True | SlotUnavailable _ \<Rightarrow> False)"

definition stop_overlapping_pairs ::
  "(path \<Rightarrow> path) \<Rightarrow> (path \<Rightarrow> bool) \<Rightarrow> pair_place list \<Rightarrow> (nat \<Rightarrow> bytes option) \<Rightarrow> nat \<Rightarrow> pair_slot list \<Rightarrow>
   bool \<times> pair_slot list" where
  "stop_overlapping_pairs canon is_dir places sql_error pair slots =
    (if \<not> is_ready (slots ! pair) then (False, slots)
     else (let found = overlapping_neighbours canon is_dir places pair;
               stops = (if found = [] then [] else pair # filter (\<lambda>other. is_ready (slots ! other)) found)
           in (stops \<noteq> [], foldl (\<lambda>slots stopped. demote_pair places sql_error stopped slots) slots stops)))"

text \<open>The preparation of a job, for the pair it runs. Where the paths lead does not change during the job.\<close>

definition prepare_job ::
  "(path \<Rightarrow> path) \<Rightarrow> (path \<Rightarrow> bool) \<Rightarrow> pair_place list \<Rightarrow> (nat \<Rightarrow> bytes option) \<Rightarrow> bool \<Rightarrow> job_looks \<Rightarrow> nat \<Rightarrow>
   pair_slot list \<Rightarrow> pair_slot list" where
  "prepare_job canon is_dir places sql_error reset j pair slots =
    (case stop_overlapping_pairs canon is_dir places sql_error pair slots of
       (stopped, slots1) \<Rightarrow>
         if stopped \<or> overlapping_neighbours canon is_dir places pair \<noteq> [] then slots1
         else slots1[pair := prepare_for_pass (pl_options (places ! pair)) (pl_remote_root_key (places ! pair)) reset j
           (slots1 ! pair)])"

end
