(* ===== verification/Pair_Slot_Props.thy ===== *)
theory Pair_Slot_Props
  imports Pair_Slot
begin

text \<open>
  What the examination of a folder and the retries of a pair promise (\<^verbatim>\<open>examine_ready_pair\<close>, \<^verbatim>\<open>retry_unavailable\<close> and
  \<^verbatim>\<open>stop_overlapping_pairs\<close> in \<^verbatim>\<open>src/daemon.rs\<close>): a folder that was emptied, unmounted or replaced is never taken
  for one whose content the user deleted.
\<close>

section \<open>What a demotion carries\<close>

definition holds_something :: "scan_options \<Rightarrow> fs_listing \<Rightarrow> bool" where
  "holds_something so tree \<longleftrightarrow> local_tree_holds_syncable_entry so tree = Inr True"

definition loses_something :: "carried_count \<Rightarrow> bool" where
  "loses_something c \<longleftrightarrow> at_risk c \<noteq> None"

lemma loses_cases [simp]:
  "\<not> loses_something CarriedAbsent" "loses_something (CarriedItems n) \<longleftrightarrow> 0 < n" "loses_something CarriedUnreadable"
  by (simp_all add: loses_something_def)

lemma carry_keeps: "loses_something (rd_carried rd) \<Longrightarrow> loses_something (recorded_items_to_carry so e rd)"
  by (cases "rd_carried rd") (auto simp: recorded_items_to_carry_def Let_def split: option.splits sum.splits)

lemma carry_counts:
  assumes "recorded_under_an_empty_folder so tree e rd \<noteq> RecordsNothing"
    "\<forall>cause. recorded_under_an_empty_folder so tree e rd \<noteq> CannotTell cause"
  shows "loses_something (recorded_items_to_carry so e' rd)"
proof (cases "loses_something (rd_carried rd)")
  case False
  then obtain n where n: "recorded_item_count so (pr_db (rd_pair rd)) e = Inr n" "n \<noteq> 0"
    using assms
    by (cases "rd_carried rd") (auto simp: recorded_under_an_empty_folder_def split: sum.splits bool.splits nat.splits)
  from n(1) have "case recorded_item_count so (pr_db (rd_pair rd)) e' of Inl _ \<Rightarrow> True | Inr m \<Rightarrow> m = n"
    by (auto simp: recorded_item_count_def split: option.splits sum.splits)
  with n(2) show ?thesis using False
    by (cases "rd_carried rd") (auto simp: recorded_items_to_carry_def Let_def split: sum.splits option.splits)
qed (rule carry_keeps)

definition slot_at_risk :: "pair_slot \<Rightarrow> bool" where
  "slot_at_risk ps = (case ps of
     SlotReady rd \<Rightarrow> loses_something (rd_carried rd) | SlotUnavailable un \<Rightarrow> loses_something (un_recorded un))"

lemma force_fields [simp]:
  "rd_carried (force_delete_approval_until_settled b rd) = rd_carried rd"
  "rd_known_root (force_delete_approval_until_settled b rd) = rd_known_root rd"
  "rd_unjudged (force_delete_approval_until_settled b rd) = rd_unjudged rd"
  "pr_force_delete_approval (rd_pair (force_delete_approval_until_settled b rd))"
  "rd_db_identity (force_delete_approval_until_settled b rd) = rd_db_identity rd"
  "rd_comparable (force_delete_approval_until_settled b rd) = rd_comparable rd"
  "pr_is_first_reconcile (rd_pair (force_delete_approval_until_settled b rd)) = pr_is_first_reconcile (rd_pair rd)"
  by (simp_all add: force_delete_approval_until_settled_def on_rd_pair_def)

lemma unjudged_field [simp]:
  "recorded_items_to_carry so e (rd\<lparr>rd_unjudged := c\<rparr>) = recorded_items_to_carry so e rd"
  by (simp add: recorded_items_to_carry_def split: sum.split)

lemma examine_slot_risk: "loses_something (rd_carried rd) \<Longrightarrow> slot_at_risk (examine_slot so k rd)"
  by (auto simp: examine_slot_def slot_at_risk_def Let_def demoted_def carry_keeps split: examination.split)

lemma held_at_risk:
  assumes "examine_slot so k rd = SlotUnavailable un" "un_standing un = Some standing"
  shows "loses_something (un_recorded un)"
proof -
  have "examine so k rd = ExEmptyReplacement standing" "un = demoted so (pk_carry_error k) (Some standing)
      (rd\<lparr>rd_unjudged := None\<rparr>)"
    using assms by (auto simp: examine_slot_def Let_def demoted_def split: examination.splits)
  moreover from this(1) have "recorded_under_an_empty_folder so (pk_tree k) (pk_count_error k) rd \<noteq> RecordsNothing"
    "\<forall>cause. recorded_under_an_empty_folder so (pk_tree k) (pk_count_error k) rd \<noteq> CannotTell cause"
    by (auto simp: examine_def Let_def split: look.splits state_status.splits recorded.splits if_splits)
  ultimately show ?thesis using carry_counts by (simp add: demoted_def)
qed

section \<open>Retries\<close>

lemma settle_standing_fields:
  assumes "settle_standing so key reset k un = (un1, p)"
  shows "un_recorded un1 = un_recorded un" "un_force_delete_approval un1 = un_force_delete_approval un"
    "un_known_root un1 = un_known_root un"
  using assms by (auto simp: settle_standing_def split: option.splits standing_status.splits if_splits)

lemma may_prepare_fields:
  assumes "may_prepare so key reset k un = (un1, p)"
  shows "un_recorded un1 = un_recorded un"
proof -
  obtain un2 q where s: "settle_standing so key reset k un = (un2, q)" by fastforce
  show ?thesis
    using assms settle_standing_fields[OF s]
    by (auto simp: may_prepare_def s split: option.splits if_splits carried_judgement.splits)
qed

lemma settled_promotion:
  assumes "settle_standing so key False k un = (un1, Some p)"
  shows "p = Plain \<or> p = Lifted \<and> holds_something so (rl_standing_tree k)"
  using assms
  by (auto simp: settle_standing_def standing_cause_status_def holds_something_def
      split: option.splits standing_cause.splits sum.splits look.splits if_splits bool.splits standing_status.splits)

lemma prepared_over_a_loss:
  assumes "may_prepare so key False k un = (un1, Some p)" "loses_something (un_recorded un)"
    "look_at_root (rl_judged_root k) \<noteq> LookGone"
  shows "p = Plain \<and> holds_something so (rl_judged_tree k) \<or> p = Lifted \<and> holds_something so (rl_standing_tree k)"
proof -
  obtain un2 q where s: "settle_standing so key False k un = (un2, q)" by fastforce
  with assms(1) obtain q' where q: "q = Some q'" by (cases q) (simp_all add: may_prepare_def)
  from settled_promotion[OF s[unfolded q]] show ?thesis
    using assms by (auto simp: may_prepare_def s q loses_something_def judge_carried_replacement_def holds_something_def
        split: option.splits carried_judgement.splits look.splits if_splits sum.splits bool.splits)
qed

lemma carry_over_fields:
  "p \<noteq> PromotedReset \<Longrightarrow> rd_carried (carry_over p b un rd) = un_recorded un"
  "p = Lifted \<Longrightarrow> pr_force_delete_approval (rd_pair (carry_over p b un rd))"
  "rd_unjudged (carry_over p b un rd) = rd_unjudged rd"
  by (auto simp: carry_over_def Let_def)

lemma promote_cases:
  obtains (refused) un1 where "promote so key reset k un = Inl un1" "un_recorded un1 = un_recorded un"
  | (unwritten) un1 rd p cmp where "may_prepare so key reset k un = (un1, Some p)"
      "open_checked key cmp (p \<noteq> PromotedReset) (rl_opening k) = Inr rd"
      "promote so key reset k un = Inl (demoted so (rl_carry_error k) None (carry_over p (rl_force_stored k) un rd))"
  | (promoted) un1 rd p cmp where "may_prepare so key reset k un = (un1, Some p)"
      "open_checked key cmp (p \<noteq> PromotedReset) (rl_opening k) = Inr rd"
      "promote so key reset k un = Inr (carry_over p (rl_force_stored k) un rd, p)"
proof -
  obtain un1 mp where m: "may_prepare so key reset k un = (un1, mp)" by fastforce
  note same = may_prepare_fields[OF m]
  have no: thesis if "promote so key reset k un = Inl un2" "un_recorded un2 = un_recorded un" for un2
    using refused that by blast
  show thesis
  proof (cases mp)
    case None
    then show thesis using no[of un1] same by (simp add: promote_def m)
  next
    case p: (Some p)
    show thesis
    proof (cases "prepare_pair_state RootMustExist (rl_preparing k)")
      case (Inl e)
      then show thesis using no[of un1] same p by (simp add: promote_def m)
    next
      case c: (Inr cmp)
      show thesis
      proof (cases "open_checked key cmp (p \<noteq> PromotedReset) (rl_opening k)")
        case o: (Inl refusal)
        show thesis
        proof (cases refusal)
          case (OpenHeld cause)
          then show thesis using no[of "un1\<lparr>un_standing := Some cause\<rparr>"] same p c o by (simp add: promote_def m)
        next
          case (OpenFailed e)
          then show thesis using no[of un1] same p c o by (simp add: promote_def m)
        qed
      next
        case (Inr rd)
        then show thesis using unwritten[OF m[unfolded p] Inr] promoted[OF m[unfolded p] Inr] p c
          by (cases "rl_metrics_written k") (simp_all add: promote_def m Let_def)
      qed
    qed
  qed
qed

section \<open>The life of a pair between two completed passes\<close>

text \<open>Everything that may happen to a slot while no pass completes and nobody asks to start over: jobs with whatever
  looks, passes that end without completing, and demotions for another reason (an overlap, a status file that
  cannot be written). A pass changes the index and the pair as it likes; only its completion drops what the
  demotion carried.\<close>

inductive unfinished :: "scan_options \<Rightarrow> path \<Rightarrow> pair_slot \<Rightarrow> pair_slot \<Rightarrow> bool" for so key where
  job: "unfinished so key ps (prepare_for_pass so key False j ps)"
| pass: "unfinished so key (SlotReady rd) (SlotReady (rd\<lparr>rd_pair := pr, rd_items_known := n, rd_watch := w\<rparr>))"
| stopped: "unfinished so key (SlotReady rd) (SlotUnavailable (demoted so e None rd))"

lemma carry_over_standing: "may_prepare so key False k un = (un1, Some p) \<Longrightarrow> p \<noteq> PromotedReset"
proof -
  assume m: "may_prepare so key False k un = (un1, Some p)"
  obtain un2 q where s: "settle_standing so key False k un = (un2, q)" by fastforce
  with m obtain q' where q: "q = Some q'" by (cases q) (simp_all add: may_prepare_def)
  from settled_promotion[OF s[unfolded q]] m show ?thesis
    by (auto simp: may_prepare_def s q split: option.splits carried_judgement.splits if_splits)
qed

lemma retry_risk:
  assumes "loses_something (un_recorded un)"
  shows "slot_at_risk (retry_unavailable so key False j un)"
proof (cases rule: promote_cases[of so key False "jl_retried j" un])
  case (refused un1)
  then show ?thesis using assms by (simp add: retry_unavailable_def slot_at_risk_def)
next
  case (unwritten un1 rd p cmp)
  then show ?thesis
    using assms carry_over_standing[OF unwritten(1)]
    by (simp add: retry_unavailable_def slot_at_risk_def demoted_def carry_keeps carry_over_fields)
next
  case (promoted un1 rd p cmp)
  then show ?thesis
    using assms carry_over_standing[OF promoted(1)] examine_slot_risk
    by (simp add: retry_unavailable_def carry_over_fields) (simp add: slot_at_risk_def carry_over_fields)
qed

lemma unfinished_risk: "unfinished so key ps ps' \<Longrightarrow> slot_at_risk ps \<Longrightarrow> slot_at_risk ps'"
proof (induction rule: unfinished.induct)
  case (job ps j)
  show ?case
  proof (cases ps)
    case (SlotReady rd)
    then have "slot_at_risk (examine_slot so (jl_examined j) rd)"
      using job examine_slot_risk by (simp add: slot_at_risk_def)
    with SlotReady show ?thesis
      using retry_risk by (cases "examine_slot so (jl_examined j) rd") (simp_all add: prepare_for_pass_def slot_at_risk_def)
  next
    case (SlotUnavailable un)
    then show ?thesis using job retry_risk by (simp add: prepare_for_pass_def slot_at_risk_def)
  qed
qed (simp_all add: slot_at_risk_def demoted_def carry_keeps)



section \<open>Overlaps\<close>

lemma overlap_symmetric:
  "real_path_overlap canon b a = None \<longleftrightarrow> real_path_overlap canon a b = None"
  by (auto simp: real_path_overlap_def Let_def state_files_def)

lemma demote_ready:
  "p < length slots \<Longrightarrow> is_ready (demote_pair places e q slots ! p) \<longleftrightarrow> is_ready (slots ! p) \<and> p \<noteq> q"
  "length (demote_pair places e q slots) = length slots"
  by (cases "q = p"; auto simp: demote_pair_def is_ready_def split: pair_slot.split)+

lemma demote_all_ready:
  "p < length slots \<Longrightarrow>
    is_ready (foldl (\<lambda>slots q. demote_pair places e q slots) slots qs ! p) \<longleftrightarrow> is_ready (slots ! p) \<and> p \<notin> set qs"
  "length (foldl (\<lambda>slots q. demote_pair places e q slots) slots qs) = length slots"
  by (induction qs arbitrary: slots) (auto simp: demote_ready)

lemma neighbours: "other \<in> set (overlapping_neighbours canon is_dir places pair) \<longleftrightarrow>
    other < length places \<and> other \<noteq> pair \<and> is_dir (sp_local_root (pl_paths (places ! other))) \<and>
    real_path_overlap canon (pl_paths (places ! pair)) (pl_paths (places ! other)) \<noteq> None"
  by (auto simp: overlapping_neighbours_def neighbours_with_a_folder_def)


section \<open>Coming back\<close>

text \<open>A disk that answers every look of a job alike, with a folder that holds something and a state that opens.\<close>

definition all_well :: "scan_options \<Rightarrow> path \<Rightarrow> root_identity \<Rightarrow> file_identity \<Rightarrow> file_identity \<Rightarrow> database \<Rightarrow> job_looks \<Rightarrow> bool" where
  "all_well so key folder index lock db j \<longleftrightarrow>
    (let r = jl_retried j; g = rl_opening r; q = rl_preparing r; k = jl_promoted j in
     rl_standing_root r = StatDirectory folder \<and> rl_judged_root r = StatDirectory folder \<and> pg_root q = StatDirectory folder \<and>
     og_root1 g = StatDirectory folder \<and> og_root2 g = StatDirectory folder \<and> pk_root k = StatDirectory folder \<and>
     rl_standing_options r \<and> rl_judged_options r \<and> og_options g \<and>
     holds_something so (rl_standing_tree r) \<and> holds_something so (rl_judged_tree r) \<and> holds_something so (pk_tree k) \<and>
     rl_recorded_root r = Inr (load_recorded_remote_root db) \<and> pg_index_directory q \<and> pg_lock_directory q \<and>
     pg_lock q = LockTaken (Inr lock) (LookPresent lock) \<and> og_database g = Inr db \<and>
     og_index1 g = LookPresent index \<and> og_index2 g = LookPresent index \<and> \<not> og_start_over_error g \<and> \<not> og_settle_error g \<and>
     rl_metrics_written r \<and> pk_index k = LookPresent index \<and> pk_lock_path k = LookPresent lock \<and> pk_lock_handle k = Inr lock)"

lemma same_directory_refl [simp]: "is_same_directory i i"
  by (auto simp: is_same_directory_def split: option.split)

lemma settled_root:
  "changed_remote_root (load_recorded_remote_root db) key = None \<Longrightarrow> fst (settle_remote_root_identity db key) = None"
  by (cases "load_recorded_remote_root db") (simp_all add: settle_remote_root_identity_def)

lemma started_over_root: "load_recorded_remote_root (reset_index_state db) = None"
  by (simp add: load_recorded_remote_root_def reset_index_state_def)

lemma open_checked_well:
  assumes "og_database g = Inr db" "og_index1 g = LookPresent index" "og_index2 g = LookPresent index" "og_options g"
    "\<not> og_start_over_error g" "\<not> og_settle_error g" "changed_remote_root (load_recorded_remote_root db) key = None"
    "og_root1 g = StatDirectory folder" "og_root2 g = StatDirectory folder"
  shows "\<exists>rd. open_checked key cmp chk g = Inr rd \<and> rd_db_identity rd = Some index \<and> rd_comparable rd = cmp \<and>
    rd_known_root rd = Recorded folder \<and> rd_unjudged rd = None \<and> pr_is_first_reconcile (rd_pair rd)"
proof -
  obtain rd where rd: "open_runtime cmp g = Inr rd" "rd_db_identity rd = Some index" "rd_comparable rd = cmp"
    "rd_known_root rd = Recorded folder" "rd_unjudged rd = None" "pr_is_first_reconcile (rd_pair rd)" "pr_db (rd_pair rd) = db"
    using assms by (simp add: open_runtime_def fresh_runtime_def)
  obtain db1 over where s: "start_over_if_the_record_outlived_its_baseline db key = (db1, over)" by fastforce
  have "changed_remote_root (load_recorded_remote_root db1) key = None"
    using s assms(7) started_over_root[of db]
    by (auto simp: start_over_if_the_record_outlived_its_baseline_def changed_remote_root_def split: if_splits)
  from settled_root[OF this] obtain db2 where "settle_remote_root_identity db1 key = (None, db2)" by (cases "settle_remote_root_identity db1 key") auto
  moreover have "over \<or> db1 = db" using s by (auto simp: start_over_if_the_record_outlived_its_baseline_def split: if_splits)
  ultimately show ?thesis using rd assms(5,6) s
    by (auto simp: open_checked_def Let_def on_rd_pair_def)
qed

lemma carry_over_root:
  "rd_known_root (carry_over p b un rd) =
    (if p = Plain \<and> expected (un_known_root un) \<noteq> None \<and> rd_known_root rd \<noteq> PresenceOnly
     then un_known_root un else rd_known_root rd)"
  by (auto simp: carry_over_def Let_def)

lemma carry_over_state:
  "rd_db_identity (carry_over p b un rd) = rd_db_identity rd" "rd_comparable (carry_over p b un rd) = rd_comparable rd"
  "pr_is_first_reconcile (rd_pair (carry_over p b un rd)) = pr_is_first_reconcile (rd_pair rd)"
  by (auto simp: carry_over_def Let_def)

lemma examine_well:
  assumes "pk_root k = StatDirectory folder" "holds_something so (pk_tree k)" "rd_db_identity rd = Some index"
    "pk_index k = LookPresent index" "pk_lock_path k = LookPresent lock" "pk_lock_handle k = Inr lock"
    "rd_known_root rd = Recorded known"
  shows "\<exists>rd'. examine_slot so k rd = SlotReady rd' \<and> root_verdict rd' (StatDirectory folder) = Inr () \<and>
    pr_is_first_reconcile (rd_pair rd') = pr_is_first_reconcile (rd_pair rd)"
proof -
  have state: "state_status_of k rd = StateIntact"
    using assms by (simp add: state_status_of_def both_statuses_def index_status_def is_the_file_at_def)
  have held: "recorded_under_an_empty_folder so (pk_tree k) e rd = RecordsNothing" for e
    using assms(2) by (simp add: recorded_under_an_empty_folder_def holds_something_def)
  show ?thesis
    using assms(1,7) state held
    by (auto simp: examine_slot_def examine_def Let_def is_replaced_def root_verdict_def)
qed

text \<open>When the folder is back, whichever directory it now is, and its state opens, the next attempt takes the pair into
  service, as a first pass that walks the folder; a held pair needs nothing but content to return.\<close>

theorem next_attempt_picks_the_folder_up:
  assumes "all_well so key folder index lock db j" "changed_remote_root (load_recorded_remote_root db) key = None"
  shows "\<exists>rd. prepare_for_pass so key False j (SlotUnavailable un) = SlotReady rd \<and>
    root_verdict rd (StatDirectory folder) = Inr () \<and> pr_is_first_reconcile (rd_pair rd)"
proof -
  let ?k = "jl_retried j"
  have well: "rl_standing_root ?k = StatDirectory folder" "rl_judged_root ?k = StatDirectory folder"
    "local_tree_holds_syncable_entry so (rl_standing_tree ?k) = Inr True"
    "local_tree_holds_syncable_entry so (rl_judged_tree ?k) = Inr True" "rl_standing_options ?k" "rl_judged_options ?k"
    "rl_recorded_root ?k = Inr (load_recorded_remote_root db)" "rl_metrics_written ?k"
    using assms(1) by (simp_all add: all_well_def Let_def holds_something_def)
  have prep: "prepare_pair_state RootMustExist (rl_preparing ?k) = Inr True"
    using assms(1) by (simp add: all_well_def Let_def prepare_pair_state_def comparable_def)
  obtain p un1 where may: "may_prepare so key False ?k un = (un1, Some p)"
  proof (cases "un_standing un")
    case None
    then show thesis using that well
      by (cases "at_risk (un_recorded un)") (auto simp: may_prepare_def settle_standing_def judge_carried_replacement_def)
  next
    case (Some standing)
    then show thesis using that well assms(2)
      by (cases standing; cases "at_risk (un_recorded un)")
        (auto simp: may_prepare_def settle_standing_def standing_cause_status_def judge_carried_replacement_def)
  qed
  obtain rd where rd: "open_checked key True (p \<noteq> PromotedReset) (rl_opening ?k) = Inr rd" "rd_db_identity rd = Some index"
    "rd_known_root rd = Recorded folder" "rd_unjudged rd = None" "pr_is_first_reconcile (rd_pair rd)"
    using open_checked_well[of "rl_opening ?k" db index key folder True "p \<noteq> PromotedReset"] assms
    by (auto simp: all_well_def Let_def)
  define rd1 where "rd1 = carry_over p (rl_force_stored ?k) un rd"
  note over = carry_over_state[of p "rl_force_stored ?k" un rd, folded rd1_def] carry_over_fields(3)[of p "rl_force_stored ?k" un rd, folded rd1_def]
  note root = carry_over_root[of p "rl_force_stored ?k" un rd, folded rd1_def]
  have promoted: "promote so key False ?k un = Inr (rd1, p)"
    using may prep rd(1) well(8) by (simp add: promote_def rd1_def)
  show ?thesis
  proof (cases "p = Plain")
    case True
    obtain known where "rd_known_root rd1 = Recorded known" using root rd(3) True by (cases "un_known_root un") auto
    from examine_well[OF _ _ _ _ _ _ this, of "jl_promoted j" folder so index lock] assms(1) rd over(1,3) promoted True
    show ?thesis by (auto simp: prepare_for_pass_def retry_unavailable_def all_well_def Let_def)
  next
    case False
    then show ?thesis using promoted over root rd
      by (simp add: prepare_for_pass_def retry_unavailable_def root_verdict_def)
  qed
qed

section \<open>Witnesses\<close>

text \<open>One pair whose drive is unplugged: an empty mount point stands where the folder was, one item is recorded.\<close>

definition px_options :: scan_options where
  "px_options = \<lparr>so_ignored_relative_paths = [], so_include_patterns = \<lambda>_. True, so_include_pattern_strings = [],
     so_has_include_patterns = False, so_exclude_patterns = \<lambda>_. False,
     so_conflict_naming = naming_from_suffix default_conflict_suffix\<rparr>"

definition px_drive :: root_identity where "px_drive = \<lparr>ri_device = 2, ri_inode = 10, ri_born = Some 100\<rparr>"
definition px_mount_point :: root_identity where "px_mount_point = \<lparr>ri_device = 1, ri_inode = 7, ri_born = Some 50\<rparr>"
definition px_index :: file_identity where "px_index = \<lparr>fd_device = 1, fd_inode = 20\<rparr>"
definition px_lock :: file_identity where "px_lock = \<lparr>fd_device = 1, fd_inode = 21\<rparr>"

definition px_full :: fs_listing where
  "px_full = Entries [Entry ''a'' (FsDir (Inr 1) (Entries []))]"

definition px_looks :: "root_identity \<Rightarrow> fs_listing \<Rightarrow> pair_looks" where
  "px_looks folder tree = \<lparr>pk_root = StatDirectory folder, pk_index = LookPresent px_index,
     pk_lock_path = LookPresent px_lock, pk_lock_handle = Inr px_lock, pk_tree = tree, pk_count_error = None,
     pk_carry_error = None, pk_force_stored = True\<rparr>"

definition px_job :: "root_identity \<Rightarrow> fs_listing \<Rightarrow> database \<Rightarrow> job_looks" where
  "px_job folder tree db = \<lparr>jl_examined = px_looks folder tree,
     jl_retried = \<lparr>rl_standing_root = StatDirectory folder, rl_standing_options = True, rl_standing_tree = tree,
       rl_recorded_root = Inr (load_recorded_remote_root db), rl_judged_root = StatDirectory folder,
       rl_judged_options = True, rl_judged_tree = tree,
       rl_preparing = \<lparr>pg_created = True, pg_root = StatDirectory folder, pg_index_directory = True,
         pg_lock_directory = True, pg_lock = LockTaken (Inr px_lock) (LookPresent px_lock)\<rparr>,
       rl_opening = \<lparr>og_database = Inr db, og_index1 = LookPresent px_index, og_index2 = LookPresent px_index,
         og_root1 = StatDirectory folder, og_root2 = StatDirectory folder, og_options = True, og_warm_error = False,
         og_unsyncable_error = False, og_forced_error = False, og_start_over_error = False, og_settle_error = False\<rparr>,
       rl_force_stored = True, rl_metrics_written = True, rl_carry_error = None\<rparr>,
     jl_promoted = px_looks folder tree\<rparr>"

definition px_ready :: "carried_count \<Rightarrow> ready_pair" where
  "px_ready carried = \<lparr>rd_pair = fresh_runtime (rl_opening (jl_retried (px_job px_drive px_full fresh_database))) gx_db,
     rd_db_identity = Some px_index, rd_comparable = True, rd_known_root = Recorded px_drive, rd_carried = carried,
     rd_items_known = 0, rd_unjudged = None, rd_watch = Unregistered\<rparr>"

definition px_held :: unavailable_pair where
  "px_held = \<lparr>un_standing = Some (ReplacedByEmptyFolder 1), un_known_root = Recorded px_drive,
     un_force_delete_approval = False, un_recorded = CarriedItems 1\<rparr>"

lemma px_examined:
  "examine_slot px_options (px_looks px_mount_point (Entries [])) (px_ready CarriedAbsent) = SlotUnavailable px_held"
  by code_simp

lemma px_unplugged_again:
  "rtranclp (unfinished px_options [Normal ''Drive'']) (SlotUnavailable px_held) (SlotUnavailable px_held)"
proof -
  have "prepare_for_pass px_options [Normal ''Drive''] False (px_job px_mount_point (Entries []) gx_db) (SlotUnavailable px_held) =
      SlotUnavailable px_held"
    by code_simp
  then show ?thesis
    using unfinished.job[of px_options "[Normal ''Drive'']" "SlotUnavailable px_held" "px_job px_mount_point (Entries []) gx_db"]
    by (intro r_into_rtranclp) simp
qed

definition px_back :: ready_pair where
  "px_back = (case retry_unavailable px_options [Normal ''Drive''] False (px_job px_drive px_full gx_db) px_held of
     SlotReady rd \<Rightarrow> rd | SlotUnavailable _ \<Rightarrow> px_ready CarriedAbsent)"

lemma px_back_ready:
  "retry_unavailable px_options [Normal ''Drive''] False (px_job px_drive px_full gx_db) px_held = SlotReady px_back"
proof -
  have "(case retry_unavailable px_options [Normal ''Drive''] False (px_job px_drive px_full gx_db) px_held of
      SlotReady _ \<Rightarrow> True | SlotUnavailable _ \<Rightarrow> False)" by code_simp
  then show ?thesis by (simp add: px_back_def split: pair_slot.splits)
qed



definition px_places :: "pair_place list" where
  "px_places = [\<lparr>pl_paths = \<lparr>sp_local_root = [RootDir, Normal ''u''], sp_db_path = [RootDir, Normal ''u'', Normal ''i''],
       sp_lockfile_path = [RootDir, Normal ''u'', Normal ''l'']\<rparr>, pl_options = px_options, pl_remote_root_key = [Normal ''A'']\<rparr>,
     \<lparr>pl_paths = \<lparr>sp_local_root = [RootDir, Normal ''u'', Normal ''v''], sp_db_path = [RootDir, Normal ''j''],
       sp_lockfile_path = [RootDir, Normal ''k'']\<rparr>, pl_options = px_options, pl_remote_root_key = [Normal ''B'']\<rparr>]"


theorem next_attempt_picks_the_folder_up_witness:
  "\<exists>rd. prepare_for_pass px_options [Normal ''Drive''] False (px_job px_drive px_full gx_db) (SlotUnavailable px_held) = SlotReady rd \<and>
    root_verdict rd (StatDirectory px_drive) = Inr () \<and> pr_is_first_reconcile (rd_pair rd)"
proof -
  have full: "holds_something px_options px_full" unfolding holds_something_def by code_simp
  have "changed_remote_root (load_recorded_remote_root gx_db) [Normal ''Drive''] = None" by code_simp
  from next_attempt_picks_the_folder_up[OF _ this, of px_options px_drive px_index px_lock "px_job px_drive px_full gx_db"] full
  show ?thesis by (simp add: all_well_def px_job_def px_looks_def)
qed

end
