(* ===== verification/Plan_Slot.thy ===== *)
theory Plan_Slot
  imports Pair_Slot
begin

text \<open>
  The plans a pair shows for review and the applies they authorise (\<^verbatim>\<open>src/daemon.rs\<close>, \<^verbatim>\<open>PlanSlot\<close>, \<^verbatim>\<open>StoredPlan\<close> and the
  operations on them; \<^verbatim>\<open>src/ipc.rs\<close> for the answers). Two pairs of counters are the whole contract with a
  client that polls: what was booked and what was answered. The rehearsal that computes a plan is the scan, the
  listing and the planner of the other theories; the time it was computed at is an argument.
\<close>

section \<open>A stored plan\<close>

record stored_plan =
  sn_token :: bytes
  sn_computed_epoch_secs :: u64
  sn_summary :: plan_summary
  sn_actions :: plan
  sn_cannot_sync :: "unsyncable_entry list"
  sn_local_disposal :: local_disposal

record reviewed_plan =
  rv_plan_seq :: nat
  rv_token :: bytes
  rv_computed_epoch_secs :: u64
  rv_summary :: plan_summary
  rv_truncated :: bool
  rv_total :: nat
  rv_actions :: plan
  rv_cannot_sync :: "unsyncable_entry list"
  rv_local_disposal :: local_disposal

text \<open>Answers to a plan request and to an apply; the text of a failure is only shown.\<close>

datatype plan_answer =
  PlanScheduled nat | PlanComputing nat | PlanComputed reviewed_plan | PlanFailed nat | PlanPaused | PlanAbsent

datatype apply_answer = ApplyScheduled nat | ApplyStale | ApplyPaused | ApplySealed nat apply_verdict

definition plan_actions_default_limit :: nat where "plan_actions_default_limit = 500"
definition plan_actions_max_limit :: nat where "plan_actions_max_limit = 5000"

definition clamp :: "nat \<Rightarrow> nat \<Rightarrow> nat \<Rightarrow> nat" where
  "clamp low high n = max low (min high n)"

text \<open>The rows a client is shown: every destructive one, then the others in plan order up to the limit.\<close>

definition stored_plan_outcome :: "stored_plan \<Rightarrow> nat \<Rightarrow> nat option \<Rightarrow> plan_answer" where
  "stored_plan_outcome sp plan_seq limit_asked =
    (let limit = clamp 1 plan_actions_max_limit (case limit_asked of Some n \<Rightarrow> n | None \<Rightarrow> plan_actions_default_limit);
         (destructive, rest) = partition (\<lambda>a. is_destructive (pa_action a)) (sn_actions sp);
         actions = destructive @ take limit rest
     in PlanComputed \<lparr>rv_plan_seq = plan_seq, rv_token = sn_token sp, rv_computed_epoch_secs = sn_computed_epoch_secs sp,
          rv_summary = sn_summary sp, rv_truncated = length actions < length (sn_actions sp),
          rv_total = length (sn_actions sp), rv_actions = actions, rv_cannot_sync = sn_cannot_sync sp,
          rv_local_disposal = sn_local_disposal sp\<rparr>)"

section \<open>The slot\<close>

record plan_slot =
  pn_requested :: nat
  pn_completed :: nat
  pn_stored :: "stored_plan option"
  pn_error :: bool
  pn_apply_requested :: nat
  pn_apply_completed :: nat
  pn_apply :: "apply_answer option"
  pn_queued_apply :: "apply_request option"

definition plan_slot_new :: plan_slot where
  "plan_slot_new = \<lparr>pn_requested = 0, pn_completed = 0, pn_stored = None, pn_error = False, pn_apply_requested = 0,
     pn_apply_completed = 0, pn_apply = None, pn_queued_apply = None\<rparr>"

definition book_plan_request :: "plan_slot \<Rightarrow> nat \<times> plan_slot" where
  "book_plan_request pn = (pn_requested pn + 1, pn\<lparr>pn_requested := pn_requested pn + 1\<rparr>)"

definition unbook_plan_request :: "plan_slot \<Rightarrow> plan_slot" where
  "unbook_plan_request pn = pn\<lparr>pn_requested := pn_requested pn - 1\<rparr>"

definition claim_plan_pass :: "plan_slot \<Rightarrow> nat option" where
  "claim_plan_pass pn = (if pn_completed pn < pn_requested pn then Some (pn_requested pn) else None)"

definition seal_plan_pass :: "nat \<Rightarrow> 'e + stored_plan \<Rightarrow> plan_slot \<Rightarrow> plan_slot" where
  "seal_plan_pass generation result pn =
    (case result of
       Inr plan \<Rightarrow> pn\<lparr>pn_stored := Some plan, pn_error := False, pn_completed := max (pn_completed pn) generation\<rparr>
     | Inl _ \<Rightarrow> pn\<lparr>pn_error := True, pn_completed := max (pn_completed pn) generation\<rparr>)"

definition replace_stored_plan :: "stored_plan \<Rightarrow> plan_slot \<Rightarrow> plan_slot" where
  "replace_stored_plan plan pn = pn\<lparr>pn_stored := Some plan, pn_error := False\<rparr>"

definition book_apply_request :: "bytes \<Rightarrow> bool \<Rightarrow> plan_slot \<Rightarrow> nat option \<times> plan_slot" where
  "book_apply_request token skip_destructive pn =
    (case pn_stored pn of
       None \<Rightarrow> (None, pn)
     | Some current \<Rightarrow>
         if sn_token current \<noteq> token then (None, pn)
         else (let seq = pn_apply_requested pn + 1
               in (Some seq, pn\<lparr>pn_apply_requested := seq, pn_apply := None,
                    pn_queued_apply := Some \<lparr>aq_seq = seq, aq_token = token, aq_skip_destructive = skip_destructive\<rparr>\<rparr>)))"

definition unbook_apply_request :: "plan_slot \<Rightarrow> plan_slot" where
  "unbook_apply_request pn = pn\<lparr>pn_apply_requested := pn_apply_requested pn - 1, pn_queued_apply := None\<rparr>"

definition take_apply_request :: "plan_slot \<Rightarrow> apply_request option \<times> plan_slot" where
  "take_apply_request pn = (pn_queued_apply pn, pn\<lparr>pn_queued_apply := None\<rparr>)"

definition seal_apply_pass :: "apply_answer \<Rightarrow> plan_slot \<Rightarrow> plan_slot" where
  "seal_apply_pass outcome pn =
    (let seal = (\<lambda>generation. pn\<lparr>pn_apply_completed := max (pn_apply_completed pn) generation, pn_apply := Some outcome\<rparr>)
     in case outcome of
          ApplySealed seq _ \<Rightarrow> seal seq
        | ApplyScheduled seq \<Rightarrow> seal seq
        | _ \<Rightarrow> pn)"

definition plan_outcome_now :: "nat option \<Rightarrow> plan_slot \<Rightarrow> plan_answer" where
  "plan_outcome_now limit pn =
    (if pn_completed pn < pn_requested pn then PlanComputing (pn_completed pn)
     else if pn_error pn then PlanFailed (pn_completed pn)
     else (case pn_stored pn of
         Some plan \<Rightarrow> stored_plan_outcome plan (pn_completed pn) limit
       | None \<Rightarrow> PlanAbsent))"

section \<open>The rehearsal\<close>

text \<open>
  A plan-only pass. It reads the runtime and changes nothing of it, so its answer is the plan and the world. The
  looks at the folder and the state are those of an examination; the folder is looked at once more after the scan.
\<close>

record plan_looks =
  pq_looks :: pair_looks
  pq_verdict_root :: root_stat
  pq_after_scan :: root_stat
  pq_now :: u64

definition removed_state :: "pair_looks \<Rightarrow> ready_pair \<Rightarrow> bool" where
  "removed_state k rd \<longleftrightarrow> state_status_of k rd = StateRemoved"

definition build_plan_report ::
  "'w engine_outside \<Rightarrow> pair_settings \<Rightarrow> root_stat \<Rightarrow> root_identity option \<Rightarrow> base_map \<Rightarrow> 'w \<Rightarrow>
   (bytes + dry_run_report) \<times> 'w" where
  "build_plan_report eo se after_scan expect base_records w =
    (case eo_tree eo w of (listing, w1) \<Rightarrow>
     case scan_local_tree (se_local_root se) (se_scan_options se) base_records listing of
       Inl _ \<Rightarrow> (Inl ''local scan'', w1)
     | Inr scan \<Rightarrow>
         (case root_availability after_scan expect of
            Inl _ \<Rightarrow> (Inl ''root unavailable'', w1)
          | Inr _ \<Rightarrow>
              (case eo_list_entities eo (se_remote_root se) w1 of
                 (Inl _, w2) \<Rightarrow> (Inl ''remote listing'', w2)
               | (Inr listed, w2) \<Rightarrow>
                   (let missing = (listed = None);
                        R = (case listed of Some es \<Rightarrow> filter_remote_entities es (se_scan_options se) | None \<Rightarrow> []);
                        B = (if missing then [] else filter_base_index base_records (se_scan_options se));
                        outcome = plan_sync_entities_with_stats (ls_entities scan) R B (se_naming se);
                        actions = prepend_remote_root_creation_if_missing (po_actions outcome) missing
                    in (Inr (report_from_outcome (outcome\<lparr>po_actions := actions\<rparr>) (ls_unsyncable scan)), w2)))))"

definition plan_only_blocking ::
  "'w engine_outside \<Rightarrow> pair_settings \<Rightarrow> plan_looks \<Rightarrow> ready_pair \<Rightarrow> 'w \<Rightarrow> (bytes + stored_plan) \<times> 'w" where
  "plan_only_blocking eo se q rd w =
    (case eo_open_cache eo w of
       (Inl _, w1) \<Rightarrow> (Inl ''cache'', w1)
     | (Inr _, w1) \<Rightarrow>
         (case root_availability (pk_root (pq_looks q)) None of
            Inl _ \<Rightarrow> (Inl ''root unavailable'', w1)
          | Inr _ \<Rightarrow>
              if removed_state (pq_looks q) rd then (Inl ''state removed'', w1)
              else (case root_verdict rd (pq_verdict_root q) of
                 Inl _ \<Rightarrow> (Inl ''root unavailable'', w1)
               | Inr _ \<Rightarrow>
                   (case load_index (pr_db (rd_pair rd)) of
                      None \<Rightarrow> (Inl ''unreadable index'', w1)
                    | Some base_records \<Rightarrow>
                        (case build_plan_report eo se (pq_after_scan q) (expected (rd_known_root rd)) base_records w1 of
                           (Inl e, w2) \<Rightarrow> (Inl e, w2)
                         | (Inr report, w2) \<Rightarrow>
                             (Inr \<lparr>sn_token = report_token (se_sha256 se) report, sn_computed_epoch_secs = pq_now q,
                                sn_summary = dr_summary report, sn_actions = dr_plan report,
                                sn_cannot_sync = dr_cannot_sync report,
                                sn_local_disposal = disposal_of DeleteLocal (gc_local_delete_mode (se_gate se))\<rparr>, w2))))))"

end
