(* ===== verification/Pair_Control.thy ===== *)
theory Pair_Control
  imports Plan_Slot Run_Loop
begin

text \<open>
  The control plane (\<^verbatim>\<open>src/daemon.rs\<close>): what the control socket's task and the run loop share of each pair
  (\<^verbatim>\<open>PairShared\<close>), the verbs a client may send (\<^verbatim>\<open>handle_control_connection\<close>), and the dispatch of a job
  (\<^verbatim>\<open>run_job\<close>). The two tasks interleave: a job is its beginning, which takes what was requested, and its end,
  which answers it, and verbs are served in between. What a pass does in between is the subject of \<^verbatim>\<open>Reconcile\<close>;
  here its outcome is an argument. The wording of a reply, and what is only published for display, is left out.
\<close>

section \<open>What is shared of a pair\<close>

datatype pause_record = PauseUnread | PauseSaved | PauseUnsaved

record pair_control =
  pc_name :: bytes
  pc_paused :: bool
  pc_pause_record :: pause_record
  pc_syncing :: bool
  pc_plan_pass :: bool
  pc_has_runtime :: bool
  pc_runtime_generation :: nat
  pc_reconcile_seq :: nat
  pc_force_full_walk :: bool
  pc_reset_index :: bool
  pc_pending_deletions :: "pending_deletion list"
  pc_plan :: plan_slot

definition pair_control_new :: "bytes \<Rightarrow> pair_control" where
  "pair_control_new name =
    \<lparr>pc_name = name, pc_paused = False, pc_pause_record = PauseUnread, pc_syncing = False, pc_plan_pass = False,
     pc_has_runtime = True, pc_runtime_generation = 0, pc_reconcile_seq = 0, pc_force_full_walk = False,
     pc_reset_index = False, pc_pending_deletions = [], pc_plan = plan_slot_new\<rparr>"

text \<open>A write to the index that does not land leaves it as it was. The first component is whether it was saved.\<close>

definition set_paused :: "bool \<Rightarrow> database option \<Rightarrow> bool \<Rightarrow> pair_control \<Rightarrow> bool \<times> pair_control \<times> database option" where
  "set_paused paused index written pc =
    (let pc1 = pc\<lparr>pc_paused := paused\<rparr> in
     case index of
       Some db \<Rightarrow>
         if written then (True, pc1\<lparr>pc_pause_record := PauseSaved\<rparr>, Some (store_pair_paused db paused))
         else (False, pc1\<lparr>pc_pause_record := PauseUnsaved\<rparr>, Some db)
     | None \<Rightarrow> (False, pc1\<lparr>pc_pause_record := PauseUnsaved\<rparr>, None))"

definition adopt_pause :: "bool \<Rightarrow> bool \<Rightarrow> database \<Rightarrow> pair_control \<Rightarrow> pair_control \<times> database" where
  "adopt_pause readable written db pc =
    (case pc_pause_record pc of
       PauseUnread \<Rightarrow>
         if readable then (pc\<lparr>pc_paused := load_pair_paused db, pc_pause_record := PauseSaved\<rparr>, db)
         else (pc\<lparr>pc_paused := False\<rparr>, db)
     | _ \<Rightarrow>
         if written then (pc\<lparr>pc_pause_record := PauseSaved\<rparr>, store_pair_paused db (pc_paused pc))
         else (pc\<lparr>pc_pause_record := PauseUnsaved\<rparr>, db))"

definition flush_unsaved_pause :: "bool \<Rightarrow> database \<Rightarrow> pair_control \<Rightarrow> pair_control \<times> database" where
  "flush_unsaved_pause written db pc =
    (if pc_pause_record pc \<noteq> PauseUnsaved then (pc, db)
     else if written then (pc\<lparr>pc_pause_record := PauseSaved\<rparr>, store_pair_paused db (pc_paused pc))
     else (pc, db))"

definition set_has_runtime :: "bool \<Rightarrow> pair_control \<Rightarrow> pair_control" where
  "set_has_runtime ready pc =
    (let pc1 = (if ready then pc\<lparr>pc_runtime_generation := pc_runtime_generation pc + 1\<rparr> else pc)
     in pc1\<lparr>pc_has_runtime := ready\<rparr>)"

definition on_plan :: "(plan_slot \<Rightarrow> plan_slot) \<Rightarrow> pair_control \<Rightarrow> pair_control" where
  "on_plan f pc = pc\<lparr>pc_plan := f (pc_plan pc)\<rparr>"

definition a_counted_pass_is_running :: "pair_control \<Rightarrow> bool" where
  "a_counted_pass_is_running pc \<longleftrightarrow> pc_syncing pc \<and> \<not> pc_plan_pass pc"

section \<open>The daemon\<close>

text \<open>
  The controls and indexes of the pairs, in configuration order; the commands the loop has not received yet, and
  whether it still will; the cancel flag; the queue; and the job in flight, with what its beginning took.
\<close>

datatype running = RunIdle | RunSync nat "apply_request option" bool | RunPlan nat nat

record daemon =
  dm_controls :: "pair_control list"
  dm_indexes :: "database list"
  dm_channel :: "loop_command list"
  dm_receiving :: bool
  dm_cancelled :: bool
  dm_queue :: due_queue
  dm_running :: running

definition on_control :: "nat \<Rightarrow> (pair_control \<Rightarrow> pair_control) \<Rightarrow> daemon \<Rightarrow> daemon" where
  "on_control p f d = d\<lparr>dm_controls := (dm_controls d)[p := f (dm_controls d ! p)]\<rparr>"

definition on_control_and_index ::
  "nat \<Rightarrow> (database \<Rightarrow> pair_control \<Rightarrow> pair_control \<times> database) \<Rightarrow> daemon \<Rightarrow> daemon" where
  "on_control_and_index p f d =
    (case f (dm_indexes d ! p) (dm_controls d ! p) of
       (pc, db) \<Rightarrow> d\<lparr>dm_controls := (dm_controls d)[p := pc], dm_indexes := (dm_indexes d)[p := db]\<rparr>)"

definition send_command :: "loop_command \<Rightarrow> daemon \<Rightarrow> bool \<times> daemon" where
  "send_command c d = (if dm_receiving d then (True, d\<lparr>dm_channel := dm_channel d @ [c]\<rparr>) else (False, d))"

section \<open>The verbs\<close>

datatype control_command =
  CmdStatus | CmdPause | CmdResume | CmdSyncnow | CmdResync | CmdResetIndex | CmdApprove | CmdDeny | CmdKeep
| CmdShutdown | CmdActivity | CmdList | CmdPlan | CmdPlanResult | CmdApply

record control_request =
  cr_command :: control_command
  cr_argument :: "bytes option"
  cr_literal_path :: bool
  cr_limit :: "nat option"
  cr_direction :: "delete_direction option"
  cr_skip_destructive :: bool
  cr_pair :: "bytes option"

text \<open>What a reply says beyond its wording. A connection that is dropped without one is \<open>None\<close>.\<close>

record control_reply =
  rp_pair :: "bytes option"
  rp_plan :: "plan_answer option"
  rp_apply :: "apply_answer option"
  rp_pause_unsaved :: bool
  rp_answer :: "command_reply option"

definition plain_reply :: control_reply where
  "plain_reply = \<lparr>rp_pair = None, rp_plan = None, rp_apply = None, rp_pause_unsaved = False, rp_answer = None\<rparr>"

text \<open>Whether the index opens for the verb, whether the pause row can be written, and the time.\<close>

record verb_answers =
  va_opened :: bool
  va_written :: bool
  va_now :: int

definition resolve_pair_index :: "bytes option \<Rightarrow> pair_control list \<Rightarrow> nat option" where
  "resolve_pair_index selector pcs =
    (case selector of
       None \<Rightarrow> Some 0
     | Some name \<Rightarrow> find (\<lambda>p. pc_name (pcs ! p) = name) [0..<length pcs])"

definition approvals_connection :: "verb_answers \<Rightarrow> nat \<Rightarrow> daemon \<Rightarrow> database option" where
  "approvals_connection va p d =
    (if pc_has_runtime (dm_controls d ! p) \<and> va_opened va then Some (dm_indexes d ! p) else None)"

definition set_paused_through :: "verb_answers \<Rightarrow> nat \<Rightarrow> bool \<Rightarrow> daemon \<Rightarrow> bool \<times> daemon" where
  "set_paused_through va p paused d =
    (case set_paused paused (approvals_connection va p d) (va_written va) (dm_controls d ! p) of
       (saved, pc, index) \<Rightarrow>
         (saved, d\<lparr>dm_controls := (dm_controls d)[p := pc],
            dm_indexes := (case index of Some db \<Rightarrow> (dm_indexes d)[p := db] | None \<Rightarrow> dm_indexes d)\<rparr>))"

definition schedule_unless_paused :: "nat \<Rightarrow> daemon \<Rightarrow> daemon" where
  "schedule_unless_paused p d =
    (if pc_paused (dm_controls d ! p) then d else snd (send_command (SyncNow p) d))"

definition schedule_apply :: "nat \<Rightarrow> bytes option \<Rightarrow> bool \<Rightarrow> daemon \<Rightarrow> apply_answer \<times> daemon" where
  "schedule_apply p token_given skip_destructive d =
    (case token_given of
       None \<Rightarrow> (ApplyStale, d)
     | Some token \<Rightarrow>
         if pc_paused (dm_controls d ! p) then (ApplyPaused, d)
         else (case book_apply_request token skip_destructive (pc_plan (dm_controls d ! p)) of
             (None, _) \<Rightarrow> (ApplyStale, d)
           | (Some seq, pn) \<Rightarrow>
               (case send_command (SyncNow p) (on_control p (on_plan (\<lambda>_. pn)) d) of
                  (True, d1) \<Rightarrow> (ApplyScheduled seq, d1)
                | (False, d1) \<Rightarrow> (ApplySealed seq VerdictFailed, on_control p (on_plan unbook_apply_request) d1))))"

definition schedule_plan :: "nat \<Rightarrow> daemon \<Rightarrow> plan_answer \<times> daemon" where
  "schedule_plan p d =
    (if pc_paused (dm_controls d ! p) then (PlanPaused, d)
     else (case book_plan_request (pc_plan (dm_controls d ! p)) of
        (seq, pn) \<Rightarrow>
          (case send_command (PlanNow p) (on_control p (on_plan (\<lambda>_. pn)) d) of
             (True, d1) \<Rightarrow> (PlanScheduled seq, d1)
           | (False, d1) \<Rightarrow> (PlanFailed seq, on_control p (on_plan unbook_plan_request) d1))))"

definition approval_verb ::
  "verb_answers \<Rightarrow> control_request \<Rightarrow> bool \<Rightarrow> nat \<Rightarrow> daemon \<Rightarrow> control_reply option \<times> daemon" where
  "approval_verb va r approve p d =
    (case approvals_connection va p d of
       None \<Rightarrow> (Some plain_reply, d)
     | Some db \<Rightarrow>
         (case apply_approval_command db (va_now va) (pc_pending_deletions (dm_controls d ! p)) (cr_argument r)
             (cr_literal_path r) approve (cr_direction r) of
            None \<Rightarrow> (None, d)
          | Some (answer, db') \<Rightarrow>
              (Some (plain_reply\<lparr>rp_answer := Some answer\<rparr>), d\<lparr>dm_indexes := (dm_indexes d)[p := db']\<rparr>)))"

definition keep_verb :: "verb_answers \<Rightarrow> control_request \<Rightarrow> nat \<Rightarrow> daemon \<Rightarrow> control_reply option \<times> daemon" where
  "keep_verb va r p d =
    (case approvals_connection va p d of
       None \<Rightarrow> (Some plain_reply, d)
     | Some db \<Rightarrow>
         (case apply_keep_command db (pc_pending_deletions (dm_controls d ! p)) (cr_argument r) (cr_literal_path r) of
            None \<Rightarrow> (None, d)
          | Some ((answer, purged), db') \<Rightarrow>
              (let d1 = d\<lparr>dm_indexes := (dm_indexes d)[p := db']\<rparr>;
                   reply = Some (plain_reply\<lparr>rp_answer := Some answer\<rparr>)
               in if \<not> purged then (reply, d1)
                  else (reply, schedule_unless_paused p (on_control p (\<lambda>pc. pc\<lparr>pc_force_full_walk := True\<rparr>) d1)))))"

definition control_verb ::
  "verb_answers \<Rightarrow> control_request \<Rightarrow> nat \<Rightarrow> daemon \<Rightarrow> control_reply option \<times> daemon" where
  "control_verb va r p d =
    (case cr_command r of
       CmdPause \<Rightarrow>
         (case set_paused_through va p True d of
            (saved, d1) \<Rightarrow> (Some (plain_reply\<lparr>rp_pause_unsaved := \<not> saved\<rparr>), d1))
     | CmdResume \<Rightarrow>
         (let was_paused = pc_paused (dm_controls d ! p) in
          case set_paused_through va p False d of
            (saved, d1) \<Rightarrow>
              (Some (plain_reply\<lparr>rp_pause_unsaved := \<not> saved\<rparr>),
               if was_paused then snd (send_command (SyncNow p) d1) else d1))
     | CmdSyncnow \<Rightarrow> (Some plain_reply, schedule_unless_paused p d)
     | CmdResync \<Rightarrow>
         (Some plain_reply, schedule_unless_paused p (on_control p (\<lambda>pc. pc\<lparr>pc_force_full_walk := True\<rparr>) d))
     | CmdResetIndex \<Rightarrow>
         (Some plain_reply,
          schedule_unless_paused p (on_control p (\<lambda>pc. pc\<lparr>pc_reset_index := True, pc_force_full_walk := True\<rparr>) d))
     | CmdApprove \<Rightarrow> approval_verb va r True p d
     | CmdDeny \<Rightarrow> approval_verb va r False p d
     | CmdKeep \<Rightarrow> keep_verb va r p d
     | CmdPlan \<Rightarrow> (case schedule_plan p d of (answer, d1) \<Rightarrow> (Some (plain_reply\<lparr>rp_plan := Some answer\<rparr>), d1))
     | CmdPlanResult \<Rightarrow>
         (let pn = pc_plan (dm_controls d ! p)
          in (Some (plain_reply\<lparr>rp_plan := Some (plan_outcome_now (cr_limit r) pn), rp_apply := pn_apply pn\<rparr>), d))
     | CmdApply \<Rightarrow>
         (case schedule_apply p (cr_argument r) (cr_skip_destructive r) d of
            (answer, d1) \<Rightarrow> (Some (plain_reply\<lparr>rp_apply := Some answer\<rparr>), d1))
     | CmdShutdown \<Rightarrow> (Some plain_reply, snd (send_command LoopShutdown (d\<lparr>dm_cancelled := True\<rparr>)))
     | _ \<Rightarrow> (Some plain_reply, d))"

text \<open>The selector is resolved once; one that names no pair changes nothing. A shutdown ignores it.\<close>

definition handle_control :: "verb_answers \<Rightarrow> control_request \<Rightarrow> daemon \<Rightarrow> control_reply option \<times> daemon" where
  "handle_control va r d =
    (case (if cr_command r = CmdShutdown then Some 0 else resolve_pair_index (cr_pair r) (dm_controls d)) of
       None \<Rightarrow> (Some plain_reply, d)
     | Some p \<Rightarrow>
         (case control_verb va r p d of
            (reply, d1) \<Rightarrow> (map_option (\<lambda>rp. rp\<lparr>rp_pair := Some (pc_name (dm_controls d1 ! p))\<rparr>) reply, d1)))"

section \<open>The jobs\<close>

text \<open>What the preparation of a pair does to the control plane: a demotion, or a promotion to a runtime over the
  index it opened (with whether the pause row could be read, and written).\<close>

datatype slot_change = Demoted | Promoted database bool bool

fun slot_changed :: "nat \<Rightarrow> daemon \<Rightarrow> slot_change \<Rightarrow> daemon" where
  "slot_changed p d Demoted = on_control p (set_has_runtime False) d"
| "slot_changed p d (Promoted db readable written) =
    on_control p (set_has_runtime True)
      (on_control_and_index p (adopt_pause readable written) (d\<lparr>dm_indexes := (dm_indexes d)[p := db]\<rparr>))"

definition stop_pairs :: "nat list \<Rightarrow> daemon \<Rightarrow> daemon" where
  "stop_pairs stops d = foldl (\<lambda>e q. slot_changed q e Demoted) d stops"

text \<open>A new daemon over the pairs it prepared: each was made ready or is unavailable, and one whose first metrics
  could not be written is demoted at once.\<close>

definition with_client :: "slot_change list list \<Rightarrow> daemon \<Rightarrow> daemon" where
  "with_client slots d = foldl (\<lambda>e p. foldl (slot_changed p) e (slots ! p)) d [0..<length slots]"

text \<open>What the beginning of a pass meets: its cache, the folder, the truncation of a reset.\<close>

record pass_start =
  st_opened :: bool
  st_root_ok :: bool
  st_reset_ok :: bool

definition begin_pass :: "pass_start \<Rightarrow> nat \<Rightarrow> daemon \<Rightarrow> daemon" where
  "begin_pass st p d =
    (let d1 = on_control p (\<lambda>pc. pc\<lparr>pc_syncing := True\<rparr>) d in
     if \<not> st_opened st then d1\<lparr>dm_running := RunSync p None False\<rparr>
     else (let taken = fst (take_apply_request (pc_plan (dm_controls d1 ! p)));
               d2 = on_control p (on_plan (\<lambda>pn. snd (take_apply_request pn))) d1
           in if \<not> st_root_ok st then d2\<lparr>dm_running := RunSync p taken False\<rparr>
              else (let resync_requested = pc_force_full_walk (dm_controls d2 ! p)
                    in (on_control p (\<lambda>pc. pc\<lparr>pc_force_full_walk := False,
                          pc_reset_index := pc_reset_index pc \<and> \<not> st_reset_ok st\<rparr>) d2)
                       \<lparr>dm_running := RunSync p taken resync_requested\<rparr>)))"

definition discard_queued_apply_for_pause :: "nat \<Rightarrow> daemon \<Rightarrow> daemon" where
  "discard_queued_apply_for_pause p d =
    (case take_apply_request (pc_plan (dm_controls d ! p)) of
       (None, _) \<Rightarrow> d
     | (Some a, pn) \<Rightarrow> on_control p (on_plan (\<lambda>_. seal_apply_pass (ApplySealed (aq_seq a) VerdictFailed) pn)) d)"

definition skip_unavailable_pass :: "nat \<Rightarrow> daemon \<Rightarrow> daemon" where
  "skip_unavailable_pass p d =
    on_control p (\<lambda>pc. pc\<lparr>pc_reconcile_seq := pc_reconcile_seq pc + 1\<rparr>) (discard_queued_apply_for_pause p d)"

definition seal_unavailable_plan :: "nat \<Rightarrow> daemon \<Rightarrow> daemon" where
  "seal_unavailable_plan p d =
    (case claim_plan_pass (pc_plan (dm_controls d ! p)) of
       None \<Rightarrow> d
     | Some generation \<Rightarrow> on_control p (on_plan (seal_plan_pass generation (Inl ()))) d)"

definition begin_plan :: "nat \<Rightarrow> daemon \<Rightarrow> daemon" where
  "begin_plan p d =
    (case claim_plan_pass (pc_plan (dm_controls d ! p)) of
       None \<Rightarrow> d
     | Some generation \<Rightarrow>
         (on_control p (\<lambda>pc. pc\<lparr>pc_plan_pass := True, pc_syncing := True\<rparr>) d)\<lparr>dm_running := RunPlan p generation\<rparr>)"

text \<open>What a job meets before its pass: whether an unsaved pause could be written, what happened to its pair, and
  the pairs that were stopped because they overlap it.\<close>

record job_answers =
  ja_flushed :: bool
  ja_changes :: "slot_change list"
  ja_stopped :: "nat list"
  ja_start :: pass_start

definition before_the_pass :: "job_answers \<Rightarrow> job \<Rightarrow> daemon \<Rightarrow> daemon" where
  "before_the_pass ja j d =
    (if job_kind j \<noteq> JobSync then d
     else (let p = job_pair j;
               d1 = (if job_cause j = CauseSweep then on_control p (\<lambda>pc. pc\<lparr>pc_force_full_walk := True\<rparr>) d else d);
               d2 = (if pc_has_runtime (dm_controls d1 ! p)
                     then on_control_and_index p (flush_unsaved_pause (ja_flushed ja)) d1 else d1)
           in if pc_paused (dm_controls d2 ! p) then d2
              else stop_pairs (ja_stopped ja) (foldl (slot_changed p) d2 (ja_changes ja))))"

definition begin_job :: "job_answers \<Rightarrow> job \<Rightarrow> daemon \<Rightarrow> daemon" where
  "begin_job ja j d =
    (let p = job_pair j; d1 = before_the_pass ja j d; pc = dm_controls d1 ! p in
     case (job_kind j, pc_has_runtime pc, pc_paused pc) of
       (JobSync, True, True) \<Rightarrow> discard_queued_apply_for_pause p d1
     | (JobSync, True, False) \<Rightarrow> begin_pass (ja_start ja) p d1
     | (JobSync, False, False) \<Rightarrow> skip_unavailable_pass p d1
     | (JobSync, False, True) \<Rightarrow> discard_queued_apply_for_pause p d1
     | (JobPlan, True, _) \<Rightarrow> begin_plan p d1
     | (JobPlan, False, _) \<Rightarrow> seal_unavailable_plan p d1)"

text \<open>How a pass ends: the index and the pending deletions it leaves, the plan it put in place of the reviewed one,
  whether the folder was gone, the verdict on an apply, and whether it was held by a silent feed.\<close>

record pass_finish =
  fi_index :: database
  fi_pending :: "pending_deletion list"
  fi_replaced :: "stored_plan option"
  fi_root_lost :: bool
  fi_verdict :: apply_verdict
  fi_held :: bool

definition end_pass :: "pass_finish \<Rightarrow> daemon \<Rightarrow> daemon" where
  "end_pass fi d =
    (case dm_running d of
       RunSync p taken resync_requested \<Rightarrow>
         (on_control p (\<lambda>pc.
            (on_plan (\<lambda>pn.
               (let pn1 = (case fi_replaced fi of Some plan \<Rightarrow> replace_stored_plan plan pn | None \<Rightarrow> pn)
                in case taken of Some a \<Rightarrow> seal_apply_pass (ApplySealed (aq_seq a) (fi_verdict fi)) pn1 | None \<Rightarrow> pn1)) pc)
            \<lparr>pc_force_full_walk := pc_force_full_walk pc \<or> resync_requested \<and> fi_root_lost fi,
             pc_reconcile_seq := (if fi_held fi then pc_reconcile_seq pc else pc_reconcile_seq pc + 1),
             pc_pending_deletions := fi_pending fi, pc_syncing := False\<rparr>) d)
         \<lparr>dm_indexes := (dm_indexes d)[p := fi_index fi], dm_running := RunIdle\<rparr>
     | _ \<Rightarrow> d)"

definition end_plan :: "bytes + stored_plan \<Rightarrow> daemon \<Rightarrow> daemon" where
  "end_plan result d =
    (case dm_running d of
       RunPlan p generation \<Rightarrow>
         (on_control p (\<lambda>pc. (on_plan (seal_plan_pass generation result) pc)\<lparr>pc_syncing := False, pc_plan_pass := False\<rparr>) d)
         \<lparr>dm_running := RunIdle\<rparr>
     | _ \<Rightarrow> d)"

section \<open>The two tasks together\<close>

text \<open>
  One step of either task. \<open>opens\<close> restricts the steps to passes that could open their cache. No statement of a
  pass names the table of the pause. The loop stops at a shutdown, and then receives nothing any more.
\<close>

inductive daemon_step :: "bool \<Rightarrow> daemon \<Rightarrow> daemon \<Rightarrow> bool" for opens where
  verb: "daemon_step opens d (snd (handle_control va r d))"
| drain: "dm_running d = RunIdle \<Longrightarrow> dm_channel d = c # rest \<Longrightarrow>
    enqueue (length (dm_controls d)) c (dm_queue d) = (goes_on, q) \<Longrightarrow>
    daemon_step opens d (d\<lparr>dm_channel := rest, dm_queue := q, dm_receiving := dm_receiving d \<and> goes_on\<rparr>)"
| begin_job: "dm_running d = RunIdle \<Longrightarrow> dm_receiving d \<Longrightarrow> \<not> dm_cancelled d \<Longrightarrow> pop (dm_queue d) now = (Some j, q) \<Longrightarrow>
    (opens \<longrightarrow> st_opened (ja_start ja)) \<Longrightarrow> daemon_step opens d (begin_job ja j (d\<lparr>dm_queue := q\<rparr>))"
| end_pass: "db_pair_pause (fi_index fi) = db_pair_pause (dm_indexes d ! p) \<Longrightarrow> dm_running d = RunSync p taken rs \<Longrightarrow>
    daemon_step opens d (end_pass fi d)"
| end_plan: "daemon_step opens d (end_plan (result :: bytes + stored_plan) d)"
| rearm: "dm_running d = RunIdle \<Longrightarrow> timing_ok configs poll \<Longrightarrow> length configs = length (dm_controls d) \<Longrightarrow>
    job_pair j < length configs \<Longrightarrow> finish_job configs poll t j (dm_queue d) = Some q \<Longrightarrow>
    daemon_step opens d (d\<lparr>dm_queue := q\<rparr>)"

text \<open>The daemon before its pairs are prepared, over the indexes they will open.\<close>

definition started :: "daemon \<Rightarrow> bool" where
  "started d \<longleftrightarrow> dm_controls d \<noteq> [] \<and> length (dm_indexes d) = length (dm_controls d) \<and>
    list_all (\<lambda>pc. pc = pair_control_new (pc_name pc)) (dm_controls d) \<and> dm_channel d = [] \<and> dm_receiving d \<and>
    dm_running d = RunIdle \<and> queue_ok (dm_queue d) \<and> length (dq_next_due (dm_queue d)) = length (dm_controls d) \<and>
    dq_explicit (dm_queue d) = []"

end
