(* ===== verification/Control_Props.thy ===== *)
theory Control_Props
  imports Pair_Control Reconcile_Props Pair_Slot_Props
begin

text \<open>
  Properties of the control plane: whatever the two tasks do and in whatever order, a client that polls is
  answered; an apply runs nothing that was not reviewed; a pause that is said to be saved is what a restart
  restores; and a request touches no pair but its own.
\<close>

section \<open>Frames\<close>

lemma on_control_fields [simp]:
  "dm_indexes (on_control p f d) = dm_indexes d" "dm_channel (on_control p f d) = dm_channel d"
  "dm_receiving (on_control p f d) = dm_receiving d" "dm_cancelled (on_control p f d) = dm_cancelled d"
  "dm_queue (on_control p f d) = dm_queue d" "dm_running (on_control p f d) = dm_running d"
  "length (dm_controls (on_control p f d)) = length (dm_controls d)"
  "q \<noteq> p \<Longrightarrow> dm_controls (on_control p f d) ! q = dm_controls d ! q"
  "p < length (dm_controls d) \<Longrightarrow> dm_controls (on_control p f d) ! p = f (dm_controls d ! p)"
  by (simp_all add: on_control_def)

lemma on_both_fields [simp]:
  "dm_channel (on_control_and_index p f d) = dm_channel d" "dm_receiving (on_control_and_index p f d) = dm_receiving d"
  "dm_cancelled (on_control_and_index p f d) = dm_cancelled d" "dm_queue (on_control_and_index p f d) = dm_queue d"
  "dm_running (on_control_and_index p f d) = dm_running d"
  "length (dm_controls (on_control_and_index p f d)) = length (dm_controls d)"
  "length (dm_indexes (on_control_and_index p f d)) = length (dm_indexes d)"
  "q \<noteq> p \<Longrightarrow> dm_controls (on_control_and_index p f d) ! q = dm_controls d ! q"
  "q \<noteq> p \<Longrightarrow> dm_indexes (on_control_and_index p f d) ! q = dm_indexes d ! q"
  "p < length (dm_controls d) \<Longrightarrow>
     dm_controls (on_control_and_index p f d) ! p = fst (f (dm_indexes d ! p) (dm_controls d ! p))"
  "p < length (dm_indexes d) \<Longrightarrow>
     dm_indexes (on_control_and_index p f d) ! p = snd (f (dm_indexes d ! p) (dm_controls d ! p))"
  by (simp_all add: on_control_and_index_def split: prod.split)

lemma on_plan_fields [simp]:
  "pc_plan (on_plan f pc) = f (pc_plan pc)" "pc_paused (on_plan f pc) = pc_paused pc"
  "pc_pause_record (on_plan f pc) = pc_pause_record pc" "pc_has_runtime (on_plan f pc) = pc_has_runtime pc"
  "pc_name (on_plan f pc) = pc_name pc"
  by (simp_all add: on_plan_def)

lemma send_fields [simp]:
  "dm_controls (snd (send_command c d)) = dm_controls d" "dm_indexes (snd (send_command c d)) = dm_indexes d"
  "dm_receiving (snd (send_command c d)) = dm_receiving d" "dm_queue (snd (send_command c d)) = dm_queue d"
  "dm_running (snd (send_command c d)) = dm_running d" "dm_cancelled (snd (send_command c d)) = dm_cancelled d"
  "fst (send_command c d) = dm_receiving d"
  "dm_channel (snd (send_command c d)) = (if dm_receiving d then dm_channel d @ [c] else dm_channel d)"
  by (simp_all add: send_command_def)

lemma send_cases: "send_command c d = (dm_receiving d, snd (send_command c d))"
  by (simp add: send_command_def)

lemma pause_fields [simp]:
  "pc_plan (fst (snd (set_paused b i w pc))) = pc_plan pc" "pc_name (fst (snd (set_paused b i w pc))) = pc_name pc"
  "pc_plan (fst (adopt_pause r w db pc)) = pc_plan pc" "pc_plan (fst (flush_unsaved_pause w db pc)) = pc_plan pc"
  "pc_has_runtime (fst (flush_unsaved_pause w db pc)) = pc_has_runtime pc"
  "pc_paused (fst (flush_unsaved_pause w db pc)) = pc_paused pc"
  "pc_plan (set_has_runtime b pc) = pc_plan pc" "pc_paused (set_has_runtime b pc) = pc_paused pc"
  "pc_pause_record (set_has_runtime b pc) = pc_pause_record pc"
  by (simp_all add: set_paused_def adopt_pause_def flush_unsaved_pause_def set_has_runtime_def Let_def
      split: option.split pause_record.split)

section \<open>A verb changes one pair\<close>

text \<open>What a verb on the pair \<open>p\<close> may do to the daemon, and to the plans of the pair.\<close>

definition served :: "nat \<Rightarrow> daemon \<Rightarrow> daemon \<Rightarrow> bool" where
  "served p d d1 \<longleftrightarrow>
    length (dm_controls d1) = length (dm_controls d) \<and> length (dm_indexes d1) = length (dm_indexes d) \<and>
    dm_queue d1 = dm_queue d \<and> dm_running d1 = dm_running d \<and> dm_receiving d1 = dm_receiving d \<and>
    (\<exists>cs. dm_channel d1 = dm_channel d @ cs \<and> set cs \<subseteq> {SyncNow p, PlanNow p, LoopShutdown}) \<and>
    (\<forall>q. q \<noteq> p \<longrightarrow> dm_controls d1 ! q = dm_controls d ! q \<and> dm_indexes d1 ! q = dm_indexes d ! q)"

lemma served_refl [simp]: "served p d d"
  by (simp add: served_def)

lemma served_trans: "served p d e \<Longrightarrow> served p e f \<Longrightarrow> served p d f"
  by (force simp: served_def)

text \<open>Every primitive extends what was served so far.\<close>

lemma served_steps [simp]:
  assumes "served p d e"
  shows "served p d (on_control p f e)" "served p d (e\<lparr>dm_indexes := (dm_indexes e)[p := db]\<rparr>)"
    "served p d (snd (send_command (SyncNow p) e))" "served p d (snd (send_command (PlanNow p) e))"
    "served p d (snd (send_command LoopShutdown e))" "served p d (e\<lparr>dm_cancelled := True\<rparr>)"
    "served p d (snd (set_paused_through va p b e))"
  using assms by (force simp: served_def set_paused_through_def split: prod.split option.split)+

lemma served_schedule [simp]: "served p d e \<Longrightarrow> served p d (schedule_unless_paused p e)"
  by (simp add: schedule_unless_paused_def)

lemma served_schedule_apply [simp]: "served p d (snd (schedule_apply p t s d))"
  unfolding schedule_apply_def by (subst send_cases) (auto split: option.split prod.split bool.split)

lemma served_schedule_plan [simp]: "served p d (snd (schedule_plan p d))"
  unfolding schedule_plan_def by (subst send_cases) (auto split: option.split prod.split bool.split)

lemma served_verb: "served p d (snd (control_verb va r p d))"
  by (cases "cr_command r")
    (auto simp: control_verb_def approval_verb_def keep_verb_def case_prod_beta Let_def split: option.split)

lemma set_paused_through_plan [simp]:
  "p < length (dm_controls d) \<Longrightarrow>
    pc_plan (dm_controls (snd (set_paused_through va p b d)) ! p) = pc_plan (dm_controls d ! p)"
  by (simp add: set_paused_through_def case_prod_beta)

lemma schedule_unless_paused_fields [simp]:
  "dm_controls (schedule_unless_paused p d) = dm_controls d"
  "dm_indexes (schedule_unless_paused p d) = dm_indexes d"
  by (simp_all add: schedule_unless_paused_def)

lemma schedule_plan_plan:
  assumes "p < length (dm_controls d)" "dm_receiving d"
  shows "dm_controls (snd (schedule_plan p d)) = dm_controls d \<or>
    pc_plan (dm_controls (snd (schedule_plan p d)) ! p) = snd (book_plan_request (pc_plan (dm_controls d ! p))) \<and>
    PlanNow p \<in> set (dm_channel (snd (schedule_plan p d)))"
  using assms unfolding schedule_plan_def by (subst (1 2 3) send_cases) (simp add: case_prod_beta)

lemma schedule_apply_plan:
  assumes "p < length (dm_controls d)" "dm_receiving d"
  shows "dm_controls (snd (schedule_apply p t s d)) = dm_controls d \<or>
    (\<exists>token seq. book_apply_request token s (pc_plan (dm_controls d ! p)) =
       (Some seq, pc_plan (dm_controls (snd (schedule_apply p t s d)) ! p)) \<and>
      SyncNow p \<in> set (dm_channel (snd (schedule_apply p t s d))))"
  using assms unfolding schedule_apply_def
  by (subst (1 2 3) send_cases) (auto split: option.split prod.split)

lemma verb_plan:
  assumes "p < length (dm_controls d)" "dm_receiving d"
  shows "pc_plan (dm_controls (snd (control_verb va r p d)) ! p) = pc_plan (dm_controls d ! p) \<or>
    pc_plan (dm_controls (snd (control_verb va r p d)) ! p) = snd (book_plan_request (pc_plan (dm_controls d ! p))) \<and>
      PlanNow p \<in> set (dm_channel (snd (control_verb va r p d))) \<or>
    (\<exists>token s seq. book_apply_request token s (pc_plan (dm_controls d ! p)) =
       (Some seq, pc_plan (dm_controls (snd (control_verb va r p d)) ! p)) \<and>
      SyncNow p \<in> set (dm_channel (snd (control_verb va r p d))))"
proof (cases "cr_command r")
  case CmdPlan
  then show ?thesis using schedule_plan_plan[OF assms] by (auto simp: control_verb_def case_prod_beta)
next
  case CmdApply
  then show ?thesis using schedule_apply_plan[OF assms, of "cr_argument r" "cr_skip_destructive r"]
    by (elim disjE exE conjE) (simp_all add: control_verb_def case_prod_beta, blast)
qed (use assms in \<open>auto simp: control_verb_def approval_verb_def keep_verb_def case_prod_beta Let_def split: option.split\<close>)

lemma resolved_in_range:
  assumes "pcs \<noteq> []" "resolve_pair_index s pcs = Some p"
  shows "p < length pcs"
  using assms by (auto simp: resolve_pair_index_def find_Some_iff split: option.splits)

text \<open>A request serves the pair it resolves to, or nothing.\<close>

lemma handled:
  assumes "dm_controls d \<noteq> []"
  obtains "snd (handle_control va r d) = d"
  | p where "p < length (dm_controls d)" "snd (handle_control va r d) = snd (control_verb va r p d)"
proof (cases "if cr_command r = CmdShutdown then Some 0 else resolve_pair_index (cr_pair r) (dm_controls d)")
  case None
  then show thesis using that(1) by (simp add: handle_control_def)
next
  case (Some p)
  then have "p < length (dm_controls d)" using resolved_in_range[OF assms] assms by (auto split: if_splits)
  with Some show thesis using that(2) by (simp add: handle_control_def case_prod_beta)
qed

section \<open>Everything booked is answered, or asked of the loop\<close>

definition asked :: "nat \<Rightarrow> job_kind \<Rightarrow> daemon \<Rightarrow> bool" where
  "asked p kind d \<longleftrightarrow>
    (case kind of JobSync \<Rightarrow> SyncNow p | JobPlan \<Rightarrow> PlanNow p) \<in> set (dm_channel d) \<or>
    (p, kind) \<in> set (dq_explicit (dm_queue d))"

definition plan_in_hand :: "nat \<Rightarrow> daemon \<Rightarrow> nat" where
  "plan_in_hand p d = (case dm_running d of RunPlan q generation \<Rightarrow> if q = p then generation else 0 | _ \<Rightarrow> 0)"

definition apply_in_hand :: "nat \<Rightarrow> daemon \<Rightarrow> nat" where
  "apply_in_hand p d =
    (case dm_running d of RunSync q (Some a) _ \<Rightarrow> if q = p then aq_seq a else 0 | _ \<Rightarrow> 0)"

definition plan_kept :: "nat \<Rightarrow> daemon \<Rightarrow> bool" where
  "plan_kept p d \<longleftrightarrow>
    pn_requested (pc_plan (dm_controls d ! p)) \<le> max (pn_completed (pc_plan (dm_controls d ! p))) (plan_in_hand p d) \<or>
    asked p JobPlan d"

definition apply_kept :: "bool \<Rightarrow> nat \<Rightarrow> daemon \<Rightarrow> bool" where
  "apply_kept opens p d \<longleftrightarrow>
    (let pn = pc_plan (dm_controls d ! p) in
     case pn_queued_apply pn of
       Some a \<Rightarrow> aq_seq a = pn_apply_requested pn \<and> (opens \<longrightarrow> asked p JobSync d)
     | None \<Rightarrow> pn_apply_requested pn \<le> max (pn_apply_completed pn) (apply_in_hand p d))"

definition in_shape :: "daemon \<Rightarrow> bool" where
  "in_shape d \<longleftrightarrow> dm_controls d \<noteq> [] \<and> length (dm_indexes d) = length (dm_controls d) \<and> queue_ok (dm_queue d) \<and>
    length (dq_next_due (dm_queue d)) = length (dm_controls d) \<and>
    (case dm_running d of RunIdle \<Rightarrow> True | RunSync p _ _ \<Rightarrow> p < length (dm_controls d) | RunPlan p _ \<Rightarrow> p < length (dm_controls d))"

definition all_kept :: "bool \<Rightarrow> daemon \<Rightarrow> bool" where
  "all_kept opens d \<longleftrightarrow> in_shape d \<and>
    (dm_receiving d \<longrightarrow> (\<forall>p<length (dm_controls d). plan_kept p d \<and> apply_kept opens p d))"

lemma booked_apply:
  assumes "book_apply_request token s pn = (Some seq, pn')"
  shows "pn_requested pn' = pn_requested pn" "pn_completed pn' = pn_completed pn" "pn_apply_requested pn' = seq"
    "pn_queued_apply pn' = Some \<lparr>aq_seq = seq, aq_token = token, aq_skip_destructive = s\<rparr>"
    "\<exists>current. pn_stored pn = Some current \<and> sn_token current = token"
  using assms by (auto simp: book_apply_request_def Let_def split: option.splits if_splits)

lemma kept_served:
  assumes "all_kept opens d" "served p d d1" "p < length (dm_controls d)"
    "dm_receiving d \<Longrightarrow> pc_plan (dm_controls d1 ! p) = pc_plan (dm_controls d ! p) \<or>
      pc_plan (dm_controls d1 ! p) = snd (book_plan_request (pc_plan (dm_controls d ! p))) \<and> PlanNow p \<in> set (dm_channel d1) \<or>
      (\<exists>token s seq. book_apply_request token s (pc_plan (dm_controls d ! p)) = (Some seq, pc_plan (dm_controls d1 ! p)) \<and>
        SyncNow p \<in> set (dm_channel d1))"
  shows "all_kept opens d1"
proof -
  have s: "length (dm_controls d1) = length (dm_controls d)" "length (dm_indexes d1) = length (dm_indexes d)"
    "dm_queue d1 = dm_queue d" "dm_running d1 = dm_running d" "dm_receiving d1 = dm_receiving d"
    "\<And>q. q \<noteq> p \<Longrightarrow> dm_controls d1 ! q = dm_controls d ! q"
    using assms(2) by (auto simp: served_def)
  have more: "asked q kind d \<Longrightarrow> asked q kind d1" for q kind
    using assms(2) by (auto simp: served_def asked_def)
  have hand: "plan_in_hand q d1 = plan_in_hand q d" "apply_in_hand q d1 = apply_in_hand q d" for q
    using s by (simp_all add: plan_in_hand_def apply_in_hand_def)
  have "in_shape d1" using assms(1) s by (auto simp: all_kept_def in_shape_def split: running.splits)
  moreover have "plan_kept q d1 \<and> apply_kept opens q d1" if r: "dm_receiving d1" and q: "q < length (dm_controls d1)" for q
  proof -
    have k: "plan_kept q d" "apply_kept opens q d" using assms(1) r q s by (auto simp: all_kept_def)
    show ?thesis
    proof (cases "q = p")
      case False
      then show ?thesis using k s(6) more hand by (auto simp: plan_kept_def apply_kept_def Let_def split: option.splits)
    next
      case True
      have now: "PlanNow p \<in> set (dm_channel d1) \<Longrightarrow> asked p JobPlan d1" "SyncNow p \<in> set (dm_channel d1) \<Longrightarrow> asked p JobSync d1"
        by (simp_all add: asked_def)
      have k': "plan_kept p d" "apply_kept opens p d" using k True by simp_all
      consider (same) "pc_plan (dm_controls d1 ! p) = pc_plan (dm_controls d ! p)"
        | (plan) "pc_plan (dm_controls d1 ! p) = snd (book_plan_request (pc_plan (dm_controls d ! p)))" "asked p JobPlan d1"
        | (booked) token s seq where "book_apply_request token s (pc_plan (dm_controls d ! p)) = (Some seq, pc_plan (dm_controls d1 ! p))"
            "asked p JobSync d1"
        using assms(4) r s(5) now by auto
      then show ?thesis
      proof cases
        case same
        then show ?thesis using k' more[of p] hand by (auto simp: True plan_kept_def apply_kept_def Let_def split: option.splits)
      next
        case plan
        then show ?thesis using k' more[of p] hand
          by (auto simp: True plan_kept_def apply_kept_def book_plan_request_def Let_def split: option.splits)
      next
        case booked
        then show ?thesis using k' more[of p] hand booked_apply[OF booked(1)]
          by (auto simp: True plan_kept_def apply_kept_def)
      qed
    qed
  qed
  ultimately show ?thesis by (simp add: all_kept_def)
qed

section \<open>The steps of the loop\<close>

lemma pop_takes:
  assumes "queue_ok q" "pop q now = (Some j, q2)"
  shows "queue_ok q2" "length (dq_next_due q2) = length (dq_next_due q)" "job_pair j < length (dq_next_due q)"
    "(p, kind) \<in> set (dq_explicit q) \<Longrightarrow> (p, kind) \<in> set (dq_explicit q2) \<or> p = job_pair j \<and> kind = job_kind j"
proof -
  show "queue_ok q2" "length (dq_next_due q2) = length (dq_next_due q)"
    using pop_ok[OF assms(1), of now] pop_length[OF assms(1), of now] assms(2) by simp_all
  show "job_pair j < length (dq_next_due q)" by (rule pop_effect(1)[OF assms])
  show "(p, kind) \<in> set (dq_explicit q2) \<or> p = job_pair j \<and> kind = job_kind j" if "(p, kind) \<in> set (dq_explicit q)"
  proof (cases "dq_explicit q")
    case (Cons e rest)
    obtain a b where e: "e = (a, b)" by (cases e)
    have "job_pair j = a" "job_kind j = b"
      using assms(2) Cons e by (auto simp: pop_explicit Let_def)
    then show ?thesis using that pop_effect(2)[OF assms] Cons e by auto
  qed (use that in simp)
qed

text \<open>A step that leaves the channel, the queue and every other pair as they were.\<close>

definition local_to :: "nat \<Rightarrow> daemon \<Rightarrow> daemon \<Rightarrow> bool" where
  "local_to p d e \<longleftrightarrow>
    length (dm_controls e) = length (dm_controls d) \<and> length (dm_indexes e) = length (dm_indexes d) \<and>
    dm_channel e = dm_channel d \<and> dm_queue e = dm_queue d \<and> dm_receiving e = dm_receiving d \<and>
    (\<forall>q. q \<noteq> p \<longrightarrow> pc_plan (dm_controls e ! q) = pc_plan (dm_controls d ! q) \<and>
      pc_paused (dm_controls e ! q) = pc_paused (dm_controls d ! q) \<and>
      pc_pause_record (dm_controls e ! q) = pc_pause_record (dm_controls d ! q) \<and> dm_indexes e ! q = dm_indexes d ! q)"

lemma local_refl [simp]: "local_to p d d"
  by (simp add: local_to_def)

lemma local_trans: "local_to p d e \<Longrightarrow> local_to p e f \<Longrightarrow> local_to p d f"
  by (auto simp: local_to_def)

lemma local_steps [simp]:
  assumes "local_to p d e"
  shows "local_to p d (on_control p f e)" "local_to p d (on_control_and_index p g e)" "local_to p d (e\<lparr>dm_running := r\<rparr>)"
    "local_to p d (e\<lparr>dm_indexes := (dm_indexes e)[p := db]\<rparr>)"
  using assms by (auto simp: local_to_def)

lemma slot_changed_local [simp]: "local_to p d e \<Longrightarrow> local_to p d (slot_changed p e c)"
  by (cases c) simp_all

lemma slots_changed_local [simp]: "local_to p d e \<Longrightarrow> local_to p d (foldl (slot_changed p) e cs)"
  by (induction cs arbitrary: e) simp_all

lemma slot_changed_plan:
  assumes "p < length (dm_controls e)" "p < length (dm_indexes e)"
  shows "pc_plan (dm_controls (slot_changed p e c) ! p) = pc_plan (dm_controls e ! p)"
    "dm_running (slot_changed p e c) = dm_running e"
    "length (dm_controls (slot_changed p e c)) = length (dm_controls e)"
    "length (dm_indexes (slot_changed p e c)) = length (dm_indexes e)"
  using assms by (cases c; simp)+

lemma slots_changed_plan:
  assumes "p < length (dm_controls e)" "p < length (dm_indexes e)"
  shows "pc_plan (dm_controls (foldl (slot_changed p) e cs) ! p) = pc_plan (dm_controls e ! p) \<and>
    dm_running (foldl (slot_changed p) e cs) = dm_running e"
  using assms
proof (induction cs arbitrary: e)
  case (Cons c cs)
  then show ?case using slot_changed_plan[OF Cons.prems] by simp
qed simp

text \<open>Stopping a pair leaves its requests and its pause alone.\<close>

lemma on_control_nth:
  "dm_controls (on_control q f e) ! p =
    (if p = q \<and> q < length (dm_controls e) then f (dm_controls e ! q) else dm_controls e ! p)"
  by (cases "q < length (dm_controls e)") (simp_all add: on_control_def nth_list_update list_update_beyond)

lemma demoted_fields [simp]:
  "pc_plan (dm_controls (on_control q (set_has_runtime b) e) ! p) = pc_plan (dm_controls e ! p)"
  "pc_paused (dm_controls (on_control q (set_has_runtime b) e) ! p) = pc_paused (dm_controls e ! p)"
  "pc_pause_record (dm_controls (on_control q (set_has_runtime b) e) ! p) = pc_pause_record (dm_controls e ! p)"
  by (simp_all add: on_control_nth)

lemma stopped_fields [simp]:
  "pc_plan (dm_controls (stop_pairs qs e) ! p) = pc_plan (dm_controls e ! p)"
  "pc_paused (dm_controls (stop_pairs qs e) ! p) = pc_paused (dm_controls e ! p)"
  "pc_pause_record (dm_controls (stop_pairs qs e) ! p) = pc_pause_record (dm_controls e ! p)"
  "dm_indexes (stop_pairs qs e) = dm_indexes e" "length (dm_controls (stop_pairs qs e)) = length (dm_controls e)"
  "dm_channel (stop_pairs qs e) = dm_channel e" "dm_receiving (stop_pairs qs e) = dm_receiving e"
  "dm_queue (stop_pairs qs e) = dm_queue e" "dm_running (stop_pairs qs e) = dm_running e"
  by (induction qs arbitrary: e) (simp_all add: stop_pairs_def)

lemma stopped_local [simp]: "local_to p d e \<Longrightarrow> local_to p d (stop_pairs qs e)"
  by (simp add: local_to_def)

lemma before_local: "local_to (job_pair j) d (before_the_pass ja j d)"
  by (simp add: before_the_pass_def Let_def)

lemma before_plan:
  assumes "job_pair j < length (dm_controls d)" "job_pair j < length (dm_indexes d)"
  shows "pc_plan (dm_controls (before_the_pass ja j d) ! job_pair j) = pc_plan (dm_controls d ! job_pair j) \<and>
    dm_running (before_the_pass ja j d) = dm_running d"
  using assms
  by (auto simp: before_the_pass_def Let_def slots_changed_plan)

lemma begin_job_local: "local_to (job_pair j) d (begin_job ja j d)"
  using before_local[of j d ja]
  by (auto simp: begin_job_def discard_queued_apply_for_pause_def skip_unavailable_pass_def seal_unavailable_plan_def
      begin_plan_def begin_pass_def Let_def split: job_kind.split bool.split option.split prod.split)

text \<open>What the beginning of a job leaves of the requests of its pair.\<close>

lemma begin_job_plan:
  assumes p: "job_pair j < length (dm_controls d)" "job_pair j < length (dm_indexes d)" and idle: "dm_running d = RunIdle"
    and kept: "pn_requested (pc_plan (dm_controls d ! job_pair j)) \<le> pn_completed (pc_plan (dm_controls d ! job_pair j)) \<or>
      job_kind j = JobPlan \<or> rest"
  shows "pn_requested (pc_plan (dm_controls (begin_job ja j d) ! job_pair j))
      \<le> max (pn_completed (pc_plan (dm_controls (begin_job ja j d) ! job_pair j))) (plan_in_hand (job_pair j) (begin_job ja j d)) \<or> rest"
proof -
  define e where "e = before_the_pass ja j d"
  have e: "pc_plan (dm_controls e ! job_pair j) = pc_plan (dm_controls d ! job_pair j)" "dm_running e = RunIdle"
    "job_pair j < length (dm_controls e)"
    using before_plan[OF p, of ja] idle before_local[of j d ja] p by (auto simp: e_def local_to_def)
  show ?thesis
    using kept e
    by (auto simp: begin_job_def e_def[symmetric] discard_queued_apply_for_pause_def skip_unavailable_pass_def
        seal_unavailable_plan_def begin_plan_def begin_pass_def plan_in_hand_def claim_plan_pass_def seal_plan_pass_def
        take_apply_request_def seal_apply_pass_def Let_def split: job_kind.split bool.split option.split if_splits)
qed

lemma begin_job_apply:
  assumes p: "job_pair j < length (dm_controls d)" "job_pair j < length (dm_indexes d)" and idle: "dm_running d = RunIdle"
    and opens: "opens \<Longrightarrow> st_opened (ja_start ja)"
    and kept: "case pn_queued_apply (pc_plan (dm_controls d ! job_pair j)) of
        Some a \<Rightarrow> aq_seq a = pn_apply_requested (pc_plan (dm_controls d ! job_pair j)) \<and>
          (opens \<longrightarrow> rest \<or> job_kind j = JobSync)
      | None \<Rightarrow> pn_apply_requested (pc_plan (dm_controls d ! job_pair j)) \<le>
          pn_apply_completed (pc_plan (dm_controls d ! job_pair j))"
  shows "let pn = pc_plan (dm_controls (begin_job ja j d) ! job_pair j) in
    case pn_queued_apply pn of
      Some a \<Rightarrow> aq_seq a = pn_apply_requested pn \<and> (opens \<longrightarrow> rest)
    | None \<Rightarrow> pn_apply_requested pn \<le> max (pn_apply_completed pn) (apply_in_hand (job_pair j) (begin_job ja j d))"
proof -
  define e where "e = before_the_pass ja j d"
  have e: "pc_plan (dm_controls e ! job_pair j) = pc_plan (dm_controls d ! job_pair j)" "dm_running e = RunIdle"
    "job_pair j < length (dm_controls e)"
    using before_plan[OF p, of ja] idle before_local[of j d ja] p by (auto simp: e_def local_to_def)
  show ?thesis
    using kept e opens
    by (cases "pn_queued_apply (pc_plan (dm_controls d ! job_pair j))")
      (auto simp: begin_job_def e_def[symmetric] discard_queued_apply_for_pause_def skip_unavailable_pass_def
        seal_unavailable_plan_def begin_plan_def begin_pass_def apply_in_hand_def claim_plan_pass_def seal_plan_pass_def
        take_apply_request_def seal_apply_pass_def Let_def split: job_kind.split bool.split option.split if_splits)
qed

lemma idle_hands [simp]: "dm_running d = RunIdle \<Longrightarrow> plan_in_hand p d = 0 \<and> apply_in_hand p d = 0"
  by (simp add: plan_in_hand_def apply_in_hand_def)

lemma begin_job_running:
  "dm_running d = RunIdle \<Longrightarrow> job_pair j < length (dm_controls d) \<Longrightarrow> job_pair j < length (dm_indexes d) \<Longrightarrow>
    case dm_running (begin_job ja j d) of RunIdle \<Rightarrow> True | RunSync p _ _ \<Rightarrow> p = job_pair j | RunPlan p _ \<Rightarrow> p = job_pair j"
  using before_plan[of j d ja]
  by (auto simp: begin_job_def discard_queued_apply_for_pause_def skip_unavailable_pass_def seal_unavailable_plan_def
      begin_plan_def begin_pass_def Let_def split: job_kind.split bool.split option.split prod.split)

lemma kept_begin_job:
  assumes kept: "all_kept opens d" and idle: "dm_running d = RunIdle" "dm_receiving d"
    and pop: "pop (dm_queue d) now = (Some j, q)" and opened: "opens \<Longrightarrow> st_opened (ja_start ja)"
  shows "all_kept opens (begin_job ja j (d\<lparr>dm_queue := q\<rparr>))"
proof -
  define d0 where "d0 = d\<lparr>dm_queue := q\<rparr>"
  define e where "e = begin_job ja j d0"
  have shape: "in_shape d" and k: "\<And>p. p < length (dm_controls d) \<Longrightarrow> plan_kept p d \<and> apply_kept opens p d"
    using kept idle(2) by (auto simp: all_kept_def)
  have ok: "queue_ok (dm_queue d)" using shape by (simp add: in_shape_def)
  note taken = pop_takes[OF ok pop]
  have p: "job_pair j < length (dm_controls d0)" "job_pair j < length (dm_indexes d0)" "dm_running d0 = RunIdle"
    using taken(3) shape idle(1) by (auto simp: d0_def in_shape_def)
  have loc: "local_to (job_pair j) d0 e" by (simp add: e_def begin_job_local)
  have lens: "length (dm_controls e) = length (dm_controls d)" "length (dm_indexes e) = length (dm_indexes d)"
    "dm_queue e = q" "dm_channel e = dm_channel d" "dm_receiving e"
    "\<And>r. r \<noteq> job_pair j \<Longrightarrow> pc_plan (dm_controls e ! r) = pc_plan (dm_controls d ! r)"
    using loc idle(2) by (auto simp: local_to_def d0_def)
  have same: "dm_controls d0 = dm_controls d" by (simp add: d0_def)
  note run = begin_job_running[OF p(3,1,2), of ja, folded e_def]
  have "in_shape e"
    using shape lens taken run p by (auto simp: in_shape_def d0_def split: running.splits)
  moreover have asked: "asked r kind d \<Longrightarrow> asked r kind e \<or> r = job_pair j \<and> kind = job_kind j" for r kind
    using taken(4)[of r kind] lens by (auto simp: asked_def)
  have "plan_kept r e \<and> apply_kept opens r e" if r: "r < length (dm_controls d)" for r
  proof (cases "r = job_pair j")
    case True
    have "pn_requested (pc_plan (dm_controls e ! job_pair j))
        \<le> max (pn_completed (pc_plan (dm_controls e ! job_pair j))) (plan_in_hand (job_pair j) e) \<or> asked (job_pair j) JobPlan e"
      using begin_job_plan[OF p, of "asked (job_pair j) JobPlan e" ja, folded e_def] k[OF r] True
        asked[of "job_pair j" JobPlan] idle(1)
      by (auto simp: plan_kept_def same)
    moreover have "case pn_queued_apply (pc_plan (dm_controls d0 ! job_pair j)) of
        Some a \<Rightarrow> aq_seq a = pn_apply_requested (pc_plan (dm_controls d0 ! job_pair j)) \<and>
          (opens \<longrightarrow> asked (job_pair j) JobSync e \<or> job_kind j = JobSync)
      | None \<Rightarrow> pn_apply_requested (pc_plan (dm_controls d0 ! job_pair j)) \<le>
          pn_apply_completed (pc_plan (dm_controls d0 ! job_pair j))"
      using k[OF r] True asked[of "job_pair j" JobSync] idle(1)
      by (cases "pn_queued_apply (pc_plan (dm_controls d ! job_pair j))") (auto simp: apply_kept_def same Let_def)
    from begin_job_apply[OF p opened this, folded e_def] have "apply_kept opens (job_pair j) e"
      by (simp add: apply_kept_def)
    ultimately show ?thesis by (simp add: plan_kept_def True)
  next
    case False
    have "plan_in_hand r e = 0" "apply_in_hand r e = 0"
      using run False by (auto simp: plan_in_hand_def apply_in_hand_def split: running.splits option.splits)
    then show ?thesis
      using k[OF r] lens(6)[OF False] asked[of r] False idle(1)
      by (auto simp: plan_kept_def apply_kept_def Let_def split: option.splits)
  qed
  ultimately show ?thesis using lens by (simp add: all_kept_def e_def d0_def)
qed

lemma kept_end_pass:
  assumes kept: "all_kept opens d" and run: "dm_running d = RunSync p taken rs"
  shows "all_kept opens (end_pass fi d)"
proof -
  define e where "e = end_pass fi d"
  have p: "p < length (dm_controls d)" "p < length (dm_indexes d)" using kept run by (auto simp: all_kept_def in_shape_def)
  have e: "length (dm_controls e) = length (dm_controls d)" "length (dm_indexes e) = length (dm_indexes d)"
    "dm_queue e = dm_queue d" "dm_channel e = dm_channel d" "dm_receiving e = dm_receiving d" "dm_running e = RunIdle"
    "\<And>r. r \<noteq> p \<Longrightarrow> dm_controls e ! r = dm_controls d ! r"
    using run by (simp_all add: e_def end_pass_def)
  have plan: "pn_requested (pc_plan (dm_controls e ! p)) = pn_requested (pc_plan (dm_controls d ! p))"
    "pn_completed (pc_plan (dm_controls e ! p)) = pn_completed (pc_plan (dm_controls d ! p))"
    "pn_queued_apply (pc_plan (dm_controls e ! p)) = pn_queued_apply (pc_plan (dm_controls d ! p))"
    "pn_apply_requested (pc_plan (dm_controls e ! p)) = pn_apply_requested (pc_plan (dm_controls d ! p))"
    "pn_apply_completed (pc_plan (dm_controls e ! p)) =
      max (pn_apply_completed (pc_plan (dm_controls d ! p))) (apply_in_hand p d)"
    using run p
    by (auto simp: e_def end_pass_def on_plan_def replace_stored_plan_def seal_apply_pass_def apply_in_hand_def Let_def
        split: option.split)
  have asked: "asked r kind e = asked r kind d" for r kind using e by (simp add: asked_def)
  have hand: "plan_in_hand r d = 0" "r \<noteq> p \<Longrightarrow> apply_in_hand r d = 0" for r
    using run by (auto simp: plan_in_hand_def apply_in_hand_def split: option.split)
  have "plan_kept r e \<and> apply_kept opens r e" if "plan_kept r d" "apply_kept opens r d" for r
    using that plan e(6,7) asked hand[of r]
    by (cases "r = p") (auto simp: plan_kept_def apply_kept_def Let_def split: option.splits)
  then show ?thesis using kept e by (auto simp: all_kept_def in_shape_def e_def[symmetric])
qed

lemma kept_end_plan:
  assumes kept: "all_kept opens d"
  shows "all_kept opens (end_plan result d)"
proof (cases "dm_running d")
  case (RunPlan p g)
  define e where "e = end_plan result d"
  have p: "p < length (dm_controls d)" using kept RunPlan by (auto simp: all_kept_def in_shape_def)
  have e: "length (dm_controls e) = length (dm_controls d)" "length (dm_indexes e) = length (dm_indexes d)"
    "dm_queue e = dm_queue d" "dm_channel e = dm_channel d" "dm_receiving e = dm_receiving d" "dm_running e = RunIdle"
    "\<And>r. r \<noteq> p \<Longrightarrow> dm_controls e ! r = dm_controls d ! r"
    using RunPlan by (simp_all add: e_def end_plan_def)
  have plan: "pn_requested (pc_plan (dm_controls e ! p)) = pn_requested (pc_plan (dm_controls d ! p))"
    "pn_completed (pc_plan (dm_controls e ! p)) = max (pn_completed (pc_plan (dm_controls d ! p))) g"
    "pn_queued_apply (pc_plan (dm_controls e ! p)) = pn_queued_apply (pc_plan (dm_controls d ! p))"
    "pn_apply_requested (pc_plan (dm_controls e ! p)) = pn_apply_requested (pc_plan (dm_controls d ! p))"
    "pn_apply_completed (pc_plan (dm_controls e ! p)) = pn_apply_completed (pc_plan (dm_controls d ! p))"
    using RunPlan p by (auto simp: e_def end_plan_def on_plan_def seal_plan_pass_def split: sum.split)
  have asked: "asked r kind e = asked r kind d" for r kind using e by (simp add: asked_def)
  have hand: "plan_in_hand r d = (if r = p then g else 0)" "apply_in_hand r d = 0" for r
    using RunPlan by (auto simp: plan_in_hand_def apply_in_hand_def)
  have "plan_kept r e \<and> apply_kept opens r e" if "plan_kept r d" "apply_kept opens r d" for r
    using that plan e(6,7) asked hand[of r]
    by (cases "r = p") (auto simp: plan_kept_def apply_kept_def Let_def split: option.splits)
  then show ?thesis using kept e by (auto simp: all_kept_def in_shape_def e_def[symmetric])
qed (use kept in \<open>simp_all add: end_plan_def\<close>)

lemma request_length: "dq_next_due (request p kind q) = dq_next_due q"
  by (simp add: request_def)

text \<open>The channel and the queue may change as long as what was asked stays asked.\<close>

lemma kept_requeued:
  assumes kept: "all_kept opens d" and same: "dm_controls e = dm_controls d" "dm_indexes e = dm_indexes d"
    "dm_running e = dm_running d" "dm_receiving e \<Longrightarrow> dm_receiving d"
    and q: "queue_ok (dm_queue e)" "length (dq_next_due (dm_queue e)) = length (dm_controls d)"
    and asked: "\<And>p kind. dm_receiving e \<Longrightarrow> p < length (dm_controls d) \<Longrightarrow> asked p kind d \<Longrightarrow> asked p kind e"
  shows "all_kept opens e"
proof -
  have hands: "plan_in_hand p e = plan_in_hand p d" "apply_in_hand p e = apply_in_hand p d" for p
    using same by (simp_all add: plan_in_hand_def apply_in_hand_def)
  have "in_shape e" using kept q same by (cases "dm_running d") (simp_all add: all_kept_def in_shape_def)
  moreover have "plan_kept p e \<and> apply_kept opens p e" if "dm_receiving e" "p < length (dm_controls d)" for p
  proof -
    have "plan_kept p d" "apply_kept opens p d" using kept that same(4) by (simp_all add: all_kept_def)
    then show ?thesis using asked[OF that] same(1) hands
      by (cases "pn_queued_apply (pc_plan (dm_controls d ! p))") (auto simp: plan_kept_def apply_kept_def Let_def)
  qed
  ultimately show ?thesis using same(1) by (simp add: all_kept_def)
qed

lemma kept_drain:
  assumes kept: "all_kept opens d" and c: "dm_channel d = c # rest"
    and q: "enqueue (length (dm_controls d)) c (dm_queue d) = (goes_on, q)"
  shows "all_kept opens (d\<lparr>dm_channel := rest, dm_queue := q, dm_receiving := dm_receiving d \<and> goes_on\<rparr>)"
proof (rule kept_requeued[OF kept])
  have shape: "queue_ok (dm_queue d)" "length (dq_next_due (dm_queue d)) = length (dm_controls d)"
    using kept by (simp_all add: all_kept_def in_shape_def)
  have "queue_ok q \<and> length (dq_next_due q) = length (dm_controls d)"
    using q shape request_ok[OF shape(1)]
    by (cases c) (auto simp: enqueue_def request_length split: if_splits)
  then show "queue_ok (dm_queue (d\<lparr>dm_channel := rest, dm_queue := q, dm_receiving := dm_receiving d \<and> goes_on\<rparr>))"
    "length (dq_next_due (dm_queue (d\<lparr>dm_channel := rest, dm_queue := q, dm_receiving := dm_receiving d \<and> goes_on\<rparr>)))
      = length (dm_controls d)" by simp_all
  show "asked p kind (d\<lparr>dm_channel := rest, dm_queue := q, dm_receiving := dm_receiving d \<and> goes_on\<rparr>)"
    if "dm_receiving (d\<lparr>dm_channel := rest, dm_queue := q, dm_receiving := dm_receiving d \<and> goes_on\<rparr>)"
      "p < length (dm_controls d)" "asked p kind d" for p kind
    using that q c
    by (cases kind; cases c) (auto simp: asked_def enqueue_def request_def split: if_splits)
qed simp_all

lemma kept_step: "daemon_step opens d e \<Longrightarrow> all_kept opens d \<Longrightarrow> all_kept opens e"
proof (induction rule: daemon_step.induct)
  case (verb d va r)
  have ne: "dm_controls d \<noteq> []" using verb by (auto simp: all_kept_def in_shape_def)
  show ?case
  proof (rule handled[OF ne, of va r])
    fix p assume p: "p < length (dm_controls d)" "snd (handle_control va r d) = snd (control_verb va r p d)"
    show "all_kept opens (snd (handle_control va r d))"
      unfolding p(2) by (rule kept_served[OF verb served_verb p(1) verb_plan[OF p(1)]])
  qed (use verb in simp)
next
  case (drain d c rest goes_on q)
  then show ?case using kept_drain by blast
next
  case (begin_job d now j q ja)
  then show ?case using kept_begin_job by blast
next
  case (end_pass fi d p taken rs)
  then show ?case using kept_end_pass by blast
next
  case (end_plan d result)
  then show ?case by (rule kept_end_plan)
next
  case (rearm d configs poll j t q)
  have s: "shaped configs (dm_queue d)" using rearm by (auto simp: all_kept_def in_shape_def shaped_def)
  have "shaped configs q" using finish_defined[OF s rearm(2,4), of t] rearm(5) by simp
  moreover have "dq_explicit q = dq_explicit (dm_queue d)"
    using finish_effect(1)[OF rearm(5)] rearm(4) s by (auto simp: shaped_def queue_ok_def)
  ultimately show ?case
    using rearm(3) by (intro kept_requeued[OF rearm(6)]) (simp_all add: shaped_def asked_def)
qed

lemma kept_started:
  assumes "started d" shows "all_kept opens d"
proof -
  have "pc_plan (dm_controls d ! p) = plan_slot_new" if "p < length (dm_controls d)" for p
  proof -
    have "dm_controls d ! p = pair_control_new (pc_name (dm_controls d ! p))"
      using assms that by (simp add: started_def list_all_length)
    then have "pc_plan (dm_controls d ! p) = pc_plan (pair_control_new (pc_name (dm_controls d ! p)))" by simp
    then show ?thesis by (simp add: pair_control_new_def)
  qed
  then show ?thesis
    using assms by (simp add: started_def all_kept_def in_shape_def plan_kept_def apply_kept_def plan_slot_new_def)
qed

lemma slots_changed_fields:
  "dm_channel (foldl (slot_changed p) e cs) = dm_channel e" "dm_receiving (foldl (slot_changed p) e cs) = dm_receiving e"
  "dm_queue (foldl (slot_changed p) e cs) = dm_queue e" "dm_running (foldl (slot_changed p) e cs) = dm_running e"
  "length (dm_controls (foldl (slot_changed p) e cs)) = length (dm_controls e)"
  "length (dm_indexes (foldl (slot_changed p) e cs)) = length (dm_indexes e)"
proof -
  have "dm_channel (slot_changed p e c) = dm_channel e \<and> dm_receiving (slot_changed p e c) = dm_receiving e \<and>
    dm_queue (slot_changed p e c) = dm_queue e \<and> dm_running (slot_changed p e c) = dm_running e \<and>
    length (dm_controls (slot_changed p e c)) = length (dm_controls e) \<and>
    length (dm_indexes (slot_changed p e c)) = length (dm_indexes e)" for e c
    by (cases c) simp_all
  then show "dm_channel (foldl (slot_changed p) e cs) = dm_channel e" "dm_receiving (foldl (slot_changed p) e cs) = dm_receiving e"
    "dm_queue (foldl (slot_changed p) e cs) = dm_queue e" "dm_running (foldl (slot_changed p) e cs) = dm_running e"
    "length (dm_controls (foldl (slot_changed p) e cs)) = length (dm_controls e)"
    "length (dm_indexes (foldl (slot_changed p) e cs)) = length (dm_indexes e)"
    by (induction cs arbitrary: e) simp_all
qed

text \<open>The preparation of the pairs, one after the other, keeps what a change of one pair keeps.\<close>

lemma with_client_induct:
  assumes "P d" "\<And>e p. P e \<Longrightarrow> p < length slots \<Longrightarrow> P (foldl (slot_changed p) e (slots ! p))"
  shows "P (with_client slots d)"
proof -
  have "P (foldl (\<lambda>e p. foldl (slot_changed p) e (slots ! p)) e ps)" if "P e" "list_all (\<lambda>p. p < length slots) ps" for e ps
    using that by (induction ps arbitrary: e) (simp_all add: assms(2))
  from this[OF assms(1), of "[0..<length slots]"] show ?thesis by (simp add: with_client_def list_all_iff)
qed

lemma kept_prepared:
  assumes kept: "all_kept opens e" and idle: "dm_running e = RunIdle" and p: "p < length (dm_controls e)"
  shows "all_kept opens (foldl (slot_changed p) e cs)"
proof -
  define e' where "e' = foldl (slot_changed p) e cs"
  have f: "dm_channel e' = dm_channel e" "dm_receiving e' = dm_receiving e" "dm_queue e' = dm_queue e" "dm_running e' = RunIdle"
    "length (dm_controls e') = length (dm_controls e)" "length (dm_indexes e') = length (dm_indexes e)"
    using idle by (simp_all add: e'_def slots_changed_fields)
  have "pc_plan (dm_controls e' ! q) = pc_plan (dm_controls e ! q)" for q
  proof (cases "q = p")
    case True
    then show ?thesis using kept p slots_changed_plan[of p e cs] by (simp add: e'_def all_kept_def in_shape_def)
  next
    case False
    then show ?thesis using slots_changed_local[OF local_refl, of p e cs] by (simp add: local_to_def e'_def)
  qed
  then show ?thesis
    using kept idle f
    by (auto simp: e'_def[symmetric] all_kept_def in_shape_def plan_kept_def apply_kept_def asked_def Let_def split: option.splits)
qed

lemma kept_with_client:
  assumes "started d0" "length slots \<le> length (dm_controls d0)"
  shows "all_kept opens (with_client slots d0)"
proof -
  have "all_kept opens (with_client slots d0) \<and> dm_running (with_client slots d0) = RunIdle \<and>
    length (dm_controls (with_client slots d0)) = length (dm_controls d0)"
    by (rule with_client_induct) (use assms kept_started kept_prepared in \<open>auto simp: slots_changed_fields started_def\<close>)
  then show ?thesis by blast
qed

lemma kept_reachable:
  "rtranclp (daemon_step opens) (with_client slots d0) d \<Longrightarrow> started d0 \<Longrightarrow> length slots \<le> length (dm_controls d0) \<Longrightarrow>
    all_kept opens d"
  by (induction rule: rtranclp_induct) (auto intro: kept_with_client kept_step)

section \<open>The properties\<close>

text \<open>C16: whatever clients ask and passes do, in whatever order, when the loop goes to sleep nobody it heard is still
  waiting: every plan request of every pair is answered (so no poller is told the plan is being computed), and
  every booked apply has its verdict, provided the passes could open their cache.\<close>

theorem the_loop_sleeps_only_when_everyone_is_answered:
  assumes "started d0" "length slots = length (dm_controls d0)" "rtranclp (daemon_step opens) (with_client slots d0) d" "dm_receiving d" "dm_running d = RunIdle"
    "dm_channel d = []" "pop (dm_queue d) now = (None, q)" "p < length (dm_controls d)"
  shows "let pn = pc_plan (dm_controls d ! p) in
    pn_requested pn \<le> pn_completed pn \<and> plan_outcome_now limit pn \<noteq> PlanComputing n \<and>
    (opens \<longrightarrow> pn_queued_apply pn = None \<and> pn_apply_requested pn \<le> pn_apply_completed pn)"
proof -
  have kept: "all_kept opens d" using kept_reachable[OF assms(3,1)] assms(2) by simp
  then have k: "plan_kept p d" "apply_kept opens p d" using assms(4,8) by (simp_all add: all_kept_def)
  have "queue_ok (dm_queue d)" using kept by (simp add: all_kept_def in_shape_def)
  from pop_none_iff[OF this, of now] assms(6,7) have "\<not> asked p kind d" for kind by (simp add: asked_def)
  with k assms(5) show ?thesis
    by (auto simp: plan_kept_def apply_kept_def plan_outcome_now_def stored_plan_outcome_def Let_def case_prod_beta
        split: option.splits)
qed

lemma scheduled_apply:
  assumes "p < length (dm_controls d)" "schedule_apply p t skip d = (ApplyScheduled seq, d1)"
  shows "\<not> pc_paused (dm_controls d ! p) \<and> (\<exists>sp. pn_stored (pc_plan (dm_controls d ! p)) = Some sp \<and> t = Some (sn_token sp) \<and>
    pn_queued_apply (pc_plan (dm_controls d1 ! p)) =
      Some \<lparr>aq_seq = seq, aq_token = sn_token sp, aq_skip_destructive = skip\<rparr>) \<and> SyncNow p \<in> set (dm_channel d1)"
proof (cases "book_apply_request (the t) skip (pc_plan (dm_controls d ! p))")
  case (Pair booked pn)
  show ?thesis
  proof (cases booked)
    case None
    then show ?thesis using assms Pair by (auto simp: schedule_apply_def split: option.splits if_splits)
  next
    case (Some n)
    note b = booked_apply[OF Pair[unfolded Some]]
    show ?thesis using assms Pair Some b
      by (cases "dm_receiving d") (auto simp: schedule_apply_def send_command_def split: option.splits if_splits)
  qed
qed

lemma unscheduled_apply:
  assumes "p < length (dm_controls d)" "schedule_apply p t skip d = (answer, d1)" "\<nexists>seq. answer = ApplyScheduled seq"
  shows "dm_channel d1 = dm_channel d \<and>
    pn_queued_apply (pc_plan (dm_controls d1 ! p)) \<in> {None, pn_queued_apply (pc_plan (dm_controls d ! p))}"
proof (cases "book_apply_request (the t) skip (pc_plan (dm_controls d ! p))")
  case (Pair booked pn)
  then show ?thesis using assms
    by (cases booked; cases "dm_receiving d")
      (auto simp: schedule_apply_def send_command_def unbook_apply_request_def split: option.splits if_splits)
qed

text \<open>Aclient's token authorises an apply only while it names the plan the daemon holds, on a pair that is not
  paused; the apply that is then queued is that one, its pass is on its way, and anything else queues none.\<close>

theorem a_stale_token_authorises_nothing:
  assumes "p < length (dm_controls d)" "schedule_apply p t skip d = (answer, d1)"
  shows "(\<exists>seq sp. answer = ApplyScheduled seq \<and> \<not> pc_paused (dm_controls d ! p) \<and>
      pn_stored (pc_plan (dm_controls d ! p)) = Some sp \<and> t = Some (sn_token sp) \<and>
      pn_queued_apply (pc_plan (dm_controls d1 ! p)) =
        Some \<lparr>aq_seq = seq, aq_token = sn_token sp, aq_skip_destructive = skip\<rparr> \<and> SyncNow p \<in> set (dm_channel d1)) \<or>
    (\<forall>seq. answer \<noteq> ApplyScheduled seq) \<and> dm_channel d1 = dm_channel d \<and>
      pn_queued_apply (pc_plan (dm_controls d1 ! p)) \<in> {None, pn_queued_apply (pc_plan (dm_controls d ! p))}"
  using scheduled_apply[OF assms(1), of t skip] unscheduled_apply[OF assms] assms(2)
  by (cases "\<exists>seq. answer = ApplyScheduled seq") auto

lemma apply_of_token:
  assumes "fst (execute_plan_and_commit ow sha nm gcfg cfg (IntentApply token skip) scan R B shape cursor rn db us w) \<noteq> PassDiverged"
  shows "plan_token sha (prepend_remote_root_creation_if_missing (plan_sync_entities (ls_entities scan) R B nm)
    (rs_remote_root_missing shape)) = token"
  using assms by (auto simp: execute_plan_and_commit_def Let_def split: if_splits)

lemma hex_digit_inj: "m < 16 \<Longrightarrow> n < 16 \<Longrightarrow> hex_digit m = hex_digit n \<longleftrightarrow> m = n"
  unfolding hex_digit_def by (rule nth_eq_iff_index_eq) simp_all

lemma hex_bytes_inj: "hex_bytes a = hex_bytes b \<Longrightarrow> a = b"
proof (induction a arbitrary: b)
  case (Cons c a)
  then obtain c' b' where b: "b = c' # b'" by (cases b) (auto simp: hex_bytes_def)
  have bound: "of_char x div 16 < (16 :: nat)" for x :: char
  proof -
    have "of_char x < (256 :: nat)" by (metis of_char_mod_256 mod_less_divisor zero_less_numeral)
    then show ?thesis by (simp add: less_mult_imp_div_less)
  qed
  have "of_char c div 16 = (of_char c' div 16 :: nat)" "of_char c mod 16 = (of_char c' mod 16 :: nat)" "hex_bytes a = hex_bytes b'"
    using Cons.prems b bound[of c] bound[of c'] by (auto simp: hex_bytes_def hex_digit_inj)
  then have "of_char c = (of_char c' :: nat)" by (metis div_mult_mod_eq)
  then show ?case using Cons.IH[of b'] b \<open>hex_bytes a = hex_bytes b'\<close> by simp
qed (auto simp: hex_bytes_def)

text \<open>C15: an apply carries out the rows the user reviewed and no others: if a pass that took an apply goes on to execute
  its own fresh plan, that plan has the very rows of the stored plan whose token was given, each in every field
  that says what will happen. The digest must not confuse these two plans.\<close>

theorem an_apply_runs_only_what_was_reviewed:
  assumes "p < length (dm_controls d)" "schedule_apply p t skip d = (ApplyScheduled seq, d1)"
    "pn_stored (pc_plan (dm_controls d ! p)) = Some sp" "sn_token sp = plan_token sha (sn_actions sp)"
    "fst (execute_plan_and_commit ow sha nm gcfg cfg (intent_of (pn_queued_apply (pc_plan (dm_controls d1 ! p))))
      scan R B shape cursor rn db us w) \<noteq> PassDiverged"
    "fresh = prepend_remote_root_creation_if_missing (plan_sync_entities (ls_entities scan) R B nm) (rs_remote_root_missing shape)"
    "list_all row_fits fresh" "list_all row_fits (sn_actions sp)"
    "inj_on sha {plan_token_input fresh, plan_token_input (sn_actions sp)}"
  shows "mset (map row_identity fresh) = mset (map row_identity (sn_actions sp))"
proof -
  have "pn_queued_apply (pc_plan (dm_controls d1 ! p)) = Some \<lparr>aq_seq = seq, aq_token = sn_token sp, aq_skip_destructive = skip\<rparr>"
    using scheduled_apply[OF assms(1,2)] assms(3) by auto
  then have "fst (execute_plan_and_commit ow sha nm gcfg cfg (IntentApply (sn_token sp) skip) scan R B shape cursor rn db us w)
      \<noteq> PassDiverged"
    using assms(5) by (simp add: intent_of_def)
  then have "plan_token sha fresh = sn_token sp" unfolding assms(6) by (rule apply_of_token)
  then have "plan_token sha fresh = plan_token sha (sn_actions sp)" using assms(4) by simp
  then have "sha (plan_token_input fresh) = sha (plan_token_input (sn_actions sp))"
    using hex_bytes_inj by (simp add: plan_token_def)
  then show ?thesis using plan_token_input_eq_iff[OF assms(7,8)] assms(9) by (simp add: inj_on_def)
qed

lemma planned_token: "fst (plan_only_blocking eo se k rd w) = Inr sp \<Longrightarrow> sn_token sp = plan_token (se_sha256 se) (sn_actions sp)"
  by (auto simp: plan_only_blocking_def report_token_def Let_def
      split: prod.splits sum.splits option.splits if_splits)


section \<open>The pause\<close>

lemma fold_pause: "(\<And>db x. db_pair_pause (f db x) = db_pair_pause db) \<Longrightarrow> db_pair_pause (foldl f db xs) = db_pair_pause db"
  by (induction xs arbitrary: db) simp_all

lemma statement_pause [simp]:
  "db_pair_pause (purge_record db q) = db_pair_pause db" "db_pair_pause (revoke_both db q) = db_pair_pause db"
  "db_pair_pause (answer_step b now db x) = db_pair_pause db"
  "db_pair_pause (fst (purge_subtree_records db q)) = db_pair_pause db"
  by (simp_all add: purge_record_def revoke_both_def answer_step_def upsert_delete_approval_def delete_delete_approval_def
      purge_subtree_records_def Let_def fold_pause)

lemma approval_pause: "apply_approval_command db now pending sel lit b dir = Some (answer, db') \<Longrightarrow> db_pair_pause db' = db_pair_pause db"
  by (auto simp: apply_approval_command_def pre_approve_planned_deletion_def Let_def fold_pause upsert_delete_approval_def
      split: option.splits if_splits)

lemma keep_fold_pause:
  "foldl keep_step (Some (db, k0, stale)) ps = Some (db', n) \<Longrightarrow> db_pair_pause db' = db_pair_pause db"
proof (induction ps arbitrary: db k0 stale)
  case (Cons x ps)
  have none: "foldl keep_step None ps = None" by (induction ps) (simp_all add: keep_step_def)
  obtain st where st: "keep_step (Some (db, k0, stale)) x = Some st" using Cons.prems none by (cases "keep_step (Some (db, k0, stale)) x") auto
  obtain db1 k1 s1 where s: "st = (db1, k1, s1)" by (cases st)
  have "db_pair_pause db1 = db_pair_pause db"
    using st s statement_pause(4)[of db "pd_path x"]
    by (cases "purge_subtree_records db (pd_path x)") (auto simp: keep_step_def fold_pause split: option.splits if_splits)
  with Cons.IH[of db1 k1 s1] Cons.prems st s show ?case by simp
qed simp

lemma keep_pause: "apply_keep_command db pending sel lit = Some (answer, db') \<Longrightarrow> db_pair_pause db' = db_pair_pause db"
  by (auto simp: apply_keep_command_def Let_def dest: keep_fold_pause split: option.splits if_splits prod.splits)

definition pause_kept :: "pair_control \<Rightarrow> database \<Rightarrow> bool" where
  "pause_kept pc db \<longleftrightarrow> (pc_pause_record pc = PauseSaved \<longrightarrow> load_pair_paused db = pc_paused pc)"

lemma pause_read: "db_pair_pause db' = db_pair_pause db \<Longrightarrow> load_pair_paused db' = load_pair_paused db"
  by (simp add: load_pair_paused_def)

lemma pause_written [simp]: "load_pair_paused (store_pair_paused db b) = b"
  by (simp add: load_pair_paused_def store_pair_paused_def)

lemma adopted_pause: "pause_kept (fst (adopt_pause r w db pc)) (snd (adopt_pause r w db pc))"
  by (auto simp: pause_kept_def adopt_pause_def split: pause_record.split)

lemma flushed_pause: "pause_kept pc db \<Longrightarrow> pause_kept (fst (flush_unsaved_pause w db pc)) (snd (flush_unsaved_pause w db pc))"
  by (auto simp: pause_kept_def flush_unsaved_pause_def)

definition pauses_kept :: "daemon \<Rightarrow> bool" where
  "pauses_kept d \<longleftrightarrow> in_shape d \<and> (\<forall>p<length (dm_controls d). pause_kept (dm_controls d ! p) (dm_indexes d ! p))"

lemma pauses_verb:
  assumes kept: "pauses_kept d" and p: "p < length (dm_controls d)"
  shows "pauses_kept (snd (control_verb va r p d))"
proof -
  define e where "e = snd (control_verb va r p d)"
  have s: "served p d e" by (simp add: e_def served_verb)
  then have shape: "in_shape e" using kept by (auto simp: served_def pauses_kept_def in_shape_def split: running.splits)
  have len: "p < length (dm_indexes d)" "length (dm_controls e) = length (dm_controls d)"
    using kept p s by (auto simp: pauses_kept_def in_shape_def served_def)
  have pk: "pause_kept (dm_controls d ! p) (dm_indexes d ! p)" using kept p by (simp add: pauses_kept_def)
  have paused: "pause_kept (dm_controls (snd (set_paused_through va p b d)) ! p) (dm_indexes (snd (set_paused_through va p b d)) ! p)" for b
    using p len(1)
    by (simp add: set_paused_through_def approvals_connection_def set_paused_def pause_kept_def case_prod_beta Let_def)
  have by_apply: "dm_indexes (snd (schedule_apply p t sk d)) ! p = dm_indexes d ! p \<and>
      pc_paused (dm_controls (snd (schedule_apply p t sk d)) ! p) = pc_paused (dm_controls d ! p) \<and>
      pc_pause_record (dm_controls (snd (schedule_apply p t sk d)) ! p) = pc_pause_record (dm_controls d ! p)" for t sk
    unfolding schedule_apply_def using p
    by (subst (1 2 3) send_cases) (auto split: option.split prod.split bool.split)
  have by_plan: "dm_indexes (snd (schedule_plan p d)) ! p = dm_indexes d ! p \<and>
      pc_paused (dm_controls (snd (schedule_plan p d)) ! p) = pc_paused (dm_controls d ! p) \<and>
      pc_pause_record (dm_controls (snd (schedule_plan p d)) ! p) = pc_pause_record (dm_controls d ! p)"
    unfolding schedule_plan_def using p
    by (subst (1 2 3) send_cases) (auto split: option.split prod.split bool.split)
  have by_approve: "pause_kept (dm_controls (snd (approval_verb va r b p d)) ! p) (dm_indexes (snd (approval_verb va r b p d)) ! p)" for b
    using pk len(1)
    by (auto simp: approval_verb_def approvals_connection_def pause_kept_def split: option.split if_splits
        dest!: approval_pause[THEN pause_read])
  have by_keep: "pause_kept (dm_controls (snd (keep_verb va r p d)) ! p) (dm_indexes (snd (keep_verb va r p d)) ! p)"
    using pk len(1) p
    by (auto simp: keep_verb_def approvals_connection_def pause_kept_def Let_def split: option.split if_splits
        dest!: keep_pause[THEN pause_read])
  have "pause_kept (dm_controls e ! p) (dm_indexes e ! p)"
    using pk paused by_apply by_plan by_approve by_keep p
    by (cases "cr_command r") (auto simp: e_def control_verb_def case_prod_beta Let_def pause_kept_def)
  moreover have "pause_kept (dm_controls e ! q) (dm_indexes e ! q)" if "q < length (dm_controls d)" "q \<noteq> p" for q
    using that kept s by (simp add: served_def pauses_kept_def)
  ultimately show ?thesis using shape len(2) by (auto simp: pauses_kept_def e_def[symmetric])
qed

lemma pauses_local:
  assumes kept: "pauses_kept d" and loc: "local_to p d e" and shape: "in_shape e"
    and own: "p < length (dm_controls d) \<Longrightarrow> pause_kept (dm_controls e ! p) (dm_indexes e ! p)"
  shows "pauses_kept e"
  unfolding pauses_kept_def
proof (intro conjI allI impI)
  fix q assume q: "q < length (dm_controls e)"
  show "pause_kept (dm_controls e ! q) (dm_indexes e ! q)"
    using kept loc own q by (cases "q = p") (auto simp: pauses_kept_def local_to_def pause_kept_def)
qed (rule shape)

lemma pauses_shape: "pauses_kept d \<Longrightarrow> in_shape d"
  by (simp add: pauses_kept_def)

text \<open>What happens to the pause and its record between the two ends of a job.\<close>

lemma slot_changed_pause:
  assumes "p < length (dm_controls e)" "p < length (dm_indexes e)" "pause_kept (dm_controls e ! p) (dm_indexes e ! p)"
  shows "pause_kept (dm_controls (slot_changed p e c) ! p) (dm_indexes (slot_changed p e c) ! p)"
proof (cases c)
  case (Promoted db r w)
  have "pause_kept (fst (adopt_pause r w db pc)) (snd (adopt_pause r w db pc))" for pc by (rule adopted_pause)
  with Promoted assms(1,2) show ?thesis by (simp add: pause_kept_def)
qed (use assms in \<open>simp add: pause_kept_def\<close>)

lemma slots_changed_pause:
  assumes "p < length (dm_controls e)" "p < length (dm_indexes e)" "pause_kept (dm_controls e ! p) (dm_indexes e ! p)"
  shows "pause_kept (dm_controls (foldl (slot_changed p) e cs) ! p) (dm_indexes (foldl (slot_changed p) e cs) ! p)"
  using assms
proof (induction cs arbitrary: e)
  case (Cons c cs)
  then show ?case using slot_changed_pause[OF Cons.prems] slot_changed_plan[OF Cons.prems(1,2)] by simp
qed simp

lemma before_pause:
  assumes "job_pair j < length (dm_controls d)" "job_pair j < length (dm_indexes d)"
    "pause_kept (dm_controls d ! job_pair j) (dm_indexes d ! job_pair j)"
  shows "pause_kept (dm_controls (before_the_pass ja j d) ! job_pair j) (dm_indexes (before_the_pass ja j d) ! job_pair j)"
proof -
  define p where "p = job_pair j"
  define d1 where "d1 = (if job_cause j = CauseSweep then on_control p (\<lambda>pc. pc\<lparr>pc_force_full_walk := True\<rparr>) d else d)"
  define d2 where "d2 = (if pc_has_runtime (dm_controls d1 ! p)
    then on_control_and_index p (flush_unsaved_pause (ja_flushed ja)) d1 else d1)"
  have l1: "p < length (dm_controls d1)" "p < length (dm_indexes d1)" "pause_kept (dm_controls d1 ! p) (dm_indexes d1 ! p)"
    using assms by (auto simp: d1_def p_def pause_kept_def)
  have l2: "p < length (dm_controls d2)" "p < length (dm_indexes d2)" "pause_kept (dm_controls d2 ! p) (dm_indexes d2 ! p)"
    using l1 flushed_pause[OF l1(3)] by (auto simp: d2_def)
  have "before_the_pass ja j d = (if job_kind j \<noteq> JobSync then d
      else if pc_paused (dm_controls d2 ! p) then d2
      else stop_pairs (ja_stopped ja) (foldl (slot_changed p) d2 (ja_changes ja)))"
    by (simp add: before_the_pass_def Let_def d1_def d2_def p_def)
  then show ?thesis using assms l2 slots_changed_pause[OF l2] by (simp add: p_def[symmetric] pause_kept_def)
qed

lemma begin_job_pause:
  assumes "job_pair j < length (dm_controls d)" "job_pair j < length (dm_indexes d)"
    "pause_kept (dm_controls d ! job_pair j) (dm_indexes d ! job_pair j)"
  shows "pause_kept (dm_controls (begin_job ja j d) ! job_pair j) (dm_indexes (begin_job ja j d) ! job_pair j)"
proof -
  define e where "e = before_the_pass ja j d"
  have e: "job_pair j < length (dm_controls e)" "pause_kept (dm_controls e ! job_pair j) (dm_indexes e ! job_pair j)"
    using before_local[of j d ja] before_pause[OF assms, of ja] assms by (auto simp: e_def local_to_def)
  then show ?thesis
    by (auto simp: begin_job_def e_def[symmetric] discard_queued_apply_for_pause_def skip_unavailable_pass_def
        seal_unavailable_plan_def begin_plan_def begin_pass_def pause_kept_def Let_def
        split: job_kind.split bool.split option.split prod.split)
qed

lemma pauses_step: "daemon_step opens d e \<Longrightarrow> pauses_kept d \<Longrightarrow> all_kept opens d \<Longrightarrow> pauses_kept e"
proof -
  assume step: "daemon_step opens d e" and kept: "pauses_kept d" and all: "all_kept opens d"
  have shape: "in_shape e" using kept_step[OF step all] by (simp add: all_kept_def)
  have own: "pause_kept (dm_controls d ! p) (dm_indexes d ! p)" if "p < length (dm_controls d)" for p
    using kept that by (simp add: pauses_kept_def)
  from step show ?thesis
  proof (cases rule: daemon_step.cases)
    case (verb va r)
    have ne: "dm_controls d \<noteq> []" using kept by (simp add: pauses_kept_def in_shape_def)
    show ?thesis unfolding verb by (rule handled[OF ne, of va r]) (use kept pauses_verb in auto)
  next
    case (drain c rest goes_on q)
    then show ?thesis using kept shape by (simp add: pauses_kept_def)
  next
    case (begin_job now j q ja)
    have p: "job_pair j < length (dm_controls d)" "job_pair j < length (dm_indexes d)"
      using pop_takes(3)[OF _ begin_job(5)] kept by (simp_all add: pauses_kept_def in_shape_def)
    let ?d0 = "d\<lparr>dm_queue := q\<rparr>"
    have "pauses_kept e"
    proof (rule pauses_local[OF _ _ shape])
      show "pauses_kept ?d0"
        using kept pop_takes[OF _ begin_job(5)] by (auto simp: pauses_kept_def in_shape_def begin_job(2))
      show "local_to (job_pair j) ?d0 e" unfolding begin_job(1) by (rule begin_job_local)
      show "pause_kept (dm_controls e ! job_pair j) (dm_indexes e ! job_pair j)"
        unfolding begin_job(1) by (rule begin_job_pause) (use p own in auto)
    qed
    then show ?thesis .
  next
    case (end_pass fi p taken rs)
    have p: "p < length (dm_controls d)" "p < length (dm_indexes d)"
      using kept end_pass(3) by (auto simp: pauses_kept_def in_shape_def)
    show ?thesis
      unfolding pauses_kept_def
      using shape own end_pass(2,3) p pause_read[OF end_pass(2)]
      by (auto simp: end_pass(1) end_pass_def pause_kept_def nth_list_update on_control_def)
  next
    case (end_plan result)
    show ?thesis
    proof (cases "dm_running d")
      case (RunPlan p g)
      show ?thesis
        by (rule pauses_local[OF kept _ shape, of p])
          (use RunPlan own end_plan in \<open>auto simp: end_plan_def pause_kept_def\<close>)
    qed (use kept end_plan in \<open>simp_all add: end_plan_def\<close>)
  next
    case (rearm configs poll j t q)
    then show ?thesis using kept shape by (simp add: pauses_kept_def)
  qed
qed

lemma pauses_started: "started d \<Longrightarrow> pauses_kept d"
proof -
  assume s: "started d"
  have "pc_pause_record (dm_controls d ! p) = PauseUnread" if "p < length (dm_controls d)" for p
  proof -
    have "dm_controls d ! p = pair_control_new (pc_name (dm_controls d ! p))"
      using s that by (simp add: started_def list_all_length)
    then have "pc_pause_record (dm_controls d ! p) = pc_pause_record (pair_control_new (pc_name (dm_controls d ! p)))" by simp
    then show ?thesis by (simp add: pair_control_new_def)
  qed
  with s show "pauses_kept d" by (simp add: started_def pauses_kept_def in_shape_def pause_kept_def)
qed

lemma pauses_with_client:
  assumes "started d0" "length slots \<le> length (dm_controls d0)" shows "pauses_kept (with_client slots d0)"
proof -
  have "pauses_kept (with_client slots d0) \<and> dm_running (with_client slots d0) = RunIdle \<and>
    length (dm_controls (with_client slots d0)) = length (dm_controls d0)"
  proof (rule with_client_induct)
    fix e p assume e: "pauses_kept e \<and> dm_running e = RunIdle \<and> length (dm_controls e) = length (dm_controls d0)" "p < length slots"
    then have p: "p < length (dm_controls e)" "p < length (dm_indexes e)" "in_shape e"
      using assms(2) by (auto simp: pauses_kept_def in_shape_def)
    have "pauses_kept (foldl (slot_changed p) e (slots ! p))"
    proof (rule pauses_local)
      have "dm_controls (foldl (slot_changed p) e (slots ! p)) = [] \<longleftrightarrow> dm_controls e = []"
        by (metis length_0_conv slots_changed_fields(5))
      then show "in_shape (foldl (slot_changed p) e (slots ! p))" using p(3) e(1)
        by (simp add: in_shape_def slots_changed_fields)
      have "pause_kept (dm_controls e ! p) (dm_indexes e ! p)" using e p(1) by (simp add: pauses_kept_def)
      then show "pause_kept (dm_controls (foldl (slot_changed p) e (slots ! p)) ! p) (dm_indexes (foldl (slot_changed p) e (slots ! p)) ! p)"
        by (rule slots_changed_pause[OF p(1,2)])
    qed (use e slots_changed_local[OF local_refl] in blast)+
    then show "pauses_kept (foldl (slot_changed p) e (slots ! p)) \<and> dm_running (foldl (slot_changed p) e (slots ! p)) = RunIdle \<and>
        length (dm_controls (foldl (slot_changed p) e (slots ! p))) = length (dm_controls d0)"
      using e by (simp add: slots_changed_fields)
  qed (use assms pauses_started in \<open>auto simp: started_def\<close>)
  then show ?thesis by blast
qed

lemma pauses_reachable:
  assumes "rtranclp (daemon_step opens) (with_client slots d0) d" "started d0" "length slots \<le> length (dm_controls d0)"
  shows "pauses_kept d"
  using assms
proof (induction rule: rtranclp_induct)
  case (step y z)
  then show ?case using pauses_step kept_reachable by blast
qed (rule pauses_with_client)


text \<open>Arequest acts on the one pair it names and on no other: of every other pair neither the latches, the plans,
  the pause nor the index change; a name no pair has, in any spelling, changes nothing at all.\<close>

theorem requests_touch_only_their_pair:
  assumes "dm_controls d \<noteq> []" "cr_command r \<noteq> CmdShutdown" "q < length (dm_controls d)"
    "resolve_pair_index (cr_pair r) (dm_controls d) \<noteq> Some q"
  shows "dm_controls (snd (handle_control va r d)) ! q = dm_controls d ! q \<and>
    dm_indexes (snd (handle_control va r d)) ! q = dm_indexes d ! q \<and>
    (\<forall>name. cr_pair r = Some name \<and> name \<notin> pc_name ` set (dm_controls d) \<longrightarrow> snd (handle_control va r d) = d)"
proof -
  have none: "resolve_pair_index (cr_pair r) (dm_controls d) = None"
    if "cr_pair r = Some name" "name \<notin> pc_name ` set (dm_controls d)" for name
    using that by (force simp: resolve_pair_index_def find_None_iff)
  have "dm_controls (snd (handle_control va r d)) ! q = dm_controls d ! q \<and>
      dm_indexes (snd (handle_control va r d)) ! q = dm_indexes d ! q"
  proof (cases "resolve_pair_index (cr_pair r) (dm_controls d)")
    case (Some p)
    then have "q \<noteq> p" using assms(4) by auto
    then show ?thesis using served_verb[of p d va r] Some assms(2) by (simp add: handle_control_def case_prod_beta served_def)
  qed (simp add: handle_control_def assms(2))
  then show ?thesis using none by (auto simp: handle_control_def assms(2))
qed

section \<open>The pass behind the control plane\<close>

text \<open>The half of a control that a pass works on.\<close>

definition shared_view :: "pair_control \<Rightarrow> pair_shared" where
  "shared_view pc =
    \<lparr>sh_force_full_walk = pc_force_full_walk pc, sh_reset_index = pc_reset_index pc,
     sh_queued_apply = pn_queued_apply (pc_plan pc), sh_sealed_apply = None, sh_reconcile_seq = pc_reconcile_seq pc\<rparr>"

text \<open>The control a beginning and an end leave, when nothing comes in between.\<close>

lemma begun_and_ended:
  assumes "p < length (dm_controls d)"
  shows "shared_view (dm_controls (end_pass fi (begin_pass st p d)) ! p) =
    (let pc = dm_controls d ! p; ran = st_opened st \<and> st_root_ok st in
     \<lparr>sh_force_full_walk = pc_force_full_walk pc \<and> (ran \<longrightarrow> fi_root_lost fi),
      sh_reset_index = pc_reset_index pc \<and> \<not> (ran \<and> st_reset_ok st),
      sh_queued_apply = (if st_opened st then None else pn_queued_apply (pc_plan pc)), sh_sealed_apply = None,
      sh_reconcile_seq = (if fi_held fi then pc_reconcile_seq pc else pc_reconcile_seq pc + 1)\<rparr>)"
    "st_opened st \<Longrightarrow> pn_queued_apply (pc_plan (dm_controls d ! p)) = Some a \<Longrightarrow>
      pn_apply (pc_plan (dm_controls (end_pass fi (begin_pass st p d)) ! p)) = Some (ApplySealed (aq_seq a) (fi_verdict fi))"
  using assms
  by (auto simp: shared_view_def begin_pass_def end_pass_def take_apply_request_def seal_apply_pass_def on_plan_def
      replace_stored_plan_def Let_def split: option.split)

lemma sealed_view: "(en_shared (seal_apply_outcome en))\<lparr>sh_sealed_apply := None\<rparr> = (en_shared en)\<lparr>sh_sealed_apply := None\<rparr>"
  by (auto simp: seal_apply_outcome_def pair_steps Let_def split: option.split)

lemma bumped_view: "(en_shared (bumped (seal_apply_outcome en)))\<lparr>sh_sealed_apply := None\<rparr> =
    (en_shared en)\<lparr>sh_sealed_apply := None, sh_reconcile_seq := sh_reconcile_seq (en_shared en) + 1\<rparr>"
  by (auto simp: seal_apply_outcome_def bumped_def pair_steps Let_def split: option.split)


section \<open>Witnesses\<close>

text \<open>A daemon of one pair with one index; its queue is due in an hour, and a plan was reviewed.\<close>

definition cx_queue :: due_queue where
  "cx_queue = \<lparr>dq_next_due = [30], dq_cadence = [2], dq_sweep_at = [None], dq_explicit = [], dq_cursor = 0\<rparr>"

definition cx_start :: daemon where
  "cx_start = \<lparr>dm_controls = [pair_control_new ''docs''], dm_indexes = [gx_db], dm_channel = [], dm_receiving = True,
     dm_cancelled = False, dm_queue = cx_queue, dm_running = RunIdle\<rparr>"

definition cx_request :: "control_command \<Rightarrow> control_request" where
  "cx_request c = \<lparr>cr_command = c, cr_argument = None, cr_literal_path = False, cr_limit = None, cr_direction = None,
     cr_skip_destructive = False, cr_pair = None\<rparr>"

definition cx_answers :: verb_answers where
  "cx_answers = \<lparr>va_opened = True, va_written = True, va_now = 9\<rparr>"

definition cx_job_answers :: job_answers where
  "cx_job_answers = \<lparr>ja_flushed = True, ja_changes = [Promoted gx_db True True], ja_stopped = [],
     ja_start = \<lparr>st_opened = True, st_root_ok = True, st_reset_ok = True\<rparr>\<rparr>"

text \<open>The verb is asked, heard, and its job begun.\<close>

definition cx_asked :: "control_command \<Rightarrow> daemon" where
  "cx_asked verb = snd (handle_control cx_answers (cx_request verb) (with_client [[Demoted]] cx_start))"

definition cx_heard :: "control_command \<Rightarrow> job_kind \<Rightarrow> daemon" where
  "cx_heard verb kind = (cx_asked verb)\<lparr>dm_channel := [], dm_queue := request 0 kind cx_queue, dm_receiving := True\<rparr>"

definition cx_begun :: "control_command \<Rightarrow> job_kind \<Rightarrow> daemon" where
  "cx_begun verb kind = begin_job cx_job_answers \<lparr>job_pair = 0, job_kind = kind, job_cause = CauseExplicit\<rparr>
     ((cx_heard verb kind)\<lparr>dm_queue := cx_queue\<rparr>)"

lemma cx_started: "started cx_start" "length [[Demoted]] = length (dm_controls cx_start)"
  by (simp_all add: started_def cx_start_def cx_queue_def queue_ok_def pair_control_new_def)

lemmas cx_defs = cx_asked_def cx_heard_def cx_begun_def cx_start_def cx_request_def cx_queue_def cx_answers_def cx_job_answers_def
  pair_control_new_def plan_slot_new_def

lemmas cx_steps = with_client_def stop_pairs_def handle_control_def resolve_pair_index_def control_verb_def schedule_plan_def schedule_unless_paused_def
  book_plan_request_def on_control_def on_control_and_index_def on_plan_def send_command_def enqueue_def request_def
  begin_job_def before_the_pass_def seal_unavailable_plan_def claim_plan_pass_def seal_plan_pass_def set_has_runtime_def
  adopt_pause_def flush_unsaved_pause_def begin_pass_def take_apply_request_def set_paused_through_def set_paused_def
  approvals_connection_def

lemma cx_runs:
  assumes "(verb, kind) = (CmdPlan, JobPlan) \<or> (verb, kind) = (CmdSyncnow, JobSync)"
  shows "rtranclp (daemon_step True) (with_client [[Demoted]] cx_start) (cx_begun verb kind)"
proof -
  define c where "c = (case kind of JobSync \<Rightarrow> SyncNow 0 | JobPlan \<Rightarrow> PlanNow 0)"
  have asked: "daemon_step True (with_client [[Demoted]] cx_start) (cx_asked verb)" unfolding cx_asked_def by (rule daemon_step.verb)
  have heard: "dm_running (cx_asked verb) = RunIdle" "dm_channel (cx_asked verb) = [c]" "dm_receiving (cx_asked verb)"
    "enqueue (length (dm_controls (cx_asked verb))) c (dm_queue (cx_asked verb)) = (True, request 0 kind cx_queue)"
    using assms by (auto simp: cx_defs cx_steps c_def Let_def)
  have stirred: "daemon_step True (cx_asked verb) (cx_heard verb kind)"
    using daemon_step.drain[OF heard(1,2,4), of True] heard(3) by (simp add: cx_heard_def)
  have begun: "dm_running (cx_heard verb kind) = RunIdle" "dm_receiving (cx_heard verb kind)" "\<not> dm_cancelled (cx_heard verb kind)"
    "pop (dm_queue (cx_heard verb kind)) 5 = (Some \<lparr>job_pair = 0, job_kind = kind, job_cause = CauseExplicit\<rparr>, cx_queue)"
    using assms by (auto simp: cx_defs cx_steps pop_def take_overdue_sweep_def Let_def)
  have "daemon_step True (cx_heard verb kind) (cx_begun verb kind)"
    using daemon_step.begin_job[OF begun, of True cx_job_answers] by (simp add: cx_begun_def cx_job_answers_def)
  with stirred show ?thesis
    using asked by (blast intro: rtranclp.rtrancl_into_rtrancl)
qed

lemma cx_asleep:
  "dm_receiving (cx_begun CmdPlan JobPlan)" "dm_running (cx_begun CmdPlan JobPlan) = RunIdle"
  "dm_channel (cx_begun CmdPlan JobPlan) = []" "pop (dm_queue (cx_begun CmdPlan JobPlan)) 6 = (None, cx_queue)"
  "length (dm_controls (cx_begun CmdPlan JobPlan)) = 1"
  "pn_requested (pc_plan (dm_controls (cx_begun CmdPlan JobPlan) ! 0)) = 1"
  by (simp_all add: cx_defs cx_steps pop_def choose_step_def is_due_def deadline_def Let_def)

theorem the_loop_sleeps_only_when_everyone_is_answered_witness:
  "1 \<le> pn_completed (pc_plan (dm_controls (cx_begun CmdPlan JobPlan) ! 0)) \<and>
    plan_outcome_now None (pc_plan (dm_controls (cx_begun CmdPlan JobPlan) ! 0)) \<noteq> PlanComputing 0"
  using the_loop_sleeps_only_when_everyone_is_answered[OF cx_started cx_runs cx_asleep(1-4), of 0 None 0] cx_asleep(5,6)
  by (simp add: Let_def)

definition cx_stored :: stored_plan where
  "cx_stored = (let pl = plan_sync_entities wx_local [] gx_B (naming_from_suffix ''c'') in
     \<lparr>sn_token = plan_token id pl, sn_computed_epoch_secs = 9, sn_summary = summary_from_plan pl, sn_actions = pl,
      sn_cannot_sync = [], sn_local_disposal = DisposalRecoverable\<rparr>)"

definition cx_reviewed :: daemon where
  "cx_reviewed = on_control 0 (\<lambda>pc. pc\<lparr>pc_has_runtime := True, pc_plan := replace_stored_plan cx_stored plan_slot_new\<rparr>) cx_start"

definition cx_applied :: "apply_answer \<times> daemon" where
  "cx_applied = schedule_apply 0 (Some (sn_token cx_stored)) False cx_reviewed"

lemma cx_booked:
  "0 < length (dm_controls cx_reviewed)" "fst cx_applied = ApplyScheduled 1"
  "pn_stored (pc_plan (dm_controls cx_reviewed ! 0)) = Some cx_stored" "sn_token cx_stored = plan_token id (sn_actions cx_stored)"
  "pn_queued_apply (pc_plan (dm_controls (snd cx_applied) ! 0)) =
    Some \<lparr>aq_seq = 1, aq_token = sn_token cx_stored, aq_skip_destructive = False\<rparr>"
  by (simp_all add: cx_applied_def cx_reviewed_def cx_start_def schedule_apply_def on_control_def book_apply_request_def
    replace_stored_plan_def plan_slot_new_def pair_control_new_def send_command_def on_plan_def cx_stored_def Let_def)

theorem a_stale_token_authorises_nothing_witness: "SyncNow 0 \<in> set (dm_channel (snd cx_applied))"
proof -
  have "cx_applied = (ApplyScheduled 1, snd cx_applied)" using cx_booked(2) by (metis surjective_pairing)
  from a_stale_token_authorises_nothing[OF cx_booked(1) this[unfolded cx_applied_def], folded cx_applied_def]
  show ?thesis by auto
qed

lemma cx_plan: "plan_sync_entities wx_local [] gx_B (naming_from_suffix ''c'') = [gx_action]"
  by code_simp

lemma cx_row: "row_fits gx_action"
  by (simp add: gx_action_def pa_new_def row_fits_def fits_def opt_fits_def plan_row_preimage_def row_field_def)

lemma cx_rows: "list_all row_fits [gx_action]"
  using cx_row by simp

lemma cx_not_diverged:
  "fst (execute_plan_and_commit wx id (naming_from_suffix ''c'') gx_config wx_config
     (intent_of (pn_queued_apply (pc_plan (dm_controls (snd cx_applied) ! 0)))) wx_scan [] gx_B wx_shape None RootKeep wx_db [] ()) \<noteq>
    PassDiverged"
  unfolding cx_booked(5)
  by (auto simp: execute_plan_and_commit_def Let_def run_plan_diverges prepend_remote_root_creation_if_missing_def
      intent_of_def cx_stored_def wx_scan_def wx_shape_def split: prod.split sum.split)

theorem an_apply_runs_only_what_was_reviewed_witness:
  "mset (map row_identity [gx_action]) = mset (map row_identity (sn_actions cx_stored))"
proof -
  have applied: "schedule_apply 0 (Some (sn_token cx_stored)) False cx_reviewed = (ApplyScheduled 1, snd cx_applied)"
    using cx_booked(2) by (metis cx_applied_def surjective_pairing)
  have same: "sn_actions cx_stored = [gx_action]"
    "[gx_action] = prepend_remote_root_creation_if_missing (plan_sync_entities (ls_entities wx_scan) [] gx_B (naming_from_suffix ''c''))
      (rs_remote_root_missing wx_shape)"
    by (simp_all add: cx_stored_def Let_def cx_plan wx_scan_def wx_shape_def prepend_remote_root_creation_if_missing_def)
  show ?thesis
    by (rule an_apply_runs_only_what_was_reviewed[OF cx_booked(1) applied cx_booked(3,4) cx_not_diverged same(2) cx_rows])
      (simp_all add: same(1) cx_row)
qed

definition cx_looks :: plan_looks where
  "cx_looks = \<lparr>pq_looks = px_looks px_drive px_full, pq_verdict_root = StatDirectory px_drive,
     pq_after_scan = StatDirectory px_drive, pq_now = 9\<rparr>"

definition cx_outside :: "unit engine_outside" where
  "cx_outside = rx_outside (Inr rx_page) (Inr ())"

definition cx_rehearsed :: "(bytes + stored_plan) \<times> unit" where
  "cx_rehearsed = plan_only_blocking cx_outside rx_settings cx_looks (px_ready CarriedAbsent) ()"

lemma cx_rehearsal: "(case fst cx_rehearsed of Inr sp \<Rightarrow> length (sn_actions sp) = 1 | _ \<Rightarrow> False)"
  by code_simp

lemma cx_read: "load_index (pr_db (rd_pair (px_ready CarriedAbsent))) = Some gx_B"
  by code_simp

lemma cx_scanned:
  "scan_local_tree (se_local_root rx_settings) (se_scan_options rx_settings) gx_B (Entries []) = Inr \<lparr>ls_entities = [], ls_unsyncable = []\<rparr>"
  by code_simp


definition cx_paused :: daemon where
  "cx_paused = snd (handle_control cx_answers (cx_request CmdPause) (cx_begun CmdSyncnow JobSync))"

lemma cx_pause:
  "pc_pause_record (dm_controls cx_paused ! 0) = PauseSaved" "pc_paused (dm_controls cx_paused ! 0)"
  "0 < length (dm_controls cx_paused)"
  by (simp_all add: cx_paused_def cx_defs cx_steps Let_def load_pair_paused_def gx_db_def upsert_record_def fresh_database_def)


text \<open>Two pairs, and a request for the second.\<close>

definition cx_two :: daemon where
  "cx_two = cx_start\<lparr>dm_controls := [pair_control_new ''docs'', pair_control_new ''music''], dm_indexes := [gx_db, gx_db]\<rparr>"

theorem requests_touch_only_their_pair_witness:
  "dm_controls (snd (handle_control cx_answers (cx_request CmdResetIndex\<lparr>cr_pair := Some ''music''\<rparr>) cx_two)) ! 0 =
    dm_controls cx_two ! 0"
proof -
  have "resolve_pair_index (Some ''music'') (dm_controls cx_two) = Some 1"
    by (simp add: resolve_pair_index_def cx_two_def pair_control_new_def upt_rec)
  then show ?thesis
    using requests_touch_only_their_pair[of cx_two "cx_request CmdResetIndex\<lparr>cr_pair := Some ''music''\<rparr>" 0 cx_answers]
    by (simp add: cx_two_def cx_request_def)
qed

text \<open>The control under which the pass of \<open>rx_applying\<close> runs.\<close>

definition cx_applying :: daemon where
  "cx_applying = on_control 0 (\<lambda>pc. pc\<lparr>pc_reconcile_seq := 5, pc_plan := plan_slot_new\<lparr>pn_queued_apply := Some rx_apply\<rparr>\<rparr>) cx_start"


end
