(* ===== verification/Watch_Events.thy ===== *)
theory Watch_Events
  imports Pair_Slot
begin

text \<open>
  The watcher's side of the run loop (\<^verbatim>\<open>src/daemon.rs\<close>): what is drained from the watcher's channel before every pop,
  which pair an event belongs to, what it queues there, and what is done about events that may have been lost.
  What the handler meets at a path (whether it is a directory now, whether the statement on the index fails), what
  arrives while a drain runs, and the answers of the watcher to a registration are arguments.
\<close>

section \<open>What the watcher reports\<close>

datatype event_kind = KindCreate | KindModify | KindRemove | KindOther

record path_look =
  lk_is_dir :: bool
  lk_sql_error :: "bytes option"

record fs_event =
  ev_kind :: event_kind
  ev_need_rescan :: bool
  ev_paths :: "(path \<times> path_look) list"

text \<open>An error of the watcher carries paths too.\<close>

type_synonym notice = "path list + fs_event"

section \<open>One pair's paths\<close>

definition queue_change :: "path \<Rightarrow> pair_runtime \<Rightarrow> pair_runtime" where
  "queue_change p pr = pr\<lparr>pr_pending_changes := insert p (pr_pending_changes pr)\<rparr>"

text \<open>The record first: when the statement fails the path is not queued, and the error is the first component.\<close>

definition mark_and_queue :: "bytes option \<Rightarrow> path \<Rightarrow> pair_runtime \<Rightarrow> bytes option \<times> pair_runtime" where
  "mark_and_queue sql_error p pr =
    (case sql_error of
       Some e \<Rightarrow> (Some e, pr)
     | None \<Rightarrow> (None, queue_change p (pr\<lparr>pr_db := mark_modified (pr_db pr) p\<rparr>)))"

definition handle_directory :: "pair_settings \<Rightarrow> event_kind \<Rightarrow> path \<Rightarrow> pair_runtime \<Rightarrow> pair_runtime" where
  "handle_directory se kind p pr =
    (if (kind = KindCreate \<or> kind = KindModify) \<and> \<not> is_conflict_copy (se_naming se) p then
       (case strip_prefix p (se_local_root se) of
          Some r \<Rightarrow> if r \<noteq> [] \<and> allows_relative_directory (se_scan_options se) r then queue_change r pr else pr
        | None \<Rightarrow> pr)
     else pr)"

definition handle_conflict_copy ::
  "pair_settings \<Rightarrow> event_kind \<Rightarrow> bytes option \<Rightarrow> path \<Rightarrow> pair_runtime \<Rightarrow> bytes option \<times> pair_runtime" where
  "handle_conflict_copy se kind sql_error p pr =
    (if kind \<noteq> KindRemove then (None, pr)
     else (case original_from_conflict_copy (se_naming se) p of
         None \<Rightarrow> (None, pr)
       | Some original \<Rightarrow>
           (case strip_prefix original (se_local_root se) of
              None \<Rightarrow> (None, pr)
            | Some r \<Rightarrow> if allows_relative_file (se_scan_options se) r then mark_and_queue sql_error r pr else (None, pr))))"

definition handle_file ::
  "pair_settings \<Rightarrow> event_kind \<Rightarrow> bytes option \<Rightarrow> path \<Rightarrow> pair_runtime \<Rightarrow> bytes option \<times> pair_runtime" where
  "handle_file se kind sql_error p pr =
    (case strip_prefix p (se_local_root se) of
       None \<Rightarrow> (None, pr)
     | Some r \<Rightarrow>
         if \<not> allows_relative_file (se_scan_options se) r then (None, pr)
         else (case kind of
             KindOther \<Rightarrow> (None, pr)
           | KindRemove \<Rightarrow> (None, queue_change r pr)
           | _ \<Rightarrow> if r \<in> pr_authored_writes pr then (None, queue_change r pr) else mark_and_queue sql_error r pr))"

definition handle_path ::
  "pair_settings \<Rightarrow> event_kind \<Rightarrow> path \<times> path_look \<Rightarrow> pair_runtime \<Rightarrow> bytes option \<times> pair_runtime" where
  "handle_path se kind seen pr =
    (case seen of (p, lk) \<Rightarrow>
       if lk_is_dir lk then (None, handle_directory se kind p pr)
       else if is_conflict_copy (se_naming se) p then handle_conflict_copy se kind (lk_sql_error lk) p pr
       else handle_file se kind (lk_sql_error lk) p pr)"

text \<open>It stops at the first failure.\<close>

fun handle_fs_event ::
  "pair_settings \<Rightarrow> event_kind \<Rightarrow> (path \<times> path_look) list \<Rightarrow> pair_runtime \<Rightarrow> bytes option \<times> pair_runtime" where
  "handle_fs_event se kind [] pr = (None, pr)"
| "handle_fs_event se kind (seen # rest) pr =
    (case handle_path se kind seen pr of
       (Some e, pr1) \<Rightarrow> (Some e, pr1)
     | (None, pr1) \<Rightarrow> handle_fs_event se kind rest pr1)"

section \<open>Lost events\<close>

datatype lost_cause = WatcherReported | FlaggedForRescan | NotQueued bytes

record lost_events =
  le_cause :: "lost_cause option"
  le_rewatch_roots :: "nat set"
  le_rewatch_every_root :: bool
  le_unwatched_roots :: "nat set"
  le_unwatched_every_root :: bool

definition lost_new :: lost_events where
  "lost_new = \<lparr>le_cause = None, le_rewatch_roots = {}, le_rewatch_every_root = False, le_unwatched_roots = {},
     le_unwatched_every_root = False\<rparr>"

definition note_lost :: "lost_cause \<Rightarrow> lost_events \<Rightarrow> lost_events" where
  "note_lost cause le = le\<lparr>le_cause := Some (case le_cause le of Some c \<Rightarrow> c | None \<Rightarrow> cause)\<rparr>"

definition note_error :: "nat set \<Rightarrow> lost_events \<Rightarrow> lost_events" where
  "note_error owners le =
    (let le1 = note_lost WatcherReported le in
     if owners = {} then le1\<lparr>le_unwatched_every_root := True\<rparr>
     else le1\<lparr>le_unwatched_roots := le_unwatched_roots le1 \<union> owners\<rparr>)"

definition note_rescan :: "nat set \<Rightarrow> lost_events \<Rightarrow> lost_events" where
  "note_rescan owners le =
    (let le1 = note_lost FlaggedForRescan le in
     if owners = {} then le1\<lparr>le_rewatch_every_root := True\<rparr>
     else le1\<lparr>le_rewatch_roots := le_rewatch_roots le1 \<union> owners\<rparr>)"

section \<open>Routing\<close>

text \<open>The longest root that is a prefix of the path; of several as long, the last.\<close>

definition owning_step :: "pair_settings list \<Rightarrow> path \<Rightarrow> nat option \<Rightarrow> nat \<Rightarrow> nat option" where
  "owning_step ses p best i =
    (if \<not> starts_with p (se_local_root (ses ! i)) then best
     else (case best of
         None \<Rightarrow> Some i
       | Some b \<Rightarrow> if length (se_local_root (ses ! b)) \<le> length (se_local_root (ses ! i)) then Some i else best))"

definition owning_pair :: "pair_settings list \<Rightarrow> path \<Rightarrow> nat option" where
  "owning_pair ses p = foldl (owning_step ses p) None [0..<length ses]"

definition owners_of :: "pair_settings list \<Rightarrow> path list \<Rightarrow> nat set" where
  "owners_of ses ps = set (List.map_filter (owning_pair ses) ps)"

fun add_to_group :: "nat \<Rightarrow> 'a \<Rightarrow> (nat \<times> 'a list) list \<Rightarrow> (nat \<times> 'a list) list" where
  "add_to_group owner x [] = [(owner, [x])]"
| "add_to_group owner x ((pair, xs) # rest) =
    (if pair = owner then (pair, xs @ [x]) # rest else (pair, xs) # add_to_group owner x rest)"

fun group_paths ::
  "pair_settings list \<Rightarrow> (path \<times> path_look) list \<Rightarrow> (nat \<times> (path \<times> path_look) list) list \<Rightarrow>
   (nat \<times> (path \<times> path_look) list) list" where
  "group_paths ses [] groups = groups"
| "group_paths ses (seen # rest) groups =
    (case owning_pair ses (fst seen) of
       None \<Rightarrow> group_paths ses rest groups
     | Some owner \<Rightarrow> group_paths ses rest (add_to_group owner seen groups))"

definition handle_group ::
  "pair_settings list \<Rightarrow> event_kind \<Rightarrow> pair_slot list \<times> lost_events \<Rightarrow> nat \<times> (path \<times> path_look) list \<Rightarrow>
   pair_slot list \<times> lost_events" where
  "handle_group ses kind st g =
    (case st of (slots, lost) \<Rightarrow>
     case g of (pair, paths) \<Rightarrow>
     case slots ! pair of
       SlotUnavailable _ \<Rightarrow> (slots, lost)
     | SlotReady rd \<Rightarrow>
         (case handle_fs_event (ses ! pair) kind paths (rd_pair rd) of
            (failed, pr) \<Rightarrow>
              (slots[pair := SlotReady (rd\<lparr>rd_pair := pr\<rparr>)],
               case failed of None \<Rightarrow> lost | Some e \<Rightarrow> note_lost (NotQueued e) lost)))"

definition route_event ::
  "pair_settings list \<Rightarrow> fs_event \<Rightarrow> pair_slot list \<times> lost_events \<Rightarrow> pair_slot list \<times> lost_events" where
  "route_event ses ev st =
    (let st1 = (if ev_need_rescan ev then (fst st, note_rescan (owners_of ses (map fst (ev_paths ev))) (snd st)) else st)
     in foldl (handle_group ses (ev_kind ev)) st1 (group_paths ses (ev_paths ev) []))"

definition route ::
  "pair_settings list \<Rightarrow> notice \<Rightarrow> pair_slot list \<times> lost_events \<Rightarrow> pair_slot list \<times> lost_events" where
  "route ses n st =
    (case n of
       Inr ev \<Rightarrow> route_event ses ev st
     | Inl paths \<Rightarrow> (fst st, note_error (owners_of ses paths) (snd st)))"

section \<open>Settling what was lost\<close>

definition on_ready :: "(ready_pair \<Rightarrow> ready_pair) \<Rightarrow> pair_slot \<Rightarrow> pair_slot" where
  "on_ready f s = (case s of SlotReady rd \<Rightarrow> SlotReady (f rd) | SlotUnavailable un \<Rightarrow> SlotUnavailable un)"

definition latch_local_rescan :: "pair_slot list \<Rightarrow> pair_slot list" where
  "latch_local_rescan slots = map (on_ready (on_rd_pair (\<lambda>pr. pr\<lparr>pr_force_local_rescan := True\<rparr>))) slots"

definition latch_lost_events :: "lost_events \<Rightarrow> pair_slot list \<Rightarrow> pair_slot list" where
  "latch_lost_events le slots = (if le_cause le = None then slots else latch_local_rescan slots)"

definition on_targets :: "(nat \<Rightarrow> bool) \<Rightarrow> (nat \<Rightarrow> ready_pair \<Rightarrow> ready_pair) \<Rightarrow> pair_slot list \<Rightarrow> pair_slot list" where
  "on_targets target f slots =
    map (\<lambda>i. if target i then on_ready (f i) (slots ! i) else slots ! i) [0..<length slots]"

definition mark_roots_unwatched :: "lost_events \<Rightarrow> pair_slot list \<Rightarrow> pair_slot list" where
  "mark_roots_unwatched le slots =
    on_targets (\<lambda>i. le_unwatched_every_root le \<or> i \<in> le_unwatched_roots le)
      (\<lambda>i rd. case rd_watch rd of Watching _ \<Rightarrow> rd\<lparr>rd_watch := Incomplete\<rparr> | _ \<Rightarrow> rd) slots"

text \<open>Whether the watcher took the root again, and what stands there.\<close>

definition rewatch_after_rescan ::
  "(nat \<Rightarrow> bool \<times> root_stat) \<Rightarrow> lost_events \<Rightarrow> pair_slot list \<Rightarrow> pair_slot list" where
  "rewatch_after_rescan answers le slots =
    on_targets (\<lambda>i. le_rewatch_every_root le \<or> i \<in> le_rewatch_roots le)
      (\<lambda>i rd. case answers i of (taken, stat) \<Rightarrow>
         rd\<lparr>rd_watch := (if taken then (case look_at_root stat of LookPresent w \<Rightarrow> Watching w | _ \<Rightarrow> Incomplete)
                         else Incomplete)\<rparr>) slots"

definition settle_lost_events ::
  "(nat \<Rightarrow> bool \<times> root_stat) \<Rightarrow> lost_events \<Rightarrow> pair_slot list \<Rightarrow> pair_slot list" where
  "settle_lost_events answers le slots =
    rewatch_after_rescan answers le (mark_roots_unwatched le (latch_lost_events le slots))"

section \<open>The drain\<close>

definition max_drain_rounds :: nat where "max_drain_rounds = 3"

record watch_inputs =
  wi_carried :: "notice option"
  wi_queue :: "notice list"

definition next_event :: "nat \<Rightarrow> watch_inputs \<Rightarrow> (notice \<times> nat \<times> watch_inputs) option" where
  "next_event remaining wi =
    (case wi_carried wi of
       Some n \<Rightarrow> Some (n, remaining, wi\<lparr>wi_carried := None\<rparr>)
     | None \<Rightarrow>
         if remaining = 0 then None
         else (case wi_queue wi of
             [] \<Rightarrow> None
           | n # rest \<Rightarrow> Some (n, remaining - 1, wi\<lparr>wi_queue := rest\<rparr>)))"

text \<open>
  One round, from the \<open>k\<close>-th event of the drain on: \<open>arrive k\<close> is what reaches the channel while that event is
  handled, \<open>cancelled k\<close> the cancel flag when it is read before it. The first component is whether the drain goes on.
\<close>

function drain_round ::
  "pair_settings list \<Rightarrow> (nat \<Rightarrow> notice list) \<Rightarrow> (nat \<Rightarrow> bool) \<Rightarrow> nat \<Rightarrow> nat \<Rightarrow> watch_inputs \<Rightarrow>
   pair_slot list \<times> lost_events \<Rightarrow> bool \<times> nat \<times> watch_inputs \<times> pair_slot list \<times> lost_events" where
  "drain_round ses arrive cancelled remaining k wi st =
    (case next_event remaining wi of
       None \<Rightarrow> (True, k, wi, st)
     | Some (n, remaining1, wi1) \<Rightarrow>
         if cancelled k then (False, k, wi1, st)
         else drain_round ses arrive cancelled remaining1 (k + 1) (wi1\<lparr>wi_queue := wi_queue wi1 @ arrive k\<rparr>) (route ses n st))"
  by pat_completeness auto

termination
  by (relation "measure (\<lambda>(_, _, _, remaining, _, wi, _). remaining + (case wi_carried wi of Some _ \<Rightarrow> 1 | None \<Rightarrow> 0))")
    (auto simp: next_event_def split: option.splits if_splits list.splits)

declare drain_round.simps [simp del]

fun drain_rounds ::
  "nat \<Rightarrow> pair_settings list \<Rightarrow> (nat \<Rightarrow> notice list) \<Rightarrow> (nat \<Rightarrow> bool) \<Rightarrow> nat \<Rightarrow> watch_inputs \<Rightarrow>
   pair_slot list \<times> lost_events \<Rightarrow> bool \<times> nat \<times> watch_inputs \<times> pair_slot list \<times> lost_events" where
  "drain_rounds 0 ses arrive cancelled k wi st = (True, k, wi, st)"
| "drain_rounds (Suc rounds) ses arrive cancelled k wi st =
    (let remaining = length (wi_queue wi) in
     if remaining = 0 \<and> wi_carried wi = None then (True, k, wi, st)
     else (case drain_round ses arrive cancelled remaining k wi st of
         (False, k1, wi1, st1) \<Rightarrow> (False, k1, wi1, st1)
       | (True, k1, wi1, st1) \<Rightarrow> drain_rounds rounds ses arrive cancelled k1 wi1 st1))"

definition drain_watcher ::
  "pair_settings list \<Rightarrow> (nat \<Rightarrow> notice list) \<Rightarrow> (nat \<Rightarrow> bool) \<Rightarrow> (nat \<Rightarrow> bool \<times> root_stat) \<Rightarrow> watch_inputs \<Rightarrow>
   pair_slot list \<Rightarrow> bool \<times> watch_inputs \<times> pair_slot list" where
  "drain_watcher ses arrive cancelled answers wi slots =
    (case drain_rounds max_drain_rounds ses arrive cancelled 0 wi (slots, lost_new) of
       (False, _, wi1, slots1, _) \<Rightarrow> (False, wi1, slots1)
     | (True, _, wi1, slots1, lost) \<Rightarrow> (True, wi1, settle_lost_events answers lost slots1))"

end
