(* ===== verification/Watch_Props.thy ===== *)
theory Watch_Props
  imports Watch_Events Reconcile_Props
begin

text \<open>
  Properties of the watcher's drain: the channel is routed in order, and what a notice asks of a pair is queued there
  or covered by a scan, whatever fails on the way; an echo of the pair's own writes leaves its index alone.
\<close>

section \<open>The channel\<close>

definition waiting :: "watch_inputs \<Rightarrow> notice list" where
  "waiting wi = (case wi_carried wi of Some n \<Rightarrow> [n] | None \<Rightarrow> []) @ wi_queue wi"

lemma next_event_waiting:
  "next_event remaining wi = Some (n, remaining1, wi1) \<Longrightarrow>
    waiting wi = n # waiting wi1 \<and>
    remaining1 + (case wi_carried wi1 of Some _ \<Rightarrow> 1 | None \<Rightarrow> 0) + 1 =
      remaining + (case wi_carried wi of Some _ \<Rightarrow> 1 | None \<Rightarrow> 0) \<and>
    (remaining \<le> length (wi_queue wi) \<longrightarrow> remaining1 \<le> length (wi_queue wi1))"
  by (auto simp: next_event_def waiting_def split: option.splits if_splits list.splits)

lemma next_event_none:
  "next_event remaining wi = None \<Longrightarrow> remaining \<le> length (wi_queue wi) \<Longrightarrow> remaining = 0 \<and> wi_carried wi = None"
  by (auto simp: next_event_def split: option.splits if_splits list.splits)

lemma waiting_arrives: "waiting (wi\<lparr>wi_queue := wi_queue wi @ ns\<rparr>) = waiting wi @ ns"
  by (simp add: waiting_def)

definition routed :: "pair_settings list \<Rightarrow> notice list \<Rightarrow> pair_slot list \<times> lost_events \<Rightarrow> pair_slot list \<times> lost_events" where
  "routed ses ns st = foldl (\<lambda>st n. route ses n st) st ns"

lemma routed_simps [simp]:
  "routed ses [] st = st" "routed ses (n # ns) st = routed ses ns (route ses n st)"
  "routed ses (ns @ ms) st = routed ses ms (routed ses ns st)"
  by (simp_all add: routed_def)

lemma upt_split: "k \<le> m \<Longrightarrow> m \<le> n \<Longrightarrow> [k..<n] = [k..<m] @ [m..<n]"
  using upt_add_eq_append[of k m "n - m"] by simp

lemma round_in_order:
  assumes "drain_round ses arrive cancelled remaining k wi st = (True, k1, wi1, st1)"
    "remaining \<le> length (wi_queue wi)"
  shows "k1 = k + remaining + (case wi_carried wi of Some _ \<Rightarrow> 1 | None \<Rightarrow> 0) \<and> wi_carried wi1 = None \<and>
    (\<exists>ns. length ns = k1 - k \<and> waiting wi @ concat (map arrive [k..<k1]) = ns @ waiting wi1 \<and> st1 = routed ses ns st)"
  using assms
proof (induction ses arrive cancelled remaining k wi st rule: drain_round.induct)
  case (1 ses arrive cancelled remaining k wi st)
  show ?case
  proof (cases "next_event remaining wi")
    case None
    then show ?thesis using 1(2,3) next_event_none[OF None]
      by (subst (asm) drain_round.simps) (auto simp: waiting_def)
  next
    case (Some x)
    obtain n remaining1 w where x: "x = (n, remaining1, w)" by (cases x)
    note ne = next_event_waiting[OF Some[unfolded x]]
    define w' where "w' = w\<lparr>wi_queue := wi_queue w @ arrive k\<rparr>"
    have go: "\<not> cancelled k" "drain_round ses arrive cancelled remaining1 (k + 1) w' (route ses n st) = (True, k1, wi1, st1)"
      using 1(2) Some x by (subst (asm) drain_round.simps; simp add: w'_def split: if_splits)+
    have "remaining1 \<le> length (wi_queue w')" using ne 1(3) by (simp add: w'_def)
    from 1(1)[OF Some[unfolded x] refl refl go(1), folded w'_def, OF go(2) this]
    obtain ns where ih: "k1 = k + 1 + remaining1 + (case wi_carried w' of Some _ \<Rightarrow> 1 | None \<Rightarrow> 0)" "wi_carried wi1 = None"
      "length ns = k1 - (k + 1)" "waiting w' @ concat (map arrive [k + 1..<k1]) = ns @ waiting wi1"
      "st1 = routed ses ns (route ses n st)" by blast
    have k: "k < k1" using ih(1) by simp
    have "waiting wi @ concat (map arrive [k..<k1]) = n # waiting w' @ concat (map arrive [k + 1..<k1])"
      using ne upt_rec[of k k1] k by (simp add: w'_def waiting_arrives)
    then have "waiting wi @ concat (map arrive [k..<k1]) = (n # ns) @ waiting wi1" using ih(4) by simp
    moreover have "k1 = k + remaining + (case wi_carried wi of Some _ \<Rightarrow> 1 | None \<Rightarrow> 0)"
      using ih(1) ne by (simp add: w'_def)
    ultimately show ?thesis
      using ih(2,3,5) k by (intro conjI exI[of _ "n # ns"]) simp_all
  qed
qed

lemma rounds_in_order:
  assumes "drain_rounds rounds ses arrive cancelled k wi st = (True, k1, wi1, st1)"
  shows "k \<le> k1 \<and> (0 < rounds \<longrightarrow> length (waiting wi) \<le> k1 - k) \<and>
    (\<exists>ns. length ns = k1 - k \<and> waiting wi @ concat (map arrive [k..<k1]) = ns @ waiting wi1 \<and> st1 = routed ses ns st)"
  using assms
proof (induction rounds arbitrary: k wi st)
  case (Suc rounds)
  show ?case
  proof (cases "length (wi_queue wi) = 0 \<and> wi_carried wi = None")
    case True
    then show ?thesis using Suc.prems by (simp add: waiting_def)
  next
    case False
    obtain b k2 wi2 st2 where r: "drain_round ses arrive cancelled (length (wi_queue wi)) k wi st = (b, k2, wi2, st2)"
      by (metis prod_cases4)
    have "(if b then drain_rounds rounds ses arrive cancelled k2 wi2 st2 else (False, k2, wi2, st2)) = (True, k1, wi1, st1)"
      using Suc.prems unfolding drain_rounds.simps(2) Let_def if_not_P[OF False] r by (cases b) simp_all
    then have b: "b" "drain_rounds rounds ses arrive cancelled k2 wi2 st2 = (True, k1, wi1, st1)"
      by (auto split: if_splits)
    have "drain_round ses arrive cancelled (length (wi_queue wi)) k wi st = (True, k2, wi2, st2)" using r b(1) by simp
    from round_in_order[OF this order_refl] obtain ns where one:
      "k2 = k + length (wi_queue wi) + (case wi_carried wi of Some _ \<Rightarrow> 1 | None \<Rightarrow> 0)" "length ns = k2 - k"
      "waiting wi @ concat (map arrive [k..<k2]) = ns @ waiting wi2" "st2 = routed ses ns st" by blast
    have k2: "k2 = k + length (waiting wi)" using one(1) by (simp add: waiting_def split: option.split)
    from Suc.IH[OF b(2)] obtain ms where more: "k2 \<le> k1" "length ms = k1 - k2"
      "waiting wi2 @ concat (map arrive [k2..<k1]) = ms @ waiting wi1" "st1 = routed ses ms st2" by blast
    have "waiting wi @ concat (map arrive [k..<k1]) =
        (waiting wi @ concat (map arrive [k..<k2])) @ concat (map arrive [k2..<k1])"
      using k2 more(1) upt_split[of k k2 k1] by simp
    also have "\<dots> = ns @ waiting wi2 @ concat (map arrive [k2..<k1])" by (simp only: one(3) append_assoc)
    also have "\<dots> = (ns @ ms) @ waiting wi1" by (simp only: more(3) append_assoc)
    finally have "waiting wi @ concat (map arrive [k..<k1]) = (ns @ ms) @ waiting wi1" .
    then show ?thesis using k2 one(2,4) more by (intro conjI exI[of _ "ns @ ms"]) simp_all
  qed
qed simp

section \<open>What a notice asks of a pair\<close>

text \<open>The path of the pair that a pass has to look at again.\<close>

definition concerns :: "pair_settings \<Rightarrow> event_kind \<Rightarrow> path \<times> path_look \<Rightarrow> path \<Rightarrow> bool" where
  "concerns se kind seen r \<longleftrightarrow>
    (if lk_is_dir (snd seen) then
       fst seen = se_local_root se @ r \<and> r \<noteq> [] \<and> kind \<in> {KindCreate, KindModify} \<and>
       \<not> is_conflict_copy (se_naming se) (fst seen) \<and> allows_relative_directory (se_scan_options se) r
     else if is_conflict_copy (se_naming se) (fst seen) then
       kind = KindRemove \<and> original_from_conflict_copy (se_naming se) (fst seen) = Some (se_local_root se @ r) \<and>
       allows_relative_file (se_scan_options se) r
     else fst seen = se_local_root se @ r \<and> kind \<noteq> KindOther \<and> allows_relative_file (se_scan_options se) r)"

text \<open>It is about the record of that path too: a change of content that is not an echo of the pair's own write.\<close>

definition marks :: "pair_settings \<Rightarrow> path set \<Rightarrow> event_kind \<Rightarrow> path \<times> path_look \<Rightarrow> bool" where
  "marks se authored kind seen \<longleftrightarrow> \<not> lk_is_dir (snd seen) \<and>
    (if is_conflict_copy (se_naming se) (fst seen) then \<exists>r. concerns se kind seen r
     else kind \<noteq> KindRemove \<and> (\<exists>r. concerns se kind seen r \<and> r \<notin> authored))"

definition pair_keeps :: "pair_runtime \<Rightarrow> pair_runtime \<Rightarrow> bool" where
  "pair_keeps pr pr1 \<longleftrightarrow> pr_pending_changes pr \<subseteq> pr_pending_changes pr1 \<and>
    pr1 = pr\<lparr>pr_db := pr_db pr1, pr_pending_changes := pr_pending_changes pr1\<rparr>"

lemma keeps_refl [simp]: "pair_keeps pr pr"
  by (simp add: pair_keeps_def)

lemma keeps_authored: "pair_keeps pr pr1 \<Longrightarrow> pr_authored_writes pr1 = pr_authored_writes pr"
  by (metis pair_keeps_def pair_runtime.select_convs(4) pair_runtime.surjective pair_runtime.update_convs(1,3))

lemma keeps_trans: "pair_keeps pr pr1 \<Longrightarrow> pair_keeps pr1 pr2 \<Longrightarrow> pair_keeps pr pr2"
  by (cases pr; cases pr1; cases pr2) (auto simp: pair_keeps_def)

lemma keeps_steps [simp]: "pair_keeps pr (queue_change r pr)" "pair_keeps pr (snd (mark_and_queue e r pr))"
  by (cases pr; auto simp: pair_keeps_def queue_change_def mark_and_queue_def split: option.split)+

lemma handle_path_keeps: "pair_keeps pr (snd (handle_path se kind seen pr))"
  by (auto simp: handle_path_def handle_directory_def handle_conflict_copy_def handle_file_def
      split: prod.split option.split event_kind.split)

lemma handle_path_queues:
  "concerns se kind seen r \<Longrightarrow> fst (handle_path se kind seen pr) \<noteq> None \<or>
    r \<in> pr_pending_changes (snd (handle_path se kind seen pr))"
  by (cases kind)
    (auto simp: concerns_def handle_path_def handle_directory_def handle_conflict_copy_def handle_file_def
      mark_and_queue_def queue_change_def split: prod.split option.split if_splits)

lemma handle_path_marks:
  "\<not> marks se (pr_authored_writes pr) kind seen \<Longrightarrow> pr_db (snd (handle_path se kind seen pr)) = pr_db pr"
  by (cases kind)
    (auto simp: marks_def concerns_def handle_path_def handle_directory_def handle_conflict_copy_def handle_file_def
      mark_and_queue_def queue_change_def strip_prefix_Some split: prod.split option.split if_splits)

lemma handle_event_keeps: "pair_keeps pr (snd (handle_fs_event se kind paths pr))"
proof (induction paths arbitrary: pr)
  case (Cons seen rest)
  have "pair_keeps pr (snd (handle_path se kind seen pr))" by (rule handle_path_keeps)
  then show ?case using Cons.IH keeps_trans by (auto split: prod.split option.split)
qed simp

lemma handle_event_queues:
  assumes "seen \<in> set paths" "concerns se kind seen r"
  shows "fst (handle_fs_event se kind paths pr) \<noteq> None \<or> r \<in> pr_pending_changes (snd (handle_fs_event se kind paths pr))"
  using assms(1)
proof (induction paths arbitrary: pr)
  case (Cons seen1 rest)
  obtain f pr1 where one: "handle_path se kind seen1 pr = (f, pr1)" by fastforce
  show ?case
  proof (cases "f = None \<and> seen1 = seen")
    case True
    then have "r \<in> pr_pending_changes pr1" using handle_path_queues[OF assms(2), of pr] one by simp
    then show ?thesis using one True handle_event_keeps[of pr1 se kind rest] by (auto simp: pair_keeps_def)
  next
    case False
    then show ?thesis using Cons one handle_path_queues[OF assms(2), of pr] by (cases f) auto
  qed
qed simp

lemma handle_event_marks:
  "list_all (\<lambda>seen. \<not> marks se (pr_authored_writes pr) kind seen) paths \<Longrightarrow>
    pr_db (snd (handle_fs_event se kind paths pr)) = pr_db pr"
proof (induction paths arbitrary: pr)
  case (Cons seen rest)
  obtain f pr1 where one: "handle_path se kind seen pr = (f, pr1)" by fastforce
  have same: "pr_db pr1 = pr_db pr" "pr_authored_writes pr1 = pr_authored_writes pr"
    using handle_path_marks[of se pr kind seen] handle_path_keeps[of pr se kind seen] keeps_authored Cons.prems one by auto
  then show ?case using Cons.IH[of pr1] Cons.prems one by (cases f) simp_all
qed simp

section \<open>Every pair at once\<close>

definition slot_keeps :: "pair_slot \<Rightarrow> pair_slot \<Rightarrow> bool" where
  "slot_keeps s s1 \<longleftrightarrow>
    (case s of SlotReady rd \<Rightarrow> (\<exists>rd1. s1 = SlotReady rd1 \<and> pair_keeps (rd_pair rd) (rd_pair rd1)) | SlotUnavailable un \<Rightarrow> s1 = s)"

definition all_keep :: "pair_slot list \<times> lost_events \<Rightarrow> pair_slot list \<times> lost_events \<Rightarrow> bool" where
  "all_keep st st1 \<longleftrightarrow> length (fst st1) = length (fst st) \<and> (\<forall>i<length (fst st). slot_keeps (fst st ! i) (fst st1 ! i)) \<and>
    (le_cause (snd st) \<noteq> None \<longrightarrow> le_cause (snd st1) \<noteq> None)"

lemma slot_keeps_refl [simp]: "slot_keeps s s"
  by (simp add: slot_keeps_def split: pair_slot.split)

lemma slot_keeps_trans: "slot_keeps s s1 \<Longrightarrow> slot_keeps s1 s2 \<Longrightarrow> slot_keeps s s2"
  by (auto simp: slot_keeps_def split: pair_slot.splits intro: keeps_trans)

lemma all_keep_refl [simp]: "all_keep st st"
  by (simp add: all_keep_def)

lemma all_keep_trans: "all_keep st st1 \<Longrightarrow> all_keep st1 st2 \<Longrightarrow> all_keep st st2"
  by (fastforce simp: all_keep_def intro: slot_keeps_trans)

lemma all_keep_foldl: "(\<And>st x. all_keep st (f st x)) \<Longrightarrow> all_keep st (foldl f st xs)"
proof (induction xs arbitrary: st)
  case (Cons x xs)
  then show ?case using all_keep_trans[of st "f st x"] by simp
qed simp

lemma note_lost_cause [simp]:
  "\<exists>c'. le_cause (note_lost c le) = Some c'" "\<exists>c'. le_cause (note_rescan os le) = Some c'"
  "\<exists>c'. le_cause (note_error os le) = Some c'"
  by (simp_all add: note_lost_def note_rescan_def note_error_def Let_def)

lemma group_keeps: "all_keep st (handle_group ses kind st g)"
proof (cases st)
  case st: (Pair slots lost)
  obtain pair paths where g: "g = (pair, paths)" by (cases g)
  show ?thesis
  proof (cases "slots ! pair")
    case (SlotReady rd)
    obtain f pr where h: "handle_fs_event (ses ! pair) kind paths (rd_pair rd) = (f, pr)" by fastforce
    then have "pair_keeps (rd_pair rd) pr" using handle_event_keeps[of "rd_pair rd" "ses ! pair" kind paths] by simp
    then show ?thesis
      using st g SlotReady h
      by (cases "pair < length slots")
        (auto simp: handle_group_def all_keep_def slot_keeps_def nth_list_update split: pair_slot.split option.split)
  qed (simp add: st g handle_group_def)
qed

lemma route_keeps: "all_keep st (route ses n st)"
proof (cases n)
  case (Inl paths)
  then show ?thesis by (simp add: route_def all_keep_def)
next
  case (Inr ev)
  define st1 where "st1 = (if ev_need_rescan ev then (fst st, note_rescan (owners_of ses (map fst (ev_paths ev))) (snd st)) else st)"
  have "all_keep st st1" by (simp add: all_keep_def st1_def)
  moreover have "all_keep st1 (foldl (handle_group ses (ev_kind ev)) st1 (group_paths ses (ev_paths ev) []))"
    by (rule all_keep_foldl[OF group_keeps])
  ultimately have "all_keep st (foldl (handle_group ses (ev_kind ev)) st1 (group_paths ses (ev_paths ev) []))"
    by (rule all_keep_trans)
  then show ?thesis by (simp add: Inr route_def route_event_def Let_def st1_def)
qed

lemma routed_keeps: "all_keep st (routed ses ns st)"
  unfolding routed_def by (rule all_keep_foldl[OF route_keeps])

text \<open>A path of a ready pair is covered when it is queued there, or some loss was noted.\<close>

definition covered :: "nat \<Rightarrow> path \<Rightarrow> pair_slot list \<times> lost_events \<Rightarrow> bool" where
  "covered i r st \<longleftrightarrow> (\<exists>rd. fst st ! i = SlotReady rd \<and>
    (r \<in> pr_pending_changes (rd_pair rd) \<or> le_cause (snd st) \<noteq> None))"

lemma covered_kept: "all_keep st st1 \<Longrightarrow> i < length (fst st) \<Longrightarrow> covered i r st \<Longrightarrow> covered i r st1"
  by (fastforce simp: all_keep_def covered_def slot_keeps_def pair_keeps_def split: pair_slot.splits)

lemma ready_kept:
  assumes "all_keep st st1" "i < length (fst st)" "fst st ! i = SlotReady rd"
  obtains rd1 where "fst st1 ! i = SlotReady rd1" "pair_keeps (rd_pair rd) (rd_pair rd1)"
  using assms by (fastforce simp: all_keep_def slot_keeps_def split: pair_slot.splits)

lemma group_covers:
  assumes "i < length (fst st)" "fst st ! i = SlotReady rd" "seen \<in> set paths" "concerns (ses ! i) kind seen r"
  shows "covered i r (handle_group ses kind st (i, paths))"
proof -
  obtain slots lost where st: "st = (slots, lost)" by (cases st)
  obtain f pr where h: "handle_fs_event (ses ! i) kind paths (rd_pair rd) = (f, pr)" by fastforce
  have "f \<noteq> None \<or> r \<in> pr_pending_changes pr" using handle_event_queues[OF assms(3,4), of "rd_pair rd"] h by simp
  then show ?thesis using assms(1,2) st h by (auto simp: handle_group_def covered_def split: option.split)
qed

lemma add_to_group_mem:
  "\<exists>xs. (owner, xs) \<in> set (add_to_group owner x groups) \<and> x \<in> set xs"
  "(p, ys) \<in> set groups \<Longrightarrow> \<exists>zs. (p, zs) \<in> set (add_to_group owner x groups) \<and> set ys \<subseteq> set zs"
  by (induction owner x groups rule: add_to_group.induct) (auto, (metis Un_upper1 list.set_intros(2) set_append subset_refl)?)

lemma group_paths_keep: "(p, ys) \<in> set groups \<Longrightarrow> \<exists>zs. (p, zs) \<in> set (group_paths ses paths groups) \<and> set ys \<subseteq> set zs"
proof (induction ses paths groups arbitrary: ys rule: group_paths.induct)
  case (2 ses seen rest groups)
  show ?case
  proof (cases "owning_pair ses (fst seen)")
    case (Some owner)
    obtain zs where zs: "(p, zs) \<in> set (add_to_group owner seen groups)" "set ys \<subseteq> set zs"
      using add_to_group_mem(2)[OF 2(3)] by blast
    from 2(2)[OF Some zs(1)] zs(2) show ?thesis by (auto simp: Some)
  qed (use 2 in simp)
qed auto

lemma group_paths_mem:
  "seen \<in> set paths \<Longrightarrow> owning_pair ses (fst seen) = Some i \<Longrightarrow>
    \<exists>xs. (i, xs) \<in> set (group_paths ses paths groups) \<and> seen \<in> set xs"
proof (induction paths arbitrary: groups)
  case (Cons seen1 rest)
  show ?case
  proof (cases "seen1 = seen")
    case True
    obtain xs where "(i, xs) \<in> set (add_to_group i seen groups)" "seen \<in> set xs"
      using add_to_group_mem(1)[of i seen groups] by blast
    with group_paths_keep[OF this(1), of ses rest] show ?thesis using Cons.prems(2) True by auto
  qed (use Cons in \<open>auto split: option.split\<close>)
qed simp

lemma foldl_covers:
  assumes keep: "\<And>st x. all_keep st (f st x)" and here: "\<And>st. all_keep st0 st \<Longrightarrow> covered i r (f st x)"
    and x: "x \<in> set xs" and i: "i < length (fst st0)"
  shows "covered i r (foldl f st0 xs)"
proof -
  obtain ys zs where xs: "xs = ys @ x # zs" using x by (meson split_list)
  define st where "st = foldl f st0 ys"
  have st: "all_keep st0 st" unfolding st_def by (rule all_keep_foldl[OF keep])
  then have "i < length (fst (f st x))" using i keep[of st x] by (simp add: all_keep_def)
  from covered_kept[OF all_keep_foldl[of f _ zs, OF keep] this here[OF st]] show ?thesis by (simp add: xs st_def)
qed

lemma event_covers:
  assumes "i < length (fst st)" "fst st ! i = SlotReady rd" "seen \<in> set (ev_paths ev)"
    "owning_pair ses (fst seen) = Some i" "concerns (ses ! i) (ev_kind ev) seen r"
  shows "covered i r (route ses (Inr ev) st)"
proof -
  define st1 where "st1 = (if ev_need_rescan ev then (fst st, note_rescan (owners_of ses (map fst (ev_paths ev))) (snd st)) else st)"
  have st1: "fst st1 = fst st" by (simp add: st1_def)
  obtain xs where xs: "(i, xs) \<in> set (group_paths ses (ev_paths ev) [])" "seen \<in> set xs"
    using group_paths_mem[OF assms(3,4)] by blast
  have "covered i r (foldl (handle_group ses (ev_kind ev)) st1 (group_paths ses (ev_paths ev) []))"
  proof (rule foldl_covers[OF group_keeps _ xs(1)])
    fix st' assume keep: "all_keep st1 st'"
    with assms(1,2) st1 obtain rd1 where "fst st' ! i = SlotReady rd1" by (auto elim: ready_kept)
    moreover have "i < length (fst st')" using keep assms(1) st1 by (simp add: all_keep_def)
    ultimately show "covered i r (handle_group ses (ev_kind ev) st' (i, xs))" using group_covers xs(2) assms(5) by blast
  qed (use assms(1) st1 in simp)
  then show ?thesis by (simp add: route_def route_event_def Let_def st1_def)
qed

text \<open>A notice that says events are gone leaves a cause.\<close>

definition reports_a_loss :: "notice \<Rightarrow> bool" where
  "reports_a_loss n = (case n of Inl _ \<Rightarrow> True | Inr ev \<Rightarrow> ev_need_rescan ev)"

lemma loss_covers:
  assumes "i < length (fst st)" "fst st ! i = SlotReady rd" "reports_a_loss n"
  shows "covered i r (route ses n st)"
proof (cases n)
  case (Inl paths)
  then show ?thesis using assms(2) note_lost_cause(3)[of "owners_of ses paths" "snd st"] by (auto simp: covered_def route_def)
next
  case (Inr ev)
  let ?st1 = "(fst st, note_rescan (owners_of ses (map fst (ev_paths ev))) (snd st))"
  have "covered i r ?st1"
    using assms(2) note_lost_cause(2)[of "owners_of ses (map fst (ev_paths ev))" "snd st"] by (auto simp: covered_def)
  from covered_kept[OF all_keep_foldl[OF group_keeps] _ this] show ?thesis
    using assms(1,3) by (simp add: Inr reports_a_loss_def route_def route_event_def Let_def)
qed

lemma routed_covers:
  assumes "n \<in> set ns" "i < length (fst st)" "fst st ! i = SlotReady rd"
    "reports_a_loss n \<or> (\<exists>ev seen. n = Inr ev \<and> seen \<in> set (ev_paths ev) \<and> owning_pair ses (fst seen) = Some i \<and>
      concerns (ses ! i) (ev_kind ev) seen r)"
  shows "covered i r (routed ses ns st)"
  unfolding routed_def
proof (rule foldl_covers[OF route_keeps _ assms(1,2)])
  fix st' assume keep: "all_keep st st'"
  then obtain rd1 where "fst st' ! i = SlotReady rd1" "i < length (fst st')"
    using assms(2,3) by (metis all_keep_def ready_kept)
  then show "covered i r (route ses n st')" using assms(4) loss_covers event_covers by blast
qed

section \<open>Settling\<close>

lemma on_targets_nth:
  "i < length slots \<Longrightarrow> slots ! i = SlotReady rd \<Longrightarrow>
    on_targets target f slots ! i = SlotReady (if target i then f i rd else rd)"
  by (simp add: on_targets_def on_ready_def)

lemma on_targets_length [simp]: "length (on_targets target f slots) = length slots"
  by (simp add: on_targets_def)

lemma settled_pair:
  assumes "i < length slots" "slots ! i = SlotReady rd"
  obtains rd1 where "settle_lost_events answers le slots ! i = SlotReady rd1"
    "rd_pair rd1 = (if le_cause le = None then rd_pair rd else (rd_pair rd)\<lparr>pr_force_local_rescan := True\<rparr>)"
proof -
  have "\<exists>rd0. latch_lost_events le slots ! i = SlotReady rd0 \<and>
      rd_pair rd0 = (if le_cause le = None then rd_pair rd else (rd_pair rd)\<lparr>pr_force_local_rescan := True\<rparr>)"
    using assms by (simp add: latch_lost_events_def latch_local_rescan_def on_ready_def on_rd_pair_def)
  then obtain rd0 where rd0: "latch_lost_events le slots ! i = SlotReady rd0"
    "rd_pair rd0 = (if le_cause le = None then rd_pair rd else (rd_pair rd)\<lparr>pr_force_local_rescan := True\<rparr>)" by blast
  have len: "length (latch_lost_events le slots) = length slots" by (simp add: latch_lost_events_def latch_local_rescan_def)
  obtain rd2 where rd2: "mark_roots_unwatched le (latch_lost_events le slots) ! i = SlotReady rd2" "rd_pair rd2 = rd_pair rd0"
    using assms(1) len
    by (simp add: mark_roots_unwatched_def on_targets_nth[OF _ rd0(1)] split: root_watch.split)
  have "i < length (mark_roots_unwatched le (latch_lost_events le slots))"
    using assms(1) len by (simp add: mark_roots_unwatched_def)
  then show thesis
    using that rd0(2) rd2(2)
    by (simp add: settle_lost_events_def rewatch_after_rescan_def on_targets_nth[OF _ rd2(1)] split: prod.splits if_splits)
qed

section \<open>The properties\<close>

lemma drained:
  assumes "drain_watcher ses arrive cancelled answers wi slots = (True, wi', slots')"
  obtains ns where "waiting wi @ concat (map arrive [0..<length ns]) = ns @ waiting wi'" "length (waiting wi) \<le> length ns"
    "slots' = settle_lost_events answers (snd (routed ses ns (slots, lost_new))) (fst (routed ses ns (slots, lost_new)))"
proof -
  obtain b k wi1 slots1 lost where d: "drain_rounds max_drain_rounds ses arrive cancelled 0 wi (slots, lost_new) =
      (b, k, wi1, slots1, lost)" by (metis prod_cases5)
  have b: "b" "wi1 = wi'" "slots' = settle_lost_events answers lost slots1"
    using assms d by (auto simp: drain_watcher_def split: bool.splits)
  have "drain_rounds max_drain_rounds ses arrive cancelled 0 wi (slots, lost_new) = (True, k, wi', slots1, lost)"
    using d b by simp
  from rounds_in_order[OF this] obtain ns where "length ns = k" "length (waiting wi) \<le> k"
    "waiting wi @ concat (map arrive [0..<k]) = ns @ waiting wi'" "(slots1, lost) = routed ses ns (slots, lost_new)"
    by (auto simp: max_drain_rounds_def)
  with that[of ns] b(3) show thesis by (metis fst_conv snd_conv)
qed

lemma waiting_routed:
  assumes "waiting wi @ ms = ns @ rest" "length (waiting wi) \<le> length ns" "n \<in> set (waiting wi)"
  shows "n \<in> set ns"
proof -
  have "waiting wi = take (length (waiting wi)) ns" using assms(1,2) by (metis append_eq_conv_conj take_append take_all_iff
        append_Nil2 diff_is_0_eq take_0)
  then show ?thesis using assms(3) by (metis in_set_takeD)
qed

text \<open>C11: no change the watcher saw is lost. Everything that waits in the channel when a drain begins is routed before the
  next job is popped, in order; and whatever fails on the way, every path it says has changed is queued at the pair
  whose folder holds it, or that pair is made to scan. So the next pass of the pair that does not fail walks the
  local tree. Where the watcher says that events are gone, every pair that is ready is made to scan.\<close>

theorem seen_changes_reach_the_next_pass:
  assumes "drain_watcher ses arrive cancelled answers wi slots = (True, wi', slots')"
    "i < length slots" "slots ! i = SlotReady rd" "n \<in> set (waiting wi)"
    "reports_a_loss n \<or> (\<exists>ev seen. n = Inr ev \<and> seen \<in> set (ev_paths ev) \<and> owning_pair ses (fst seen) = Some i \<and>
      concerns (ses ! i) (ev_kind ev) seen r)"
    "slots' ! i = SlotReady rd'" "en_pair en = rd_pair rd'" "reconcile_blocking eo (ses ! i) en = (Inr outcome, en')"
  shows "(r \<in> pr_pending_changes (rd_pair rd') \<or> pr_force_local_rescan (rd_pair rd')) \<and> ScanningLocal \<in> set (en_phases en')"
proof -
  obtain ns where ns: "waiting wi @ concat (map arrive [0..<length ns]) = ns @ waiting wi'" "length (waiting wi) \<le> length ns"
    "slots' = settle_lost_events answers (snd (routed ses ns (slots, lost_new))) (fst (routed ses ns (slots, lost_new)))"
    using drained[OF assms(1)] by blast
  define st where "st = routed ses ns (slots, lost_new)"
  have "covered i r st"
    unfolding st_def by (rule routed_covers[OF waiting_routed[OF ns(1,2) assms(4)] _ _ assms(5)]) (simp_all add: assms(2,3))
  then obtain rd1 where rd1: "fst st ! i = SlotReady rd1" "r \<in> pr_pending_changes (rd_pair rd1) \<or> le_cause (snd st) \<noteq> None"
    by (auto simp: covered_def)
  have "i < length (fst st)" using routed_keeps[of "(slots, lost_new)" ses ns] assms(2) by (simp add: all_keep_def st_def)
  then obtain rd2 where "settle_lost_events answers (snd st) (fst st) ! i = SlotReady rd2"
    "rd_pair rd2 = (if le_cause (snd st) = None then rd_pair rd1 else (rd_pair rd1)\<lparr>pr_force_local_rescan := True\<rparr>)"
    using settled_pair[OF _ rd1(1)] by blast
  then have "r \<in> pr_pending_changes (rd_pair rd') \<or> pr_force_local_rescan (rd_pair rd')"
    using rd1(2) ns(3) assms(6) by (auto simp: st_def split: if_splits)
  then show ?thesis using asked_pass_scans[OF assms(8)] assms(7) by auto
qed

lemma added_mem:
  "(j, xs) \<in> set (add_to_group owner x groups) \<Longrightarrow> y \<in> set xs \<Longrightarrow> (j = owner \<and> y = x) \<or> (\<exists>ys. (j, ys) \<in> set groups \<and> y \<in> set ys)"
  by (induction owner x groups rule: add_to_group.induct) (auto split: if_splits)

lemma group_paths_owned:
  "(j, xs) \<in> set (group_paths ses paths groups) \<Longrightarrow> seen \<in> set xs \<Longrightarrow>
    seen \<in> set paths \<and> owning_pair ses (fst seen) = Some j \<or> (\<exists>ys. (j, ys) \<in> set groups \<and> seen \<in> set ys)"
proof (induction ses paths groups rule: group_paths.induct)
  case (2 ses seen1 rest groups)
  show ?case
  proof (cases "owning_pair ses (fst seen1)")
    case (Some owner)
    then show ?thesis using 2(2)[OF Some] 2(3,4) added_mem[of j _ owner seen1 groups seen] by auto
  qed (use 2 in auto)
qed auto

text \<open>What a drain does not touch: the index of a pair and the writes it knows as its own.\<close>

definition same_index :: "nat \<Rightarrow> pair_runtime \<Rightarrow> pair_slot list \<times> lost_events \<Rightarrow> bool" where
  "same_index i pr st \<longleftrightarrow> (\<exists>rd. fst st ! i = SlotReady rd \<and> pr_db (rd_pair rd) = pr_db pr \<and>
    pr_authored_writes (rd_pair rd) = pr_authored_writes pr)"

lemma group_index:
  assumes "same_index i pr st" "i < length (fst st)"
    "fst g = i \<Longrightarrow> list_all (\<lambda>seen. \<not> marks (ses ! i) (pr_authored_writes pr) kind seen) (snd g)"
  shows "same_index i pr (handle_group ses kind st g)"
proof -
  obtain slots lost where st: "st = (slots, lost)" by (cases st)
  obtain j paths where g: "g = (j, paths)" by (cases g)
  obtain rd where rd: "slots ! i = SlotReady rd" "pr_db (rd_pair rd) = pr_db pr" "pr_authored_writes (rd_pair rd) = pr_authored_writes pr"
    using assms(1) by (auto simp: same_index_def st)
  show ?thesis
  proof (cases "j = i")
    case True
    obtain f pr1 where h: "handle_fs_event (ses ! i) kind paths (rd_pair rd) = (f, pr1)" by fastforce
    have "pr_db pr1 = pr_db pr" "pr_authored_writes pr1 = pr_authored_writes pr"
      using handle_event_marks[of "ses ! i" "rd_pair rd" kind paths] handle_event_keeps[of "rd_pair rd" "ses ! i" kind paths]
        keeps_authored assms(3) rd h g True by auto
    then show ?thesis using assms(2) rd h by (simp add: same_index_def st g True handle_group_def)
  next
    case False
    then show ?thesis using rd by (auto simp: same_index_def st g handle_group_def split: pair_slot.split prod.split)
  qed
qed

definition quiet_for :: "pair_settings list \<Rightarrow> nat \<Rightarrow> path set \<Rightarrow> notice \<Rightarrow> bool" where
  "quiet_for ses i authored n \<longleftrightarrow>
    (case n of
       Inl _ \<Rightarrow> True
     | Inr ev \<Rightarrow> \<forall>seen\<in>set (ev_paths ev). owning_pair ses (fst seen) = Some i \<longrightarrow> \<not> marks (ses ! i) authored (ev_kind ev) seen)"

lemma groups_index:
  assumes "same_index i pr st" "i < length (fst st)"
    "list_all (\<lambda>g. fst g = i \<longrightarrow> list_all (\<lambda>seen. \<not> marks (ses ! i) (pr_authored_writes pr) kind seen) (snd g)) gs"
  shows "same_index i pr (foldl (handle_group ses kind) st gs)"
  using assms
proof (induction gs arbitrary: st)
  case (Cons g gs)
  have "same_index i pr (handle_group ses kind st g)" by (rule group_index[OF Cons.prems(1,2)]) (use Cons.prems(3) in simp)
  moreover have "i < length (fst (handle_group ses kind st g))"
    using group_keeps[of st ses kind g] Cons.prems(2) by (simp add: all_keep_def)
  ultimately show ?case using Cons.IH Cons.prems(3) by simp
qed simp

lemma route_index:
  assumes "same_index i pr st" "i < length (fst st)" "quiet_for ses i (pr_authored_writes pr) n"
  shows "same_index i pr (route ses n st)"
proof (cases n)
  case (Inl paths)
  then show ?thesis using assms(1) by (simp add: route_def same_index_def)
next
  case (Inr ev)
  define st1 where "st1 = (if ev_need_rescan ev then (fst st, note_rescan (owners_of ses (map fst (ev_paths ev))) (snd st)) else st)"
  have st1: "same_index i pr st1" "i < length (fst st1)" using assms(1,2) by (auto simp: st1_def same_index_def)
  have "list_all (\<lambda>g. fst g = i \<longrightarrow> list_all (\<lambda>seen. \<not> marks (ses ! i) (pr_authored_writes pr) (ev_kind ev) seen) (snd g))
      (group_paths ses (ev_paths ev) [])"
    using assms(3) group_paths_owned[of i _ ses "ev_paths ev" "[]"]
    by (auto simp: list_all_iff quiet_for_def Inr)
  from groups_index[OF st1 this] show ?thesis by (simp add: Inr route_def route_event_def Let_def st1_def)
qed

lemma routed_index:
  assumes "same_index i pr st" "i < length (fst st)" "list_all (quiet_for ses i (pr_authored_writes pr)) ns"
  shows "same_index i pr (routed ses ns st)"
  using assms
proof (induction ns arbitrary: st)
  case (Cons n ns)
  have "i < length (fst (route ses n st))" using route_keeps[of st ses n] Cons.prems(2) by (simp add: all_keep_def)
  then show ?case using Cons route_index[of i pr st ses n] by simp
qed simp

text \<open>C12: the echo of a pair's own write does not make its record look edited: unless the watcher reports a change of content
  at a path the pair owns and did not write itself, or the removal of a conflict copy, a drain leaves every record of
  the pair's index as it was, whatever other paths and other pairs the events are about.\<close>

theorem echoes_leave_the_index_alone:
  assumes "drain_watcher ses arrive cancelled answers wi slots = (True, wi', slots')"
    "i < length slots" "slots ! i = SlotReady rd"
    "\<And>n. n \<in> set (waiting wi) \<or> (\<exists>k. n \<in> set (arrive k)) \<Longrightarrow> quiet_for ses i (pr_authored_writes (rd_pair rd)) n"
  shows "\<exists>rd'. slots' ! i = SlotReady rd' \<and> pr_db (rd_pair rd') = pr_db (rd_pair rd)"
proof -
  obtain ns where ns: "waiting wi @ concat (map arrive [0..<length ns]) = ns @ waiting wi'"
    "slots' = settle_lost_events answers (snd (routed ses ns (slots, lost_new))) (fst (routed ses ns (slots, lost_new)))"
    using drained[OF assms(1)] by blast
  have "list_all (quiet_for ses i (pr_authored_writes (rd_pair rd))) (ns @ waiting wi')"
    using assms(4) unfolding ns(1)[symmetric] by (auto simp: list_all_iff)
  then have quiet: "list_all (quiet_for ses i (pr_authored_writes (rd_pair rd))) ns" by simp
  define st where "st = routed ses ns (slots, lost_new)"
  have "same_index i (rd_pair rd) st"
    unfolding st_def by (rule routed_index[OF _ _ quiet]) (simp_all add: same_index_def assms(2,3))
  then obtain rd1 where rd1: "fst st ! i = SlotReady rd1" "pr_db (rd_pair rd1) = pr_db (rd_pair rd)"
    by (auto simp: same_index_def)
  have "i < length (fst st)" using routed_keeps[of "(slots, lost_new)" ses ns] assms(2) by (simp add: all_keep_def st_def)
  then obtain rd2 where rd2: "settle_lost_events answers (snd st) (fst st) ! i = SlotReady rd2"
    "rd_pair rd2 = (if le_cause (snd st) = None then rd_pair rd1 else (rd_pair rd1)\<lparr>pr_force_local_rescan := True\<rparr>)"
    using settled_pair[OF _ rd1(1)] by blast
  then have "pr_db (rd_pair rd2) = pr_db (rd_pair rd)" using rd1(2) by simp
  then show ?thesis using rd2(1) ns(2) by (simp add: st_def)
qed

section \<open>Witnesses\<close>

text \<open>One pair; a file appears while its index is locked, so the path cannot be marked.\<close>

definition nx_ready :: ready_pair where
  "nx_ready = \<lparr>rd_pair = rx_pair\<lparr>pr_authored_writes := {[Normal ''b'']}\<rparr>, rd_db_identity = None, rd_comparable = False,
     rd_known_root = Unrecorded, rd_carried = CarriedAbsent, rd_items_known = 0, rd_unjudged = None, rd_watch = Unregistered\<rparr>"

definition nx_seen :: "bytes option \<Rightarrow> bytes \<Rightarrow> fs_event" where
  "nx_seen failure name = \<lparr>ev_kind = KindCreate, ev_need_rescan = False,
     ev_paths = [([RootDir, Normal name], \<lparr>lk_is_dir = False, lk_sql_error = failure\<rparr>)]\<rparr>"

definition nx_drained :: "bytes option \<Rightarrow> bytes \<Rightarrow> bool \<times> watch_inputs \<times> pair_slot list" where
  "nx_drained failure name = drain_watcher [rx_settings] (\<lambda>_. []) (\<lambda>_. False) (\<lambda>_. (True, StatNotFound))
     \<lparr>wi_carried = None, wi_queue = [Inr (nx_seen failure name)]\<rparr> [SlotReady nx_ready]"

definition nx_after :: ready_pair where
  "nx_after = (case snd (snd (nx_drained (Some ''locked'') ''a'')) ! 0 of SlotReady rd \<Rightarrow> rd | _ \<Rightarrow> nx_ready)"

definition nx_pass :: "(pass_error + pass_outcome) \<times> unit engine" where
  "nx_pass = reconcile_blocking (rx_outside (Inr rx_page) (Inr ())) rx_settings (rx_engine None (rd_pair nx_after))"

lemma nx_runs:
  "fst (nx_drained (Some ''locked'') ''a'')" "fst (nx_drained None ''b'')"
  "(case snd (snd (nx_drained (Some ''locked'') ''a'')) ! 0 of SlotReady _ \<Rightarrow> True | _ \<Rightarrow> False)"
  "[Normal ''a''] \<notin> pr_pending_changes (rd_pair nx_after)" "fst nx_pass = Inr PassClean"
  "owning_pair [rx_settings] [RootDir, Normal ''a''] = Some 0"
  "allows_relative_file (se_scan_options rx_settings) [Normal ''a'']"
  "\<not> is_conflict_copy (se_naming rx_settings) [RootDir, Normal ''a'']"
  "\<not> is_conflict_copy (se_naming rx_settings) [RootDir, Normal ''b'']"
  by code_simp+

theorem seen_changes_reach_the_next_pass_witness:
  "pr_force_local_rescan (rd_pair nx_after) \<and> ScanningLocal \<in> set (en_phases (snd nx_pass))"
proof -
  have drained: "drain_watcher [rx_settings] (\<lambda>_. []) (\<lambda>_. False) (\<lambda>_. (True, StatNotFound))
      \<lparr>wi_carried = None, wi_queue = [Inr (nx_seen (Some ''locked'') ''a'')]\<rparr> [SlotReady nx_ready] = (True, fst (snd (nx_drained (Some ''locked'') ''a'')),
      snd (snd (nx_drained (Some ''locked'') ''a'')))"
    unfolding nx_drained_def[symmetric] using nx_runs(1) by (simp add: prod_eq_iff)
  have after: "snd (snd (nx_drained (Some ''locked'') ''a'')) ! 0 = SlotReady nx_after"
    using nx_runs(3) by (simp add: nx_after_def split: pair_slot.splits)
  have pass: "nx_pass = (Inr PassClean, snd nx_pass)" using nx_runs(5) by (metis surjective_pairing)
  have concern: "concerns rx_settings KindCreate ([RootDir, Normal ''a''], \<lparr>lk_is_dir = False, lk_sql_error = Some ''locked''\<rparr>) [Normal ''a'']"
    using nx_runs(7,8) by (simp add: concerns_def rx_settings_def)
  show ?thesis
    using seen_changes_reach_the_next_pass[OF drained,
        of 0 nx_ready "Inr (nx_seen (Some ''locked'') ''a'')" "[Normal ''a'']" nx_after "rx_engine None (rd_pair nx_after)"
          "rx_outside (Inr rx_page) (Inr ())" PassClean "snd nx_pass"]
      after pass concern nx_runs(4,6)
    by (simp add: waiting_def nx_seen_def nx_pass_def rx_engine_fields)
qed

theorem echoes_leave_the_index_alone_witness:
  "(case snd (snd (nx_drained None ''b'')) ! 0 of SlotReady rd \<Rightarrow> pr_db (rd_pair rd) = pr_db rx_pair | _ \<Rightarrow> False)"
proof -
  have drained: "drain_watcher [rx_settings] (\<lambda>_. []) (\<lambda>_. False) (\<lambda>_. (True, StatNotFound))
      \<lparr>wi_carried = None, wi_queue = [Inr (nx_seen None ''b'')]\<rparr> [SlotReady nx_ready] = (True, fst (snd (nx_drained None ''b'')), snd (snd (nx_drained None ''b'')))"
    unfolding nx_drained_def[symmetric] using nx_runs(2) by (simp add: prod_eq_iff)
  have quiet: "quiet_for [rx_settings] 0 {[Normal ''b'']} (Inr (nx_seen None ''b''))"
    using nx_runs(9) by (auto simp: quiet_for_def nx_seen_def marks_def concerns_def rx_settings_def)
  have "\<exists>rd'. snd (snd (nx_drained None ''b'')) ! 0 = SlotReady rd' \<and> pr_db (rd_pair rd') = pr_db (rd_pair nx_ready)"
    by (rule echoes_leave_the_index_alone[OF drained, of 0 nx_ready])
      (use quiet in \<open>auto simp: waiting_def nx_ready_def\<close>)
  then show ?thesis by (auto simp: nx_ready_def)
qed

end
