(* ===== verification/Spec2Isabelle.thy ===== *)
theory Spec2Isabelle
  imports Planner_Props Plan_Report Scan_Options Reconstruct Dir_Config Index_Store Delete_Gate Unsyncable Pass_Props
    Run_Loop Cursor_Props Pair_Slot_Props Control_Props Watch_Props
begin

text \<open>
  A model of the Proton Drive sync engine (the Rust crate under \<^verbatim>\<open>src/src/\<close>) and the properties that make it
  correct. The engine keeps a local folder and a folder of Proton Drive the same: a pass walks the local tree,
  learns the remote tree (by listing it, or by replaying the volume's event stream over what it last agreed
  on), compares both with the recorded baseline, plans one action per path, holds the deletions nobody has
  approved, runs the rest and records what it did. A daemon runs the passes of several such pairs from one queue.

  Which theory models which part:

  \<^item> \<^verbatim>\<open>Prelude\<close>: what the others share: the outcomes of fallible calls, association lists for the hash maps of the
    code (\<open>hm_get\<close>, \<open>hm_insert\<close>, ... and the interface they implement), the shared rule collections.
  \<^item> \<^verbatim>\<open>Rust_Path\<close> (\<^verbatim>\<open>lib.rs\<close>, \<^verbatim>\<open>std::path\<close>): a path is its list of components; the guards every boundary applies.
  \<^item> \<^verbatim>\<open>Sync_Types\<close> (\<^verbatim>\<open>sync.rs\<close>, \<^verbatim>\<open>index.rs\<close>, \<^verbatim>\<open>proton.rs\<close>): records, local and remote entities, planned actions, and
    the tokens of the enumerations as interpretations of one interface.
  \<^item> \<^verbatim>\<open>Conflict_Naming\<close>, \<^verbatim>\<open>Planner_Entity\<close>, \<^verbatim>\<open>Planner_Moves\<close>, \<^verbatim>\<open>Planner_Verdicts\<close>, \<^verbatim>\<open>Planner\<close> (\<^verbatim>\<open>sync.rs\<close>): the names of
    conflict copies, the decision for one path, the recognition of renames, the proof that a directory may be
    deleted, and the whole plan. \<^verbatim>\<open>Planner_Props\<close> holds the properties of a plan.
  \<^item> \<^verbatim>\<open>Plan_Report\<close> (\<^verbatim>\<open>sync.rs\<close>): the summary and the token that identifies a reviewed plan.
  \<^item> \<^verbatim>\<open>Scan_Options\<close> (\<^verbatim>\<open>index.rs\<close>): what is never synced, selective sync, the keys of the index, and the walk of the
    local tree.
  \<^item> \<^verbatim>\<open>Reconstruct\<close> (\<^verbatim>\<open>reconstruct.rs\<close>): the replay of an event delta over the baseline.
  \<^item> \<^verbatim>\<open>Dir_Config\<close> (\<^verbatim>\<open>dirconfig.rs\<close>, \<^verbatim>\<open>config.rs\<close>): per-directory approval settings and their inheritance.
  \<^item> \<^verbatim>\<open>Ancestor\<close> (\<^verbatim>\<open>ancestor.rs\<close>): summaries of the agreed version and the comparison with it.
  \<^item> \<^verbatim>\<open>Index_Store\<close> (\<^verbatim>\<open>index.rs\<close>): the tables of the index, with the statements that read and write them.
  \<^item> \<^verbatim>\<open>Display\<close>, \<^verbatim>\<open>Decimal\<close>: cutting a string for display; decimal numbers as text.
  \<^item> \<^verbatim>\<open>Delete_Gate\<close> (\<^verbatim>\<open>daemon.rs\<close>, \<^verbatim>\<open>ipc.rs\<close>, \<^verbatim>\<open>trash.rs\<close>): which deletions a pass holds, and the answers of the user.
  \<^item> \<^verbatim>\<open>Unsyncable\<close> (\<^verbatim>\<open>daemon.rs\<close>): the standing list of what cannot be synced.
  \<^item> \<^verbatim>\<open>Executor_World\<close>, \<^verbatim>\<open>Executor_Actions\<close>, \<^verbatim>\<open>Executor\<close> (\<^verbatim>\<open>daemon.rs\<close>): the calls an action makes, every action, and
    the loop over a plan with its checkpoints, batched downloads and final commit. \<^verbatim>\<open>Executor_Invariant\<close> states
    what a pass preserves as a locale (\<open>pass_invariant\<close>), interpreted once per fact in \<^verbatim>\<open>Executor_Props\<close>;
    \<^verbatim>\<open>Pass_Props\<close> holds the properties of an execution.
  \<^item> \<^verbatim>\<open>Events\<close> (\<^verbatim>\<open>events.rs\<close>), \<^verbatim>\<open>Event_Feed\<close> (\<^verbatim>\<open>daemon.rs\<close>): the requests and pages of the event stream, the delta they
    add up to, and the wait for a stream that does not answer.
  \<^item> \<^verbatim>\<open>Reconcile\<close> (\<^verbatim>\<open>daemon.rs\<close>, \<^verbatim>\<open>PairPass\<close>): the whole pass over all of the above: requests and latches, warm start,
    replay or walk, and what every ending leaves. \<^verbatim>\<open>Reconcile_Props\<close> and \<^verbatim>\<open>Cursor_Props\<close> hold its properties.
  \<^item> \<^verbatim>\<open>Pair_Slot\<close> (\<^verbatim>\<open>daemon.rs\<close>, \<^verbatim>\<open>config.rs\<close>): whether a pair is in service: the examination before a pass, what a demotion
    carries, the retry of an unavailable pair, overlapping pairs. \<^verbatim>\<open>Pair_Slot_Props\<close> holds its properties.
  \<^item> \<^verbatim>\<open>Watch_Events\<close> (\<^verbatim>\<open>daemon.rs\<close>): the drain of the watcher's channel before every job: which pair an event belongs to,
    what it queues there, and what is done when events may be lost. \<^verbatim>\<open>Watch_Props\<close> carries its promise through the
    pass of \<^verbatim>\<open>Reconcile\<close>: a change that was seen is scanned for.
  \<^item> \<^verbatim>\<open>Plan_Slot\<close> (\<^verbatim>\<open>daemon.rs\<close>, \<^verbatim>\<open>ipc.rs\<close>): the plans shown for review, the applies they authorise, the rehearsal.
  \<^item> \<^verbatim>\<open>Pair_Control\<close> (\<^verbatim>\<open>daemon.rs\<close>, \<^verbatim>\<open>ipc.rs\<close>): what the control socket's task and the run loop share of a pair, the
    verbs, the dispatch of a job, and the steps of both tasks in any order (\<open>daemon_step\<close>). A job is its beginning
    and its end; \<^verbatim>\<open>Control_Props\<close> proves that these are what a whole pass of \<^verbatim>\<open>Reconcile\<close> does, and the properties of
    every reachable daemon.
  \<^item> \<^verbatim>\<open>Due_Queue\<close> (\<^verbatim>\<open>due_queue.rs\<close>), \<^verbatim>\<open>Run_Loop\<close> (\<^verbatim>\<open>daemon.rs\<close>): which pair runs next, and the loop that runs it.

  How the code is modelled. Strings and paths are byte lists, machine integers are words of their width, hash
  maps are association lists (so iteration order is a theorem, not an assumption), errors are the left of a sum.
  What is not the engine's own code is an argument: the Proton client, the file system and the clock are functions
  of a world that each call may change (records \<open>outside\<close> and \<open>engine_outside\<close>), so a property holds whatever they
  answer and in whatever order; the TOML and JSON parsers, the glob compiler and the hashes are functions. Loops
  over data are structural recursion. The page limit of the code bounds \<open>fetch_pages\<close>; the run loop, which may
  wait for ever, is a \<open>partial_function (option)\<close>, and that a busy stretch ends is proved.

  What the groups of properties show: that a plan never destroys content the other side does not have, and is
  one action per path whatever order the maps are read in; that an executed pass records exactly the work that
  landed, runs only authorised deletions and moves the event cursor only when everything was done; that the
  replay of the stream, the events of the watcher and the scan of the tree lose nothing, and the cursor never passes a change that was not
  placed; that requests, approvals and pending work survive the passes that cannot serve them; that the queue
  starves nobody; that every client that asked is answered, an apply runs only reviewed rows, and a saved pause
  survives; that the index reads back what was written.

  Not modelled, and why: the statements of the index are taken to succeed, except where the code goes on without
  them (what SQLite does is not the engine's code, and a failed commit rolls the pass back as a whole); progress,
  status, log lines and the pass history (they are shown, no decision reads them); the migrations of old schemas;
  the processes of the \<^verbatim>\<open>proton-drive\<close> client and the keyring session (\<^verbatim>\<open>proton.rs\<close>, \<^verbatim>\<open>session.rs\<close>); the bytes of
  the control socket, the wording of its replies and its two verbs that only read; the configuration file and its editing (\<^verbatim>\<open>config.rs\<close>); the
  programs and the desktop application, which only call the above.
\<close>

end
